(* ===== verification/JS_Prelude.thy ===== *)
theory JS_Prelude
  imports Complex_Main "HOL-Library.Sublist"
begin

text \<open>
  The part of JavaScript the modelled sources use: strings with the methods of
  \<open>String.prototype\<close>, numbers as far as the code compares and floors them, and the
  collections of simplification rules the component theories share.

  A JavaScript string is a HOL \<^typ>\<open>string\<close> whose characters are the code units U+0000 to U+00FF,
  so the model is exact on texts of that range; \<open>length\<close>, indices and slices count code units
  as the source does. Indices are natural numbers; an \<open>indexOf\<close> that answers -1 is \<^term>\<open>None\<close>.
\<close>

named_theorems js_len "lengths of the results of string operations"
named_theorems js_bounds "progress and upper bounds of scanners"

section \<open>Characters\<close>

definition code :: "char \<Rightarrow> nat" where
  "code c = of_char c"

definition LF :: char where "LF = CHR 0x0A"
definition CR :: char where "CR = CHR 0x0D"
definition SPACE :: char where "SPACE = CHR 0x20"
definition SQUOTE :: char where "SQUOTE = CHR 0x27"
definition DQUOTE :: char where "DQUOTE = CHR 0x22"
definition BACKTICK :: char where "BACKTICK = CHR 0x60"
definition BSLASH :: char where "BSLASH = CHR 0x5C"
definition NUL :: char where "NUL = CHR 0x00"

lemmas js_char_defs = LF_def CR_def SPACE_def SQUOTE_def DQUOTE_def BACKTICK_def BSLASH_def NUL_def

definition is_digit :: "char \<Rightarrow> bool" where
  "is_digit c \<longleftrightarrow> 48 \<le> code c \<and> code c \<le> 57"

definition is_upper :: "char \<Rightarrow> bool" where
  "is_upper c \<longleftrightarrow> 65 \<le> code c \<and> code c \<le> 90"

definition is_lower :: "char \<Rightarrow> bool" where
  "is_lower c \<longleftrightarrow> 97 \<le> code c \<and> code c \<le> 122"

definition is_alpha :: "char \<Rightarrow> bool" where
  "is_alpha c \<longleftrightarrow> is_upper c \<or> is_lower c"

text \<open>The class \<open>\w\<close>, that is \<open>[A-Za-z0-9_]\<close>.\<close>

definition is_word :: "char \<Rightarrow> bool" where
  "is_word c \<longleftrightarrow> is_alpha c \<or> is_digit c \<or> code c = 95"

text \<open>The class \<open>\s\<close> up to U+00FF: tab, line feed, vertical tab, form feed, carriage return, space, no-break space.\<close>

definition is_space :: "char \<Rightarrow> bool" where
  "is_space c \<longleftrightarrow> (9 \<le> code c \<and> code c \<le> 13) \<or> code c = 32 \<or> code c = 160"

text \<open>\<open>toLowerCase\<close> on one code unit; the capital letters above ASCII are U+00C0 to U+00DE without U+00D7.\<close>

definition lower :: "char \<Rightarrow> char" where
  "lower c = (if is_upper c \<or> (192 \<le> code c \<and> code c \<le> 222 \<and> code c \<noteq> 215)
              then char_of (code c + 32) else c)"

text \<open>
  \<open>toUpperCase\<close> on one code unit. The sharp s expands to two letters in \<open>toUpperCase\<close> below; U+00B5 and
  U+00FF have capitals outside the modelled range and are left as they are.
\<close>

definition upper :: "char \<Rightarrow> char" where
  "upper c = (if is_lower c \<or> (224 \<le> code c \<and> code c \<le> 254 \<and> code c \<noteq> 247)
              then char_of (code c - 32) else c)"

definition toLowerCase :: "string \<Rightarrow> string" where
  "toLowerCase s = map lower s"

definition toUpperCase :: "string \<Rightarrow> string" where
  "toUpperCase s = concat (map (\<lambda>c. if code c = 223 then ''SS'' else [upper c]) s)"

lemma code_less_256 [simp]: "code c < 256"
  by (simp add: code_def)

lemma char_of_code [simp]: "char_of (code c) = c"
  by (simp add: code_def)

lemma code_char_of: "n < 256 \<Longrightarrow> code (char_of n) = n"
  by (simp add: code_def)

lemma code_inject [simp]: "code c = code d \<longleftrightarrow> c = d"
  by (metis char_of_code)

lemma lower_lower [simp]: "lower (lower c) = lower c"
proof -
  have "code (lower c) = (if is_upper c \<or> (192 \<le> code c \<and> code c \<le> 222 \<and> code c \<noteq> 215)
          then code c + 32 else code c)"
    by (auto simp: lower_def is_upper_def code_char_of)
  then show ?thesis
    by (auto simp: lower_def [of "lower c"] is_upper_def split: if_splits)
qed

lemma toLowerCase_idem [simp]: "toLowerCase (toLowerCase s) = toLowerCase s"
  by (simp add: toLowerCase_def)

lemma length_toLowerCase [js_len, simp]: "length (toLowerCase s) = length s"
  by (simp add: toLowerCase_def)

lemma toLowerCase_append [simp]: "toLowerCase (s @ t) = toLowerCase s @ toLowerCase t"
  by (simp add: toLowerCase_def)

text \<open>
  The same tests on the bits of a code unit, for evaluation: the concrete witnesses run the matcher
  character by character.
\<close>

lemma code_Char: "code (Char b0 b1 b2 b3 b4 b5 b6 b7) =
    of_bool b0 + 2 * of_bool b1 + 4 * of_bool b2 + 8 * of_bool b3 + 16 * of_bool b4
    + 32 * of_bool b5 + 64 * of_bool b6 + 128 * of_bool b7"
  by (simp add: code_def of_char_Char)

lemma is_digit_Char [code]: "is_digit (Char b0 b1 b2 b3 b4 b5 b6 b7) \<longleftrightarrow>
    \<not> b7 \<and> \<not> b6 \<and> b5 \<and> b4 \<and> \<not> (b3 \<and> (b1 \<or> b2))"
  unfolding is_digit_def code_Char
  by (cases b0; cases b1; cases b2; cases b3; cases b4; cases b5; cases b6; cases b7) simp_all

lemma is_upper_Char [code]: "is_upper (Char b0 b1 b2 b3 b4 b5 b6 b7) \<longleftrightarrow>
    \<not> b7 \<and> b6 \<and> \<not> b5 \<and> (b0 \<or> b1 \<or> b2 \<or> b3 \<or> b4) \<and> \<not> (b4 \<and> b3 \<and> (b2 \<or> (b1 \<and> b0)))"
  unfolding is_upper_def code_Char
  by (cases b0; cases b1; cases b2; cases b3; cases b4; cases b5; cases b6; cases b7) simp_all

lemma is_lower_Char [code]: "is_lower (Char b0 b1 b2 b3 b4 b5 b6 b7) \<longleftrightarrow>
    \<not> b7 \<and> b6 \<and> b5 \<and> (b0 \<or> b1 \<or> b2 \<or> b3 \<or> b4) \<and> \<not> (b4 \<and> b3 \<and> (b2 \<or> (b1 \<and> b0)))"
  unfolding is_lower_def code_Char
  by (cases b0; cases b1; cases b2; cases b3; cases b4; cases b5; cases b6; cases b7) simp_all

lemma is_space_Char [code]: "is_space (Char b0 b1 b2 b3 b4 b5 b6 b7) \<longleftrightarrow>
    \<not> b6 \<and> \<not> b4 \<and>
    (if b5 then \<not> b0 \<and> \<not> b1 \<and> \<not> b2 \<and> \<not> b3
     else \<not> b7 \<and> b3 \<and> (b0 \<or> b1 \<or> b2) \<and> \<not> (b2 \<and> b1))"
  unfolding is_space_def code_Char
  by (cases b0; cases b1; cases b2; cases b3; cases b4; cases b5; cases b6; cases b7) simp_all

lemma is_word_Char [code]: "is_word (Char b0 b1 b2 b3 b4 b5 b6 b7) \<longleftrightarrow>
    is_upper (Char b0 b1 b2 b3 b4 b5 b6 b7) \<or> is_lower (Char b0 b1 b2 b3 b4 b5 b6 b7) \<or>
    is_digit (Char b0 b1 b2 b3 b4 b5 b6 b7) \<or>
    (b0 \<and> b1 \<and> b2 \<and> b3 \<and> b4 \<and> \<not> b5 \<and> b6 \<and> \<not> b7)"
  unfolding is_word_def is_alpha_def code_Char
  by (cases b0; cases b1; cases b2; cases b3; cases b4; cases b5; cases b6; cases b7) simp_all

lemma lower_Char [code]: "lower (Char b0 b1 b2 b3 b4 b5 b6 b7) =
    (if \<not> b6 \<or> b5 then Char b0 b1 b2 b3 b4 b5 b6 b7
     else if b7 then (if b4 \<and> b2 \<and> b1 \<and> b0 then Char b0 b1 b2 b3 b4 b5 b6 b7
                      else Char b0 b1 b2 b3 b4 True b6 b7)
     else if is_upper (Char b0 b1 b2 b3 b4 b5 b6 b7) then Char b0 b1 b2 b3 b4 True b6 b7
     else Char b0 b1 b2 b3 b4 b5 b6 b7)"
  unfolding lower_def is_upper_def code_Char
  by (cases b0; cases b1; cases b2; cases b3; cases b4; cases b5; cases b6; cases b7)
     (simp_all add: char_of_def bit_iff_odd)

section \<open>String methods\<close>

text \<open>\<open>s[i]\<close>: \<^term>\<open>None\<close> is \<open>undefined\<close>.\<close>

definition char_at :: "string \<Rightarrow> nat \<Rightarrow> char option" where
  "char_at s i = (if i < length s then Some (s ! i) else None)"

text \<open>\<open>s.slice(a, b)\<close> and \<open>s.slice(a)\<close> for indices that are not negative; both clamp.\<close>

definition slice :: "string \<Rightarrow> nat \<Rightarrow> nat \<Rightarrow> string" where
  "slice s a b = take (b - a) (drop a s)"

definition slice_from :: "string \<Rightarrow> nat \<Rightarrow> string" where
  "slice_from s a = drop a s"

definition starts_with :: "string \<Rightarrow> string \<Rightarrow> bool" where
  "starts_with s p \<longleftrightarrow> take (length p) s = p"

definition ends_with :: "string \<Rightarrow> string \<Rightarrow> bool" where
  "ends_with s p \<longleftrightarrow> length p \<le> length s \<and> drop (length s - length p) s = p"

text \<open>\<open>s.indexOf(p, k)\<close>: the first index from \<open>k\<close> on at which \<open>p\<close> stands.\<close>

definition index_of :: "string \<Rightarrow> string \<Rightarrow> nat \<Rightarrow> nat option" where
  "index_of s p k = List.find (\<lambda>i. starts_with (drop i s) p) [k..<Suc (length s)]"

text \<open>\<open>s.lastIndexOf(p, k)\<close> for \<open>k\<close> at least 0: the last index up to \<open>k\<close> at which \<open>p\<close> stands.\<close>

definition last_index_upto :: "string \<Rightarrow> string \<Rightarrow> nat \<Rightarrow> nat option" where
  "last_index_upto s p k =
     List.find (\<lambda>i. starts_with (drop i s) p) (rev [0..<Suc (min k (length s))])"

definition last_index_of :: "string \<Rightarrow> string \<Rightarrow> nat option" where
  "last_index_of s p = last_index_upto s p (length s)"

definition str_includes :: "string \<Rightarrow> string \<Rightarrow> bool" where
  "str_includes s p \<longleftrightarrow> index_of s p 0 \<noteq> None"

definition trim_start :: "string \<Rightarrow> string" where
  "trim_start s = dropWhile is_space s"

definition trim_end :: "string \<Rightarrow> string" where
  "trim_end s = rev (dropWhile is_space (rev s))"

definition trim :: "string \<Rightarrow> string" where
  "trim s = trim_end (trim_start s)"

text \<open>\<open>xs.join(sep)\<close> and \<open>s.split(c)\<close> for a one-character separator.\<close>

fun join :: "string \<Rightarrow> string list \<Rightarrow> string" where
  "join sep [] = []"
| "join sep [x] = x"
| "join sep (x # y # ys) = x @ sep @ join sep (y # ys)"

fun split_on :: "char \<Rightarrow> string \<Rightarrow> string list" where
  "split_on c [] = [[]]"
| "split_on c (x # xs) =
     (if x = c then [] # split_on c xs
      else (case split_on c xs of [] \<Rightarrow> [[x]] | y # ys \<Rightarrow> (x # y) # ys))"

lemma char_at_None_iff [simp]: "char_at s i = None \<longleftrightarrow> length s \<le> i"
  by (auto simp: char_at_def)

lemma char_at_SomeD: "char_at s i = Some c \<Longrightarrow> i < length s \<and> s ! i = c"
  by (auto simp: char_at_def split: if_splits)

lemma length_slice [js_len]: "length (slice s a b) = min (b - a) (length s - a)"
  by (simp add: slice_def)

lemma slice_split: "a \<le> b \<Longrightarrow> take a s @ slice s a b @ drop b s = s"
  unfolding slice_def
  by (metis append_take_drop_id drop_drop le_add_diff_inverse2)

lemma starts_with_prefix: "starts_with s p \<longleftrightarrow> prefix p s"
  by (metis append_eq_conv_conj prefix_def starts_with_def)

lemma ends_with_suffix: "ends_with s p \<longleftrightarrow> suffix p s"
proof
  assume "ends_with s p"
  then show "suffix p s"
    by (metis ends_with_def suffix_drop)
next
  assume "suffix p s"
  then show "ends_with s p"
    by (auto simp: ends_with_def suffix_def)
qed

lemma find_SomeD: "List.find P xs = Some x \<Longrightarrow> x \<in> set xs \<and> P x"
  by (auto simp: find_Some_iff)

lemma index_of_SomeD:
  assumes "index_of s p k = Some i"
  shows "k \<le> i" "i + length p \<le> length s" "take (length p) (drop i s) = p"
proof -
  from find_SomeD [OF assms [unfolded index_of_def]]
  have i: "k \<le> i" "i \<le> length s" and p: "take (length p) (drop i s) = p"
    by (auto simp: starts_with_def)
  from p have "length (take (length p) (drop i s)) = length p" by simp
  with i show "i + length p \<le> length s" by simp
  show "k \<le> i" by (rule i)
  show "take (length p) (drop i s) = p" by (rule p)
qed

lemma index_of_None_iff:
  "index_of s p k = None \<longleftrightarrow> (\<forall>i. k \<le> i \<and> i \<le> length s \<longrightarrow> \<not> prefix p (drop i s))"
  by (auto simp: index_of_def find_None_iff starts_with_prefix)

lemma length_trim_end [js_len]: "length (trim_end s) \<le> length s"
  by (metis length_dropWhile_le length_rev trim_end_def)

lemma length_trim_le [js_len]: "length (trim s) \<le> length s"
  unfolding trim_def trim_start_def
  by (rule order_trans [OF length_trim_end length_dropWhile_le])

lemma trim_end_prefix: "prefix (trim_end s) s"
  by (metis append_Nil2 prefix_def rev_append rev_rev_ident takeWhile_dropWhile_id trim_end_def)

lemma split_on_nonempty [simp]: "split_on c s \<noteq> []"
  by (induction s) (auto split: list.splits)

lemma join_split_on: "join [c] (split_on c s) = s"
proof (induction s)
  case Nil
  show ?case by simp
next
  case (Cons x xs)
  obtain y ys where ys: "split_on c xs = y # ys"
    using split_on_nonempty by (metis neq_Nil_conv)
  with Cons.IH show ?case
    by (cases ys) auto
qed

section \<open>Lists and options\<close>

text \<open>The first of two results that is present, and insertion into a \<open>Set\<close>, which keeps insertion order.\<close>

definition first_of :: "'a option \<Rightarrow> 'a option \<Rightarrow> 'a option" where
  "first_of a b = (case a of None \<Rightarrow> b | Some x \<Rightarrow> Some x)"

lemma first_of_None [simp]: "first_of a b = None \<longleftrightarrow> a = None \<and> b = None"
  by (simp add: first_of_def split: option.splits)

lemma first_of_None_left [simp]: "first_of None b = b"
  by (simp add: first_of_def)

definition add_new :: "'a \<Rightarrow> 'a list \<Rightarrow> 'a list" where
  "add_new x xs = (if x \<in> set xs then xs else xs @ [x])"

lemma set_add_new [simp]: "set (add_new x xs) = insert x (set xs)"
  by (auto simp: add_new_def)

lemma distinct_add_new [simp]: "distinct xs \<Longrightarrow> distinct (add_new x xs)"
  by (simp add: add_new_def)

section \<open>Numbers\<close>

text \<open>
  A JavaScript number as far as the code looks at it: the special values, or a finite value. Every
  finite double is a rational number, so floors and comparisons are exact.
\<close>

datatype jsnum = NaN | PosInf | NegInf | Fin rat

fun jsnum_ge :: "jsnum \<Rightarrow> rat \<Rightarrow> bool" where
  "jsnum_ge NaN q = False"
| "jsnum_ge PosInf q = True"
| "jsnum_ge NegInf q = False"
| "jsnum_ge (Fin x) q = (q \<le> x)"

fun jsnum_gt :: "jsnum \<Rightarrow> rat \<Rightarrow> bool" where
  "jsnum_gt NaN q = False"
| "jsnum_gt PosInf q = True"
| "jsnum_gt NegInf q = False"
| "jsnum_gt (Fin x) q = (q < x)"

fun isFinite :: "jsnum \<Rightarrow> bool" where
  "isFinite (Fin x) = True"
| "isFinite _ = False"

text \<open>
  \<open>Number(digits)\<close> on a string of ASCII digits. The double rounds beyond \<open>2 ^ 53\<close>; comparing it with a
  smaller bound, which is all the code does, gives the same answer as the exact value.
\<close>

fun digits_val :: "nat \<Rightarrow> string \<Rightarrow> nat" where
  "digits_val acc [] = acc"
| "digits_val acc (c # cs) = digits_val (10 * acc + (code c - 48)) cs"

definition number_of_digits :: "string \<Rightarrow> nat" where
  "number_of_digits s = digits_val 0 s"

text \<open>\<open>String(n)\<close> for a natural number below \<open>10 ^ 21\<close>, from where on JavaScript writes an exponent.\<close>

fun show_nat :: "nat \<Rightarrow> string" where
  "show_nat n = (if n < 10 then [char_of (48 + n)] else show_nat (n div 10) @ [char_of (48 + n mod 10)])"

declare show_nat.simps [simp del]

lemma digits_val_append: "digits_val acc (s @ t) = digits_val (digits_val acc s) t"
  by (induction s arbitrary: acc) auto

lemma code_digit: "n < 10 \<Longrightarrow> code (char_of (48 + n)) = 48 + n"
  by (simp add: code_char_of)

lemma number_show_nat [simp]: "number_of_digits (show_nat n) = n"
proof (induction n rule: show_nat.induct)
  case (1 n)
  show ?case
  proof (cases "n < 10")
    case True
    then show ?thesis
      by (subst show_nat.simps) (simp add: number_of_digits_def code_digit)
  next
    case False
    with 1 have IH: "digits_val 0 (show_nat (n div 10)) = n div 10"
      by (simp add: number_of_digits_def)
    have "code (char_of (48 + n mod 10)) = 48 + n mod 10"
      by (rule code_digit) simp
    with False IH show ?thesis
      by (subst show_nat.simps) (simp add: number_of_digits_def digits_val_append)
  qed
qed

lemma show_nat_digits: "list_all is_digit (show_nat n)"
proof (induction n rule: show_nat.induct)
  case (1 n)
  show ?case
  proof (cases "n < 10")
    case True
    then show ?thesis
      by (subst show_nat.simps) (simp add: is_digit_def code_digit)
  next
    case False
    have "n mod 10 < 10" by simp
    then have "is_digit (char_of (48 + n mod 10))"
      by (simp add: is_digit_def code_digit)
    with False 1 show ?thesis
      by (subst show_nat.simps) simp
  qed
qed

lemma show_nat_nonempty [simp]: "show_nat n \<noteq> []"
  by (subst show_nat.simps) simp

lemma show_nat_inject: "show_nat m = show_nat n \<Longrightarrow> m = n"
  by (metis number_show_nat)

fun jsnum_lt :: "jsnum \<Rightarrow> rat \<Rightarrow> bool" where
  "jsnum_lt NaN q = False"
| "jsnum_lt PosInf q = False"
| "jsnum_lt NegInf q = True"
| "jsnum_lt (Fin x) q = (x < q)"

text \<open>
  \<open>String(x)\<close> of a number, by the standard's algorithm: the fewest decimal digits that read back as the
  same double. \<open>nearest_double\<close> rounds a positive rational to the nearest double, ties to even. A whole
  number up to \<open>2 ^ 53\<close> in absolute value is a double and is written with its own digits.
\<close>

function flog_int :: "int \<Rightarrow> int \<Rightarrow> nat" where
  "flog_int b n = (if b < 2 \<or> n < b then 0 else Suc (flog_int b (n div b)))"
  by pat_completeness auto
termination
  by (relation "measure (\<lambda>(b, n). nat n)") (auto intro: int_div_less_self)

declare flog_int.simps [simp del]

definition flog :: "int \<Rightarrow> rat \<Rightarrow> int" where
  "flog b x =
     (if 1 \<le> x then int (flog_int b \<lfloor>x\<rfloor>)
      else let k = flog_int b \<lfloor>1 / x\<rfloor>
           in - int (if 1 / x \<le> of_int (b ^ k) then k else Suc k))"

definition scale :: "int \<Rightarrow> rat \<Rightarrow> int \<Rightarrow> rat" where
  "scale b x e = (if 0 \<le> e then x * of_int (b ^ nat e) else x / of_int (b ^ nat (- e)))"

definition round_half_even :: "rat \<Rightarrow> int" where
  "round_half_even q =
     (let f = \<lfloor>q\<rfloor>; d = q - of_int f
      in if d < 1 / 2 then f else if 1 / 2 < d then f + 1 else if even f then f else f + 1)"

definition nearest_double :: "rat \<Rightarrow> rat" where
  "nearest_double x =
     (let u = max (flog 2 x - 52) (- 1074) in scale 2 (of_int (round_half_even (scale 2 x (- u)))) u)"

definition shortest_digits :: "rat \<Rightarrow> int \<times> int" where
  "shortest_digits x =
     (let n = flog 10 x + 1;
          cand = (\<lambda>k. round_half_even (scale 10 x (int k - n)));
          good = (\<lambda>k. nearest_double (scale 10 (of_int (cand k)) (n - int k)) = x)
      in (case List.find good [1..<18] of
            None \<Rightarrow> (cand 17, n)
          | Some k \<Rightarrow>
              (if cand k = 10 ^ k then (10 ^ (k - 1), n + 1) else (cand k, n))))"

fun int_digits :: "int \<Rightarrow> string" where
  "int_digits z =
     (if z < 10 then [char_of (48 + nat z)] else int_digits (z div 10) @ [char_of (48 + nat (z mod 10))])"

declare int_digits.simps [simp del]

definition show_int :: "int \<Rightarrow> string" where
  "show_int z = (if z < 0 then ''-'' @ int_digits (- z) else int_digits z)"

definition show_pos :: "rat \<Rightarrow> string" where
  "show_pos x =
     (let (s, n) = shortest_digits x; ds = int_digits s; k = int (length ds)
      in if k \<le> n \<and> n \<le> 21 then ds @ replicate (nat (n - k)) (CHR ''0'')
         else if 0 < n \<and> n \<le> 21 then take (nat n) ds @ ''.'' @ drop (nat n) ds
         else if - 6 < n \<and> n \<le> 0 then ''0.'' @ replicate (nat (- n)) (CHR ''0'') @ ds
         else (if k = 1 then ds else take 1 ds @ ''.'' @ drop 1 ds) @ ''e''
              @ (if 0 \<le> n - 1 then ''+'' else []) @ show_int (n - 1))"

fun show_jsnum :: "jsnum \<Rightarrow> string" where
  "show_jsnum NaN = ''NaN''"
| "show_jsnum PosInf = ''Infinity''"
| "show_jsnum NegInf = ''-Infinity''"
| "show_jsnum (Fin x) =
     (if x = of_int \<lfloor>x\<rfloor> \<and> \<bar>x\<bar> \<le> 2 ^ 53 then show_int \<lfloor>x\<rfloor>
      else if x < 0 then ''-'' @ show_pos (- x) else show_pos x)"

lemma find_rev_upt:
  "k < n \<Longrightarrow> P k \<Longrightarrow> (\<And>i. k < i \<Longrightarrow> i < n \<Longrightarrow> \<not> P i) \<Longrightarrow> List.find P (rev [0..<n]) = Some k"
proof (induction n)
  case (Suc n)
  then show ?case by (cases "k = n") auto
qed simp

lemma last_index_ofI:
  assumes "starts_with (drop k s) p" "k \<le> length s" "\<And>i. k < i \<Longrightarrow> i \<le> length s \<Longrightarrow> \<not> starts_with (drop i s) p"
  shows "last_index_of s p = Some k"
  unfolding last_index_of_def last_index_upto_def
  by (rule find_rev_upt) (use assms in auto)

lemma digit_not_space: "is_digit c \<Longrightarrow> \<not> is_space c"
  by (auto simp: is_digit_def is_space_def)

lemma slice_append: assumes "a \<le> b" "b \<le> c" shows "slice s a c = slice s a b @ slice s b c"
proof -
  have "c - a = (b - a) + (c - b)" "b = a + (b - a)" using assms by simp_all
  then show ?thesis unfolding slice_def by (metis add.commute drop_drop take_add)
qed

text \<open>The double a rational number is read as, from its decimal form.\<close>

definition read_double :: "rat \<Rightarrow> jsnum" where
  "read_double x =
     (if x = of_int \<lfloor>x\<rfloor> \<and> \<bar>x\<bar> \<le> 2 ^ 53 then Fin x
      else let d = nearest_double \<bar>x\<bar>
           in if 2 ^ 1024 \<le> d then (if x < 0 then NegInf else PosInf) else Fin (if x < 0 then - d else d))"

text \<open>The integer reading and writing of digits agrees with the one on natural numbers.\<close>

fun digits_int :: "int \<Rightarrow> string \<Rightarrow> int" where
  "digits_int acc [] = acc"
| "digits_int acc (c # cs) = digits_int (10 * acc + int (code c - 48)) cs"

lemma digits_int_val: "digits_int (int n) s = int (digits_val n s)"
proof (induction s arbitrary: n)
  case (Cons c cs)
  have "10 * int n + int (code c - 48) = int (10 * n + (code c - 48))" by simp
  with Cons show ?case by (simp only: digits_int.simps digits_val.simps)
qed simp

lemma int_digits_nat: "int_digits (int n) = show_nat n"
proof (induction n rule: less_induct)
  case (less n)
  show ?case
  proof (cases "n < 10")
    case False
    have "int n div 10 = int (n div 10)" "nat (int n mod 10) = n mod 10"
      by (simp_all add: zdiv_int nat_mod_distrib)
    with False less [of "n div 10"] show ?thesis
      by (simp add: int_digits.simps [of "int n"] show_nat.simps [of n])
  qed (simp add: int_digits.simps [of "int n"] show_nat.simps [of n])
qed

lemma show_jsnum_nat: "n \<le> 2 ^ 53 \<Longrightarrow> show_jsnum (Fin (of_nat n)) = show_nat n"
proof -
  assume "n \<le> 2 ^ 53"
  then have "rat_of_nat n \<le> rat_of_nat (2 ^ 53)" by (rule of_nat_mono)
  then show ?thesis
    using int_digits_nat [of n] by (simp add: show_int_def)
qed

section \<open>Trimming and slices\<close>

lemma lower_bracket [simp]:
  "lower c = CHR ''<'' \<longleftrightarrow> c = CHR ''<''" "lower c = CHR ''>'' \<longleftrightarrow> c = CHR ''>''" "lower c = CHR ''/'' \<longleftrightarrow> c = CHR ''/''"
  by (cases c; simp add: lower_Char is_upper_Char; blast)+

lemma lower_of_bracket [simp]: "lower CHR ''<'' = CHR ''<''" "lower CHR ''>'' = CHR ''>''" "lower CHR ''/'' = CHR ''/''"
  by (simp_all only: lower_bracket)

lemma slice_append_left: "j \<le> length s \<Longrightarrow> slice (s @ t) i j = slice s i j"
  by (cases "i \<le> j") (auto simp: slice_def)

lemma slice_append_right: "slice (s @ t) (length s + i) (length s + j) = slice t i j"
  by (simp add: slice_def)

lemma lower_nth:
  assumes "toLowerCase (slice s i j) = w" "j = i + length w" "j \<le> length s" "k < length w"
  shows "lower (s ! (i + k)) = w ! k"
proof -
  have "w ! k = toLowerCase (slice s i j) ! k" using assms(1) by simp
  then show ?thesis using assms(2-) by (simp add: toLowerCase_def slice_def)
qed

lemma trim_Nil_iff: "trim s = [] \<longleftrightarrow> list_all is_space s"
proof
  assume "trim s = []"
  then have "\<forall>c \<in> set (trim_start s). is_space c" by (simp add: trim_def trim_end_def)
  then have "trim_start s = []"
    using hd_dropWhile [of is_space s] list.set_sel(1) [of "trim_start s"] unfolding trim_start_def by blast
  then show "list_all is_space s" unfolding trim_start_def dropWhile_eq_Nil_conv by (simp add: list_all_iff)
next
  assume "list_all is_space s"
  then have "dropWhile is_space s = []" by (simp add: list_all_iff)
  then show "trim s = []" by (simp only: trim_def trim_start_def trim_end_def) simp
qed

lemma blank_front:
  assumes "trim (take i s) = []" "i < length s" "\<not> is_space (s ! i)"
  shows "takeWhile is_space s = take i s" "trim_start s = drop i s" "trim s \<noteq> []"
proof -
  show tw: "takeWhile is_space s = take i s"
    using assms by (intro takeWhile_eq_take_P_nth) (auto simp: trim_Nil_iff list_all_length)
  show "trim_start s = drop i s"
    using tw assms(2) by (simp add: trim_start_def dropWhile_eq_drop)
  show "trim s \<noteq> []" using assms(2,3) by (auto simp: trim_Nil_iff list_all_length)
qed

lemma trim_end_split: "\<exists>b. s = trim_end s @ b \<and> list_all is_space b"
  by (rule exI [of _ "rev (takeWhile is_space (rev s))"])
    (metis list.pred_set rev_append rev_swap set_rev set_takeWhileD takeWhile_dropWhile_id trim_end_def)

lemma trim_start_split: "\<exists>a. s = a @ trim_start s \<and> list_all is_space a"
  by (metis list.pred_set set_takeWhileD takeWhile_dropWhile_id trim_start_def)

lemma trim_sublist: "sublist (trim s) s"
  by (metis sublist_appendI trim_def trim_end_split trim_start_split)

lemma trim_end_keeps: "i < length s \<Longrightarrow> \<not> is_space (s ! i) \<Longrightarrow> i < length (trim_end s)"
  using trim_end_split [of s] by (metis list_all_length nth_append_right length_append nat_add_left_cancel_less le_add_diff_inverse not_less)

lemma trim_trim [simp]: "trim (trim s) = trim s"
proof (cases "trim s")
  case (Cons a as)
  have "trim_start s \<noteq> []" using Cons by (auto simp: trim_def trim_end_def)
  then have "\<not> is_space (hd (trim_start s))" by (simp add: trim_start_def hd_dropWhile)
  moreover have "hd (trim s) = hd (trim_start s)"
    using trim_end_split [of "trim_start s"] Cons by (metis hd_append2 list.discI trim_def)
  ultimately have "trim_start (trim s) = trim s" using Cons by (simp add: trim_start_def)
  moreover have "\<not> is_space (last (trim s))"
    using Cons hd_dropWhile [of is_space "rev (trim_start s)"] by (auto simp: trim_def trim_end_def last_rev hd_rev)
  then have "dropWhile is_space (rev (trim s)) = rev (trim s)"
    using Cons by (cases "rev (trim s)") (auto simp: hd_rev [symmetric])
  then have "trim_end (trim s) = trim s" by (simp add: trim_end_def)
  ultimately show ?thesis by (metis trim_def)
next
  case Nil
  moreover have "trim [] = []" by code_simp
  ultimately show ?thesis by metis
qed

lemma slice_sublist: "sublist (slice s a b) s"
  unfolding slice_def by (meson sublist_drop sublist_order.order_trans sublist_take)

lemma is_word_lower [simp]: "is_word (lower c) \<longleftrightarrow> is_word c"
  by (cases c) (simp add: lower_Char is_word_Char is_upper_Char is_lower_Char is_digit_Char; blast)

lemma word_not_space: "is_word c \<Longrightarrow> \<not> is_space c"
  by (auto simp: is_word_def is_space_def is_alpha_def is_upper_def is_lower_def is_digit_def)

lemma trim_avoids: "c \<notin> set s \<Longrightarrow> c \<notin> set (trim s)"
  using set_mono_sublist [OF trim_sublist] by auto

lemma hd_split_on_avoids: "c \<notin> set (hd (split_on c s))"
  by (induction c s rule: split_on.induct) (auto split: list.splits if_splits)

end
