(* ===== verification/JS_Regex.thy ===== *)
theory JS_Regex
  imports JS_Prelude
begin

text \<open>
  The regular expressions of ECMAScript, as far as the modelled sources use them. The standard
  describes a backtracking matcher; here \<open>matches r s i c\<close> is the list of all ways \<open>r\<close> can match in \<open>s\<close>
  from index \<open>i\<close> with captures \<open>c\<close>, in the order in which the backtracking matcher tries them, so
  the match it reports is the first of the list. On top of it stand the methods the sources call:
  \<open>exec\<close>, \<open>test\<close>, \<open>matchAll\<close> and \<open>replace\<close>. The flags are part of the expression: \<open>i\<close> by
  \<open>ci\<close>, \<open>m\<close> by \<open>MBol\<close> and \<open>MEol\<close>, \<open>s\<close> by the class of the dot, \<open>g\<close> by the method.
\<close>

section \<open>Expressions and the matcher\<close>

type_synonym caps = "(nat \<times> nat \<times> nat) list"

datatype regex =
    Chr "char \<Rightarrow> bool"
  | Eps
  | Cat regex regex
  | Or regex regex
  | Star regex
  | LazyStar regex
  | Opt regex
  | Group nat regex
  | Backref nat
  | Bol | Eol | MBol | MEol
  | WordB
  | Look regex
  | NegLook regex
  | NegBehind regex

primrec groups :: "regex \<Rightarrow> nat list" where
  "groups (Chr p) = []"
| "groups Eps = []"
| "groups (Cat r1 r2) = groups r1 @ groups r2"
| "groups (Or r1 r2) = groups r1 @ groups r2"
| "groups (Star r) = groups r"
| "groups (LazyStar r) = groups r"
| "groups (Opt r) = groups r"
| "groups (Group n r) = n # groups r"
| "groups (Backref n) = []"
| "groups Bol = []"
| "groups Eol = []"
| "groups MBol = []"
| "groups MEol = []"
| "groups WordB = []"
| "groups (Look r) = groups r"
| "groups (NegLook r) = groups r"
| "groups (NegBehind r) = groups r"

text \<open>A quantifier resets the captures of its body before every iteration.\<close>

definition reset :: "nat list \<Rightarrow> caps \<Rightarrow> caps" where
  "reset gs c = filter (\<lambda>(n, _). n \<notin> set gs) c"

text \<open>
  The greedy and the lazy loop over a body \<open>m\<close> on a text of length \<open>n\<close>. An iteration that consumes nothing
  is a failure, as in the standard, so the index grows with every iteration.
\<close>

function star :: "(nat \<Rightarrow> caps \<Rightarrow> (nat \<times> caps) list) \<Rightarrow> nat list \<Rightarrow> nat \<Rightarrow> nat \<Rightarrow> caps \<Rightarrow> (nat \<times> caps) list" where
  "star m gs n i c =
     concat (map (\<lambda>(j, c'). if i < j \<and> j \<le> n then star m gs n j c' else []) (m i (reset gs c)))
     @ [(i, c)]"
  by pat_completeness auto
termination
  by (relation "measure (\<lambda>(m, gs, n, i, c). n - i)") auto

function lazy_star :: "(nat \<Rightarrow> caps \<Rightarrow> (nat \<times> caps) list) \<Rightarrow> nat list \<Rightarrow> nat \<Rightarrow> nat \<Rightarrow> caps \<Rightarrow> (nat \<times> caps) list" where
  "lazy_star m gs n i c =
     (i, c) #
     concat (map (\<lambda>(j, c'). if i < j \<and> j \<le> n then lazy_star m gs n j c' else []) (m i (reset gs c)))"
  by pat_completeness auto
termination
  by (relation "measure (\<lambda>(m, gs, n, i, c). n - i)") auto

declare star.simps [simp del] lazy_star.simps [simp del]

definition word_at :: "string \<Rightarrow> nat \<Rightarrow> bool" where
  "word_at s i \<longleftrightarrow> i < length s \<and> is_word (s ! i)"

definition at_boundary :: "string \<Rightarrow> nat \<Rightarrow> bool" where
  "at_boundary s i \<longleftrightarrow> (0 < i \<and> word_at s (i - 1)) \<noteq> word_at s i"

definition line_end :: "char \<Rightarrow> bool" where
  "line_end c \<longleftrightarrow> c = LF \<or> c = CR"

text \<open>A back reference compares without case: the one expression that has one carries the flag \<open>i\<close>.\<close>

primrec matches :: "regex \<Rightarrow> string \<Rightarrow> nat \<Rightarrow> caps \<Rightarrow> (nat \<times> caps) list" where
  "matches (Chr p) s i c = (if i < length s \<and> p (s ! i) then [(Suc i, c)] else [])"
| "matches Eps s i c = [(i, c)]"
| "matches (Cat r1 r2) s i c = concat (map (\<lambda>(j, c'). matches r2 s j c') (matches r1 s i c))"
| "matches (Or r1 r2) s i c = matches r1 s i c @ matches r2 s i c"
| "matches (Star r) s i c = star (matches r s) (groups r) (length s) i c"
| "matches (LazyStar r) s i c = lazy_star (matches r s) (groups r) (length s) i c"
| "matches (Opt r) s i c =
     filter (\<lambda>(j, _). j \<noteq> i) (matches r s i (reset (groups r) c)) @ [(i, c)]"
| "matches (Group n r) s i c = map (\<lambda>(j, c'). (j, (n, i, j) # c')) (matches r s i c)"
| "matches (Backref n) s i c =
     (case map_of c n of
        None \<Rightarrow> [(i, c)]
      | Some (a, b) \<Rightarrow>
          (if i + (b - a) \<le> length s
              \<and> toLowerCase (slice s i (i + (b - a))) = toLowerCase (slice s a b)
           then [(i + (b - a), c)] else []))"
| "matches Bol s i c = (if i = 0 then [(i, c)] else [])"
| "matches Eol s i c = (if i = length s then [(i, c)] else [])"
| "matches MBol s i c = (if i = 0 \<or> (i \<le> length s \<and> line_end (s ! (i - 1))) then [(i, c)] else [])"
| "matches MEol s i c = (if i = length s \<or> (i < length s \<and> line_end (s ! i)) then [(i, c)] else [])"
| "matches WordB s i c = (if at_boundary s i then [(i, c)] else [])"
| "matches (Look r) s i c = (case matches r s i c of [] \<Rightarrow> [] | (_, c') # _ \<Rightarrow> [(i, c')])"
| "matches (NegLook r) s i c = (if matches r s i c = [] then [(i, c)] else [])"
| "matches (NegBehind r) s i c =
     (if list_ex (\<lambda>j. list_ex (\<lambda>(k, _). k = i) (matches r s j [])) [0..<Suc i] then [] else [(i, c)])"

section \<open>Bounds of a match and its captures\<close>

definition caps_ok :: "nat \<Rightarrow> caps \<Rightarrow> bool" where
  "caps_ok n c \<longleftrightarrow> (\<forall>(k, a, b) \<in> set c. a \<le> b \<and> b \<le> n)"

lemma caps_ok_Nil [simp]: "caps_ok n []"
  by (simp add: caps_ok_def)

lemma caps_ok_Cons [simp]: "caps_ok n ((k, a, b) # c) \<longleftrightarrow> a \<le> b \<and> b \<le> n \<and> caps_ok n c"
  by (auto simp: caps_ok_def)

lemma caps_ok_reset [simp, intro]: "caps_ok n c \<Longrightarrow> caps_ok n (reset gs c)"
  by (auto simp: caps_ok_def reset_def)

lemma caps_ok_lookup: "caps_ok n c \<Longrightarrow> map_of c k = Some (a, b) \<Longrightarrow> a \<le> b \<and> b \<le> n"
  by (auto simp: caps_ok_def dest!: map_of_SomeD)

text \<open>What every branch of the matcher keeps: it moves forward, inside the text, with sound captures.\<close>

definition forward :: "nat \<Rightarrow> nat \<Rightarrow> (nat \<times> caps) list \<Rightarrow> bool" where
  "forward n i ms \<longleftrightarrow> (\<forall>(j, c) \<in> set ms. i \<le> j \<and> j \<le> n \<and> caps_ok n c)"

lemma forwardD: "forward n i ms \<Longrightarrow> (j, c) \<in> set ms \<Longrightarrow> i \<le> j \<and> j \<le> n \<and> caps_ok n c"
  by (auto simp: forward_def)

lemma forward_Nil [simp]: "forward n i []"
  by (simp add: forward_def)

lemma forward_Cons [simp]:
  "forward n i ((j, c) # ms) \<longleftrightarrow> i \<le> j \<and> j \<le> n \<and> caps_ok n c \<and> forward n i ms"
  by (auto simp: forward_def)

lemma forward_append [simp]: "forward n i (ms @ ms') \<longleftrightarrow> forward n i ms \<and> forward n i ms'"
  by (auto simp: forward_def)

lemma forward_mono: "forward n j ms \<Longrightarrow> i \<le> j \<Longrightarrow> forward n i ms"
  by (force simp: forward_def)

lemma forward_concat_map:
  assumes "\<And>j c. (j, c) \<in> set ms \<Longrightarrow> forward n i (f (j, c))"
  shows "forward n i (concat (map f ms))"
  using assms by (induction ms) auto

lemma forward_iterations:
  assumes body: "forward n i (m i (reset gs c))"
    and rest: "\<And>j c'. i < j \<Longrightarrow> j \<le> n \<Longrightarrow> caps_ok n c' \<Longrightarrow> forward n j (f j c')"
  shows "forward n i (concat (map (\<lambda>(j, c'). if i < j \<and> j \<le> n then f j c' else []) (m i (reset gs c))))"
  using forwardD [OF body] by (auto intro!: forward_concat_map forward_mono [OF rest])

lemma forward_star:
  assumes body: "\<And>i c. i \<le> n \<Longrightarrow> caps_ok n c \<Longrightarrow> forward n i (m i c)"
  shows "i \<le> n \<Longrightarrow> caps_ok n c \<Longrightarrow> forward n i (star m gs n i c)"
proof (induction "n - i" arbitrary: i c rule: less_induct)
  case less
  then show ?case
    by (subst star.simps) (auto intro!: forward_iterations body)
qed

lemma forward_lazy_star:
  assumes body: "\<And>i c. i \<le> n \<Longrightarrow> caps_ok n c \<Longrightarrow> forward n i (m i c)"
  shows "i \<le> n \<Longrightarrow> caps_ok n c \<Longrightarrow> forward n i (lazy_star m gs n i c)"
proof (induction "n - i" arbitrary: i c rule: less_induct)
  case less
  then show ?case
    by (subst lazy_star.simps) (auto intro!: forward_iterations body)
qed

lemma forward_filter: "forward n i ms \<Longrightarrow> forward n i (filter P ms)"
  by (auto simp: forward_def)

lemma forward_group: "forward n i ms \<Longrightarrow> forward n i (map (\<lambda>(j, c'). (j, (k, i, j) # c')) ms)"
  by (force simp: forward_def)

theorem forward_matches: "i \<le> length s \<Longrightarrow> caps_ok (length s) c \<Longrightarrow> forward (length s) i (matches r s i c)"
proof (induction r arbitrary: i c)
  case (Cat r1 r2)
  have "forward (length s) i (matches r2 s j c')" if "(j, c') \<in> set (matches r1 s i c)" for j c'
    using forwardD [OF Cat.IH(1) [OF Cat.prems] that] by (auto intro: forward_mono Cat.IH(2))
  then show ?case by (auto intro!: forward_concat_map)
next
  case (Star r)
  then show ?case by (simp add: forward_star)
next
  case (LazyStar r)
  then show ?case by (simp add: forward_lazy_star)
next
  case (Opt r)
  then show ?case by (simp add: forward_filter)
next
  case (Group n r)
  then show ?case by (simp add: forward_group)
next
  case (Backref n)
  then show ?case by (auto split: option.splits)
next
  case (Look r)
  then have "forward (length s) i (matches r s i c)" by simp
  with Look.prems show ?case by (auto split: list.splits)
qed auto

lemma matches_bounds:
  assumes "(j, c') \<in> set (matches r s i c)" "i \<le> length s" "caps_ok (length s) c"
  shows "i \<le> j" "j \<le> length s" "caps_ok (length s) c'"
  using forwardD [OF forward_matches [OF assms(2,3)] assms(1)] by auto

section \<open>The methods of a regular expression\<close>

record rmatch =
  m_index :: nat
  m_end :: nat
  m_caps :: caps

fun first_from :: "regex \<Rightarrow> string \<Rightarrow> nat list \<Rightarrow> rmatch option" where
  "first_from r s [] = None"
| "first_from r s (i # is) =
     (case matches r s i [] of
        [] \<Rightarrow> first_from r s is
      | (j, c) # _ \<Rightarrow> Some \<lparr>m_index = i, m_end = j, m_caps = c\<rparr>)"

text \<open>\<open>r.exec(s)\<close> with \<open>lastIndex = k\<close>, and \<open>r.test(s)\<close>.\<close>

definition re_exec :: "regex \<Rightarrow> string \<Rightarrow> nat \<Rightarrow> rmatch option" where
  "re_exec r s k = first_from r s [k..<Suc (length s)]"

definition re_test :: "regex \<Rightarrow> string \<Rightarrow> bool" where
  "re_test r s \<longleftrightarrow> re_exec r s 0 \<noteq> None"

text \<open>\<open>m[0]\<close> and \<open>m[n]\<close>; a group that took no part in the match is \<open>undefined\<close>.\<close>

definition m_whole :: "string \<Rightarrow> rmatch \<Rightarrow> string" where
  "m_whole s m = slice s (m_index m) (m_end m)"

definition m_group :: "string \<Rightarrow> rmatch \<Rightarrow> nat \<Rightarrow> string option" where
  "m_group s m n = map_option (\<lambda>(a, b). slice s a b) (map_of (m_caps m) n)"

lemma first_from_Some:
  "first_from r s is = Some m \<Longrightarrow>
     m_index m \<in> set is \<and> (m_end m, m_caps m) \<in> set (matches r s (m_index m) [])"
  by (induction r s "is" rule: first_from.induct) (auto split: list.splits prod.splits)

lemma first_from_None_iff: "first_from r s is = None \<longleftrightarrow> (\<forall>i \<in> set is. matches r s i [] = [])"
  by (induction r s "is" rule: first_from.induct) (auto split: list.splits)

lemma re_exec_Some:
  assumes "re_exec r s k = Some m"
  shows "k \<le> m_index m" "m_index m \<le> m_end m" "m_end m \<le> length s"
    "caps_ok (length s) (m_caps m)" "(m_end m, m_caps m) \<in> set (matches r s (m_index m) [])"
proof -
  from first_from_Some [OF assms [unfolded re_exec_def]]
  have i: "k \<le> m_index m" "m_index m \<le> length s"
    and m: "(m_end m, m_caps m) \<in> set (matches r s (m_index m) [])"
    by auto
  from matches_bounds [OF m i(2)] i m
  show "k \<le> m_index m" "m_index m \<le> m_end m" "m_end m \<le> length s"
    "caps_ok (length s) (m_caps m)" "(m_end m, m_caps m) \<in> set (matches r s (m_index m) [])"
    by auto
qed

lemma re_test_iff: "re_test r s \<longleftrightarrow> (\<exists>i \<le> length s. matches r s i [] \<noteq> [])"
  by (auto simp: re_test_def re_exec_def first_from_None_iff less_Suc_eq_le Bex_def simp del: upt_Suc)

text \<open>\<open>s.matchAll(r)\<close>: the search goes on behind each match, one further behind an empty one.\<close>

definition next_start :: "rmatch \<Rightarrow> nat" where
  "next_start m = (if m_end m = m_index m then Suc (m_end m) else m_end m)"

lemma next_start_gt: "re_exec r s k = Some m \<Longrightarrow> k < next_start m \<and> next_start m \<le> Suc (length s)"
  using re_exec_Some [of r s k m] by (auto simp: next_start_def)

function all_from :: "regex \<Rightarrow> string \<Rightarrow> nat \<Rightarrow> rmatch list" where
  "all_from r s k =
     (case re_exec r s k of None \<Rightarrow> [] | Some m \<Rightarrow> m # all_from r s (next_start m))"
  by pat_completeness auto
termination
  by (relation "measure (\<lambda>(r, s, k). Suc (length s) - k)") (auto dest!: next_start_gt)

declare all_from.simps [simp del]

definition match_all :: "regex \<Rightarrow> string \<Rightarrow> rmatch list" where
  "match_all r s = all_from r s 0"

text \<open>\<open>s.replace(r, f)\<close> with and without the flag \<open>g\<close>; \<open>f\<close> is given the match.\<close>

fun splice :: "string \<Rightarrow> (rmatch \<Rightarrow> string) \<Rightarrow> nat \<Rightarrow> rmatch list \<Rightarrow> string" where
  "splice s f k [] = drop k s"
| "splice s f k (m # ms) = slice s k (m_index m) @ f m @ splice s f (m_end m) ms"

definition replace_all :: "regex \<Rightarrow> string \<Rightarrow> (rmatch \<Rightarrow> string) \<Rightarrow> string" where
  "replace_all r s f = splice s f 0 (match_all r s)"

definition replace_first :: "regex \<Rightarrow> string \<Rightarrow> (rmatch \<Rightarrow> string) \<Rightarrow> string" where
  "replace_first r s f = (case re_exec r s 0 of None \<Rightarrow> s | Some m \<Rightarrow> splice s f 0 [m])"

text \<open>The matches of \<open>matchAll\<close> come in order and do not overlap.\<close>

fun disjoint_from :: "string \<Rightarrow> nat \<Rightarrow> rmatch list \<Rightarrow> bool" where
  "disjoint_from s k [] = True"
| "disjoint_from s k (m # ms) =
     (k \<le> m_index m \<and> m_index m \<le> m_end m \<and> m_end m \<le> length s \<and> disjoint_from s (m_end m) ms)"

lemma disjoint_from_mono: "disjoint_from s k ms \<Longrightarrow> j \<le> k \<Longrightarrow> disjoint_from s j ms"
  by (cases ms) auto

lemma all_from_disjoint: "disjoint_from s k (all_from r s k)"
proof (induction r s k rule: all_from.induct)
  case (1 r s k)
  show ?case
  proof (cases "re_exec r s k")
    case None
    then show ?thesis by (subst all_from.simps) simp
  next
    case (Some m)
    have "disjoint_from s (m_end m) (all_from r s (next_start m))"
      by (rule disjoint_from_mono [OF 1 [OF Some]]) (simp add: next_start_def)
    with re_exec_Some [OF Some] Some show ?thesis
      by (subst all_from.simps) simp
  qed
qed

lemma all_from_matches: "m \<in> set (all_from r s k) \<Longrightarrow> \<exists>k'. re_exec r s k' = Some m"
proof (induction r s k rule: all_from.induct)
  case (1 r s k)
  show ?case
  proof (cases "re_exec r s k")
    case None
    with "1.prems" show ?thesis by (simp add: all_from.simps [of r s k])
  next
    case (Some m')
    with "1.prems" "1.IH" [OF Some] show ?thesis by (auto simp: all_from.simps [of r s k])
  qed
qed

lemma splice_length:
  assumes "\<And>m. m \<in> set ms \<Longrightarrow> length (f m) = m_end m - m_index m"
    and "disjoint_from s k ms" "k \<le> length s"
  shows "length (splice s f k ms) = length s - k"
  using assms
  by (induction s f k ms rule: splice.induct) (auto simp: length_slice)

lemma replace_all_length:
  assumes "\<And>m k. re_exec r s k = Some m \<Longrightarrow> length (f m) = m_end m - m_index m"
  shows "length (replace_all r s f) = length s"
proof -
  have "length (splice s f 0 (match_all r s)) = length s - 0"
  proof (rule splice_length)
    fix m assume "m \<in> set (match_all r s)"
    then show "length (f m) = m_end m - m_index m"
      by (auto simp: match_all_def dest!: all_from_matches intro: assms)
  qed (simp_all add: match_all_def all_from_disjoint)
  then show ?thesis by (simp add: replace_all_def)
qed

section \<open>Abbreviated forms\<close>

definition plus :: "regex \<Rightarrow> regex" where "plus r = Cat r (Star r)"
definition lit :: "char \<Rightarrow> regex" where "lit c = Chr (\<lambda>x. x = c)"
definition ci :: "char \<Rightarrow> regex" where "ci c = Chr (\<lambda>x. lower x = lower c)"
definition lits :: "string \<Rightarrow> regex" where "lits s = foldr (\<lambda>c r. Cat (lit c) r) s Eps"
definition cis :: "string \<Rightarrow> regex" where "cis s = foldr (\<lambda>c r. Cat (ci c) r) s Eps"
definition ws :: regex where "ws = Chr is_space"
definition dig :: regex where "dig = Chr is_digit"
definition anyc :: regex where "anyc = Chr (\<lambda>_. True)"
definition one_of :: "string \<Rightarrow> regex" where "one_of s = Chr (\<lambda>x. x \<in> set s)"
definition none_of :: "string \<Rightarrow> regex" where "none_of s = Chr (\<lambda>x. x \<notin> set s)"
definition cats :: "regex list \<Rightarrow> regex" where "cats rs = foldr Cat rs Eps"

fun ors :: "regex list \<Rightarrow> regex" where
  "ors [] = Eps"
| "ors [r] = r"
| "ors (r # rs) = Or r (ors rs)"

text \<open>The counted repetitions, greedy and lazy.\<close>

fun upto_times :: "nat \<Rightarrow> regex \<Rightarrow> regex" where
  "upto_times 0 r = Eps"
| "upto_times (Suc n) r = Opt (Cat r (upto_times n r))"

fun upto_lazy :: "nat \<Rightarrow> regex \<Rightarrow> regex" where
  "upto_lazy 0 r = Eps"
| "upto_lazy (Suc n) r = Or Eps (Cat r (upto_lazy n r))"

fun exactly :: "nat \<Rightarrow> regex \<Rightarrow> regex" where
  "exactly 0 r = Eps"
| "exactly (Suc n) r = Cat r (exactly n r)"

lemmas regex_defs = plus_def lit_def ci_def lits_def cis_def ws_def dig_def anyc_def one_of_def
  none_of_def cats_def

section \<open>Reading a match back\<close>

text \<open>
  What a result of the matcher says about the text, one rule per constructor, so that a result of a long
  expression is read from left to right. \<open>all_between P s i j\<close>: all characters of \<open>s\<close> from \<open>i\<close> up to \<open>j\<close> satisfy \<open>P\<close>.
\<close>

definition all_between :: "(char \<Rightarrow> bool) \<Rightarrow> string \<Rightarrow> nat \<Rightarrow> nat \<Rightarrow> bool" where
  "all_between P s i j \<longleftrightarrow> i \<le> j \<and> j \<le> length s \<and> (\<forall>k. i \<le> k \<longrightarrow> k < j \<longrightarrow> P (s ! k))"

lemma all_between_slice: "all_between P s i j \<Longrightarrow> list_all P (slice s i j)"
  by (auto simp: all_between_def slice_def list_all_length)

lemma in_Cat: "(j, c') \<in> set (matches (Cat r1 r2) s i c) \<longleftrightarrow>
    (\<exists>k d. (k, d) \<in> set (matches r1 s i c) \<and> (j, c') \<in> set (matches r2 s k d))"
  by auto

lemma in_cats_Cons: "(j, c') \<in> set (matches (cats (r # rs)) s i c) \<longleftrightarrow>
    (\<exists>k d. (k, d) \<in> set (matches r s i c) \<and> (j, c') \<in> set (matches (cats rs) s k d))"
  by (auto simp: cats_def)

lemma in_cats_Nil: "(j, c') \<in> set (matches (cats []) s i c) \<longleftrightarrow> j = i \<and> c' = c"
  by (auto simp: cats_def)

lemma in_Chr: "(j, c') \<in> set (matches (Chr P) s i c) \<longleftrightarrow> i < length s \<and> P (s ! i) \<and> j = Suc i \<and> c' = c"
  by auto

lemma in_Group: "(j, c') \<in> set (matches (Group n r) s i c) \<longleftrightarrow>
    (\<exists>d. (j, d) \<in> set (matches r s i c) \<and> c' = (n, i, j) # d)"
  by auto

lemma in_Opt: "(j, c') \<in> set (matches (Opt r) s i c) \<longleftrightarrow>
    (j, c') \<in> set (matches r s i (reset (groups r) c)) \<and> j \<noteq> i \<or> j = i \<and> c' = c"
  by auto

lemma reset_Nil [simp]: "reset [] c = c"
  by (simp add: reset_def)

lemma in_Star_Chr:
  "i \<le> length s \<Longrightarrow> (j, c') \<in> set (matches (Star (Chr P)) s i c) \<longleftrightarrow> all_between P s i j \<and> c' = c"
proof (induction "length s - i" arbitrary: i rule: less_induct)
  case less
  have "(j, c') \<in> set (matches (Star (Chr P)) s i c) \<longleftrightarrow>
      i < length s \<and> P (s ! i) \<and> (j, c') \<in> set (matches (Star (Chr P)) s (Suc i) c) \<or> j = i \<and> c' = c"
    by (subst matches.simps, subst star.simps) auto
  also have "\<dots> \<longleftrightarrow> i < length s \<and> P (s ! i) \<and> all_between P s (Suc i) j \<and> c' = c \<or> j = i \<and> c' = c"
  proof (cases "i < length s")
    case True
    then show ?thesis using less.hyps [of "Suc i"] by (simp del: matches.simps)
  qed simp
  also have "\<dots> \<longleftrightarrow> all_between P s i j \<and> c' = c"
    using less.prems by (auto simp: all_between_def) (metis Suc_leI le_neq_implies_less)+
  finally show ?case .
qed

lemma in_plus_Chr:
  "(j, c') \<in> set (matches (plus (Chr P)) s i c) \<longleftrightarrow> i < j \<and> all_between P s i j \<and> c' = c"
proof -
  have "(j, c') \<in> set (matches (plus (Chr P)) s i c) \<longleftrightarrow> i < length s \<and> P (s ! i) \<and> all_between P s (Suc i) j \<and> c' = c"
    unfolding plus_def in_Cat in_Chr using in_Star_Chr [of "Suc i" s j c' P c] by (auto simp del: matches.simps)
  also have "\<dots> \<longleftrightarrow> i < j \<and> all_between P s i j \<and> c' = c"
    by (auto simp: all_between_def) (metis Suc_leI le_neq_implies_less)
  finally show ?thesis .
qed

text \<open>An expression without groups leaves the captures alone.\<close>

lemma star_captures:
  assumes "\<And>i c j c'. (j, c') \<in> set (m i c) \<Longrightarrow> c' = c"
  shows "(j, c') \<in> set (star m [] n i c) \<Longrightarrow> c' = c" "(j, c') \<in> set (lazy_star m [] n i c) \<Longrightarrow> c' = c"
proof -
  show "(j, c') \<in> set (star m [] n i c) \<Longrightarrow> c' = c"
  proof (induction "n - i" arbitrary: i c rule: less_induct)
    case less
    from less.prems consider "c' = c" | k d where "(k, d) \<in> set (m i c)" "i < k" "k \<le> n" "(j, c') \<in> set (star m [] n k d)"
      by (subst (asm) star.simps) (auto split: if_splits)
    then show ?case using less.hyps assms by cases (auto, metis diff_less_mono2 less_le_trans)
  qed
  show "(j, c') \<in> set (lazy_star m [] n i c) \<Longrightarrow> c' = c"
  proof (induction "n - i" arbitrary: i c rule: less_induct)
    case less
    from less.prems consider "c' = c" | k d where "(k, d) \<in> set (m i c)" "i < k" "k \<le> n" "(j, c') \<in> set (lazy_star m [] n k d)"
      by (subst (asm) lazy_star.simps) (auto split: if_splits)
    then show ?case using less.hyps assms by cases (auto, metis diff_less_mono2 less_le_trans)
  qed
qed

lemma no_groups_captures: "groups r = [] \<Longrightarrow> (j, c') \<in> set (matches r s i c) \<Longrightarrow> c' = c"
proof (induction r arbitrary: i c j c')
  case (Cat r1 r2)
  then show ?case by (fastforce simp: in_Cat simp del: matches.simps)
next
  case (Star r)
  then show ?case using star_captures(1) [of "matches r s"] by simp
next
  case (LazyStar r)
  then show ?case using star_captures(2) [of "matches r s"] by simp
next
  case (Look r)
  from Look.prems(2) obtain j' ms where "matches r s i c = (j', c') # ms"
    by (cases "matches r s i c") (auto split: prod.splits)
  with Look show ?case by (metis groups.simps(15) list.set_intros(1))
qed (fastforce split: option.splits if_splits)+

lemma groups_cis [simp]: "groups (cis w) = []"
  by (induction w) (simp_all add: cis_def ci_def)

lemma in_cis:
  "i \<le> length s \<Longrightarrow> (j, c') \<in> set (matches (cis w) s i c) \<longleftrightarrow>
     j = i + length w \<and> j \<le> length s \<and> toLowerCase (slice s i j) = toLowerCase w \<and> c' = c"
proof (induction w arbitrary: i)
  case Nil
  then show ?case by (auto simp: cis_def slice_def)
next
  case (Cons a w)
  have "matches (cis (a # w)) s i c = matches (Cat (ci a) (cis w)) s i c"
    by (simp add: cis_def)
  then have "(j, c') \<in> set (matches (cis (a # w)) s i c) \<longleftrightarrow>
      i < length s \<and> lower (s ! i) = lower a \<and> (j, c') \<in> set (matches (cis w) s (Suc i) c)"
    by (auto simp: ci_def)
  also have "\<dots> \<longleftrightarrow> i < length s \<and> lower (s ! i) = lower a \<and> j = Suc i + length w \<and> j \<le> length s
      \<and> toLowerCase (slice s (Suc i) j) = toLowerCase w \<and> c' = c"
    using Cons.IH [of "Suc i"] by auto
  also have "\<dots> \<longleftrightarrow> j = i + length (a # w) \<and> j \<le> length s \<and> toLowerCase (slice s i j) = toLowerCase (a # w) \<and> c' = c"
  proof -
    have "slice s i j = s ! i # slice s (Suc i) j" if "i < j" "j \<le> length s"
      using that by (simp add: slice_def Cons_nth_drop_Suc [symmetric] take_Cons')
    then show ?thesis by (auto simp: toLowerCase_def)
  qed
  finally show ?case .
qed

lemma in_WordB: "(j, c') \<in> set (matches WordB s i c) \<longleftrightarrow> at_boundary s i \<and> j = i \<and> c' = c"
  by auto

lemma in_Star_ws: "i \<le> length s \<Longrightarrow> (j, c') \<in> set (matches (Star ws) s i c) \<longleftrightarrow> all_between is_space s i j \<and> c' = c"
  by (simp add: ws_def in_Star_Chr del: matches.simps)

lemma in_plus_ws: "(j, c') \<in> set (matches (plus ws) s i c) \<longleftrightarrow> i < j \<and> all_between is_space s i j \<and> c' = c"
  by (simp add: ws_def in_plus_Chr)

lemma in_plus_dig: "(j, c') \<in> set (matches (plus dig) s i c) \<longleftrightarrow> i < j \<and> all_between is_digit s i j \<and> c' = c"
  by (simp add: dig_def in_plus_Chr)

lemma in_lit: "(j, c') \<in> set (matches (lit a) s i c) \<longleftrightarrow> i < length s \<and> s ! i = a \<and> j = Suc i \<and> c' = c"
  by (auto simp: lit_def)

lemmas read_match = in_cats_Cons in_cats_Nil in_Group in_WordB in_plus_ws in_plus_dig in_lit

lemma all_between_le: "all_between P s i j \<Longrightarrow> i \<le> j \<and> j \<le> length s"
  by (simp add: all_between_def)

section \<open>The first match, alternatives of words, and what a replacement may contain\<close>

lemma first_from_least:
  "first_from r s [k..<n] = Some m \<Longrightarrow> k \<le> i \<Longrightarrow> i < m_index m \<Longrightarrow> matches r s i [] = []"
proof (induction "n - k" arbitrary: k)
  case (Suc d)
  then have "k < n" by simp
  with Suc.prems show ?case
    using Suc.hyps(1) [of "Suc k"] Suc.hyps(2)
    by (cases "k = i") (auto simp: upt_conv_Cons split: list.splits prod.splits)
qed simp

lemma re_exec_least: "re_exec r s k = Some m \<Longrightarrow> k \<le> i \<Longrightarrow> i < m_index m \<Longrightarrow> matches r s i [] = []"
  unfolding re_exec_def by (rule first_from_least)

lemma in_ors_cis:
  assumes "i \<le> length s" "ws' \<noteq> []"
  shows "(j, c') \<in> set (matches (ors (map cis ws')) s i c) \<longleftrightarrow>
    (\<exists>w \<in> set ws'. j = i + length w \<and> j \<le> length s \<and> toLowerCase (slice s i j) = toLowerCase w \<and> c' = c)"
  using assms(2)
proof (induction ws' rule: list_nonempty_induct)
  case (single w)
  then show ?case using in_cis [OF assms(1)] by simp
next
  case (cons w ws')
  have "matches (ors (map cis (w # ws'))) s i c = matches (cis w) s i c @ matches (ors (map cis ws')) s i c"
    using cons.hyps by (cases ws') simp_all
  with cons.IH in_cis [OF assms(1)] show ?case by auto
qed

lemma set_splice: "set (splice s f k ms) \<subseteq> set s \<union> (\<Union>m \<in> set ms. set (f m))"
  by (induction s f k ms rule: splice.induct) (auto simp: slice_def dest: in_set_takeD in_set_dropD)

lemma set_replace_all: "set (replace_all r s f) \<subseteq> set s \<union> (\<Union>m. set (f m))"
  unfolding replace_all_def using set_splice [of s f 0 "match_all r s"] by auto

lemma replace_all_avoids: "c \<notin> set s \<Longrightarrow> (\<And>m. c \<notin> set (f m)) \<Longrightarrow> c \<notin> set (replace_all r s f)"
  using set_replace_all [of r s f] by auto

section \<open>What captures and replacements satisfy\<close>

text \<open>A property of every text that a group can capture holds of the captures of every match.\<close>

primrec groups_sat :: "(nat \<Rightarrow> string \<Rightarrow> bool) \<Rightarrow> string \<Rightarrow> regex \<Rightarrow> bool" where
  "groups_sat P s (Chr p) = True"
| "groups_sat P s Eps = True"
| "groups_sat P s (Cat r1 r2) = (groups_sat P s r1 \<and> groups_sat P s r2)"
| "groups_sat P s (Or r1 r2) = (groups_sat P s r1 \<and> groups_sat P s r2)"
| "groups_sat P s (Star r) = groups_sat P s r"
| "groups_sat P s (LazyStar r) = groups_sat P s r"
| "groups_sat P s (Opt r) = groups_sat P s r"
| "groups_sat P s (Group n r) = ((\<forall>i j c c'. (j, c') \<in> set (matches r s i c) \<longrightarrow> P n (slice s i j)) \<and> groups_sat P s r)"
| "groups_sat P s (Backref n) = True"
| "groups_sat P s Bol = True"
| "groups_sat P s Eol = True"
| "groups_sat P s MBol = True"
| "groups_sat P s MEol = True"
| "groups_sat P s WordB = True"
| "groups_sat P s (Look r) = groups_sat P s r"
| "groups_sat P s (NegLook r) = groups_sat P s r"
| "groups_sat P s (NegBehind r) = groups_sat P s r"

definition caps_sat :: "(nat \<Rightarrow> string \<Rightarrow> bool) \<Rightarrow> string \<Rightarrow> caps \<Rightarrow> bool" where
  "caps_sat P s c \<longleftrightarrow> (\<forall>(n, a, b) \<in> set c. P n (slice s a b))"

lemma caps_sat_reset: "caps_sat P s c \<Longrightarrow> caps_sat P s (reset gs c)"
  by (auto simp: caps_sat_def reset_def)

lemma star_sat:
  assumes body: "\<And>i c j c'. caps_sat P s c \<Longrightarrow> (j, c') \<in> set (m i c) \<Longrightarrow> caps_sat P s c'"
  shows "caps_sat P s c \<Longrightarrow> (j, c') \<in> set (star m gs n i c) \<Longrightarrow> caps_sat P s c'"
    "caps_sat P s c \<Longrightarrow> (j, c') \<in> set (lazy_star m gs n i c) \<Longrightarrow> caps_sat P s c'"
proof -
  show "caps_sat P s c \<Longrightarrow> (j, c') \<in> set (star m gs n i c) \<Longrightarrow> caps_sat P s c'"
  proof (induction "n - i" arbitrary: i c rule: less_induct)
    case less
    from less.prems(2) consider "c' = c" | k d where "(k, d) \<in> set (m i (reset gs c))" "i < k" "k \<le> n" "(j, c') \<in> set (star m gs n k d)"
      by (subst (asm) star.simps) (auto split: if_splits)
    then show ?case
    proof cases
      case 2
      from body [OF caps_sat_reset [OF less.prems(1)] 2(1)] show ?thesis using less.hyps [OF _ _ 2(4)] 2(2,3) by simp
    qed (use less.prems in simp)
  qed
  show "caps_sat P s c \<Longrightarrow> (j, c') \<in> set (lazy_star m gs n i c) \<Longrightarrow> caps_sat P s c'"
  proof (induction "n - i" arbitrary: i c rule: less_induct)
    case less
    from less.prems(2) consider "c' = c" | k d where "(k, d) \<in> set (m i (reset gs c))" "i < k" "k \<le> n" "(j, c') \<in> set (lazy_star m gs n k d)"
      by (subst (asm) lazy_star.simps) (auto split: if_splits)
    then show ?case
    proof cases
      case 2
      from body [OF caps_sat_reset [OF less.prems(1)] 2(1)] show ?thesis using less.hyps [OF _ _ 2(4)] 2(2,3) by simp
    qed (use less.prems in simp)
  qed
qed

lemma matches_sat:
  "groups_sat P s r \<Longrightarrow> caps_sat P s c \<Longrightarrow> (j, c') \<in> set (matches r s i c) \<Longrightarrow> caps_sat P s c'"
proof (induction r arbitrary: i c j c')
  case (Star r)
  have "caps_sat P s c'" if "caps_sat P s c" "(j, c') \<in> set (matches r s i c)" for i c j c'
    using Star.IH Star.prems(1) that by simp
  from star_sat(1) [of P s "matches r s", OF this Star.prems(2)] Star.prems(3) show ?case by simp
next
  case (LazyStar r)
  have "caps_sat P s c'" if "caps_sat P s c" "(j, c') \<in> set (matches r s i c)" for i c j c'
    using LazyStar.IH LazyStar.prems(1) that by simp
  from star_sat(2) [of P s "matches r s", OF this LazyStar.prems(2)] LazyStar.prems(3) show ?case by simp
next
  case (Cat r1 r2)
  from Cat.prems(3) obtain k d where "(k, d) \<in> set (matches r1 s i c)" "(j, c') \<in> set (matches r2 s k d)"
    unfolding in_Cat by blast
  with Cat.IH(1) [of c k d i] Cat.IH(2) [of d j c' k] Cat.prems show ?case by simp
next
  case (Opt r)
  from Opt.prems(3) consider "c' = c" | "(j, c') \<in> set (matches r s i (reset (groups r) c))" unfolding in_Opt by blast
  then show ?case using Opt.IH [of "reset (groups r) c" j c' i] caps_sat_reset [OF Opt.prems(2)] Opt.prems by cases simp_all
next
  case (Group n r)
  then show ?case by (fastforce simp: caps_sat_def in_Group simp del: matches.simps)
next
  case (Look r)
  from Look.prems(3) obtain j' ms where "matches r s i c = (j', c') # ms"
    by (cases "matches r s i c") (auto split: prod.splits)
  with Look show ?case by (metis groups_sat.simps(15) list.set_intros(1))
next
  case (Or r1 r2)
  from Or.prems(3) consider "(j, c') \<in> set (matches r1 s i c)" | "(j, c') \<in> set (matches r2 s i c)" by auto
  then show ?case using Or.IH(1) [of c j c' i] Or.IH(2) [of c j c' i] Or.prems by cases simp_all
qed (auto split: option.splits if_splits prod.splits)

lemma exec_group_sat:
  assumes "groups_sat P s r" "re_exec r s k = Some m" "m_group s m n = Some t"
  shows "P n t"
proof -
  have "caps_sat P s (m_caps m)" using matches_sat [OF assms(1) _ re_exec_Some(5) [OF assms(2)]] by (simp add: caps_sat_def)
  with assms(3) show ?thesis by (auto simp: m_group_def caps_sat_def dest!: map_of_SomeD)
qed

text \<open>What holds of every replaced match, and of texts left alone, holds of the whole replacement.\<close>

lemma splice_rel:
  assumes refl: "\<And>u. R u u" and app: "\<And>u v u' v'. R u u' \<Longrightarrow> R v v' \<Longrightarrow> R (u @ v) (u' @ v')"
  shows "disjoint_from s k ms \<Longrightarrow> (\<And>m. m \<in> set ms \<Longrightarrow> R (m_whole s m) (f m)) \<Longrightarrow> R (drop k s) (splice s f k ms)"
proof (induction ms arbitrary: k)
  case (Cons m ms)
  from Cons.prems(1) have b: "k \<le> m_index m" "m_index m \<le> m_end m" "m_end m \<le> length s" "disjoint_from s (m_end m) ms" by auto
  have "drop k s = slice s k (m_index m) @ m_whole s m @ drop (m_end m) s"
    using b slice_split [of k "m_index m" s] slice_split [of "m_index m" "m_end m" s]
    by (simp add: m_whole_def slice_def) (metis append_take_drop_id drop_drop le_add_diff_inverse2)
  then show ?case using app [OF refl app [OF Cons.prems(2) [of m] Cons.IH [OF b(4)]]] Cons.prems(2) by simp
qed (simp add: refl)

lemma replace_all_rel:
  assumes refl: "\<And>u. R u u" and app: "\<And>u v u' v'. R u u' \<Longrightarrow> R v v' \<Longrightarrow> R (u @ v) (u' @ v')"
    and each: "\<And>m k. re_exec r s k = Some m \<Longrightarrow> R (m_whole s m) (f m)"
  shows "R s (replace_all r s f)"
  unfolding replace_all_def match_all_def
  using splice_rel [of R, OF refl app all_from_disjoint [of s 0 r]] each all_from_matches by force

end
