(* ===== verification/Strip.thy ===== *)
theory Strip
  imports JS_Regex
begin

text \<open>
  The lexical pre-processing of \<open>packages/core/src/strip.ts\<close>: the scanner that hides comments, string
  literals and quoted identifiers (in a compact and in a length-preserving form), the test for a
  second statement, the removal of trailing noise and of Oracle's row-limit tail. The loops of the
  source over an index are recursive functions over the same index; \<open>engine\<close> is optional as in the
  source (\<^term>\<open>None\<close> is \<open>undefined\<close>).
\<close>

text \<open>A chain of conditionals that yields \<^term>\<open>Some\<close> is taken apart branch by branch.\<close>

lemma if_Some_elims:
  "(if b then Some x else y) = Some z \<Longrightarrow> (b \<Longrightarrow> x = z \<Longrightarrow> P) \<Longrightarrow> (y = Some z \<Longrightarrow> P) \<Longrightarrow> P"
  "None = Some z \<Longrightarrow> P"
  by (auto split: if_splits)

section \<open>The inner loops\<close>

text \<open>\<open>while (i < n && sql[i] !== LF && sql[i] !== CR) i++\<close>\<close>

function skip_line :: "string \<Rightarrow> nat \<Rightarrow> nat" where
  "skip_line sql i =
     (if i < length sql \<and> sql ! i \<noteq> LF \<and> sql ! i \<noteq> CR then skip_line sql (Suc i) else i)"
  by pat_completeness auto
termination
  by (relation "measure (\<lambda>(sql, i). length sql - i)") auto

text \<open>The body of a block comment, with nesting.\<close>

function skip_block :: "string \<Rightarrow> nat \<Rightarrow> nat \<Rightarrow> nat" where
  "skip_block sql depth i =
     (if i < length sql \<and> 0 < depth then
        if sql ! i = CHR ''/'' \<and> char_at sql (i + 1) = Some (CHR ''*'') then skip_block sql (depth + 1) (i + 2)
        else if sql ! i = CHR ''*'' \<and> char_at sql (i + 1) = Some (CHR ''/'') then skip_block sql (depth - 1) (i + 2)
        else skip_block sql depth (i + 1)
      else i)"
  by pat_completeness auto
termination
  by (relation "measure (\<lambda>(sql, depth, i). length sql - i)") auto

text \<open>
  The body of a literal closed by \<open>q\<close>, where a doubled \<open>q\<close> stands for itself and \<open>esc\<close> says whether the
  character at an index escapes the next one. An escape at the very end may step past it.
\<close>

function skip_lit :: "(string \<Rightarrow> nat \<Rightarrow> bool) \<Rightarrow> char \<Rightarrow> string \<Rightarrow> nat \<Rightarrow> nat" where
  "skip_lit esc q sql i =
     (if i < length sql then
        if esc sql i then skip_lit esc q sql (i + 2)
        else if sql ! i = q \<and> char_at sql (i + 1) = Some q then skip_lit esc q sql (i + 2)
        else if sql ! i = q then i + 1
        else skip_lit esc q sql (i + 1)
      else i)"
  by pat_completeness auto
termination
  by (relation "measure (\<lambda>(esc, q, sql, i). length sql - i)") auto

text \<open>\<open>while (i < n && sql[i] !== q) i++\<close>\<close>

function skip_until :: "char \<Rightarrow> string \<Rightarrow> nat \<Rightarrow> nat" where
  "skip_until q sql i = (if i < length sql \<and> sql ! i \<noteq> q then skip_until q sql (i + 1) else i)"
  by pat_completeness auto
termination
  by (relation "measure (\<lambda>(q, sql, i). length sql - i)") auto

text \<open>\<open>while (j < n && isTagChar(sql[j])) j++\<close>; \<open>isTagChar\<close> is \<open>[A-Za-z0-9_]\<close>.\<close>

function skip_tag :: "string \<Rightarrow> nat \<Rightarrow> nat" where
  "skip_tag sql j = (if j < length sql \<and> is_word (sql ! j) then skip_tag sql (j + 1) else j)"
  by pat_completeness auto
termination
  by (relation "measure (\<lambda>(sql, j). length sql - j)") auto

declare skip_line.simps [simp del] skip_block.simps [simp del] skip_lit.simps [simp del]
  skip_until.simps [simp del] skip_tag.simps [simp del]

text \<open>A dollar-quoted string that opens at \<open>i\<close>: the index behind it, if the tag is complete.\<close>

definition dollar_end :: "string \<Rightarrow> nat \<Rightarrow> nat option" where
  "dollar_end sql i =
     (let j = skip_tag sql (i + 1) in
      if char_at sql j = Some (CHR ''$'') then
        let tag = slice sql i (j + 1) in
        (case index_of sql tag (j + 1) of
           None \<Rightarrow> Some (length sql)
         | Some close \<Rightarrow> Some (close + length tag))
      else None)"

text \<open>\<open>!/[A-Za-z0-9_$]/.test(sql[i - 1] ?? '')\<close>: the character before \<open>i\<close> does not continue a token.\<close>

definition starts_token :: "string \<Rightarrow> nat \<Rightarrow> bool" where
  "starts_token sql i \<longleftrightarrow> i = 0 \<or> \<not> (is_word (sql ! (i - 1)) \<or> sql ! (i - 1) = CHR ''$'')"

section \<open>Progress of the loops\<close>

lemma skip_line_ge [js_bounds]: "i \<le> skip_line sql i"
proof (induction sql i rule: skip_line.induct)
  case (1 sql i)
  then show ?case by (subst skip_line.simps) (auto dest: Suc_leD)
qed

lemma skip_line_gt: "i < length sql \<Longrightarrow> sql ! i \<noteq> LF \<Longrightarrow> sql ! i \<noteq> CR \<Longrightarrow> i < skip_line sql i"
  by (subst skip_line.simps) (simp add: skip_line_ge Suc_le_lessD)

lemma skip_block_ge [js_bounds]: "i \<le> skip_block sql d i"
proof (induction sql d i rule: skip_block.induct)
  case (1 sql d i)
  then show ?case by (subst skip_block.simps) auto
qed

lemma skip_lit_ge [js_bounds]: "i \<le> skip_lit esc q sql i"
proof (induction esc q sql i rule: skip_lit.induct)
  case (1 esc q sql i)
  then show ?case by (subst skip_lit.simps) (cases "esc sql i"; auto)
qed

lemma skip_until_ge [js_bounds]: "i \<le> skip_until q sql i"
proof (induction q sql i rule: skip_until.induct)
  case (1 q sql i)
  then show ?case by (subst skip_until.simps) auto
qed

lemma skip_tag_ge [js_bounds]: "j \<le> skip_tag sql j"
proof (induction sql j rule: skip_tag.induct)
  case (1 sql j)
  then show ?case by (subst skip_tag.simps) auto
qed

lemma dollar_end_gt [js_bounds]: "dollar_end sql i = Some e \<Longrightarrow> i < e"
  using skip_tag_ge [of "i + 1" sql]
  by (auto simp: dollar_end_def Let_def split: option.splits if_splits
      dest!: index_of_SomeD(1) char_at_SomeD)

section \<open>The scanner\<close>

definition hashIsComment :: "string option \<Rightarrow> bool" where
  "hashIsComment engine \<longleftrightarrow> engine = None \<or> engine = Some ''mysql''"

definition backslashEscapes :: "string option \<Rightarrow> bool" where
  "backslashEscapes engine \<longleftrightarrow> engine = Some ''mysql''"

definition hasEStrings :: "string option \<Rightarrow> bool" where
  "hasEStrings engine \<longleftrightarrow> engine = None \<or> engine = Some ''postgres'' \<or> engine = Some ''duckdb''"

definition esc_always :: "string \<Rightarrow> nat \<Rightarrow> bool" where
  "esc_always sql i \<longleftrightarrow> sql ! i = BSLASH"

definition esc_if :: "bool \<Rightarrow> string \<Rightarrow> nat \<Rightarrow> bool" where
  "esc_if b sql i \<longleftrightarrow> b \<and> sql ! i = BSLASH \<and> i + 1 < length sql"

definition esc_never :: "string \<Rightarrow> nat \<Rightarrow> bool" where
  "esc_never sql i \<longleftrightarrow> False"

text \<open>
  One round of the main loop of \<open>scan\<close>: if a span to hide starts at \<open>i\<close>, the index behind it and what
  strip mode emits for it; \<^term>\<open>None\<close> for an ordinary character. The branches are in source order.
\<close>

definition hidden_span :: "string option \<Rightarrow> string \<Rightarrow> nat \<Rightarrow> (nat \<times> string) option" where
  "hidden_span engine sql i =
     (let n = length sql; c = sql ! i; nxt = char_at sql (i + 1) in
      if c = CHR ''-'' \<and> nxt = Some (CHR ''-'') then Some (skip_line sql i, [SPACE])
      else if c = CHR ''#'' \<and> hashIsComment engine then Some (skip_line sql i, [SPACE])
      else if c = CHR ''/'' \<and> nxt = Some (CHR ''*'') then Some (skip_block sql 1 (i + 2), [SPACE])
      else if c = CHR ''$'' \<and> dollar_end sql i \<noteq> None then Some (the (dollar_end sql i), [SPACE])
      else if hasEStrings engine \<and> (c = CHR ''e'' \<or> c = CHR ''E'') \<and> nxt = Some SQUOTE \<and> starts_token sql i
        then Some (skip_lit esc_always SQUOTE sql (i + 2), [SPACE])
      else if c = SQUOTE
        then Some (skip_lit (esc_if (backslashEscapes engine)) SQUOTE sql (i + 1), [SPACE])
      else if c = DQUOTE then Some (skip_lit esc_never DQUOTE sql (i + 1), [SPACE, DQUOTE, SPACE])
      else if c = BACKTICK then Some (skip_until BACKTICK sql (i + 1) + 1, [SPACE, BACKTICK, SPACE])
      else if c = CHR ''['' \<and> index_of sql '']'' (i + 1) \<noteq> None
        then Some (the (index_of sql '']'' (i + 1)) + 1, [SPACE])
      else None)"

text \<open>Every branch moves forward; the two span functions share these facts.\<close>

lemma comment_gt: "i < length sql \<Longrightarrow> sql ! i = CHR ''-'' \<or> sql ! i = CHR ''#'' \<Longrightarrow> i < skip_line sql i"
  by (rule skip_line_gt) (auto simp: LF_def CR_def)

lemma block_gt: "i < skip_block sql d (Suc (Suc i))"
  using skip_block_ge [of "Suc (Suc i)" sql d] by simp

lemma lit_gt: "i < skip_lit esc q sql (Suc i)" "i < skip_lit esc q sql (Suc (Suc i))"
  using skip_lit_ge [of "Suc i" esc q sql] skip_lit_ge [of "Suc (Suc i)" esc q sql] by simp_all

lemma until_gt: "i < Suc (skip_until q sql (Suc i))"
  using skip_until_ge [of "Suc i" q sql] by simp

lemma bracket_gt: "index_of sql p (Suc i) = Some e \<Longrightarrow> i < Suc e"
  using index_of_SomeD(1) [of sql p "Suc i"] by auto

lemmas span_gt = comment_gt block_gt lit_gt until_gt dollar_end_gt bracket_gt

lemma hidden_span_gt [js_bounds]:
  "hidden_span engine sql i = Some (e, t) \<Longrightarrow> i < length sql \<Longrightarrow> i < e"
  unfolding hidden_span_def Let_def
  by (elim if_Some_elims) (auto intro: span_gt)

function scan :: "string option \<Rightarrow> bool \<Rightarrow> string \<Rightarrow> nat \<Rightarrow> string" where
  "scan engine preserveLength sql i =
     (if i < length sql then
        (case hidden_span engine sql i of
           Some (e, t) \<Rightarrow>
             (if preserveLength then replicate (min e (length sql) - i) SPACE else t)
             @ scan engine preserveLength sql e
         | None \<Rightarrow> sql ! i # scan engine preserveLength sql (i + 1))
      else [])"
  by pat_completeness auto
termination
  by (relation "measure (\<lambda>(engine, p, sql, i). length sql - i)") (auto dest: hidden_span_gt)

declare scan.simps [simp del]

definition stripCommentsAndStrings :: "string \<Rightarrow> string option \<Rightarrow> string" where
  "stripCommentsAndStrings sql engine = scan engine False sql 0"

definition maskCommentsAndStrings :: "string \<Rightarrow> string option \<Rightarrow> string" where
  "maskCommentsAndStrings sql engine = scan engine True sql 0"

section \<open>Statement separators and trailing noise\<close>

text \<open>
  \<open>strippedSql.lastIndexOf(';', end - 1) !== -1\<close>, where \<open>end\<close> is the length without trailing \<open>;\<close> and
  white space. \<open>lastIndexOf\<close> clamps a negative position to 0, as subtraction on \<^typ>\<open>nat\<close> does here.
\<close>

definition is_noise_char :: "char \<Rightarrow> bool" where
  "is_noise_char c \<longleftrightarrow> c = CHR '';'' \<or> is_space c"

definition significant_end :: "string \<Rightarrow> nat" where
  "significant_end s = length (dropWhile is_noise_char (rev s))"

definition hasMultipleStatements :: "string \<Rightarrow> bool" where
  "hasMultipleStatements s \<longleftrightarrow> last_index_upto s '';'' (significant_end s - 1) \<noteq> None"

text \<open>
  One round of the loop of \<open>trimTrailingNoise\<close>: the index behind a span that starts at \<open>i\<close> and whether
  it is significant. Unlike \<open>scan\<close>, this loop knows no backslash escapes in a plain literal and reads
  \<open>E'...'\<close> on every engine.
\<close>

definition noise_span :: "string option \<Rightarrow> string \<Rightarrow> nat \<Rightarrow> (nat \<times> bool) option" where
  "noise_span engine sql i =
     (let c = sql ! i; nxt = char_at sql (i + 1) in
      if c = CHR ''-'' \<and> nxt = Some (CHR ''-'') then Some (skip_line sql i, False)
      else if c = CHR ''#'' \<and> hashIsComment engine then Some (skip_line sql i, False)
      else if c = CHR ''/'' \<and> nxt = Some (CHR ''*'') then Some (skip_block sql 1 (i + 2), False)
      else if c = CHR ''$'' \<and> dollar_end sql i \<noteq> None then Some (the (dollar_end sql i), True)
      else if (c = CHR ''e'' \<or> c = CHR ''E'') \<and> nxt = Some SQUOTE \<and> starts_token sql i
        then Some (skip_lit esc_always SQUOTE sql (i + 2), True)
      else if c = SQUOTE then Some (skip_lit esc_never SQUOTE sql (i + 1), True)
      else if c = DQUOTE then Some (skip_lit esc_never DQUOTE sql (i + 1), True)
      else if c = BACKTICK then Some (skip_until BACKTICK sql (i + 1) + 1, True)
      else if c = CHR ''['' \<and> index_of sql '']'' (i + 1) \<noteq> None
        then Some (the (index_of sql '']'' (i + 1)) + 1, True)
      else None)"

lemma noise_span_gt [js_bounds]:
  "noise_span engine sql i = Some (e, b) \<Longrightarrow> i < length sql \<Longrightarrow> i < e"
  unfolding noise_span_def Let_def
  by (elim if_Some_elims) (auto intro: span_gt)

function trim_loop :: "string option \<Rightarrow> string \<Rightarrow> nat \<Rightarrow> nat \<Rightarrow> nat" where
  "trim_loop engine sql i lastReal =
     (if i < length sql then
        (case noise_span engine sql i of
           Some (e, significant) \<Rightarrow> trim_loop engine sql e (if significant then e else lastReal)
         | None \<Rightarrow>
             trim_loop engine sql (i + 1)
               (if \<not> is_space (sql ! i) \<and> sql ! i \<noteq> CHR '';'' then i + 1 else lastReal))
      else lastReal)"
  by pat_completeness auto
termination
  by (relation "measure (\<lambda>(engine, sql, i, l). length sql - i)") (auto dest: noise_span_gt)

declare trim_loop.simps [simp del]

definition trimTrailingNoise :: "string \<Rightarrow> string option \<Rightarrow> string" where
  "trimTrailingNoise sql engine = slice sql 0 (trim_loop engine sql 0 0)"

text \<open>\<open>/\s+(?:offset\s+\d+\s+rows?\s*)?fetch\s+(?:first|next)\b[\s\S]*$/iu\<close>\<close>

definition FETCH_TAIL_RE :: regex where
  "FETCH_TAIL_RE = cats
     [plus ws,
      Opt (cats [cis ''offset'', plus ws, plus dig, plus ws, cis ''row'', Opt (ci (CHR ''s'')), Star ws]),
      cis ''fetch'', plus ws, Or (cis ''first'') (cis ''next''), WordB, Star anyc, Eol]"

definition withoutFetchTail :: "string \<Rightarrow> string" where
  "withoutFetchTail sql = replace_first FETCH_TAIL_RE sql (\<lambda>_. [])"

section \<open>What the scanner guarantees\<close>

lemma scan_past [simp]: "length sql \<le> i \<Longrightarrow> scan engine p sql i = []"
  by (subst scan.simps) simp

lemma scan_None: "i < length sql \<Longrightarrow> hidden_span engine sql i = None \<Longrightarrow>
    scan engine p sql i = sql ! i # scan engine p sql (i + 1)"
  by (subst scan.simps) simp

lemma scan_Some: "i < length sql \<Longrightarrow> hidden_span engine sql i = Some (e, t) \<Longrightarrow>
    scan engine p sql i =
      (if p then replicate (min e (length sql) - i) SPACE else t) @ scan engine p sql e"
  by (subst scan.simps) simp

text \<open>Induction over the rounds of the scanner.\<close>

lemma scan_induct [case_names past span char]:
  assumes "\<And>i. length sql \<le> i \<Longrightarrow> P i"
    and "\<And>i e t. i < length sql \<Longrightarrow> hidden_span engine sql i = Some (e, t) \<Longrightarrow> i < e \<Longrightarrow> P e \<Longrightarrow> P i"
    and "\<And>i. i < length sql \<Longrightarrow> hidden_span engine sql i = None \<Longrightarrow> P (i + 1) \<Longrightarrow> P i"
  shows "P i"
proof (induction "length sql - i" arbitrary: i rule: less_induct)
  case less
  show ?case
  proof (cases "i < length sql")
    case False
    then show ?thesis by (simp add: assms(1))
  next
    case True
    show ?thesis
    proof (cases "hidden_span engine sql i")
      case None
      have "P (i + 1)" by (rule less) (use True in simp)
      with True None show ?thesis by (rule assms(3))
    next
      case (Some x)
      obtain e t where x: "x = (e, t)" by (cases x)
      with Some have h: "hidden_span engine sql i = Some (e, t)" by simp
      from hidden_span_gt [OF h True] have e: "i < e" .
      have "P e" by (rule less) (use True e in simp)
      with True h e show ?thesis by (rule assms(2))
    qed
  qed
qed

definition blanked :: "char \<Rightarrow> char \<Rightarrow> bool" where
  "blanked m c \<longleftrightarrow> m = c \<or> m = SPACE"

lemma list_all2_blanked_replicate: "list_all2 blanked (replicate (length xs) SPACE) xs"
  by (induction xs) (auto simp: blanked_def)

lemma scan_mask_blanked: "list_all2 blanked (scan engine True sql i) (drop i sql)"
proof (induction i rule: scan_induct [of sql _ engine])
  case (past i)
  then show ?case by simp
next
  case (span i e t)
  let ?k = "min e (length sql) - i"
  have split: "drop i sql = take ?k (drop i sql) @ drop e sql"
  proof (cases "e \<le> length sql")
    case True
    have "drop i sql = take (e - i) (drop i sql) @ drop (e - i) (drop i sql)"
      by (rule append_take_drop_id [symmetric])
    moreover have "drop (e - i) (drop i sql) = drop e sql" using span by simp
    ultimately show ?thesis using True by (simp add: min_absorb1)
  qed (use span in simp)
  have "length (take ?k (drop i sql)) = ?k" using span by simp
  with list_all2_blanked_replicate [of "take ?k (drop i sql)"]
  have "list_all2 blanked (replicate ?k SPACE) (take ?k (drop i sql))" by simp
  with span show ?case
    by (subst split) (simp add: scan_Some list_all2_appendI)
next
  case (char i)
  then show ?case
    by (simp add: scan_None Cons_nth_drop_Suc [symmetric] blanked_def)
qed

lemma length_mask [js_len, simp]: "length (maskCommentsAndStrings sql engine) = length sql"
  using list_all2_lengthD [OF scan_mask_blanked, of engine sql 0]
  by (simp add: maskCommentsAndStrings_def)

lemma mask_nth:
  "k < length sql \<Longrightarrow> maskCommentsAndStrings sql engine ! k = sql ! k
     \<or> maskCommentsAndStrings sql engine ! k = SPACE"
  using list_all2_nthD2 [OF scan_mask_blanked, of k 0 sql engine]
  by (simp add: maskCommentsAndStrings_def blanked_def)

text \<open>What a span leaves behind in strip mode, and what can never be an ordinary character.\<close>

lemma hidden_span_text:
  "hidden_span engine sql i = Some (e, t) \<Longrightarrow> set t \<subseteq> {SPACE, DQUOTE, BACKTICK}"
  unfolding hidden_span_def Let_def
  by (elim if_Some_elims) auto

lemma hidden_span_quote:
  "sql ! i \<in> {SQUOTE, DQUOTE, BACKTICK} \<Longrightarrow> hidden_span engine sql i \<noteq> None"
  by (auto simp: hidden_span_def Let_def)

lemma scan_no_squote: "SQUOTE \<notin> set (scan engine p sql i)"
proof (induction i rule: scan_induct [of sql _ engine])
  case (past i)
  then show ?case by simp
next
  case (span i e t)
  with hidden_span_text [OF span(2)] show ?case
    by (auto simp: scan_Some js_char_defs split: if_splits)
next
  case (char i)
  with hidden_span_quote [of sql i engine] show ?case
    by (auto simp: scan_None)
qed

definition visible :: "char \<Rightarrow> bool" where
  "visible c \<longleftrightarrow> c \<notin> {SPACE, DQUOTE, BACKTICK}"

lemma filter_visible_hidden: "set t \<subseteq> {SPACE, DQUOTE, BACKTICK} \<Longrightarrow> filter visible t = []"
  by (auto simp: visible_def filter_empty_conv)

lemma scan_modes_agree: "filter visible (scan engine True sql i) = filter visible (scan engine False sql i)"
proof (induction i rule: scan_induct [of sql _ engine])
  case (past i)
  then show ?case by simp
next
  case (span i e t)
  with filter_visible_hidden [OF hidden_span_text [OF span(2)]]
    filter_visible_hidden [of "replicate (min e (length sql) - i) SPACE"] show ?case
    by (simp add: scan_Some)
next
  case (char i)
  then show ?case by (simp add: scan_None)
qed

section \<open>Separators, trailing noise, fetch tail\<close>

lemma starts_with_single: "starts_with s [c] \<longleftrightarrow> (\<exists>t. s = c # t)"
  by (cases s) (auto simp: starts_with_def)

lemma last_index_single_iff:
  "last_index_upto s [c] k \<noteq> None \<longleftrightarrow> (\<exists>i \<le> k. i < length s \<and> s ! i = c)"
proof -
  have "starts_with (drop i s) [c] \<longleftrightarrow> i < length s \<and> s ! i = c" for i
    by (cases "i < length s") (auto simp: starts_with_single Cons_nth_drop_Suc [symmetric])
  then show ?thesis
    unfolding last_index_upto_def find_None_iff by (auto simp: less_Suc_eq_le simp del: upt_Suc)
qed

lemma significant_end_split:
  "s = take (significant_end s) s @ rev (takeWhile is_noise_char (rev s))"
proof -
  have "s = rev (dropWhile is_noise_char (rev s)) @ rev (takeWhile is_noise_char (rev s))"
    by (metis rev_append rev_rev_ident takeWhile_dropWhile_id)
  then show ?thesis
    by (metis append_eq_conv_conj length_rev significant_end_def)
qed

lemma significant_end_le [js_bounds]: "significant_end s \<le> length s"
  by (metis length_dropWhile_le length_rev significant_end_def)

text \<open>
  The part of the statement \<open>trimTrailingNoise\<close> cuts off, lexed from \<open>a\<close> to \<open>b\<close>: white space, semicolons
  and comments only.
\<close>

inductive noise_run :: "string option \<Rightarrow> string \<Rightarrow> nat \<Rightarrow> nat \<Rightarrow> bool" for engine sql where
  nr_refl: "noise_run engine sql a a"
| nr_char: "noise_run engine sql a i \<Longrightarrow> i < length sql \<Longrightarrow> noise_span engine sql i = None \<Longrightarrow>
     is_noise_char (sql ! i) \<Longrightarrow> noise_run engine sql a (Suc i)"
| nr_comment: "noise_run engine sql a i \<Longrightarrow> i < length sql \<Longrightarrow>
     noise_span engine sql i = Some (e, False) \<Longrightarrow> noise_run engine sql a e"

lemma trim_loop_noise:
  "noise_run engine sql l i \<Longrightarrow>
     \<exists>e. length sql \<le> e \<and> noise_run engine sql (trim_loop engine sql i l) e"
proof (induction engine sql i l rule: trim_loop.induct)
  case (1 engine sql i l)
  show ?case
  proof (cases "i < length sql")
    case False
    then have "trim_loop engine sql i l = l" "length sql \<le> i"
      by (simp_all add: trim_loop.simps [of engine sql i l])
    with "1.prems" show ?thesis by metis
  next
    case True
    show ?thesis
    proof (cases "noise_span engine sql i")
      case None
      with True "1.prems" have "noise_run engine sql
          (if \<not> is_space (sql ! i) \<and> sql ! i \<noteq> CHR '';'' then i + 1 else l) (i + 1)"
        by (auto intro: noise_run.intros simp: is_noise_char_def)
      from 1(1) [OF True None this] True None show ?thesis
        by (subst trim_loop.simps) simp
    next
      case (Some x)
      obtain e b where x: "x = (e, b)" by (cases x)
      with Some True "1.prems" have "noise_run engine sql (if b then e else l) e"
        by (auto intro: noise_run.intros)
      from 1(2) [OF True Some x [symmetric] this] True Some x show ?thesis
        by (subst trim_loop.simps) simp
    qed
  qed
qed

lemma trimTrailingNoise_prefix: "prefix (trimTrailingNoise sql engine) sql"
  by (simp add: trimTrailingNoise_def slice_def take_is_prefix)

lemma star_anyc_last: "star (matches anyc s) gs (length s) i c \<noteq> []"
  by (subst star.simps) simp

lemma eol_at_end: "(j, c') \<in> set (matches (Cat r Eol) s i c) \<Longrightarrow> j = length s"
  by (auto split: if_splits)

lemma matches_cats_Cons: "matches (cats (r # rs)) s i c = concat (map (\<lambda>(j, c'). matches (cats rs) s j c') (matches r s i c))"
  by (simp add: cats_def)

lemma matches_cats_Nil: "matches (cats []) s i c = [(i, c)]"
  by (simp add: cats_def)

lemma cats_eol_end: "(j, c') \<in> set (matches (cats (rs @ [Eol])) s i c) \<Longrightarrow> j = length s"
proof (induction rs arbitrary: i c)
  case Nil
  then show ?case by (auto simp: matches_cats_Cons matches_cats_Nil split: if_splits)
next
  case (Cons r rs)
  then show ?case by (auto simp: matches_cats_Cons)
qed

section \<open>Properties\<close>

text \<open>
  The length-preserving form keeps every offset of the statement. The masked text has the length of
  the original, and at each index it holds the original character or a blank.
\<close>

theorem mask_preserves_offsets:
  "length (maskCommentsAndStrings sql engine) = length sql
   \<and> list_all2 (\<lambda>m c. m = c \<or> m = SPACE) (maskCommentsAndStrings sql engine) sql"
  using scan_mask_blanked [of engine sql 0]
  by (simp add: maskCommentsAndStrings_def [symmetric] blanked_def [abs_def])

text \<open>
  The compact and the length-preserving form hide the same spans. Without the blanks and the quote
  markers that stand for hidden spans, both leave exactly the same text, and neither leaves a
  single quote, so no string literal of the statement survives.
\<close>

theorem strip_and_mask_agree:
  "filter (\<lambda>c. c \<notin> {SPACE, DQUOTE, BACKTICK}) (stripCommentsAndStrings sql engine)
     = filter (\<lambda>c. c \<notin> {SPACE, DQUOTE, BACKTICK}) (maskCommentsAndStrings sql engine)
   \<and> SQUOTE \<notin> set (stripCommentsAndStrings sql engine)
   \<and> SQUOTE \<notin> set (maskCommentsAndStrings sql engine)"
  using scan_modes_agree [of engine sql 0] scan_no_squote
  by (simp add: stripCommentsAndStrings_def maskCommentsAndStrings_def visible_def [abs_def])

text \<open>
  \<open>hasMultipleStatements\<close> is true exactly when a semicolon stands before the last significant
  character, or the text starts with a semicolon and holds nothing but semicolons and white space.
  The second case is no second statement; the clamping of \<open>lastIndexOf\<close> makes it one.
\<close>

theorem hasMultipleStatements_iff:
  "hasMultipleStatements s \<longleftrightarrow>
     CHR '';'' \<in> set (take (significant_end s) s)
     \<or> (list_all is_noise_char s \<and> starts_with s '';'')"
proof (cases "significant_end s")
  case 0
  then have all: "list_all is_noise_char s"
    by (simp add: significant_end_def list_all_iff dropWhile_eq_Nil_conv)
  have "hasMultipleStatements s \<longleftrightarrow> (\<exists>i \<le> 0. i < length s \<and> s ! i = CHR '';'')"
    by (simp only: hasMultipleStatements_def 0 diff_0_eq_0 last_index_single_iff)
  also have "\<dots> \<longleftrightarrow> starts_with s '';''"
    by (cases s) (auto simp: starts_with_single)
  finally show ?thesis using 0 all by simp
next
  case (Suc m)
  have nall: "\<not> list_all is_noise_char s"
    using Suc by (metis Ball_set dropWhile_eq_Nil_conv length_0_conv nat.distinct(1) set_rev significant_end_def)
  have "hasMultipleStatements s \<longleftrightarrow> (\<exists>i \<le> m. i < length s \<and> s ! i = CHR '';'')"
    by (simp only: hasMultipleStatements_def Suc diff_Suc_1 last_index_single_iff)
  also have "\<dots> \<longleftrightarrow> CHR '';'' \<in> set (take (Suc m) s)"
    by (auto simp: in_set_conv_nth less_Suc_eq_le)
  finally show ?thesis using Suc nall by simp
qed

text \<open>
  \<open>trimTrailingNoise\<close> returns a prefix of the statement, and what it cuts off lexes, from the cut to
  the end, as white space, semicolons and comments only.
\<close>

theorem trimTrailingNoise_cuts_noise:
  "\<exists>k e. trimTrailingNoise sql engine = take k sql \<and> length sql \<le> e \<and> noise_run engine sql k e"
  using trim_loop_noise [OF nr_refl [of engine sql 0]]
  by (auto simp: trimTrailingNoise_def slice_def)

text \<open>
  On MySQL the two scanners disagree about a backslash-escaped quote. The literal below is one
  literal to \<open>stripCommentsAndStrings\<close>; \<open>trimTrailingNoise\<close> ends it at the escaped quote, takes the
  rest of the text value for a comment and cuts the statement inside its literal.
\<close>

theorem trimTrailingNoise_cuts_mysql_literal:
  "let sql = ''SELECT '' @ [SQUOTE] @ ''it'' @ [BSLASH, SQUOTE] @ ''s -- on'' @ [SQUOTE] in
   stripCommentsAndStrings sql (Some ''mysql'') = ''SELECT  ''
   \<and> trimTrailingNoise sql (Some ''mysql'') = ''SELECT '' @ [SQUOTE] @ ''it'' @ [BSLASH, SQUOTE] @ ''s''"
  by code_simp

text \<open>
  \<open>withoutFetchTail\<close> only ever cuts the statement short: its result is a prefix of its input.
\<close>

theorem withoutFetchTail_prefix: "prefix (withoutFetchTail sql) sql"
proof (cases "re_exec FETCH_TAIL_RE sql 0")
  case None
  then show ?thesis by (simp add: withoutFetchTail_def replace_first_def)
next
  case (Some m)
  have "FETCH_TAIL_RE = cats (butlast
     [plus ws,
      Opt (cats [cis ''offset'', plus ws, plus dig, plus ws, cis ''row'', Opt (ci (CHR ''s'')), Star ws]),
      cis ''fetch'', plus ws, Or (cis ''first'') (cis ''next''), WordB, Star anyc, Eol] @ [Eol])"
    by (simp add: FETCH_TAIL_RE_def)
  with re_exec_Some(5) [OF Some] have "m_end m = length sql"
    using cats_eol_end by metis
  with Some show ?thesis
    by (simp add: withoutFetchTail_def replace_first_def slice_def take_is_prefix)
qed

end
