(* ===== verification/JS_Value.thy ===== *)
theory JS_Value
  imports JS_Prelude
begin

text \<open>
  JavaScript values as the guards see them: the syntax tree of \<open>node-sql-parser\<close> and a parsed aggregation
  pipeline are both trees of these. An object is the list of its own properties in the order of
  \<open>Object.keys\<close>.
\<close>

datatype jsval =
    JUndef
  | JNull
  | JBool bool
  | JNum jsnum
  | JStr string
  | JArr "jsval list"
  | JObj "(string \<times> jsval) list"

type_synonym props = "(string \<times> jsval) list"

text \<open>\<open>v[k]\<close> for a property name: \<open>undefined\<close> when the object has none of that name.\<close>

definition get :: "props \<Rightarrow> string \<Rightarrow> jsval" where
  "get kvs k = (case map_of kvs k of None \<Rightarrow> JUndef | Some v \<Rightarrow> v)"

fun get_prop :: "jsval \<Rightarrow> string \<Rightarrow> jsval" where
  "get_prop (JObj kvs) k = get kvs k"
| "get_prop _ k = JUndef"

text \<open>\<open>typeof v === 'string'\<close> and the string, \<open>typeof v === 'object' && v !== null\<close>, and \<open>v == null\<close>.\<close>

fun str_of :: "jsval \<Rightarrow> string option" where
  "str_of (JStr s) = Some s"
| "str_of _ = None"

fun is_object :: "jsval \<Rightarrow> bool" where
  "is_object (JArr xs) = True"
| "is_object (JObj kvs) = True"
| "is_object _ = False"

fun is_nullish :: "jsval \<Rightarrow> bool" where
  "is_nullish JUndef = True"
| "is_nullish JNull = True"
| "is_nullish _ = False"

fun is_number :: "jsval \<Rightarrow> bool" where
  "is_number (JNum x) = True"
| "is_number _ = False"

fun arr_of :: "jsval \<Rightarrow> jsval list option" where
  "arr_of (JArr xs) = Some xs"
| "arr_of _ = None"

text \<open>\<open>isDoc\<close> and \<open>isRecord\<close>: an object that is not null and no array, with its properties.\<close>

fun doc_of :: "jsval \<Rightarrow> props option" where
  "doc_of (JObj kvs) = Some kvs"
| "doc_of _ = None"

text \<open>\<open>String(v)\<close>.\<close>

fun to_string :: "jsval \<Rightarrow> string" where
  "to_string JUndef = ''undefined''"
| "to_string JNull = ''null''"
| "to_string (JBool b) = (if b then ''true'' else ''false'')"
| "to_string (JNum x) = show_jsnum x"
| "to_string (JStr s) = s"
| "to_string (JArr xs) = join '','' (map (\<lambda>v. if is_nullish v then [] else to_string v) xs)"
| "to_string (JObj kvs) = ''[object Object]''"

lemma str_of_Some_iff [simp]: "str_of v = Some s \<longleftrightarrow> v = JStr s"
  by (cases v) auto

lemma arr_of_Some_iff [simp]: "arr_of v = Some xs \<longleftrightarrow> v = JArr xs"
  by (cases v) auto

lemma doc_of_Some_iff [simp]: "doc_of v = Some kvs \<longleftrightarrow> v = JObj kvs"
  by (cases v) auto

lemma get_in_set: "get kvs k = v \<Longrightarrow> v \<noteq> JUndef \<Longrightarrow> (k, v) \<in> set kvs"
  by (auto simp: get_def split: option.splits dest: map_of_SomeD)

lemma get_Cons [simp]: "get ((k', v) # kvs) k = (if k = k' then v else get kvs k)"
  by (simp add: get_def)

lemma get_Nil [simp]: "get [] k = JUndef"
  by (simp add: get_def)

lemma size_prop_value: "(k, v) \<in> set kvs \<Longrightarrow> size v < Suc (size_list (size_prod (\<lambda>x. 0) size) kvs)"
  by (induction kvs) auto

lemma size_get_object:
  "is_object (get kvs k) \<Longrightarrow> size (get kvs k) < Suc (size_list (size_prod (\<lambda>x. 0) size) kvs)"
  by (rule size_prop_value [of k]) (auto intro!: get_in_set)

section \<open>Positions in a value\<close>

text \<open>
  \<open>occurs d v w\<close>: following \<open>d\<close> array items or property values leads from \<open>v\<close> to \<open>w\<close>. It is the declarative side of
  the recursive walks of both guards.
\<close>

inductive occurs :: "nat \<Rightarrow> jsval \<Rightarrow> jsval \<Rightarrow> bool" where
  occ_self: "occurs 0 v v"
| occ_item: "x \<in> set xs \<Longrightarrow> occurs d x w \<Longrightarrow> occurs (Suc d) (JArr xs) w"
| occ_prop: "(k, x) \<in> set kvs \<Longrightarrow> occurs d x w \<Longrightarrow> occurs (Suc d) (JObj kvs) w"

inductive_cases occurs_ArrE: "occurs d (JArr xs) w"
inductive_cases occurs_ObjE: "occurs d (JObj kvs) w"
inductive_simps occurs_0 [simp]: "occurs 0 v w"
inductive_simps occurs_Suc_ArrI: "occurs (Suc d) (JArr xs) w"
inductive_simps occurs_Suc_ObjI: "occurs (Suc d) (JObj kvs) w"

lemma occurs_Suc_Arr [simp]: "occurs (Suc d) (JArr xs) w \<longleftrightarrow> (\<exists>x \<in> set xs. occurs d x w)"
  by (auto simp: occurs_Suc_ArrI)

lemma occurs_Suc_Obj [simp]: "occurs (Suc d) (JObj kvs) w \<longleftrightarrow> (\<exists>(k, x) \<in> set kvs. occurs d x w)"
  by (auto simp: occurs_Suc_ObjI)

lemma occurs_atom [simp]:
  "occurs d JUndef w \<longleftrightarrow> d = 0 \<and> w = JUndef"
  "occurs d JNull w \<longleftrightarrow> d = 0 \<and> w = JNull"
  "occurs d (JBool b) w \<longleftrightarrow> d = 0 \<and> w = JBool b"
  "occurs d (JNum n) w \<longleftrightarrow> d = 0 \<and> w = JNum n"
  "occurs d (JStr s) w \<longleftrightarrow> d = 0 \<and> w = JStr s"
  by (auto elim: occurs.cases intro: occurs.intros)

lemma occurs_trans: "occurs d u v \<Longrightarrow> occurs d' v w \<Longrightarrow> occurs (d + d') u w"
  by (induction rule: occurs.induct) (auto intro: occurs.intros)

text \<open>The nesting depth bounds how deep anything can occur.\<close>

fun depth :: "jsval \<Rightarrow> nat" where
  "depth (JArr xs) = Suc (foldr max (map depth xs) 0)"
| "depth (JObj kvs) = Suc (foldr max (map (\<lambda>(k, v). depth v) kvs) 0)"
| "depth _ = 0"

lemma le_foldr_max: "x \<in> set xs \<Longrightarrow> x \<le> foldr max xs (0 :: nat)"
  by (induction xs) auto

lemma occurs_depth: "occurs d v w \<Longrightarrow> d + depth w \<le> depth v"
proof (induction rule: occurs.induct)
  case (occ_self v)
  show ?case by simp
next
  case (occ_item x xs d w)
  then have "depth x \<le> foldr max (map depth xs) 0" by (auto intro: le_foldr_max)
  with occ_item show ?case by simp
next
  case (occ_prop k x kvs d w)
  then have "depth x \<le> foldr max (map (\<lambda>(k, v). depth v) kvs) 0" by (force intro: le_foldr_max)
  with occ_prop show ?case by simp
qed

end
