(* ===== verification/Core_Types.thy ===== *)
theory Core_Types
  imports JS_Prelude
begin

text \<open>
  The contracts the core shares: the error taxonomy (\<open>errors.ts\<close>), the row cap (\<open>row-cap.ts\<close>), the
  dialect descriptors (\<open>dialects.ts\<close>) and the policy and verdict of the SQL guard (\<open>types.ts\<close>,
  \<open>resolveGuardPolicy\<close> of \<open>guard.ts\<close>). An optional property is an \<open>option\<close>; \<^term>\<open>None\<close> is
  an absent one.
\<close>

section \<open>Errors\<close>

datatype ErrorCode =
    LLMAuth
  | LLMBilling
  | LLMRateLimit
  | LLMTimeout
  | LLMContextOverflow
  | LLMBadOutput
  | LLMRefusal
  | LLMUnreachable
  | LLMUnavailable
  | GuardBlocked
  | DBAuth
  | DBUnreachable
  | DBNotFound
  | DBQueryError
  | DBTimeout
  | FileParse
  | WASMLoad
  | Cancelled
  | ServerAuthz
  | InvalidInput
  | ConfigError

definition RETRYABLE :: "ErrorCode list" where
  "RETRYABLE = [LLMRateLimit, LLMTimeout, LLMUnreachable, LLMUnavailable, DBUnreachable, DBTimeout, WASMLoad]"

fun DEFAULT_MESSAGES :: "ErrorCode \<Rightarrow> string" where
  "DEFAULT_MESSAGES LLMAuth =
     ''The AI provider rejected the configured key. Update it in your AskSQL configuration.''"
| "DEFAULT_MESSAGES LLMBilling =
     ''The AI provider account is out of credits or over its usage quota. Add credits or check the plan and billing settings.''"
| "DEFAULT_MESSAGES LLMRateLimit =
     ''The AI provider is rate-limiting requests right now. Wait a moment and try again.''"
| "DEFAULT_MESSAGES LLMTimeout =
     ''The AI took too long to answer. Local models may still be loading - retry.''"
| "DEFAULT_MESSAGES LLMContextOverflow =
     ''The prompt is larger than this model accepts. Use a model with a bigger context, ask about fewer tables, or start a new conversation.''"
| "DEFAULT_MESSAGES LLMBadOutput =
     ''Couldn't produce valid SQL for this question. Try rephrasing it.''"
| "DEFAULT_MESSAGES LLMRefusal =
     ''The AI model declined to answer this question.''"
| "DEFAULT_MESSAGES LLMUnreachable =
     ''Can't reach the AI endpoint. Check that it is running and the URL is correct.''"
| "DEFAULT_MESSAGES LLMUnavailable =
     ''The AI provider had a temporary problem. Try again.''"
| "DEFAULT_MESSAGES GuardBlocked =
     ''Blocked for safety: this statement is not allowed in read-only mode.''"
| "DEFAULT_MESSAGES DBAuth =
     ''The database refused those credentials. Check the username and password.''"
| "DEFAULT_MESSAGES DBUnreachable =
     ''Can't reach the database. Check that it is running and the host and port are right.''"
| "DEFAULT_MESSAGES DBNotFound =
     ''The server answered, but there is no database with that name on it. Check the database name.''"
| "DEFAULT_MESSAGES DBQueryError =
     ''The query failed to run.''"
| "DEFAULT_MESSAGES DBTimeout =
     ''The query took too long and was stopped. Add filters or narrow the date range.''"
| "DEFAULT_MESSAGES FileParse =
     ''Couldn't read that file. Check that it is not corrupt and is in the format its extension claims.''"
| "DEFAULT_MESSAGES WASMLoad =
     ''The local analysis engine failed to load. Check your network and browser settings.''"
| "DEFAULT_MESSAGES Cancelled =
     ''Cancelled.''"
| "DEFAULT_MESSAGES ServerAuthz =
     ''You don't have access to this connection.''"
| "DEFAULT_MESSAGES InvalidInput =
     ''Please enter a question.''"
| "DEFAULT_MESSAGES ConfigError =
     ''AskSQL is misconfigured. Check its connection and model settings.''"

record AskSqlErrorOptions =
  o_userMessage :: "string option"
  o_detail :: "string option"
  o_retryable :: "bool option"

text \<open>The error object: \<open>message\<close> is what the \<open>Error\<close> constructor is given; \<open>cause\<close> is for logs only and left out.\<close>

record AskSqlError =
  e_message :: string
  e_code :: ErrorCode
  e_userMessage :: string
  e_retryable :: bool
  e_detail :: "string option"

fun code_name :: "ErrorCode \<Rightarrow> string" where
  "code_name LLMAuth = ''LLM_AUTH''"
| "code_name LLMBilling = ''LLM_BILLING''"
| "code_name LLMRateLimit = ''LLM_RATE_LIMIT''"
| "code_name LLMTimeout = ''LLM_TIMEOUT''"
| "code_name LLMContextOverflow = ''LLM_CONTEXT_OVERFLOW''"
| "code_name LLMBadOutput = ''LLM_BAD_OUTPUT''"
| "code_name LLMRefusal = ''LLM_REFUSAL''"
| "code_name LLMUnreachable = ''LLM_UNREACHABLE''"
| "code_name LLMUnavailable = ''LLM_UNAVAILABLE''"
| "code_name GuardBlocked = ''GUARD_BLOCKED''"
| "code_name DBAuth = ''DB_AUTH''"
| "code_name DBUnreachable = ''DB_UNREACHABLE''"
| "code_name DBNotFound = ''DB_NOT_FOUND''"
| "code_name DBQueryError = ''DB_QUERY_ERROR''"
| "code_name DBTimeout = ''DB_TIMEOUT''"
| "code_name FileParse = ''FILE_PARSE''"
| "code_name WASMLoad = ''WASM_LOAD''"
| "code_name Cancelled = ''CANCELLED''"
| "code_name ServerAuthz = ''SERVER_AUTHZ''"
| "code_name InvalidInput = ''INVALID_INPUT''"
| "code_name ConfigError = ''CONFIG_ERROR''"

text \<open>An empty \<open>detail\<close> is falsy, so the message falls back to the user message.\<close>

definition new_AskSqlError :: "ErrorCode \<Rightarrow> AskSqlErrorOptions \<Rightarrow> AskSqlError" where
  "new_AskSqlError c opts =
     (let um = (case o_userMessage opts of None \<Rightarrow> DEFAULT_MESSAGES c | Some m \<Rightarrow> m);
          msg = (case o_detail opts of
                   None \<Rightarrow> code_name c @ '': '' @ um
                 | Some d \<Rightarrow> (if d = [] then code_name c @ '': '' @ um else code_name c @ '': '' @ d))
      in \<lparr>e_message = msg, e_code = c, e_userMessage = um,
          e_retryable = (case o_retryable opts of None \<Rightarrow> c \<in> set RETRYABLE | Some b \<Rightarrow> b),
          e_detail = o_detail opts\<rparr>)"

text \<open>A thrown value: one of ours, another \<open>Error\<close> with name and message, or anything else as a string.\<close>

datatype thrown = ThrownAskSql AskSqlError | ThrownError string string | ThrownOther string

fun AskSqlError_from :: "thrown \<Rightarrow> ErrorCode \<Rightarrow> AskSqlError" where
  "AskSqlError_from (ThrownAskSql e) fallback = e"
| "AskSqlError_from (ThrownError name msg) fallback =
     new_AskSqlError fallback \<lparr>o_userMessage = None, o_detail = Some (name @ '': '' @ msg), o_retryable = None\<rparr>"
| "AskSqlError_from (ThrownOther s) fallback =
     new_AskSqlError fallback \<lparr>o_userMessage = None, o_detail = Some s, o_retryable = None\<rparr>"

text \<open>The wire-safe shape.\<close>

definition AskSqlError_toJSON :: "AskSqlError \<Rightarrow> ErrorCode \<times> string \<times> bool" where
  "AskSqlError_toJSON e = (e_code e, e_userMessage e, e_retryable e)"

section \<open>The row cap\<close>

definition MAX_ROW_CAP :: nat where
  "MAX_ROW_CAP = 100000"

fun clampMaxRows :: "jsnum option \<Rightarrow> nat \<Rightarrow> nat" where
  "clampMaxRows (Some (Fin x)) fallback = (if 1 \<le> x then min (nat \<lfloor>x\<rfloor>) MAX_ROW_CAP else fallback)"
| "clampMaxRows _ fallback = fallback"

text \<open>The same computed on integers, for evaluation.\<close>

lemma clampMaxRows_int [code]:
  "clampMaxRows (Some (Fin x)) fallback = (if 1 \<le> x then nat (min \<lfloor>x\<rfloor> 100000) else fallback)"
  "clampMaxRows (Some NaN) fallback = fallback" "clampMaxRows (Some PosInf) fallback = fallback"
  "clampMaxRows (Some NegInf) fallback = fallback" "clampMaxRows None fallback = fallback"
  by (auto simp: MAX_ROW_CAP_def min_def nat_le_iff)

section \<open>Dialects\<close>

datatype limitStyle = LimitStyle | TopStyle | FetchStyle

record DialectInfo =
  d_engine :: string
  d_grammar :: string
  d_quoteChar :: char
  d_promptLabel :: string
  d_limitStyle :: limitStyle
  d_promptNotes :: "string list"

definition POSTGRES_DIALECT :: DialectInfo where
  "POSTGRES_DIALECT =
     \<lparr>d_engine = ''postgres'', d_grammar = ''Postgresql'', d_quoteChar = DQUOTE, d_promptLabel = ''PostgreSQL'',
      d_limitStyle = LimitStyle,
      d_promptNotes =
       [''When a column comment names an epoch unit, build the bound in THAT SAME unit and no ''
         @ ''other. For 'epoch seconds' compare against a seconds bound unchanged; for 'epoch ''
         @ ''milliseconds' multiply the seconds bound by 1000. Mixing them raises no error: ''
         @ ''milliseconds against a seconds bound matches every row, and seconds against a ''
         @ ''milliseconds bound matches none.'',
        ''Quote mixed-case or reserved identifiers with double quotes.'',
        ''Use ILIKE for case-insensitive text matching.'',
        ''Combine values into one string with string_agg(col, ', ').'',
        ''Use date_trunc / interval arithmetic for date math (e.g. now - interval '30 days').'']\<rparr>"

definition MYSQL_DIALECT :: DialectInfo where
  "MYSQL_DIALECT =
     \<lparr>d_engine = ''mysql'', d_grammar = ''MySQL'', d_quoteChar = BACKTICK, d_promptLabel = ''MySQL'',
      d_limitStyle = LimitStyle,
      d_promptNotes =
       [''When a column comment names an epoch unit, build the bound in THAT SAME unit and no ''
         @ ''other. For 'epoch seconds' compare against a seconds bound unchanged; for 'epoch ''
         @ ''milliseconds' multiply the seconds bound by 1000. Mixing them raises no error: ''
         @ ''milliseconds against a seconds bound matches every row, and seconds against a ''
         @ ''milliseconds bound matches none.'',
        ''Quote identifiers with backticks when needed.'',
        ''Use DATE_SUB / DATE_ADD / DATE_FORMAT for date math.'',
        ''Combine values into one string with GROUP_CONCAT(col SEPARATOR ', ').'']\<rparr>"

definition SQLITE_DIALECT :: DialectInfo where
  "SQLITE_DIALECT =
     \<lparr>d_engine = ''sqlite'', d_grammar = ''Postgresql'', d_quoteChar = DQUOTE, d_promptLabel = ''SQLite'',
      d_limitStyle = LimitStyle,
      d_promptNotes =
       [''Dates: a TEXT column holds ISO text, so compare it with date/datetime/strftime ''
         @ ''(e.g. date('now','-30 days')). An INTEGER column holds a number - usually epoch ''
         @ ''seconds, or milliseconds if the values are ~1000x larger - so build the bound as a ''
         @ ''number in the SAME units, e.g. (strftime('%s','now') - 30*86400) * 1000 for ''
         @ ''milliseconds. Never compare an INTEGER column with a text date: nothing matches and ''
         @ ''no error is raised.'',
        ''There are no schemas; refer to tables by bare name.'',
        ''Combine values into one string with group_concat(col, ', ').'']\<rparr>"

definition ORACLE_DIALECT :: DialectInfo where
  "ORACLE_DIALECT =
     \<lparr>d_engine = ''oracle'', d_grammar = ''Postgresql'', d_quoteChar = DQUOTE, d_promptLabel = ''Oracle'',
      d_limitStyle = FetchStyle,
      d_promptNotes =
       [''When a column comment names an epoch unit, build the bound in THAT SAME unit and no ''
         @ ''other. For 'epoch seconds' compare against a seconds bound unchanged; for 'epoch ''
         @ ''milliseconds' multiply the seconds bound by 1000. Mixing them raises no error: ''
         @ ''milliseconds against a seconds bound matches every row, and seconds against a ''
         @ ''milliseconds bound matches none.'',
        ''Do not add a row limit clause (no FETCH FIRST, no ROWNUM, no LIMIT). Order the ''
         @ ''results and the system returns the top rows.'',
        ''Use TO_DATE / TO_CHAR / SYSDATE and interval arithmetic for date math.'',
        ''Unquoted identifiers are case-insensitive and stored upper case; double-quote to ''
         @ ''preserve case.'',
        ''Select a literal from the DUAL table (e.g. SELECT 1 FROM DUAL), not a bare SELECT 1.'',
        ''There is no boolean type; a comparison is not a directly selectable value.'',
        ''The safety validator cannot read LISTAGG ... WITHIN GROUP, so return the rows ''
         @ ''themselves rather than combining them into one string.'']\<rparr>"

definition DUCKDB_DIALECT :: DialectInfo where
  "DUCKDB_DIALECT =
     \<lparr>d_engine = ''duckdb'', d_grammar = ''Postgresql'', d_quoteChar = DQUOTE, d_promptLabel = ''DuckDB'',
      d_limitStyle = LimitStyle,
      d_promptNotes =
       [''When a column comment names an epoch unit, build the bound in THAT SAME unit and no ''
         @ ''other. For 'epoch seconds' compare against a seconds bound unchanged; for 'epoch ''
         @ ''milliseconds' multiply the seconds bound by 1000. Mixing them raises no error: ''
         @ ''milliseconds against a seconds bound matches every row, and seconds against a ''
         @ ''milliseconds bound matches none.'',
        ''DuckDB follows PostgreSQL syntax for queries.'',
        ''Combine values into one string with string_agg(col, ', '); SEPARATOR is MySQL ''
         @ ''syntax and is rejected here.'',
        ''Uploaded files are already registered as tables - query them by table name, never ''
         @ ''by file path.'']\<rparr>"

definition dialectFor :: "string \<Rightarrow> DialectInfo option" where
  "dialectFor engine = map_of
     [(''postgres'', POSTGRES_DIALECT), (''mysql'', MYSQL_DIALECT), (''sqlite'', SQLITE_DIALECT),
      (''oracle'', ORACLE_DIALECT), (''duckdb'', DUCKDB_DIALECT)] engine"

section \<open>The guard's policy and verdict\<close>

record GuardPolicy =
  p_mode :: string
  p_maxRows :: nat
  p_denyFunctions :: "string list"
  p_allowFileFunctions :: bool
  p_maxSqlLength :: jsnum
  p_maxDepth :: jsnum

record PartialGuardPolicy =
  pp_mode :: "string option"
  pp_maxRows :: "jsnum option"
  pp_denyFunctions :: "string list option"
  pp_allowFileFunctions :: "bool option"
  pp_maxSqlLength :: "jsnum option"
  pp_maxDepth :: "jsnum option"

record GuardVerdict =
  v_allowed :: bool
  v_sql :: string
  v_ruleId :: "string option"
  v_reason :: "string option"
  v_warnings :: "string list"
  v_autoLimited :: bool
  v_loweredLimit :: bool
  v_tables :: "string list option"

definition DEFAULT_GUARD_POLICY :: GuardPolicy where
  "DEFAULT_GUARD_POLICY =
     \<lparr>p_mode = ''read-only'', p_maxRows = 1000, p_denyFunctions = [], p_allowFileFunctions = False,
      p_maxSqlLength = Fin 100000, p_maxDepth = Fin 400\<rparr>"

definition no_policy :: PartialGuardPolicy where
  "no_policy =
     \<lparr>pp_mode = None, pp_maxRows = None, pp_denyFunctions = None, pp_allowFileFunctions = None,
      pp_maxSqlLength = None, pp_maxDepth = None\<rparr>"

definition or_default :: "'a option \<Rightarrow> 'a \<Rightarrow> 'a" where
  "or_default v d = (case v of None \<Rightarrow> d | Some x \<Rightarrow> x)"

text \<open>
  The merge of a caller's policy with the default one. An empty \<open>mode\<close> is falsy and passes; any other
  mode but \<open>read-only\<close> throws.
\<close>

definition resolveGuardPolicy :: "PartialGuardPolicy \<Rightarrow> AskSqlError + GuardPolicy" where
  "resolveGuardPolicy partial =
     (if pp_mode partial \<noteq> None \<and> the (pp_mode partial) \<noteq> [] \<and> the (pp_mode partial) \<noteq> ''read-only''
      then Inl (new_AskSqlError ConfigError
        \<lparr>o_userMessage = Some ''AskSQL is misconfigured: only read-only mode is supported.'',
         o_detail = Some (''GuardPolicy.mode '' @ [SQUOTE] @ the (pp_mode partial) @ [SQUOTE]
           @ '' is not supported - the read-only floor is immovable in v1.''),
         o_retryable = None\<rparr>)
      else Inr
        \<lparr>p_mode = ''read-only'',
         p_maxRows = clampMaxRows (Some (or_default (pp_maxRows partial) (Fin (of_nat (p_maxRows DEFAULT_GUARD_POLICY)))))
                       (p_maxRows DEFAULT_GUARD_POLICY),
         p_denyFunctions = p_denyFunctions DEFAULT_GUARD_POLICY @ or_default (pp_denyFunctions partial) [],
         p_allowFileFunctions = or_default (pp_allowFileFunctions partial) (p_allowFileFunctions DEFAULT_GUARD_POLICY),
         p_maxSqlLength = or_default (pp_maxSqlLength partial) (p_maxSqlLength DEFAULT_GUARD_POLICY),
         p_maxDepth = or_default (pp_maxDepth partial) (p_maxDepth DEFAULT_GUARD_POLICY)\<rparr>)"

section \<open>Properties\<close>

lemma resolve_Inr_iff:
  "(\<exists>q. resolveGuardPolicy p = Inr q) \<longleftrightarrow> pp_mode p \<in> {None, Some [], Some ''read-only''}"
  by (auto simp: resolveGuardPolicy_def)

lemma clamp_range: "1 \<le> fallback \<Longrightarrow> fallback \<le> MAX_ROW_CAP \<Longrightarrow>
    1 \<le> clampMaxRows r fallback \<and> clampMaxRows r fallback \<le> MAX_ROW_CAP"
proof (induction r fallback rule: clampMaxRows.induct)
  case (1 x fallback)
  then show ?case by (auto simp: MAX_ROW_CAP_def le_nat_iff le_floor_iff)
qed auto

lemma clamp_le_request: "1 \<le> x \<Longrightarrow> of_nat (clampMaxRows (Some (Fin x)) fallback) \<le> x"
proof -
  assume "1 \<le> x"
  have "rat_of_nat (min (nat \<lfloor>x\<rfloor>) MAX_ROW_CAP) \<le> rat_of_nat (nat \<lfloor>x\<rfloor>)" by simp
  also have "\<dots> \<le> x" using \<open>1 \<le> x\<close> by (simp add: of_nat_nat)
  finally show ?thesis using \<open>1 \<le> x\<close> by simp
qed

lemma resolve_maxRows:
  "resolveGuardPolicy p = Inr q \<Longrightarrow> 1 \<le> p_maxRows q \<and> p_maxRows q \<le> MAX_ROW_CAP"
  using clamp_range [of 1000]
  by (auto simp: resolveGuardPolicy_def DEFAULT_GUARD_POLICY_def MAX_ROW_CAP_def split: if_splits)

text \<open>
  The row cap is always a whole number between 1 and 100000, and never above a finite request. A
  NaN, an infinity, a value below 1 or an absent value gives the fallback.
\<close>

theorem clampMaxRows_sound:
  assumes "1 \<le> fallback" "fallback \<le> MAX_ROW_CAP"
  shows "1 \<le> clampMaxRows r fallback \<and> clampMaxRows r fallback \<le> MAX_ROW_CAP
    \<and> (case r of
          Some (Fin x) \<Rightarrow> (if 1 \<le> x then of_nat (clampMaxRows r fallback) \<le> x else clampMaxRows r fallback = fallback)
        | _ \<Rightarrow> clampMaxRows r fallback = fallback)"
  using clamp_range [OF assms, of r] clamp_le_request
  by (auto split: option.splits jsnum.splits)

theorem clampMaxRows_sound_witness:
  "1 \<le> clampMaxRows (Some PosInf) 1000 \<and> clampMaxRows (Some (Fin 20)) 1000 = 20
   \<and> clampMaxRows (Some (Fin 1000000000)) 1000 = 100000"
  using clampMaxRows_sound [of 1000 "Some PosInf"] by (simp add: MAX_ROW_CAP_def)

text \<open>
  No caller loosens the floor. A policy resolves unless its mode is something other than
  read-only, and then the mode is read-only, the row cap is in range, and every function the caller
  denies stays denied.
\<close>

theorem resolveGuardPolicy_floor:
  "case resolveGuardPolicy p of
     Inl e \<Rightarrow> e_code e = ConfigError \<and> pp_mode p \<notin> {None, Some [], Some ''read-only''}
   | Inr q \<Rightarrow> p_mode q = ''read-only'' \<and> 1 \<le> p_maxRows q \<and> p_maxRows q \<le> MAX_ROW_CAP
       \<and> p_denyFunctions q = or_default (pp_denyFunctions p) []"
  using resolve_maxRows [of p]
  by (auto simp: resolveGuardPolicy_def new_AskSqlError_def DEFAULT_GUARD_POLICY_def Let_def split: sum.splits)

text \<open>
  The text of a foreign error never reaches the wire. Whatever an exception of another kind says, its
  serialised form is the code, the default message of that code and the code's retry hint.
\<close>

theorem foreign_error_text_hidden:
  "AskSqlError_toJSON (AskSqlError_from (ThrownError name msg) c) = (c, DEFAULT_MESSAGES c, c \<in> set RETRYABLE)
   \<and> AskSqlError_toJSON (AskSqlError_from (ThrownOther text) c) = (c, DEFAULT_MESSAGES c, c \<in> set RETRYABLE)"
  by (simp add: AskSqlError_toJSON_def new_AskSqlError_def Let_def)

end
