(* ===== verification/Guard_Lists.thy ===== *)
theory Guard_Lists
  imports JS_Prelude
begin

text \<open>
  The tables of \<open>packages/core/src/guard.ts\<close>: the statement types that are writes, the functions denied
  per engine, the prefixes and suffixes that mark a family of them, and the read-only \<open>PRAGMA\<close>s. A
  \<open>Set\<close> of strings is the list of its members.
\<close>

definition WRITE_TYPES :: "string list" where
  "WRITE_TYPES =
     [''insert'', ''update'', ''delete'', ''replace'', ''merge'', ''create'', ''drop'',
      ''alter'', ''truncate'', ''rename'', ''use'', ''set'', ''lock'', ''unlock'', ''call'',
      ''grant'', ''revoke'', ''deny'', ''comment'', ''analyze'', ''attach'', ''detach'',
      ''copy'', ''vacuum'', ''reindex'', ''pragma'', ''do'', ''execute'', ''prepare'',
      ''deallocate'', ''declare'', ''begin'', ''start'', ''commit'', ''rollback'',
      ''savepoint'', ''transaction'', ''load'', ''install'', ''import'', ''export'',
      ''backup'', ''restore'', ''checkpoint'', ''refresh'', ''cluster'', ''listen'',
      ''notify'', ''discard'', ''reset'', ''security'']"

definition PG_DENY_FUNCTIONS :: "string list" where
  "PG_DENY_FUNCTIONS =
     [''pg_sleep'', ''pg_sleep_for'', ''pg_sleep_until'', ''pg_read_file'',
      ''pg_read_binary_file'', ''pg_ls_dir'', ''pg_stat_file'', ''pg_terminate_backend'',
      ''pg_cancel_backend'', ''pg_reload_conf'', ''pg_rotate_logfile'', ''pg_switch_wal'',
      ''pg_promote'', ''pg_create_restore_point'', ''pg_logical_emit_message'', ''pg_notify'',
      ''set_config'', ''dblink'', ''dblink_exec'', ''dblink_connect'', ''dblink_connect_u'',
      ''dblink_send_query'', ''dblink_open'', ''dblink_fetch'', ''dblink_close'',
      ''dblink_cancel_query'', ''dblink_get_result'', ''lo_import'', ''lo_export'', ''lo_put'',
      ''lo_from_bytea'', ''lo_unlink'', ''lo_creat'', ''lo_create'', ''lowrite'', ''loread'',
      ''lo_open'', ''lo_close'', ''lo_truncate'', ''lo_truncate64'', ''lo_lseek'',
      ''lo_lseek64'', ''lo_get'', ''lo_get_fragment'', ''lo_read'', ''pg_advisory_lock'',
      ''pg_advisory_lock_shared'', ''pg_advisory_xact_lock'', ''pg_advisory_xact_lock_shared'',
      ''pg_try_advisory_lock'', ''pg_try_advisory_lock_shared'', ''pg_try_advisory_xact_lock'',
      ''pg_try_advisory_xact_lock_shared'', ''pg_advisory_unlock'',
      ''pg_advisory_unlock_shared'', ''pg_advisory_unlock_all'',
      ''pg_create_logical_replication_slot'', ''pg_create_physical_replication_slot'',
      ''pg_drop_replication_slot'', ''pg_replication_origin_create'',
      ''pg_replication_origin_drop'', ''pg_replication_origin_session_setup'',
      ''pg_replication_origin_session_reset'', ''pg_replication_origin_advance'',
      ''pg_replication_origin_xact_setup'', ''pg_replication_origin_xact_reset'',
      ''pg_logical_slot_get_changes'', ''pg_logical_slot_get_binary_changes'',
      ''pg_stat_reset'', ''pg_stat_reset_shared'', ''pg_stat_reset_single_table_counters'',
      ''pg_stat_reset_single_function_counters'', ''pg_stat_reset_slru'',
      ''pg_stat_reset_replication_slot'', ''pg_export_snapshot'',
      ''pg_log_backend_memory_contexts'', ''pg_ls_logdir'', ''pg_ls_waldir'', ''pg_ls_tmpdir'',
      ''pg_ls_archive_statusdir'', ''pg_ls_replslotdir'', ''pg_ls_logicalsnapdir'',
      ''pg_ls_logicalmapdir'', ''pg_current_logfile'', ''pg_logdir_ls'',
      ''pg_read_server_files'', ''fsdir'', ''pg_file_write'', ''pg_file_unlink'',
      ''pg_file_rename'', ''pg_file_sync'', ''pg_start_backup'', ''pg_stop_backup'',
      ''pg_backup_start'', ''pg_backup_stop'', ''pg_wal_replay_pause'',
      ''pg_wal_replay_resume'', ''pg_replication_slot_advance'', ''pg_stat_statements_reset'',
      ''pg_import_system_collations'', ''gin_clean_pending_list'',
      ''brin_summarize_new_values'', ''brin_desummarize_range'', ''brin_summarize_range'',
      ''pgstattuple'', ''pgstatindex'', ''pgstatginindex'', ''query_to_xml'',
      ''query_to_xmlschema'', ''query_to_xml_and_xmlschema'', ''table_to_xml'',
      ''table_to_xmlschema'', ''table_to_xml_and_xmlschema'', ''cursor_to_xml'',
      ''cursor_to_xmlschema'', ''schema_to_xml'', ''schema_to_xmlschema'',
      ''schema_to_xml_and_xmlschema'', ''database_to_xml'', ''database_to_xmlschema'',
      ''database_to_xml_and_xmlschema'', ''nextval'', ''setval'']"

definition MYSQL_DENY_FUNCTIONS :: "string list" where
  "MYSQL_DENY_FUNCTIONS =
     [''load_file'', ''sleep'', ''benchmark'', ''get_lock'', ''release_lock'',
      ''release_all_locks'', ''master_pos_wait'', ''source_pos_wait'', ''sys_exec'',
      ''sys_eval'', ''wait_for_executed_gtid_set'', ''wait_until_sql_thread_after_gtids'']"

definition SQLITE_DENY_FUNCTIONS :: "string list" where
  "SQLITE_DENY_FUNCTIONS =
     [''load_extension'', ''readfile'', ''writefile'', ''edit'', ''fts3_tokenizer'', ''mkdir'',
      ''symlink'', ''lsdir'', ''fileio_read'', ''fileio_write'', ''zipfile'']"

definition DUCKDB_DENY_ALWAYS :: "string list" where
  "DUCKDB_DENY_ALWAYS =
     [''getenv'', ''postgres_execute'', ''mysql_execute'', ''sqlite_execute'',
      ''postgres_query'', ''mysql_query'', ''sqlite_query'', ''postgres_scan'',
      ''postgres_scan_pushdown'', ''mysql_scan'', ''sqlite_scan'', ''postgres_attach'',
      ''mysql_attach'', ''sqlite_attach'', ''iceberg_scan'', ''iceberg_metadata'',
      ''iceberg_snapshots'', ''delta_scan'', ''ducklake_scan'', ''duckdb_secrets'',
      ''which_secret'', ''http_get'', ''http_post'', ''http_put'', ''http_delete'',
      ''http_head'', ''http_patch'', ''read_gsheet'', ''fsdir'', ''query'', ''query_table'',
      ''load_aws_credentials'', ''set_current_schema'']"

definition DUCKDB_DENY_SUFFIXES :: "string list" where
  "DUCKDB_DENY_SUFFIXES =
     [''_execute'', ''_query'', ''_scan'', ''_attach'']"

definition PG_DENY_PREFIXES :: "string list" where
  "PG_DENY_PREFIXES =
     [''pg_ls_'', ''pg_read_'']"

definition DUCKDB_DENY_PREFIXES :: "string list" where
  "DUCKDB_DENY_PREFIXES =
     [''read_'', ''scan_'']"

definition DUCKDB_ONLY_DENY :: "string list" where
  "DUCKDB_ONLY_DENY =
     [''current_setting'', ''duckdb_settings'', ''prompt'', ''open_prompt'']"

definition DUCKDB_FILE_FUNCTIONS :: "string list" where
  "DUCKDB_FILE_FUNCTIONS =
     [''read_csv'', ''read_csv_auto'', ''sniff_csv'', ''read_parquet'', ''parquet_scan'',
      ''read_json'', ''read_json_auto'', ''read_json_objects'', ''read_ndjson'',
      ''read_ndjson_auto'', ''read_text'', ''read_blob'', ''read_xlsx'', ''glob'', ''st_read'',
      ''st_readosm'', ''st_readshp'', ''st_read_meta'', ''parquet_metadata'',
      ''parquet_schema'', ''parquet_file_metadata'', ''parquet_kv_metadata'',
      ''read_json_objects_auto'', ''read_ndjson_objects'']"

definition ORACLE_DENY_FUNCTIONS :: "string list" where
  "ORACLE_DENY_FUNCTIONS =
     [''httpuritype'', ''dburitype'', ''xdburitype'']"

definition ORACLE_DENY_PREFIXES :: "string list" where
  "ORACLE_DENY_PREFIXES =
     [''utl_file.'', ''utl_http.'', ''utl_tcp.'', ''utl_smtp.'', ''utl_inaddr.'',
      ''utl_dbws.'', ''urifactory.'', ''dbms_scheduler.'', ''dbms_job.'', ''dbms_pipe.'',
      ''dbms_lock.'', ''dbms_java.'', ''dbms_sql.'', ''dbms_xmlquery.'', ''dbms_xmlgen.'',
      ''dbms_metadata.'', ''dbms_session.'', ''dbms_lob.'', ''dbms_ldap.'', ''dbms_ldap_utl.'']"

definition ORACLE_SEQUENCE_PSEUDO_COLUMNS :: "string list" where
  "ORACLE_SEQUENCE_PSEUDO_COLUMNS =
     [''nextval'']"

definition SQLITE_PRAGMA_READ_ALLOWLIST :: "string list" where
  "SQLITE_PRAGMA_READ_ALLOWLIST =
     [''table_info'', ''table_xinfo'', ''table_list'', ''index_list'', ''index_info'',
      ''index_xinfo'', ''foreign_key_list'', ''database_list'', ''function_list'',
      ''collation_list'', ''compile_options'']"

definition UNIVERSAL_DENY :: "string list" where
  "UNIVERSAL_DENY = PG_DENY_FUNCTIONS @ MYSQL_DENY_FUNCTIONS @ SQLITE_DENY_FUNCTIONS
     @ DUCKDB_DENY_ALWAYS @ ORACLE_DENY_FUNCTIONS"

text \<open>\<open>ENGINE_DENY[engine] ?? []\<close>: an engine outside the table has no list.\<close>

definition GUARDED_ENGINES :: "string list" where
  "GUARDED_ENGINES = [''postgres'', ''mysql'', ''sqlite'', ''duckdb'', ''oracle'']"

definition ENGINE_DENY :: "string \<Rightarrow> string list" where
  "ENGINE_DENY engine = (if engine \<in> set GUARDED_ENGINES then UNIVERSAL_DENY else [])"

definition UNIVERSAL_DENY_PREFIXES :: "string list" where
  "UNIVERSAL_DENY_PREFIXES = PG_DENY_PREFIXES @ ORACLE_DENY_PREFIXES"

text \<open>\<open>DEFAULT_DENY_SETS[engine] ?? new Set()\<close>\<close>

definition DEFAULT_DENY_SETS :: "string \<Rightarrow> string list" where
  "DEFAULT_DENY_SETS engine =
     (if engine \<in> set GUARDED_ENGINES
      then ENGINE_DENY engine @ (if engine = ''duckdb'' then DUCKDB_FILE_FUNCTIONS @ DUCKDB_ONLY_DENY else [])
      else [])"

lemmas deny_list_defs = PG_DENY_FUNCTIONS_def MYSQL_DENY_FUNCTIONS_def SQLITE_DENY_FUNCTIONS_def
  DUCKDB_DENY_ALWAYS_def ORACLE_DENY_FUNCTIONS_def DUCKDB_FILE_FUNCTIONS_def DUCKDB_ONLY_DENY_def

end
