(* ===== verification/Guard_Walk.thy ===== *)
theory Guard_Walk
  imports JS_Regex JS_Value Core_Types Guard_Lists
begin

text \<open>
  The deep walk of the SQL guard (\<open>packages/core/src/guard.ts\<close>, \<open>columnNameOf\<close> to \<open>walk\<close>, and the deny set
  \<open>guardSql\<close> builds for it). The syntax tree is whatever value the parser returns, so the walk is total on
  \<^typ>\<open>jsval\<close>. The mutable \<open>ctx.violation\<close> is the result: the first violation in walk order.
\<close>

record violation =
  ruleId :: string
  reason :: string

record WalkContext =
  denySet :: "string list"
  denySuffixes :: "string list"
  denyPrefixes :: "string list"
  maxDepth :: jsnum
  c_engine :: string

section \<open>Names in a node\<close>

definition columnNameOf :: "props \<Rightarrow> string option" where
  "columnNameOf node =
     (let col = get node ''column'' in
      case col of
        JStr s \<Rightarrow> Some (toLowerCase s)
      | _ \<Rightarrow>
          (if is_object col then
             let expr = get_prop col ''expr''; ev = get_prop expr ''value''; v = get_prop col ''value'' in
             (if is_object expr \<and> str_of ev \<noteq> None then Some (toLowerCase (the (str_of ev)))
              else map_option toLowerCase (str_of v))
           else None))"

text \<open>The five tests of \<open>looksLikeFileOrUrl\<close>, in source order.\<close>

definition HAS_SEPARATOR :: regex where
  "HAS_SEPARATOR = one_of [CHR ''/'', BSLASH]"

definition HAS_SCHEME :: regex where
  "HAS_SCHEME = cats [Bol, Chr is_alpha, Star (Chr (\<lambda>c. is_alpha c \<or> is_digit c \<or> c \<in> set ''+.-'')), lits ''://'']"

definition HAS_TILDE :: regex where
  "HAS_TILDE = cats [Bol, lit (CHR ''~'')]"

definition HAS_DRIVE :: regex where
  "HAS_DRIVE = cats [Bol, Chr is_alpha, lit (CHR '':''), one_of [BSLASH, CHR ''/'']]"

definition HAS_DATA_EXTENSION :: regex where
  "HAS_DATA_EXTENSION = cats
     [lit (CHR ''.''),
      Group 1 (ors (map cis [''csv'', ''tsv'', ''txt'', ''parquet'', ''json'', ''ndjson'', ''jsonl'', ''xlsx'', ''xls'',
        ''arrow'', ''avro'', ''orc'', ''feather'', ''db'', ''duckdb'', ''sqlite''])),
      Opt (Group 2 (Cat (lit (CHR ''.''))
        (Group 3 (ors (map cis [''gz'', ''gzip'', ''zst'', ''zstd'', ''bz2'', ''xz'', ''br'', ''lz4'', ''snappy'']))))),
      Eol]"

definition looksLikeFileOrUrl :: "string \<Rightarrow> bool" where
  "looksLikeFileOrUrl name \<longleftrightarrow>
     re_test HAS_SEPARATOR name \<or> re_test HAS_SCHEME name \<or> re_test HAS_TILDE name
     \<or> re_test HAS_DRIVE name \<or> re_test HAS_DATA_EXTENSION name"

text \<open>\<open>String(v ?? '')\<close>\<close>

definition string_or_empty :: "jsval \<Rightarrow> string" where
  "string_or_empty v = (if is_nullish v then [] else to_string v)"

definition name_part :: "jsval \<Rightarrow> string" where
  "name_part p = (if is_object p then string_or_empty (get_prop p ''value'') else to_string p)"

definition functionNameOf :: "props \<Rightarrow> string option" where
  "functionNameOf node =
     (let raw = get node ''name'' in
      case raw of
        JStr s \<Rightarrow> Some (toLowerCase s)
      | _ \<Rightarrow>
          (if is_object raw then
             let parts = (case arr_of (get_prop raw ''name'') of
                            None \<Rightarrow> []
                          | Some xs \<Rightarrow> filter (\<lambda>p. p \<noteq> []) (map name_part xs));
                 schema = get_prop raw ''schema'';
                 schemaName = (if is_object schema then string_or_empty (get_prop schema ''value'') else [])
             in if parts \<noteq> [] then Some (toLowerCase (join ''.'' (filter (\<lambda>p. p \<noteq> []) (schemaName # parts))))
                else map_option toLowerCase (str_of (get_prop raw ''value''))
           else None))"

section \<open>One node\<close>

definition node_type :: "props \<Rightarrow> string option" where
  "node_type node = map_option toLowerCase (str_of (get node ''type''))"

definition write_violation :: "props \<Rightarrow> violation option" where
  "write_violation node =
     (case node_type node of
        None \<Rightarrow> None
      | Some t \<Rightarrow>
          (if t \<noteq> [] \<and> t \<in> set WRITE_TYPES
           then Some \<lparr>ruleId = ''statement_not_allowed:'' @ t,
                      reason = ''Only read-only SELECT statements are allowed (found '' @ toUpperCase t @ '').''\<rparr>
           else None))"

definition into_violation :: "props \<Rightarrow> violation option" where
  "into_violation node =
     (let into = get node ''into'' in
      if node_type node = Some ''select'' \<and> is_object into
         \<and> (\<not> is_nullish (get_prop into ''position'') \<or> \<not> is_nullish (get_prop into ''expr''))
      then Some \<lparr>ruleId = ''select_into'',
                 reason = ''SELECT INTO creates a new table and is not allowed in read-only mode.''\<rparr>
      else None)"

definition relation_violation :: "props \<Rightarrow> violation option" where
  "relation_violation node =
     (case get node ''table'' of
        JStr t \<Rightarrow>
          (if looksLikeFileOrUrl t
           then Some \<lparr>ruleId = ''file_relation'',
                      reason = ''Reading a file or URL directly in a query is not allowed. Query registered tables by name.''\<rparr>
           else None)
      | _ \<Rightarrow> None)"

definition sequence_violation :: "WalkContext \<Rightarrow> props \<Rightarrow> violation option" where
  "sequence_violation ctx node =
     (if node_type node = Some ''column_ref'' \<and> c_engine ctx = ''oracle'' then
        (case columnNameOf node of
           None \<Rightarrow> None
         | Some col \<Rightarrow>
             (if col \<noteq> [] \<and> \<not> is_nullish (get node ''table'') \<and> col \<in> set ORACLE_SEQUENCE_PSEUDO_COLUMNS
              then Some \<lparr>ruleId = ''sequence_pseudo_column:'' @ col,
                         reason = ''The sequence pseudo-column '' @ col @ '' is not read-only.''\<rparr>
              else None))
      else None)"

text \<open>\<open>name.includes('.') ? name.slice(name.lastIndexOf('.') + 1) : name\<close>\<close>

definition last_segment :: "string \<Rightarrow> string" where
  "last_segment name = (case last_index_of name ''.'' of None \<Rightarrow> name | Some i \<Rightarrow> slice_from name (i + 1))"

definition function_denied :: "WalkContext \<Rightarrow> string \<Rightarrow> bool" where
  "function_denied ctx name \<longleftrightarrow>
     (let final = last_segment name in
      name \<in> set (denySet ctx) \<or> final \<in> set (denySet ctx)
      \<or> list_ex (\<lambda>s. ends_with final s) (denySuffixes ctx)
      \<or> list_ex (\<lambda>p. starts_with name p \<or> starts_with final p) (denyPrefixes ctx))"

definition is_function_node :: "props \<Rightarrow> bool" where
  "is_function_node node \<longleftrightarrow>
     node_type node \<in> {Some ''function'', Some ''aggr_func'', Some ''method'', Some ''tablefunc''}"

definition function_violation :: "WalkContext \<Rightarrow> props \<Rightarrow> violation option" where
  "function_violation ctx node =
     (if is_function_node node then
        (case functionNameOf node of
           None \<Rightarrow> None
         | Some name \<Rightarrow>
             (if name \<noteq> [] \<and> function_denied ctx name
              then Some \<lparr>ruleId = ''function_denied:'' @ last_segment name,
                         reason = ''The function '' @ last_segment name @ '' is not allowed.''\<rparr>
              else None))
      else None)"

definition node_violation :: "WalkContext \<Rightarrow> props \<Rightarrow> violation option" where
  "node_violation ctx node =
     first_of (write_violation node)
       (first_of (into_violation node)
         (first_of (relation_violation node)
           (first_of (sequence_violation ctx node) (function_violation ctx node))))"

section \<open>The walk\<close>

definition too_deep :: violation where
  "too_deep = \<lparr>ruleId = ''too_deep'', reason = ''The statement is nested too deeply to verify safely.''\<rparr>"

fun walk :: "WalkContext \<Rightarrow> jsval \<Rightarrow> nat \<Rightarrow> violation option"
and walk_items :: "WalkContext \<Rightarrow> jsval list \<Rightarrow> nat \<Rightarrow> violation option"
and walk_props :: "WalkContext \<Rightarrow> props \<Rightarrow> nat \<Rightarrow> violation option" where
  "walk ctx v d =
     (if jsnum_lt (maxDepth ctx) (of_nat d) then Some too_deep
      else (case v of
              JArr xs \<Rightarrow> walk_items ctx xs (d + 1)
            | JObj node \<Rightarrow> first_of (node_violation ctx node) (walk_props ctx node (d + 1))
            | _ \<Rightarrow> None))"
| "walk_items ctx [] d = None"
| "walk_items ctx (x # xs) d = first_of (walk ctx x d) (walk_items ctx xs d)"
| "walk_props ctx [] d = None"
| "walk_props ctx ((k, x) # kvs) d = first_of (walk ctx x d) (walk_props ctx kvs d)"

section \<open>The context a policy gives\<close>

definition deny_set_for :: "GuardPolicy \<Rightarrow> string \<Rightarrow> string list" where
  "deny_set_for policy engine =
     (if p_denyFunctions policy = [] \<and> \<not> p_allowFileFunctions policy then DEFAULT_DENY_SETS engine
      else map toLowerCase
        (ENGINE_DENY engine
         @ (if engine = ''duckdb''
            then DUCKDB_ONLY_DENY @ (if p_allowFileFunctions policy then [] else DUCKDB_FILE_FUNCTIONS)
            else [])
         @ p_denyFunctions policy))"

definition walk_context :: "GuardPolicy \<Rightarrow> string \<Rightarrow> WalkContext" where
  "walk_context policy engine =
     \<lparr>denySet = deny_set_for policy engine,
      denySuffixes = (if engine = ''duckdb'' then DUCKDB_DENY_SUFFIXES else []),
      denyPrefixes =
        (if engine = ''duckdb'' \<and> \<not> p_allowFileFunctions policy
         then UNIVERSAL_DENY_PREFIXES @ DUCKDB_DENY_PREFIXES else UNIVERSAL_DENY_PREFIXES),
      maxDepth = p_maxDepth policy,
      c_engine = engine\<rparr>"

section \<open>What a clean walk means\<close>

declare walk.simps [simp del]

text \<open>A value is clean from depth \<open>d\<close> on if nothing in it lies too deep and no node in it is a violation.\<close>

definition clean :: "WalkContext \<Rightarrow> jsval \<Rightarrow> nat \<Rightarrow> bool" where
  "clean ctx v d \<longleftrightarrow>
     (\<forall>k w. occurs k v w \<longrightarrow> \<not> jsnum_lt (maxDepth ctx) (of_nat (d + k))
        \<and> (\<forall>node. w = JObj node \<longrightarrow> node_violation ctx node = None))"

lemma clean_atom:
  "\<not> is_object v \<Longrightarrow> clean ctx v d \<longleftrightarrow> \<not> jsnum_lt (maxDepth ctx) (of_nat d)"
  by (cases v) (auto simp: clean_def)

lemma clean_nodeD: "clean ctx v d \<Longrightarrow> occurs k v (JObj node) \<Longrightarrow> node_violation ctx node = None"
  by (auto simp: clean_def)

lemma all_nat_split: "(\<forall>k. P k) \<longleftrightarrow> P 0 \<and> (\<forall>k. P (Suc k))"
  by (metis not0_implies_Suc)

lemma clean_Arr:
  "clean ctx (JArr xs) d \<longleftrightarrow>
     \<not> jsnum_lt (maxDepth ctx) (of_nat d) \<and> (\<forall>x \<in> set xs. clean ctx x (d + 1))"
  unfolding clean_def all_nat_split [where P = "\<lambda>k. \<forall>w. occurs k (JArr xs) w \<longrightarrow> _ k w"]
  by auto

lemma clean_Obj:
  "clean ctx (JObj kvs) d \<longleftrightarrow>
     \<not> jsnum_lt (maxDepth ctx) (of_nat d) \<and> node_violation ctx kvs = None
     \<and> (\<forall>(k, x) \<in> set kvs. clean ctx x (d + 1))"
  unfolding clean_def all_nat_split [where P = "\<lambda>k. \<forall>w. occurs k (JObj kvs) w \<longrightarrow> _ k w"]
  by auto

lemma walk_clean_aux:
  "walk ctx v d = None \<longleftrightarrow> clean ctx v d"
  "walk_items ctx xs d = None \<longleftrightarrow> (\<forall>x \<in> set xs. clean ctx x d)"
  "walk_props ctx kvs d = None \<longleftrightarrow> (\<forall>(k, x) \<in> set kvs. clean ctx x d)"
proof (induction ctx v d and ctx xs d and ctx kvs d rule: walk_walk_items_walk_props.induct)
  case (1 ctx v d)
  show ?case
    by (cases v) (use 1 in \<open>auto simp: walk.simps clean_atom clean_Arr clean_Obj\<close>)
qed auto

lemmas walk_clean = walk_clean_aux(1)

lemma clean_parts:
  assumes "walk ctx v d = None" "occurs k v (JObj node)"
  shows "write_violation node = None" "into_violation node = None" "relation_violation node = None"
    "sequence_violation ctx node = None" "function_violation ctx node = None"
  using clean_nodeD assms by (auto simp: walk_clean node_violation_def)

section \<open>A larger deny set only refuses more\<close>

definition ctx_le :: "WalkContext \<Rightarrow> WalkContext \<Rightarrow> bool" where
  "ctx_le a b \<longleftrightarrow>
     set (denySet a) \<subseteq> set (denySet b) \<and> set (denySuffixes a) \<subseteq> set (denySuffixes b)
     \<and> set (denyPrefixes a) \<subseteq> set (denyPrefixes b) \<and> c_engine a = c_engine b \<and> maxDepth a = maxDepth b"

lemma function_denied_mono: "ctx_le a b \<Longrightarrow> function_denied a name \<Longrightarrow> function_denied b name"
  by (auto simp: ctx_le_def function_denied_def Let_def list_ex_iff)

lemma node_violation_mono:
  assumes "ctx_le a b" "node_violation b node = None"
  shows "node_violation a node = None"
proof -
  have "sequence_violation a node = sequence_violation b node"
    using assms(1) by (simp add: sequence_violation_def ctx_le_def)
  moreover have "function_violation b node = None \<Longrightarrow> function_violation a node = None"
    using function_denied_mono [OF assms(1)]
    by (auto simp: function_violation_def split: option.splits if_splits)
  ultimately show ?thesis
    using assms(2) by (simp add: node_violation_def)
qed

lemma walk_mono: "ctx_le a b \<Longrightarrow> walk b v d = None \<Longrightarrow> walk a v d = None"
  unfolding walk_clean clean_def by (metis ctx_le_def node_violation_mono)

lemma lower_case_tables:
  "map toLowerCase UNIVERSAL_DENY = UNIVERSAL_DENY"
  "map toLowerCase DUCKDB_FILE_FUNCTIONS = DUCKDB_FILE_FUNCTIONS"
  "map toLowerCase DUCKDB_ONLY_DENY = DUCKDB_ONLY_DENY"
  by code_simp+

lemma empty_not_denied: "[] \<notin> set UNIVERSAL_DENY"
  by code_simp

lemma last_segment_Nil: "last_segment [] = []"
  by code_simp

lemma set_deny_set_for:
  "set (deny_set_for policy engine) =
     set (ENGINE_DENY engine)
     \<union> (if engine = ''duckdb'' then set DUCKDB_ONLY_DENY
         \<union> (if p_allowFileFunctions policy then {} else set DUCKDB_FILE_FUNCTIONS) else {})
     \<union> toLowerCase ` set (p_denyFunctions policy)"
proof -
  have eng: "map toLowerCase (ENGINE_DENY e) = ENGINE_DENY e" for e
    by (simp add: ENGINE_DENY_def lower_case_tables)
  have "toLowerCase ` set xs = set xs" if "map toLowerCase xs = xs" for xs
    using that by (metis set_map)
  note img = this [OF eng] this [OF lower_case_tables(2)] this [OF lower_case_tables(3)]
  have "set (DEFAULT_DENY_SETS engine) = set (ENGINE_DENY engine)
      \<union> (if engine = ''duckdb'' then set DUCKDB_ONLY_DENY \<union> set DUCKDB_FILE_FUNCTIONS else {})"
    by (auto simp: DEFAULT_DENY_SETS_def ENGINE_DENY_def GUARDED_ENGINES_def)
  then show ?thesis
    by (cases "engine = ''duckdb''"; cases "p_allowFileFunctions policy"; cases "p_denyFunctions policy = []")
       (simp_all add: deny_set_for_def img image_Un Un_ac)
qed

lemma default_ctx_le:
  assumes "\<not> p_allowFileFunctions policy" "p_maxDepth policy = p_maxDepth DEFAULT_GUARD_POLICY"
  shows "ctx_le (walk_context DEFAULT_GUARD_POLICY engine) (walk_context policy engine)"
  using assms
  by (auto simp: ctx_le_def walk_context_def set_deny_set_for DEFAULT_GUARD_POLICY_def)

section \<open>Properties\<close>

text \<open>
  C12: the walk is exact. It finds no violation if and only if nothing in the syntax tree lies deeper than
  the limit and no object anywhere in it is a write statement, a \<open>SELECT INTO\<close>, a file or URL relation,
  an Oracle sequence advance or a denied function call. There is no place in the tree where such
  a node can hide.
\<close>

theorem walk_exact:
  "walk ctx ast 0 = None \<longleftrightarrow>
     (\<forall>k w. occurs k ast w \<longrightarrow> \<not> jsnum_lt (maxDepth ctx) (of_nat k))
     \<and> (\<forall>k node. occurs k ast (JObj node) \<longrightarrow>
          write_violation node = None \<and> into_violation node = None \<and> relation_violation node = None
          \<and> sequence_violation ctx node = None \<and> function_violation ctx node = None)"
  unfolding walk_clean clean_def by (auto simp: node_violation_def)

theorem walk_exact_witness:
  "walk (walk_context DEFAULT_GUARD_POLICY ''postgres'')
     (JObj [(''type'', JStr ''select''),
            (''with'', JArr [JObj [(''stmt'', JObj [(''type'', JStr ''DELETE'')])]])]) 0 \<noteq> None"
proof -
  have "occurs 3 (JObj [(''type'', JStr ''select''),
      (''with'', JArr [JObj [(''stmt'', JObj [(''type'', JStr ''DELETE'')])]])])
      (JObj [(''type'', JStr ''DELETE'')])"
    by (simp add: numeral_3_eq_3)
  moreover have "write_violation [(''type'', JStr ''DELETE'')] \<noteq> None"
    by code_simp
  ultimately show ?thesis
    unfolding walk_exact by metis
qed

text \<open>
  C13: every function on the universal deny list is refused on every built-in engine under every policy,
  also one that allows file functions: a call of it anywhere in the tree, under its bare or
  a qualified name, makes the walk fail.
\<close>

theorem universal_deny_always_refused:
  assumes "engine \<in> set GUARDED_ENGINES" "occurs k ast (JObj node)"
    and "is_function_node node" "functionNameOf node = Some name"
    and "last_segment name \<in> set UNIVERSAL_DENY"
  shows "walk (walk_context policy engine) ast 0 \<noteq> None"
proof -
  have "last_segment name \<in> set (denySet (walk_context policy engine))"
    using assms by (simp add: walk_context_def set_deny_set_for ENGINE_DENY_def)
  moreover have "name \<noteq> []"
    using assms(5) empty_not_denied last_segment_Nil by metis
  ultimately have "function_violation (walk_context policy engine) node \<noteq> None"
    using assms(3,4) by (simp add: function_violation_def function_denied_def Let_def)
  then have "node_violation (walk_context policy engine) node \<noteq> None"
    by (simp add: node_violation_def)
  with assms(2) show ?thesis
    using clean_nodeD walk_clean by metis
qed

theorem universal_deny_always_refused_witness:
  "walk (walk_context (DEFAULT_GUARD_POLICY\<lparr>p_allowFileFunctions := True\<rparr>) ''sqlite'')
     (JArr [JObj [(''type'', JStr ''function''), (''name'', JStr ''pg_catalog.PG_SLEEP'')]]) 0 \<noteq> None"
proof (rule universal_deny_always_refused)
  show "''sqlite'' \<in> set GUARDED_ENGINES" by (simp add: GUARDED_ENGINES_def)
  show "occurs 1 (JArr [JObj [(''type'', JStr ''function''), (''name'', JStr ''pg_catalog.PG_SLEEP'')]])
      (JObj [(''type'', JStr ''function''), (''name'', JStr ''pg_catalog.PG_SLEEP'')])"
    by simp
  show "is_function_node [(''type'', JStr ''function''), (''name'', JStr ''pg_catalog.PG_SLEEP'')]"
    by code_simp
  show "functionNameOf [(''type'', JStr ''function''), (''name'', JStr ''pg_catalog.PG_SLEEP'')]
      = Some ''pg_catalog.pg_sleep''"
    by code_simp
  show "last_segment ''pg_catalog.pg_sleep'' \<in> set UNIVERSAL_DENY"
    by code_simp
qed

text \<open>
  A policy can only tighten the walk. Whatever functions a caller adds to the deny list, a tree that
  passes under the caller's policy passes under the default policy too.
\<close>

theorem policy_only_tightens:
  assumes "\<not> p_allowFileFunctions policy" "p_maxDepth policy = p_maxDepth DEFAULT_GUARD_POLICY"
    and "walk (walk_context policy engine) ast 0 = None"
  shows "walk (walk_context DEFAULT_GUARD_POLICY engine) ast 0 = None"
  using walk_mono [OF default_ctx_le [OF assms(1,2)] assms(3)] .

theorem policy_only_tightens_witness:
  "walk (walk_context DEFAULT_GUARD_POLICY ''mysql'')
     (JObj [(''type'', JStr ''function''), (''name'', JStr ''count'')]) 0 = None"
  by (rule policy_only_tightens [of "DEFAULT_GUARD_POLICY\<lparr>p_denyFunctions := [''MD5'']\<rparr>"]; code_simp)

text \<open>
  An engine the tables do not name gets an empty deny set under the default policy, so the very call
  refused on every built-in engine passes the walk there.
\<close>

theorem unknown_engine_denies_nothing:
  "deny_set_for DEFAULT_GUARD_POLICY ''sqlserver'' = []
   \<and> walk (walk_context DEFAULT_GUARD_POLICY ''sqlserver'')
       (JObj [(''type'', JStr ''function''), (''name'', JStr ''load_file'')]) 0 = None
   \<and> walk (walk_context DEFAULT_GUARD_POLICY ''postgres'')
       (JObj [(''type'', JStr ''function''), (''name'', JStr ''load_file'')]) 0 \<noteq> None"
  by code_simp

end
