(* ===== verification/Guard_Limit.thy ===== *)
theory Guard_Limit
  imports Strip Guard_Walk
begin

text \<open>
  The textual side of the SQL guard (\<open>packages/core/src/guard.ts\<close>): Oracle's row-limiting clause, the
  rewriting of SQLite's \<open>MATCH\<close> for the parser, MySQL's executable comments, the recursive query that
  would never return, and everything about the row limit of the final \<open>SELECT\<close>.
\<close>

section \<open>Oracle's row-limiting clause\<close>

definition ORACLE_FETCH_CLAUSE :: regex where
  "ORACLE_FETCH_CLAUSE = cats
     [WordB, cis ''FETCH'', plus ws, Or (cis ''FIRST'') (cis ''NEXT''), plus ws,
      Opt (cats [Group 1 (plus dig), plus ws]), Opt (Group 2 (cats [cis ''PERCENT'', plus ws])),
      cis ''ROW'', Opt (ci (CHR ''S'')), plus ws,
      Or (cis ''ONLY'') (cats [cis ''WITH'', plus ws, cis ''TIES'']), Star ws, Eol]"

definition ORACLE_OFFSET_BEFORE :: regex where
  "ORACLE_OFFSET_BEFORE = cats
     [WordB, cis ''OFFSET'', plus ws, plus dig, plus ws, cis ''ROW'', Opt (ci (CHR ''S'')), Eol]"

record OracleFetchTail =
  f_text :: string
  f_index :: nat
  f_count :: "nat option"

text \<open>\<open>while (k > 0 && /\s/.test(s[k - 1])) k--\<close>\<close>

fun back_space :: "string \<Rightarrow> nat \<Rightarrow> nat" where
  "back_space s 0 = 0"
| "back_space s (Suc k) = (if is_space (s ! k) then back_space s k else Suc k)"

definition oracleFetchTail :: "string \<Rightarrow> OracleFetchTail option" where
  "oracleFetchTail inner =
     (case re_exec ORACLE_FETCH_CLAUSE inner 0 of
        None \<Rightarrow> None
      | Some m \<Rightarrow>
          let w = back_space inner (m_index m) in
          if w = m_index m then None
          else
            let start =
                  (case re_exec ORACLE_OFFSET_BEFORE (slice inner 0 w) 0 of
                     None \<Rightarrow> w
                   | Some off \<Rightarrow>
                       let ows = back_space inner (m_index off) in if ows < m_index off then ows else w);
                count = (case m_group inner m 1 of
                           None \<Rightarrow> None
                         | Some n \<Rightarrow> if m_group inner m 2 = None then Some (number_of_digits n) else None)
            in Some \<lparr>f_text = slice_from inner start, f_index = start, f_count = count\<rparr>)"

section \<open>SQLite's MATCH operator\<close>

definition SQLITE_MATCH_RE :: regex where
  "SQLITE_MATCH_RE = cats
     [Group 1 ws, cis ''match'',
      Group 2 (cats [plus ws, lit SQUOTE, Star (Or (none_of [SQUOTE]) (lits [SQUOTE, SQUOTE])), lit SQUOTE])]"

definition group_text :: "string \<Rightarrow> rmatch \<Rightarrow> nat \<Rightarrow> string" where
  "group_text s m n = or_default (m_group s m n) []"

text \<open>Whether a match lies outside strings and comments, and what it is replaced by.\<close>

definition match_operator :: "string \<Rightarrow> rmatch \<Rightarrow> bool" where
  "match_operator masked m \<longleftrightarrow> str_includes (toLowerCase (slice masked (m_index m) (m_end m))) ''match''"

definition match_replacement :: "string \<Rightarrow> string \<Rightarrow> rmatch \<Rightarrow> string" where
  "match_replacement sql masked m =
     (if match_operator masked m then group_text sql m 1 @ ''=    '' @ group_text sql m 2 else m_whole sql m)"

definition rewriteSqliteMatch :: "string \<Rightarrow> string \<times> nat" where
  "rewriteSqliteMatch sql =
     (let masked = maskCommentsAndStrings sql None in
      (replace_all SQLITE_MATCH_RE sql (match_replacement sql masked),
       length (filter (match_operator masked) (match_all SQLITE_MATCH_RE sql))))"

section \<open>MySQL's executable comments\<close>

text \<open>\<open>while (i < n && !(sql[i] === '*' && sql[i + 1] === '/')) i++\<close>\<close>

function skip_plain_block :: "string \<Rightarrow> nat \<Rightarrow> nat" where
  "skip_plain_block sql i =
     (if i < length sql \<and> \<not> (sql ! i = CHR ''*'' \<and> char_at sql (i + 1) = Some (CHR ''/''))
      then skip_plain_block sql (i + 1) else i)"
  by pat_completeness auto
termination
  by (relation "measure (\<lambda>(sql, i). length sql - i)") auto

declare skip_plain_block.simps [simp del]

lemma skip_plain_block_ge: "i \<le> skip_plain_block sql i"
proof (induction sql i rule: skip_plain_block.induct)
  case (1 sql i)
  then show ?case by (subst skip_plain_block.simps) auto
qed

definition esc_unless_backtick :: "char \<Rightarrow> string \<Rightarrow> nat \<Rightarrow> bool" where
  "esc_unless_backtick q sql i \<longleftrightarrow> sql ! i = BSLASH \<and> q \<noteq> BACKTICK"

text \<open>
  The branches in source order; its last one, for an opener met after the others, cannot be reached
  because the first one takes every block comment.
\<close>

function executable_comment_from :: "string \<Rightarrow> nat \<Rightarrow> bool" where
  "executable_comment_from sql i =
     (if i < length sql then
        let c = sql ! i; nxt = char_at sql (i + 1) in
        if c = CHR ''/'' \<and> nxt = Some (CHR ''*'') then
          (if char_at sql (i + 2) = Some (CHR ''!'') then True
           else executable_comment_from sql (skip_plain_block sql (i + 2) + 2))
        else if c = SQUOTE \<or> c = DQUOTE \<or> c = BACKTICK then
          executable_comment_from sql (skip_lit (esc_unless_backtick c) c sql (i + 1))
        else if (c = CHR ''-'' \<and> nxt = Some (CHR ''-'')) \<or> c = CHR ''#'' then
          executable_comment_from sql (skip_line sql i)
        else executable_comment_from sql (i + 1)
      else False)"
  by pat_completeness auto
termination
proof (relation "measure (\<lambda>(sql, i). length sql - i)", goal_cases)
  case (2 sql i)
  then show ?case using skip_plain_block_ge [of "i + 2" sql] by simp
next
  case (3 sql i)
  then show ?case by (simp add: lit_gt(1) diff_less_mono2)
next
  case (4 sql i)
  then show ?case using comment_gt [of i sql] by auto
qed auto

declare executable_comment_from.simps [simp del]

definition hasMysqlExecutableComment :: "string \<Rightarrow> bool" where
  "hasMysqlExecutableComment sql = executable_comment_from sql 0"

section \<open>SQLite's unbounded recursion\<close>

definition sqliteRecursiveWedge :: "string \<Rightarrow> bool" where
  "sqliteRecursiveWedge strippedInner \<longleftrightarrow>
     re_test (cats [WordB, cis ''with'', plus ws, cis ''recursive'', WordB]) strippedInner
     \<and> \<not> re_test (cats [WordB, cis ''limit'', WordB]) strippedInner
     \<and> (re_test (cats [WordB, Group 1 (ors (map cis [''count'', ''sum'', ''avg'', ''min'', ''max'', ''total'', ''group_concat''])),
                       Star ws, lit (CHR ''('')]) strippedInner
        \<or> re_test (cats [WordB, cis ''group'', plus ws, cis ''by'', WordB]) strippedInner
        \<or> re_test (cats [WordB, cis ''select'', plus ws, cis ''distinct'', WordB]) strippedInner)"

section \<open>The row limit\<close>

datatype LimitStatus = LNone | LOk | LUnbounded "nat option" | LNonliteral | LHigh

definition LIMIT_COUNT_RE :: regex where
  "LIMIT_COUNT_RE = cats
     [WordB, cis ''limit'', plus ws, Group 1 (plus dig), Star ws,
      Opt (Group 2 (cats [lit (CHR '',''), Star ws, Group 3 (plus dig)]))]"

text \<open>\<open>last[3] ?? last[1]\<close>: the count of \<open>LIMIT offset, count\<close>, else of \<open>LIMIT n\<close>.\<close>

definition count_text :: "string \<Rightarrow> rmatch \<Rightarrow> string" where
  "count_text s m = or_default (m_group s m 3) (group_text s m 1)"

definition lowerLimitInText :: "string \<Rightarrow> nat \<Rightarrow> string option \<Rightarrow> string option" where
  "lowerLimitInText sql maxRows engine =
     (let stripped = maskCommentsAndStrings sql engine in
      case rev (match_all LIMIT_COUNT_RE stripped) of
        [] \<Rightarrow> None
      | final # _ \<Rightarrow>
          let countText = count_text stripped final;
              countStart = m_index final + or_default (last_index_of (m_whole stripped final) countText) 0
          in if number_of_digits countText \<le> maxRows then None
             else if slice sql countStart (countStart + length countText) \<noteq> countText then None
             else Some (slice sql 0 countStart @ show_nat maxRows @ slice_from sql (countStart + length countText)))"

datatype statement_limit = SNumber nat | SAll nat | SNonliteral

definition limit_word_at :: "string \<Rightarrow> nat \<Rightarrow> bool" where
  "limit_word_at masked i \<longleftrightarrow>
     re_test (cats [Bol, cis ''limit'', WordB]) (slice masked i (i + 6))"

text \<open>One round of the loop: the nesting depth and the offset of the last statement-level \<open>LIMIT\<close> so far.\<close>

definition limit_step :: "string \<Rightarrow> int \<times> nat option \<Rightarrow> nat \<Rightarrow> int \<times> nat option" where
  "limit_step masked st i =
     (case st of (d, pos) \<Rightarrow>
        let ch = masked ! i in
        if ch = CHR ''('' then (d + 1, pos)
        else if ch = CHR '')'' then (d - 1, pos)
        else if d = 0 \<and> (ch = CHR ''l'' \<or> ch = CHR ''L'') \<and> limit_word_at masked i then
          (if i = 0 \<or> is_space (masked ! (i - 1)) \<or> masked ! (i - 1) = CHR '')'' then (d, Some i) else (d, pos))
        else (d, pos))"

definition statementLevelLimit :: "string \<Rightarrow> string option \<Rightarrow> statement_limit option" where
  "statementLevelLimit sql engine =
     (let masked = maskCommentsAndStrings sql engine in
      case snd (foldl (limit_step masked) (0, None) [0..<length masked]) of
        None \<Rightarrow> None
      | Some pos \<Rightarrow>
          let tail = slice_from masked pos in
          if re_test (cats [Bol, cis ''limit'', plus ws, cis ''all'', WordB]) tail then Some (SAll pos)
          else (case re_exec (cats [Bol, cis ''limit'', plus ws, Group 1 (plus dig), Star ws,
                                    Opt (cats [lit (CHR '',''), Star ws, Group 2 (plus dig)])]) tail 0 of
                  None \<Rightarrow> Some SNonliteral
                | Some m \<Rightarrow> Some (SNumber (number_of_digits (or_default (m_group tail m 2) (group_text tail m 1))))))"

text \<open>\<open>while (target['_next'] && typeof target['_next'] === 'object') target = target['_next']\<close>\<close>

function final_select :: "jsval \<Rightarrow> jsval" where
  "final_select v =
     (case v of
        JObj kvs \<Rightarrow> (if is_object (get kvs ''_next'') then final_select (get kvs ''_next'') else v)
      | _ \<Rightarrow> v)"
  by pat_completeness auto
termination
  by (relation "measure size") (auto intro!: size_get_object)

declare final_select.simps [simp del]

definition has_next :: "jsval \<Rightarrow> bool" where
  "has_next ast \<longleftrightarrow> is_object (get_prop ast ''_next'')"

definition limit_of_node :: "jsval \<Rightarrow> nat \<Rightarrow> LimitStatus" where
  "limit_of_node target maxRows =
     (let existing = get_prop target ''limit''; sep = get_prop existing ''seperator'' in
      case arr_of (get_prop existing ''value'') of
        None \<Rightarrow> LNone
      | Some vals \<Rightarrow>
          if vals = [] then LNone
          else if sep = JStr ''offset'' \<and> length vals = 1 then LNone
          else
            let countNode = vals ! (if sep = JStr '','' \<and> length vals = 2 then 1 else 0);
                value = get_prop countNode ''value''
            in if get_prop countNode ''type'' = JStr ''origin'' \<and> toLowerCase (to_string value) = ''all''
               then LUnbounded None
               else if get_prop countNode ''type'' \<noteq> JStr ''number'' then LNonliteral
               else (case value of
                       JNum x \<Rightarrow> if jsnum_gt x (of_nat maxRows) then LHigh else LOk
                     | _ \<Rightarrow> LNonliteral))"

definition inspectLimit :: "jsval \<Rightarrow> nat \<Rightarrow> string \<Rightarrow> string option \<Rightarrow> LimitStatus" where
  "inspectLimit ast maxRows sql engine =
     (let target = final_select ast in
      if has_next ast \<and> get_prop target ''parentheses_symbol'' = JBool True then
        (case statementLevelLimit sql engine of
           None \<Rightarrow> LNone
         | Some (SAll pos) \<Rightarrow> LUnbounded (Some pos)
         | Some SNonliteral \<Rightarrow> LNonliteral
         | Some (SNumber n) \<Rightarrow> if maxRows < n then LHigh else LOk)
      else limit_of_node target maxRows)"

section \<open>Where the count of a LIMIT clause stands\<close>

lemma last_index_of_run:
  assumes n: "n \<noteq> []" "list_all is_digit n" and t: "list_all is_space t"
  shows "last_index_of (p @ n @ t) n = Some (length p)"
proof (rule last_index_ofI)
  fix i assume i: "length p < i" "i \<le> length (p @ n @ t)"
  show "\<not> starts_with (drop i (p @ n @ t)) n"
  proof
    assume "starts_with (drop i (p @ n @ t)) n"
    then obtain u where u: "drop i (p @ n @ t) = n @ u"
      by (auto simp: starts_with_prefix prefix_def)
    have drop: "drop i (p @ n @ t) = drop (i - length p) (n @ t)" using i by simp
    have "last n \<in> set t"
    proof (cases "length n \<le> i - length p")
      case True
      then have "set (n @ u) \<subseteq> set t" using u drop set_drop_subset [of _ t] by simp
      with n(1) show ?thesis by auto
    next
      case False
      then have eq: "drop (i - length p) n @ t = n @ u" using u drop by simp
      have "t \<noteq> []" using arg_cong [OF eq, of length] i False by auto
      from eq have "t = drop (length n - (i - length p)) (n @ u)"
        by (metis append_eq_conv_conj length_drop)
      then have "t = drop (length n - (i - length p)) n @ u" by simp
      moreover have "drop (length n - (i - length p)) n \<noteq> []" using i False by simp
      ultimately show ?thesis
        by (metis (no_types, lifting) Un_iff last_drop last_in_set set_append drop_eq_Nil not_le)
    qed
    moreover have "is_digit (last n)" using n by (simp add: list_all_iff)
    ultimately show False using t digit_not_space by (auto simp: list_all_iff)
  qed
qed (simp_all add: starts_with_def)

text \<open>What a match of the LIMIT expression consists of.\<close>

lemma groups_count: "groups (Group 2 (cats [lit (CHR '',''), Star ws, Group 3 (plus dig)])) = [2, 3]"
  by (simp add: cats_def lit_def ws_def dig_def plus_def)

lemma limit_match:
  assumes "(e, c) \<in> set (matches LIMIT_COUNT_RE s i [])" "i \<le> length s"
  obtains a b f where "i \<le> a" "a < b" "all_between is_digit s a b" "all_between is_space s b f"
      "f = e \<and> c = [(1, a, b)]
       \<or> (\<exists>a3. f < a3 \<and> a3 < e \<and> all_between is_digit s a3 e \<and> c = [(2, f, e), (3, a3, e), (1, a, b)])"
proof -
  let ?tail = "Opt (Group 2 (cats [lit (CHR '',''), Star ws, Group 3 (plus dig)]))"
  from assms(1) obtain k d a b f c1 where k: "(k, d) \<in> set (matches (cis ''limit'') s i [])" "k < a"
      and a: "all_between is_space s k a" "a < b" "all_between is_digit s a b"
      and f: "(f, c1) \<in> set (matches (Star ws) s b ((1, a, b) # d))"
      and e: "(e, c) \<in> set (matches ?tail s f c1)"
    unfolding LIMIT_COUNT_RE_def read_match by blast
  have d: "d = []" "i \<le> k" using k(1) assms(2) by (simp_all add: in_cis del: matches.simps)
  have f': "all_between is_space s b f" "c1 = [(1, a, b)]"
    using f all_between_le [OF a(3)] d by (simp_all add: in_Star_ws del: matches.simps)
  have "f = e \<and> c = [(1, a, b)]
      \<or> (\<exists>a3. f < a3 \<and> a3 < e \<and> all_between is_digit s a3 e \<and> c = [(2, f, e), (3, a3, e), (1, a, b)])"
    using e
  proof (simp only: in_Opt groups_count f' reset_def read_match, elim disjE exE conjE)
    fix d' k' d1 a3 d2 k2 d3 d4
    assume "f < length s" "k' = Suc f" "d1 = filter (\<lambda>(n, _). n \<notin> set [2, 3]) [(1, a, b)]"
      "(a3, d2) \<in> set (matches (Star ws) s k' d1)" "a3 < k2" "all_between is_digit s a3 k2" "d4 = d2"
      "d3 = (3, a3, k2) # d4" "e = k2" "d' = d3" "c = (2, f, e) # d'"
    then show ?thesis
      by (auto simp: in_Star_ws simp del: matches.simps dest: all_between_le)
  qed auto
  with that [of a b f] d k a f' show ?thesis by auto
qed

text \<open>The span of the captured count.\<close>

definition count_span :: "rmatch \<Rightarrow> nat \<times> nat" where
  "count_span m = (case map_of (m_caps m) 3 of Some p \<Rightarrow> p | None \<Rightarrow> the (map_of (m_caps m) 1))"

lemma count_span_match:
  assumes "m \<in> set (match_all LIMIT_COUNT_RE s)" "count_span m = (a, b)"
  shows "a < b" "all_between is_digit s a b" "count_text s m = slice s a b"
    "last_index_of (m_whole s m) (slice s a b) = Some (a - m_index m)" "m_index m \<le> a"
proof -
  from assms(1) obtain k where "re_exec LIMIT_COUNT_RE s k = Some m"
    by (auto simp: match_all_def dest!: all_from_matches)
  note m = re_exec_Some [OF this]
  from m(5) obtain a1 b1 f where 1: "m_index m \<le> a1" "a1 < b1" "all_between is_digit s a1 b1"
      "all_between is_space s b1 f"
      and cases: "f = m_end m \<and> m_caps m = [(1, a1, b1)] \<or> (\<exists>a3. f < a3 \<and> a3 < m_end m
        \<and> all_between is_digit s a3 (m_end m) \<and> m_caps m = [(2, f, m_end m), (3, a3, m_end m), (1, a1, b1)])"
    using le_trans [OF m(2,3)] by (rule limit_match)
  have *: "a < b \<and> all_between is_digit s a b \<and> count_text s m = slice s a b \<and> m_index m \<le> a
      \<and> b \<le> m_end m \<and> all_between is_space s b (m_end m)"
    using cases
  proof (elim disjE exE conjE)
    assume "f = m_end m" "m_caps m = [(1, a1, b1)]"
    with 1 assms(2) all_between_le [OF 1(4)] show ?thesis
      by (auto simp: count_span_def count_text_def m_group_def or_default_def group_text_def)
  next
    fix a3 assume "f < a3" "a3 < m_end m" "all_between is_digit s a3 (m_end m)"
      "m_caps m = [(2, f, m_end m), (3, a3, m_end m), (1, a1, b1)]"
    with 1 assms(2) m(3) all_between_le [OF 1(4)] show ?thesis
      by (auto simp: count_span_def count_text_def m_group_def or_default_def all_between_def)
  qed
  have "m_whole s m = slice s (m_index m) a @ slice s a b @ slice s b (m_end m)"
    using * slice_append [of "m_index m" a "m_end m" s] slice_append [of a b "m_end m" s] by (simp add: m_whole_def)
  moreover have "length (slice s (m_index m) a) = a - m_index m" "slice s a b \<noteq> []"
    using * m(3) by (auto simp: length_slice dest!: arg_cong [of _ _ length])
  ultimately show "last_index_of (m_whole s m) (slice s a b) = Some (a - m_index m)"
    using * last_index_of_run [of "slice s a b" "slice s b (m_end m)" "slice s (m_index m) a"] all_between_slice by auto
  from * show "a < b" "all_between is_digit s a b" "count_text s m = slice s a b" "m_index m \<le> a" by blast+
qed

lemma mask_digits:
  assumes "all_between is_digit (maskCommentsAndStrings sql engine) a b"
  shows "slice sql a b = slice (maskCommentsAndStrings sql engine) a b"
proof (rule nth_equalityI)
  show "length (slice sql a b) = length (slice (maskCommentsAndStrings sql engine) a b)"
    by (simp add: length_slice)
  fix i assume "i < length (slice sql a b)"
  then have i: "a + i < b" "a + i < length sql" by (auto simp: length_slice)
  then have "is_digit (maskCommentsAndStrings sql engine ! (a + i))"
    using assms by (simp add: all_between_def)
  moreover have "\<not> is_digit SPACE" by code_simp
  ultimately have "maskCommentsAndStrings sql engine ! (a + i) = sql ! (a + i)"
    using mask_nth [OF i(2), of engine] by auto
  with i show "slice sql a b ! i = slice (maskCommentsAndStrings sql engine) a b ! i"
    by (simp add: slice_def)
qed

lemma lower_limit_spec:
  "lowerLimitInText sql maxRows engine =
     (case rev (match_all LIMIT_COUNT_RE (maskCommentsAndStrings sql engine)) of
        [] \<Rightarrow> None
      | m # _ \<Rightarrow> (case count_span m of (a, b) \<Rightarrow>
          if number_of_digits (slice sql a b) \<le> maxRows then None
          else Some (slice sql 0 a @ show_nat maxRows @ slice_from sql b)))"
proof (cases "rev (match_all LIMIT_COUNT_RE (maskCommentsAndStrings sql engine))")
  case (Cons m ms)
  obtain a b where ab: "count_span m = (a, b)" by (cases "count_span m")
  have "m \<in> set (match_all LIMIT_COUNT_RE (maskCommentsAndStrings sql engine))"
    using Cons by (metis list.set_intros(1) set_rev)
  note m = count_span_match [OF this ab]
  have "slice sql a b = slice (maskCommentsAndStrings sql engine) a b" by (rule mask_digits [OF m(2)])
  moreover have "length (slice sql a b) = b - a" using all_between_le [OF m(2)] by (auto simp: length_slice)
  ultimately show ?thesis
    using m by (simp add: lowerLimitInText_def Let_def Cons ab or_default_def)
qed (simp add: lowerLimitInText_def)

lemma number_of_digits_Nil: "number_of_digits [] = 0"
  by (simp add: number_of_digits_def)

section \<open>SQLite's MATCH and Oracle's FETCH\<close>

lemma match_parts:
  assumes "(e, c) \<in> set (matches SQLITE_MATCH_RE s i [])" "i \<le> length s"
  shows "c = [(2, i + 6, e), (1, i, i + 1)]" "i + 6 \<le> e"
proof -
  let ?quoted = "cats [plus ws, lit SQUOTE, Star (Or (none_of [SQUOTE]) (lits [SQUOTE, SQUOTE])), lit SQUOTE]"
  from assms(1) obtain k d d' where ws: "i < length s"
      and k: "(k, d) \<in> set (matches (cis ''match'') s (Suc i) [(1, i, Suc i)])"
      and q: "(e, d') \<in> set (matches ?quoted s k d)" and c: "c = (2, k, e) # d'"
    unfolding SQLITE_MATCH_RE_def ws_def read_match in_Chr by blast
  have k': "k = i + 6" "k \<le> length s" "d = [(1, i, Suc i)]"
    using k ws by (simp_all add: in_cis del: matches.simps)
  have "groups ?quoted = []" by (simp add: regex_defs)
  from no_groups_captures [OF this q] c k' show "c = [(2, i + 6, e), (1, i, i + 1)]" by simp
  from forwardD [OF forward_matches q] k' ws show "i + 6 \<le> e" by simp
qed

lemma length_match_replacement:
  assumes "re_exec SQLITE_MATCH_RE s k = Some m"
  shows "length (match_replacement s masked m) = m_end m - m_index m"
proof -
  note m = re_exec_Some [OF assms]
  from match_parts [OF m(5)] m(2,3)
  have "m_caps m = [(2, m_index m + 6, m_end m), (1, m_index m, m_index m + 1)]" "m_index m + 6 \<le> m_end m"
    by simp_all
  with m(3) show ?thesis
    by (simp add: match_replacement_def group_text_def m_group_def or_default_def m_whole_def length_slice) arith
qed

lemma back_space_le: "back_space s k \<le> k"
  by (induction s k rule: back_space.induct) auto

lemma back_space_run: "back_space s k \<le> j \<Longrightarrow> j < k \<Longrightarrow> is_space (s ! j)"
  by (induction s k rule: back_space.induct) (auto simp: less_Suc_eq split: if_splits)

lemma oracle_tail_start:
  assumes "oracleFetchTail s = Some t"
  shows "f_index t < length s" "is_space (s ! f_index t)" "f_text t = slice_from s (f_index t)"
proof -
  from assms obtain m where m: "re_exec ORACLE_FETCH_CLAUSE s 0 = Some m"
      and w: "back_space s (m_index m) \<noteq> m_index m" and tx: "f_text t = slice_from s (f_index t)"
      and start: "f_index t = back_space s (m_index m) \<or>
        (\<exists>off. f_index t = back_space s (m_index off) \<and> f_index t < m_index off
           \<and> re_exec ORACLE_OFFSET_BEFORE (slice s 0 (back_space s (m_index m))) 0 = Some off)"
    by (auto simp: oracleFetchTail_def Let_def split: option.splits if_splits)
  have len: "m_index m \<le> length s" using re_exec_Some [OF m] by simp
  have w': "back_space s (m_index m) < m_index m" using w back_space_le [of s "m_index m"] by simp
  from start have "\<exists>k. f_index t = back_space s k \<and> f_index t < k \<and> k \<le> length s"
  proof (elim disjE exE conjE)
    fix off assume *: "f_index t = back_space s (m_index off)" "f_index t < m_index off"
      "re_exec ORACLE_OFFSET_BEFORE (slice s 0 (back_space s (m_index m))) 0 = Some off"
    have "m_index off \<le> length s" using re_exec_Some [OF *(3)] by (simp add: length_slice)
    with * show ?thesis by blast
  qed (use w' len in auto)
  then show "f_index t < length s" "is_space (s ! f_index t)" using back_space_run by fastforce+
  show "f_text t = slice_from s (f_index t)" by (rule tx)
qed

section \<open>Properties\<close>

text \<open>
  Lowering a row limit is exact. The scan for the last \<open>LIMIT\<close> runs on the masked text and finds the
  count by its last occurrence, yet the result is as if the captured digits themselves were edited: it is
  \<^term>\<open>None\<close> exactly when there is no \<open>LIMIT\<close> clause or its count is within the cap, and otherwise only those digits
  change. The check against the unmasked text never fires.
\<close>

theorem lowerLimitInText_exact:
  "lowerLimitInText sql maxRows engine =
     (case rev (match_all LIMIT_COUNT_RE (maskCommentsAndStrings sql engine)) of
        [] \<Rightarrow> None
      | m # _ \<Rightarrow> (case count_span m of (a, b) \<Rightarrow>
          if number_of_digits (slice sql a b) \<le> maxRows then None
          else Some (slice sql 0 a @ show_nat maxRows @ slice_from sql b)))"
  by (rule lower_limit_spec)

text \<open>
  Lowering only lowers. A rewritten statement is the original one with a single run of digits, visible
  outside comments and strings and worth more than the cap, replaced by the cap.
\<close>

theorem lowerLimitInText_only_lowers:
  assumes "lowerLimitInText sql maxRows engine = Some out"
  shows "\<exists>p n t. sql = p @ n @ t \<and> out = p @ show_nat maxRows @ t \<and> n \<noteq> [] \<and> list_all is_digit n
    \<and> maxRows < number_of_digits n \<and> slice (maskCommentsAndStrings sql engine) (length p) (length p + length n) = n"
proof -
  from assms obtain m a b where m: "m \<in> set (match_all LIMIT_COUNT_RE (maskCommentsAndStrings sql engine))"
      and ab: "count_span m = (a, b)" and more: "maxRows < number_of_digits (slice sql a b)"
      and out: "out = slice sql 0 a @ show_nat maxRows @ slice_from sql b"
    unfolding lower_limit_spec
    by (auto split: list.splits prod.splits if_splits) (metis not_le)
  note c = count_span_match [OF m ab]
  have same: "slice sql a b = slice (maskCommentsAndStrings sql engine) a b" by (rule mask_digits [OF c(2)])
  have len: "length (slice sql 0 a) = a" "length (slice sql a b) = b - a"
    using all_between_le [OF c(2)] by (auto simp: length_slice)
  show ?thesis
    using c(1) all_between_slice [OF c(2)] same len more out slice_split [of a b sql]
    by (intro exI [of _ "slice sql 0 a"] exI [of _ "slice sql a b"] exI [of _ "slice_from sql b"])
      (auto simp: slice_def slice_from_def)
qed

theorem lowerLimitInText_only_lowers_witness:
  "\<exists>p n t. ''SELECT 1 LIMIT 3, 9 -- limit 8'' = p @ n @ t \<and> ''SELECT 1 LIMIT 3, 5 -- limit 8'' = p @ show_nat 5 @ t"
proof -
  have "lowerLimitInText ''SELECT 1 LIMIT 3, 9 -- limit 8'' 5 None = Some ''SELECT 1 LIMIT 3, 5 -- limit 8''"
    by code_simp
  from lowerLimitInText_only_lowers [OF this] show ?thesis by blast
qed

text \<open>
  The last \<open>LIMIT\<close> of the text is not always the one that binds the result: with a limited subquery in the
  \<open>OFFSET\<close> clause the subquery's limit is lowered and the statement's own stays above the cap.
\<close>

theorem lowerLimitInText_takes_the_subquery:
  "lowerLimitInText ''SELECT 1 LIMIT 9 OFFSET (SELECT 2 LIMIT 8)'' 5 None
     = Some ''SELECT 1 LIMIT 9 OFFSET (SELECT 2 LIMIT 5)''"
  by code_simp

text \<open>
  The rewriting of SQLite's \<open>MATCH\<close> for the parser keeps every offset: the rewritten text is exactly as
  long as the original, whatever the operators' operands are.
\<close>

theorem rewriteSqliteMatch_keeps_length: "length (fst (rewriteSqliteMatch sql)) = length sql"
  by (simp add: rewriteSqliteMatch_def Let_def replace_all_length length_match_replacement)

text \<open>
  Taking Oracle's fetch clause off loses nothing. The statement is the inner part followed by the clause,
  and the clause starts with whitespace, so putting the two together again cannot glue words.
\<close>

theorem oracleFetchTail_splits:
  assumes "oracleFetchTail s = Some t"
  shows "s = slice s 0 (f_index t) @ f_text t \<and> f_text t \<noteq> [] \<and> is_space (hd (f_text t))"
  using oracle_tail_start [OF assms] by (simp add: slice_def slice_from_def hd_drop_conv_nth)

theorem oracleFetchTail_splits_witness:
  "''SELECT 1 FROM t OFFSET 2 ROWS FETCH NEXT 7 ROWS ONLY''
     = ''SELECT 1 FROM t'' @ '' OFFSET 2 ROWS FETCH NEXT 7 ROWS ONLY''"
proof -
  have "oracleFetchTail ''SELECT 1 FROM t OFFSET 2 ROWS FETCH NEXT 7 ROWS ONLY''
    = Some \<lparr>f_text = '' OFFSET 2 ROWS FETCH NEXT 7 ROWS ONLY'', f_index = 15, f_count = Some 7\<rparr>"
    by code_simp
  from oracleFetchTail_splits [OF this] show ?thesis by (simp add: slice_def)
qed

end
