(* ===== verification/Guard.thy ===== *)
theory Guard
  imports Guard_Limit
begin

text \<open>
  \<open>guardSql\<close> of \<open>packages/core/src/guard.ts\<close>, stage by stage in source order. The parser of the package
  \<open>node-sql-parser\<close> is the parameter \<open>parse\<close>: given a text and a grammar it answers the syntax tree and
  the list of tables (\<^term>\<open>None\<close> when that is no array), or \<^term>\<open>None\<close> when it throws. Nothing is
  assumed about it. A thrown exception of the guard itself is \<^term>\<open>Inl\<close>.
\<close>

type_synonym parser = "string \<Rightarrow> string \<Rightarrow> (jsval \<times> string list option) option"

definition blocked :: "string \<Rightarrow> string \<Rightarrow> string \<Rightarrow> GuardVerdict" where
  "blocked sql rule why =
     \<lparr>v_allowed = False, v_sql = sql, v_ruleId = Some rule, v_reason = Some why, v_warnings = [],
      v_autoLimited = False, v_loweredLimit = False, v_tables = None\<rparr>"

definition allowed_as_is :: "string \<Rightarrow> GuardVerdict" where
  "allowed_as_is body =
     \<lparr>v_allowed = True, v_sql = body, v_ruleId = None, v_reason = None, v_warnings = [],
      v_autoLimited = False, v_loweredLimit = False, v_tables = None\<rparr>"

section \<open>Allowlisted read commands, before the parser\<close>

definition PRAGMA_START :: regex where
  "PRAGMA_START = cats [Bol, Star ws, cis ''pragma'', WordB]"

definition PRAGMA_FORM :: regex where
  "PRAGMA_FORM = cats
     [Bol, Star ws, cis ''pragma'', plus ws,
      Group 1 (Cat (Chr (\<lambda>c. is_alpha c \<or> c = CHR ''_'')) (Star (Chr is_word))), Star ws,
      Opt (cats [lit (CHR ''(''), Star ws,
                 Group 2 (plus (Chr (\<lambda>c. is_word c \<or> c \<in> {CHR ''.'', DQUOTE, SQUOTE, BACKTICK}))),
                 Star ws, lit (CHR '')'')]),
      Star ws, Eol]"

definition pragma_verdict :: "string \<Rightarrow> string \<Rightarrow> GuardVerdict" where
  "pragma_verdict original body =
     (case re_exec PRAGMA_FORM body 0 of
        Some m \<Rightarrow>
          (if toLowerCase (group_text body m 1) \<in> set SQLITE_PRAGMA_READ_ALLOWLIST then allowed_as_is body
           else blocked original ''pragma_denied'' ''Only read-only PRAGMA commands are allowed.'')
      | None \<Rightarrow> blocked original ''pragma_denied'' ''Only read-only PRAGMA commands are allowed.'')"

definition SHOW_START :: regex where
  "SHOW_START = cats [Bol, Star ws, Group 1 (ors [cis ''show'', cis ''desc'', cis ''describe'']), WordB]"

definition MYSQL_SHOW_ALLOW :: regex where
  "MYSQL_SHOW_ALLOW = cats
     [Bol, Star ws, cis ''show'', plus ws, Opt (Group 1 (Cat (cis ''full'') (plus ws))),
      Group 2 (ors [cis ''tables'', cis ''databases'', cis ''schemas'', cis ''columns'', cis ''fields'',
        cis ''index'', cis ''indexes'', cis ''keys'', cats [cis ''create'', plus ws, cis ''table''],
        cats [cis ''create'', plus ws, cis ''view''], cats [cis ''table'', plus ws, cis ''status''],
        cis ''triggers'', cis ''events'', cats [cis ''open'', plus ws, cis ''tables''], cis ''status'',
        cis ''variables'', cats [cis ''character'', plus ws, cis ''set''], cis ''collation'',
        cis ''engines'', cis ''warnings'', cis ''errors'']), WordB]"

definition SHOW_TAIL_EXECUTES :: regex where
  "SHOW_TAIL_EXECUTES = Or
     (cats [lit (CHR ''(''), Star ws, cis ''select'', WordB])
     (cats [WordB, Chr (\<lambda>c. is_alpha c \<or> c = CHR ''_''), Star (Chr is_word), Star ws, lit (CHR ''('')])"

definition DESCRIBE_FORM :: regex where
  "DESCRIBE_FORM = cats
     [Bol, Star ws, Group 1 (Or (cis ''desc'') (cis ''describe'')), plus ws,
      plus (Chr (\<lambda>c. is_word c \<or> c \<in> {CHR ''.'', BACKTICK, DQUOTE})), Star ws, Eol]"

definition show_verdict :: "string \<Rightarrow> string \<Rightarrow> string \<Rightarrow> GuardVerdict" where
  "show_verdict original strippedTrim body =
     (if re_test SHOW_TAIL_EXECUTES strippedTrim then
        blocked original ''show_expression''
          ''A SHOW command may not carry a subquery or function call. Use a plain SHOW, or a SELECT against information_schema.''
      else if re_test MYSQL_SHOW_ALLOW strippedTrim then allowed_as_is body
      else if re_test DESCRIBE_FORM body then allowed_as_is body
      else blocked original ''show_denied'' ''Only read-only SHOW/DESCRIBE commands are allowed.'')"

section \<open>Oracle: LIMIT becomes FETCH, the fetch tail is taken off\<close>

text \<open>\<open>String(Number(digits))\<close>: beyond \<open>2 ^ 53\<close> the digits of the nearest double.\<close>

definition number_text :: "nat \<Rightarrow> string" where
  "number_text n = show_jsnum (read_double (of_nat n))"

definition PLAIN_LIMIT :: regex where
  "PLAIN_LIMIT = cats
     [WordB, cis ''limit'', plus ws, Group 1 (plus dig), Star ws,
      Look (cats [Opt (lit (CHR '';'')), Star ws, Eol])]"

definition STRAY_LIMIT :: regex where
  "STRAY_LIMIT = cats
     [WordB, cis ''limit'', plus ws,
      ors [plus dig, Cat (lit (CHR '':'')) (plus (Chr is_word)), lit (CHR ''?'')], Star ws,
      Opt (cats [cis ''offset'', plus ws, plus dig, Star ws]), Opt (lit (CHR '';'')), Star ws, Eol]"

record fetch_state =
  inner :: string
  fetchTailText :: "string option"
  strippedFetchLimit :: "nat option"

definition take_fetch_tail :: "string \<Rightarrow> fetch_state" where
  "take_fetch_tail s =
     (case oracleFetchTail s of
        None \<Rightarrow> \<lparr>inner = s, fetchTailText = None, strippedFetchLimit = None\<rparr>
      | Some t \<Rightarrow> \<lparr>inner = slice s 0 (f_index t), fetchTailText = Some (f_text t), strippedFetchLimit = f_count t\<rparr>)"

definition fetch_stage :: "DialectInfo \<Rightarrow> string \<Rightarrow> string \<Rightarrow> GuardVerdict + fetch_state" where
  "fetch_stage dialect original body =
     (if d_limitStyle dialect \<noteq> FetchStyle
      then Inr \<lparr>inner = body, fetchTailText = None, strippedFetchLimit = None\<rparr>
      else
        let engine = Some (d_engine dialect);
            plainLimit = re_exec PLAIN_LIMIT (maskCommentsAndStrings body engine) 0
        in if plainLimit \<noteq> None \<and> oracleFetchTail body = None then
             let m = the plainLimit;
                 rows = number_of_digits (group_text (maskCommentsAndStrings body engine) m 1)
             in Inr (take_fetch_tail
                  (slice body 0 (m_index m) @ ''FETCH FIRST '' @ number_text rows @ '' ROWS ONLY''
                   @ slice_from body (m_end m)))
           else if re_test STRAY_LIMIT (stripCommentsAndStrings body engine) then
             Inl (blocked original ''limit_unsupported''
               (d_promptLabel dialect @ '' has no LIMIT clause. Remove it and order the results instead; the row cap is applied when the query runs.''))
           else Inr (take_fetch_tail body))"

section \<open>EXPLAIN, and the lexical floor\<close>

definition EXPLAIN_PREFIX :: regex where
  "EXPLAIN_PREFIX = cats
     [Bol, Star ws, cis ''explain'',
      Star (Group 1 (ors
        [cats [plus ws, cis ''query'', plus ws, cis ''plan''], cats [plus ws, cis ''analyze''],
         cats [plus ws, cis ''verbose''],
         cats [Star ws, lit (CHR ''(''), Star (none_of '')''), lit (CHR '')'')]])),
      plus ws]"

definition explain_length :: "string \<Rightarrow> nat option" where
  "explain_length body = map_option m_end (re_exec EXPLAIN_PREFIX body 0)"

definition LOCKING_CLAUSE :: regex where
  "LOCKING_CLAUSE = cats
     [WordB, cis ''for'', plus ws,
      Group 1 (ors [cis ''update'', cis ''share'', cats [cis ''no'', plus ws, cis ''key'', plus ws, cis ''update''],
        cats [cis ''key'', plus ws, cis ''share'']]), WordB]"

definition LOCK_IN_SHARE_MODE :: regex where
  "LOCK_IN_SHARE_MODE = cats
     [WordB, cis ''lock'', plus ws, cis ''in'', plus ws, cis ''share'', plus ws, cis ''mode'', WordB]"

definition INTO_OUTFILE :: regex where
  "INTO_OUTFILE = cats [WordB, cis ''into'', plus ws, Group 1 (Or (cis ''outfile'') (cis ''dumpfile'')), WordB]"

definition floor_violation :: "DialectInfo \<Rightarrow> string \<Rightarrow> violation option" where
  "floor_violation dialect strippedInner =
     (if re_test LOCKING_CLAUSE strippedInner \<or> re_test LOCK_IN_SHARE_MODE strippedInner then
        Some \<lparr>ruleId = ''locking_clause'', reason = ''Row-locking clauses (FOR UPDATE/SHARE) are not allowed.''\<rparr>
      else if re_test INTO_OUTFILE strippedInner then
        Some \<lparr>ruleId = ''into_outfile'', reason = ''Writing query output to files is not allowed.''\<rparr>
      else if d_quoteChar dialect \<noteq> BACKTICK \<and> str_includes strippedInner [BACKTICK] then
        Some \<lparr>ruleId = ''backtick_identifier'',
              reason = ''Backtick-quoted identifiers are MySQL-only. '' @ d_promptLabel dialect
                @ '' quotes identifiers with '' @ [d_quoteChar dialect] @ '': write '' @ [d_quoteChar dialect]
                @ ''Order Status'' @ [d_quoteChar dialect] @ '', not '' @ [BACKTICK] @ ''Order Status'' @ [BACKTICK] @ ''.''\<rparr>
      else if d_engine dialect = ''sqlite'' \<and> sqliteRecursiveWedge strippedInner then
        Some \<lparr>ruleId = ''recursive_no_limit'',
              reason = ''This recursive query could run without stopping. Add a LIMIT so it stays bounded.''\<rparr>
      else None)"

section \<open>The row cap\<close>

definition FETCH_COUNT :: regex where
  "FETCH_COUNT = Cat
     (Group 1 (cats [cis ''FETCH'', plus ws, Or (cis ''FIRST'') (cis ''NEXT''), plus ws]))
     (Group 2 (plus dig))"

definition LIMIT_ALL :: regex where
  "LIMIT_ALL = cats [Group 1 (cats [WordB, cis ''limit'', plus ws]), cis ''all'', WordB]"

definition LIMIT_ALL_START :: regex where
  "LIMIT_ALL_START = cats [Bol, Group 1 (cats [cis ''limit'', plus ws]), cis ''all'', WordB]"

definition cap_after_head :: "string \<Rightarrow> nat \<Rightarrow> rmatch \<Rightarrow> string" where
  "cap_after_head s maxRows m = group_text s m 1 @ show_nat maxRows"

definition replace_limit_all :: "string \<Rightarrow> nat \<Rightarrow> nat option \<Rightarrow> string" where
  "replace_limit_all body maxRows pos =
     (case pos of
        None \<Rightarrow> replace_first LIMIT_ALL body (cap_after_head body maxRows)
      | Some k \<Rightarrow>
          slice body 0 k @ replace_first LIMIT_ALL_START (slice_from body k) (cap_after_head (slice_from body k) maxRows))"

definition accepted :: "string \<Rightarrow> string list \<Rightarrow> bool \<Rightarrow> bool \<Rightarrow> string list \<Rightarrow> GuardVerdict" where
  "accepted sql warnings autoLimited loweredLimit tables =
     \<lparr>v_allowed = True, v_sql = sql, v_ruleId = None, v_reason = None, v_warnings = warnings,
      v_autoLimited = autoLimited, v_loweredLimit = loweredLimit, v_tables = Some tables\<rparr>"

definition cap_rows :: "GuardPolicy \<Rightarrow> DialectInfo \<Rightarrow> string \<Rightarrow> string \<Rightarrow> fetch_state \<Rightarrow> LimitStatus \<Rightarrow> string list \<Rightarrow> GuardVerdict" where
  "cap_rows policy dialect original body fs status tables =
     (case fetchTailText fs of
        Some tail \<Rightarrow>
          (if strippedFetchLimit fs \<noteq> None \<and> p_maxRows policy < the (strippedFetchLimit fs)
           then accepted (inner fs @ replace_first FETCH_COUNT tail (cap_after_head tail (p_maxRows policy)))
                  [] False True tables
           else accepted (inner fs @ tail) [] False False tables)
      | None \<Rightarrow>
          (case status of
             LNone \<Rightarrow>
               (if d_limitStyle dialect = FetchStyle then accepted body [] False False tables
                else accepted (body @ [LF] @ ''LIMIT '' @ show_nat (p_maxRows policy)) [] True False tables)
           | LHigh \<Rightarrow>
               (case lowerLimitInText body (p_maxRows policy) (Some (d_engine dialect)) of
                  Some edited \<Rightarrow> accepted edited [] False True tables
                | None \<Rightarrow> accepted body
                    [''The row limit is higher than allowed; it is enforced at execution time.''] False False tables)
           | LUnbounded pos \<Rightarrow>
               (let replaced = replace_limit_all body (p_maxRows policy) pos in
                if replaced = body
                then blocked original ''limit_unbounded''
                       ''A row limit of ALL cannot be capped; ask for a specific number of rows.''
                else accepted replaced [] False True tables)
           | LNonliteral \<Rightarrow>
               blocked original ''limit_nonliteral''
                 ''The row limit must be a plain number so the row cap can be applied.''
           | LOk \<Rightarrow> accepted body [] False False tables))"

section \<open>The guard\<close>

definition toParse :: "DialectInfo \<Rightarrow> string \<Rightarrow> string" where
  "toParse dialect s = (if d_engine dialect = ''sqlite'' then fst (rewriteSqliteMatch s) else s)"

definition PARSE_FAILED_REASON :: string where
  "PARSE_FAILED_REASON =
     ''The safety validator could not parse this query. Quote any identifier that is not a plain word - a column named Order Status must be written ''
     @ [DQUOTE] @ ''Order Status'' @ [DQUOTE]
     @ '', not bare. Otherwise rewrite it using plain standard SQL: avoid vendor-specific forms like SUBSTRING(x FROM ''
     @ [SQUOTE] @ ''pattern'' @ [SQUOTE]
     @ '') and use regexp_replace/split_part or standard function-call syntax instead.''"

text \<open>\<open>Array.isArray(ast) ? ast : [ast]\<close>\<close>

definition statements_of :: "jsval \<Rightarrow> jsval list" where
  "statements_of ast = (case arr_of ast of Some xs \<Rightarrow> xs | None \<Rightarrow> [ast])"

definition root_type :: "jsval \<Rightarrow> string" where
  "root_type stmt = (case str_of (get_prop stmt ''type'') of None \<Rightarrow> [] | Some t \<Rightarrow> toLowerCase t)"

definition guard_tree :: "GuardPolicy \<Rightarrow> DialectInfo \<Rightarrow> string \<Rightarrow> string \<Rightarrow> fetch_state \<Rightarrow> nat option
    \<Rightarrow> jsval \<Rightarrow> string list \<Rightarrow> GuardVerdict" where
  "guard_tree policy dialect original body fs explain stmt tables =
     (if root_type stmt \<noteq> ''select'' then
        blocked original
          (''statement_not_allowed:'' @ (if root_type stmt = [] then ''unknown'' else root_type stmt))
          (''Only read-only SELECT statements are allowed (found ''
           @ (if root_type stmt = [] then ''UNKNOWN'' else toUpperCase (root_type stmt)) @ '').'')
      else
        (case walk (walk_context policy (d_engine dialect)) stmt 0 of
           Some viol \<Rightarrow> blocked original (ruleId viol) (reason viol)
         | None \<Rightarrow>
             (case explain of
                Some n \<Rightarrow> accepted (slice body 0 n @ inner fs) [] False False tables
              | None \<Rightarrow>
                  cap_rows policy dialect original body fs
                    (inspectLimit stmt (p_maxRows policy) body (Some (d_engine dialect))) tables)))"

definition guard_statement :: "parser \<Rightarrow> GuardPolicy \<Rightarrow> DialectInfo \<Rightarrow> string \<Rightarrow> string \<Rightarrow> fetch_state
    \<Rightarrow> nat option \<Rightarrow> thrown + GuardVerdict" where
  "guard_statement parse policy dialect original body fs explain =
     (case floor_violation dialect (stripCommentsAndStrings (inner fs) (Some (d_engine dialect))) of
        Some viol \<Rightarrow> Inr (blocked original (ruleId viol) (reason viol))
      | None \<Rightarrow>
          (case parse (toParse dialect (inner fs)) (d_grammar dialect) of
             None \<Rightarrow> Inr (blocked original ''parse_failed'' PARSE_FAILED_REASON)
           | Some (ast, tableList) \<Rightarrow>
               (case statements_of ast of
                  [stmt] \<Rightarrow>
                    (if is_nullish stmt then Inl (ThrownError ''TypeError'' ''Cannot read properties of a null or undefined root'')
                     else Inr (guard_tree policy dialect original body fs explain stmt (or_default tableList [])))
                | _ \<Rightarrow> Inr (blocked original ''multi_statement'' ''Only a single statement is allowed.''))))"

definition guard_body :: "parser \<Rightarrow> GuardPolicy \<Rightarrow> DialectInfo \<Rightarrow> string \<Rightarrow> string \<Rightarrow> string \<Rightarrow> thrown + GuardVerdict" where
  "guard_body parse policy dialect original strippedTrim body =
     (if d_engine dialect = ''sqlite'' \<and> re_test PRAGMA_START strippedTrim then Inr (pragma_verdict original body)
      else if d_engine dialect = ''mysql'' \<and> re_test SHOW_START strippedTrim
        then Inr (show_verdict original strippedTrim body)
      else
        (case fetch_stage dialect original body of
           Inl v \<Rightarrow> Inr v
         | Inr fs \<Rightarrow>
             (case explain_length body of
                Some n \<Rightarrow> guard_statement parse policy dialect original body (fs\<lparr>inner := slice_from body n\<rparr>) (Some n)
              | None \<Rightarrow> guard_statement parse policy dialect original body fs None)))"

definition TRAILING_SEMICOLON :: regex where
  "TRAILING_SEMICOLON = cats [lit (CHR '';''), Star ws, Eol]"

definition guard_checked :: "parser \<Rightarrow> GuardPolicy \<Rightarrow> DialectInfo \<Rightarrow> string \<Rightarrow> thrown + GuardVerdict" where
  "guard_checked parse policy dialect original =
     (let trimmed = trim original; engine = Some (d_engine dialect) in
      if trimmed = [] then Inr (blocked original ''empty'' ''The statement is empty.'')
      else if jsnum_lt (p_maxSqlLength policy) (of_nat (length trimmed)) then
        Inr (blocked original ''too_long'' ''The statement is too long to verify safely.'')
      else if d_engine dialect = ''mysql'' \<and> hasMysqlExecutableComment trimmed then
        Inr (blocked original ''mysql_executable_comment'' ''MySQL executable comments (/*! ... */) are not allowed.'')
      else
        let stripped = stripCommentsAndStrings trimmed engine in
        if hasMultipleStatements stripped then
          Inr (blocked original ''multi_statement'' ''Only a single statement is allowed.'')
        else
          guard_body parse policy dialect original
            (replace_first TRAILING_SEMICOLON (trim stripped) (\<lambda>_. []))
            (trimTrailingNoise trimmed engine))"

definition guardSql :: "parser \<Rightarrow> string option \<Rightarrow> DialectInfo \<Rightarrow> PartialGuardPolicy \<Rightarrow> thrown + GuardVerdict" where
  "guardSql parse sql dialect partial =
     (case resolveGuardPolicy partial of
        Inl e \<Rightarrow> Inl (ThrownAskSql e)
      | Inr policy \<Rightarrow> guard_checked parse policy dialect (or_default sql []))"

section \<open>The shape of a verdict\<close>

text \<open>
  A verdict that blocks carries the caller's text unchanged, a rule and a reason, and claims nothing about the
  statement; one that allows carries no rule, and says at most one of \<open>autoLimited\<close> and \<open>loweredLimit\<close>.
\<close>

definition verdict_ok :: "string \<Rightarrow> GuardVerdict \<Rightarrow> bool" where
  "verdict_ok original v \<longleftrightarrow>
     (if v_allowed v
      then v_ruleId v = None \<and> v_reason v = None \<and> \<not> (v_autoLimited v \<and> v_loweredLimit v)
      else v_sql v = original \<and> v_ruleId v \<noteq> None \<and> v_reason v \<noteq> None \<and> v_warnings v = []
        \<and> \<not> v_autoLimited v \<and> \<not> v_loweredLimit v \<and> v_tables v = None)"

lemma verdict_ok_intros [simp]:
  "verdict_ok original (blocked original rule why)"
  "verdict_ok original (allowed_as_is body)"
  "\<not> (auto \<and> lowered) \<Longrightarrow> verdict_ok original (accepted sql warnings auto lowered tables)"
  by (auto simp: verdict_ok_def blocked_def allowed_as_is_def accepted_def)

lemma verdict_fields [simp]:
  "\<not> v_allowed (blocked original rule why)"
  "v_allowed (allowed_as_is body)" "v_sql (allowed_as_is body) = body" "v_tables (allowed_as_is body) = None"
  "v_allowed (accepted sql warnings auto lowered tables)" "v_sql (accepted sql warnings auto lowered tables) = sql"
  "v_warnings (accepted sql warnings auto lowered tables) = warnings"
  "v_autoLimited (accepted sql warnings auto lowered tables) = auto"
  "v_loweredLimit (accepted sql warnings auto lowered tables) = lowered"
  "v_tables (accepted sql warnings auto lowered tables) = Some tables"
  by (auto simp: blocked_def allowed_as_is_def accepted_def)

lemma verdict_ok_cap_rows: "verdict_ok original (cap_rows policy dialect original body fs status tables)"
  by (auto simp: cap_rows_def Let_def split: option.split LimitStatus.split)

lemma verdict_ok_statement:
  "guard_statement parse policy dialect original body fs explain = Inr v \<Longrightarrow> verdict_ok original v"
  by (auto simp: guard_statement_def guard_tree_def verdict_ok_cap_rows
      split: option.splits list.splits if_splits)

lemma verdict_ok_body:
  assumes "guard_body parse policy dialect original strippedTrim body = Inr v"
  shows "verdict_ok original v"
proof -
  have "verdict_ok original v" if "fetch_stage dialect original body = Inl v"
    using that by (auto simp: fetch_stage_def Let_def split: if_splits)
  with assms show ?thesis
    by (auto simp: guard_body_def pragma_verdict_def show_verdict_def
        split: option.splits if_splits sum.splits dest: verdict_ok_statement)
qed

section \<open>What an allowed verdict went through\<close>

lemma statement_admits:
  assumes "guard_statement parse policy dialect original body fs explain = Inr v" "v_allowed v"
  obtains ast tl stmt where
    "floor_violation dialect (stripCommentsAndStrings (inner fs) (Some (d_engine dialect))) = None"
    "parse (toParse dialect (inner fs)) (d_grammar dialect) = Some (ast, tl)"
    "statements_of ast = [stmt]" "root_type stmt = ''select''"
    "walk (walk_context policy (d_engine dialect)) stmt 0 = None"
    "v = (case explain of
            Some n \<Rightarrow> accepted (slice body 0 n @ inner fs) [] False False (or_default tl [])
          | None \<Rightarrow> cap_rows policy dialect original body fs
              (inspectLimit stmt (p_maxRows policy) body (Some (d_engine dialect))) (or_default tl []))"
  using assms
  by (auto simp: guard_statement_def guard_tree_def split: option.splits list.splits if_splits prod.splits)

lemma fetch_stage_Inl: "fetch_stage dialect original body = Inl v \<Longrightarrow> \<not> v_allowed v"
  by (auto simp: fetch_stage_def Let_def split: if_splits)

lemma body_admits:
  assumes "guard_body parse policy dialect original strippedTrim body = Inr v" "v_allowed v"
  obtains (pragma) m where "d_engine dialect = ''sqlite''" "re_exec PRAGMA_FORM body 0 = Some m"
      "toLowerCase (group_text body m 1) \<in> set SQLITE_PRAGMA_READ_ALLOWLIST" "v = allowed_as_is body"
    | (show_cmd) "d_engine dialect = ''mysql''" "\<not> re_test SHOW_TAIL_EXECUTES strippedTrim"
      "re_test MYSQL_SHOW_ALLOW strippedTrim \<or> re_test DESCRIBE_FORM body" "v = allowed_as_is body"
    | (explained) fs n where "fetch_stage dialect original body = Inr fs" "explain_length body = Some n"
      "guard_statement parse policy dialect original body (fs\<lparr>inner := slice_from body n\<rparr>) (Some n) = Inr v"
    | (plain) fs where "fetch_stage dialect original body = Inr fs" "explain_length body = None"
      "guard_statement parse policy dialect original body fs None = Inr v"
  using assms fetch_stage_Inl
  by (auto simp: guard_body_def pragma_verdict_def show_verdict_def
      split: option.splits if_splits sum.splits)

lemma guard_admits:
  assumes "guardSql parse sql dialect partial = Inr v" "v_allowed v"
  obtains policy where "resolveGuardPolicy partial = Inr policy"
    "trim (or_default sql []) \<noteq> []"
    "\<not> jsnum_lt (p_maxSqlLength policy) (of_nat (length (trim (or_default sql []))))"
    "d_engine dialect = ''mysql'' \<Longrightarrow> \<not> hasMysqlExecutableComment (trim (or_default sql []))"
    "\<not> hasMultipleStatements (stripCommentsAndStrings (trim (or_default sql [])) (Some (d_engine dialect)))"
    "guard_body parse policy dialect (or_default sql [])
       (replace_first TRAILING_SEMICOLON (trim (stripCommentsAndStrings (trim (or_default sql [])) (Some (d_engine dialect)))) (\<lambda>_. []))
       (trimTrailingNoise (trim (or_default sql [])) (Some (d_engine dialect))) = Inr v"
  using assms
  by (auto simp: guardSql_def guard_checked_def Let_def split: sum.splits if_splits)

section \<open>Properties\<close>

text \<open>The caller's text, and the statement in it that the guard works on.\<close>

abbreviation the_text :: "string option \<Rightarrow> string" where
  "the_text sql \<equiv> trim (or_default sql [])"

abbreviation the_body :: "string option \<Rightarrow> DialectInfo \<Rightarrow> string" where
  "the_body sql dialect \<equiv> trimTrailingNoise (the_text sql) (Some (d_engine dialect))"

abbreviation the_stripped :: "string option \<Rightarrow> DialectInfo \<Rightarrow> string" where
  "the_stripped sql dialect \<equiv> replace_first TRAILING_SEMICOLON
     (trim (stripCommentsAndStrings (the_text sql) (Some (d_engine dialect)))) (\<lambda>_. [])"

lemma cap_rows_tables:
  "v_allowed (cap_rows policy dialect original body fs status tables) \<Longrightarrow>
     v_tables (cap_rows policy dialect original body fs status tables) = Some tables"
  by (auto simp: cap_rows_def Let_def split: option.split LimitStatus.split)

lemma cap_rows_text:
  assumes "v_allowed (cap_rows policy dialect original body fs status tables)"
    and "\<not> v_loweredLimit (cap_rows policy dialect original body fs status tables)"
    and "fetchTailText fs = None" "d_limitStyle dialect \<noteq> FetchStyle"
  shows "v_sql (cap_rows policy dialect original body fs status tables) = body
    \<or> v_autoLimited (cap_rows policy dialect original body fs status tables)
      \<and> v_sql (cap_rows policy dialect original body fs status tables) = body @ LF # ''LIMIT '' @ show_nat (p_maxRows policy)"
  using assms by (auto simp: cap_rows_def Let_def split: option.splits LimitStatus.splits if_splits)

text \<open>The state of the fetch stage in a dialect that has no fetch clause.\<close>

definition plain_state :: "string \<Rightarrow> fetch_state" where
  "plain_state body = \<lparr>inner = body, fetchTailText = None, strippedFetchLimit = None\<rparr>"

text \<open>What the row cap promises for each status of the limit; a limit that is no number has no outcome.\<close>

definition row_outcome :: "nat \<Rightarrow> string \<Rightarrow> string option \<Rightarrow> LimitStatus \<Rightarrow> GuardVerdict \<Rightarrow> bool" where
  "row_outcome cap body engine status v \<longleftrightarrow>
     (case status of
        LOk \<Rightarrow> v_sql v = body
      | LNone \<Rightarrow> v_autoLimited v \<and> v_sql v = body @ LF # ''LIMIT '' @ show_nat cap
      | LHigh \<Rightarrow>
          (case lowerLimitInText body cap engine of
             Some t \<Rightarrow> v_loweredLimit v \<and> v_sql v = t
           | None \<Rightarrow> v_warnings v \<noteq> [] \<and> v_sql v = body)
      | LUnbounded pos \<Rightarrow> v_loweredLimit v \<and> v_sql v \<noteq> body \<and> v_sql v = replace_limit_all body cap pos
      | LNonliteral \<Rightarrow> False)"

lemma cap_rows_bounded:
  assumes "v_allowed (cap_rows policy dialect original body (plain_state body) status tables)"
    and "d_limitStyle dialect \<noteq> FetchStyle"
  shows "row_outcome (p_maxRows policy) body (Some (d_engine dialect)) status
    (cap_rows policy dialect original body (plain_state body) status tables)"
  using assms
  by (auto simp: row_outcome_def cap_rows_def plain_state_def Let_def split: option.splits LimitStatus.splits if_splits)

lemma fetch_stage_plain:
  "d_limitStyle dialect \<noteq> FetchStyle \<Longrightarrow> fetch_stage dialect original body = Inr (plain_state body)"
  by (simp add: fetch_stage_def plain_state_def)

lemma explain_split:
  "explain_length body = Some n \<Longrightarrow> slice body 0 n @ slice_from body n = body \<and> length (slice body 0 n) = n"
  by (auto simp: explain_length_def slice_def slice_from_def dest!: re_exec_Some(3))

lemma select_admits:
  assumes "guardSql parse sql dialect partial = Inr v" "v_allowed v" "v_tables v \<noteq> None"
    and plain: "d_limitStyle dialect \<noteq> FetchStyle"
  obtains policy before q ast tl stmt where
    "resolveGuardPolicy partial = Inr policy"
    "before @ q = the_body sql dialect"
    "floor_violation dialect (stripCommentsAndStrings q (Some (d_engine dialect))) = None"
    "parse (toParse dialect q) (d_grammar dialect) = Some (ast, tl)"
    "statements_of ast = [stmt]" "root_type stmt = ''select''"
    "1 \<le> p_maxRows policy" "p_maxRows policy \<le> MAX_ROW_CAP"
    "explain_length (the_body sql dialect) = Some (length before) \<and> v = accepted (the_body sql dialect) [] False False (or_default tl [])
     \<or> before = [] \<and> explain_length (the_body sql dialect) = None
        \<and> v = cap_rows policy dialect (or_default sql []) (the_body sql dialect) (plain_state (the_body sql dialect))
            (inspectLimit stmt (p_maxRows policy) (the_body sql dialect) (Some (d_engine dialect))) (or_default tl [])"
proof -
  obtain policy where resolved: "resolveGuardPolicy partial = Inr policy"
    and body: "guard_body parse policy dialect (or_default sql []) (the_stripped sql dialect) (the_body sql dialect) = Inr v"
    using guard_admits [OF assms(1,2)] by metis
  from body assms(2) show ?thesis
  proof (cases rule: body_admits)
    case (explained fs n)
    from explained(3) assms(2) show ?thesis
      by (rule statement_admits)
        (rule that [where policy = policy and before = "slice (the_body sql dialect) 0 n"], use explain_split [OF explained(2)] explained(2) resolved resolve_maxRows [OF resolved] in simp_all)
  next
    case (plain fs)
    have fs: "fs = plain_state (the_body sql dialect)" "inner fs = the_body sql dialect"
      using plain(1) fetch_stage_plain [OF assms(4)] by (auto simp: plain_state_def)
    from plain(3) assms(2) show ?thesis
      by (rule statement_admits)
        (rule that [where policy = policy and before = "[]"],
         use plain(2) fs resolved resolve_maxRows [OF resolved] in simp_all)
  qed (use assms(3) in auto)
qed

text \<open>A policy that asks for at most \<open>n\<close> rows and is otherwise the default one.\<close>

definition row_policy :: "nat \<Rightarrow> PartialGuardPolicy" where
  "row_policy n = no_policy\<lparr>pp_maxRows := Some (Fin (of_nat n))\<rparr>"

lemma resolve_row_policy:
  "1 \<le> n \<Longrightarrow> n \<le> MAX_ROW_CAP \<Longrightarrow>
     resolveGuardPolicy (row_policy n) = Inr (DEFAULT_GUARD_POLICY\<lparr>p_maxRows := n\<rparr>)"
  by (simp add: resolveGuardPolicy_def row_policy_def no_policy_def or_default_def DEFAULT_GUARD_POLICY_def)

definition sample_select :: jsval where
  "sample_select = JObj [(''type'', JStr ''select''), (''limit'', JNull)]"

definition sample_parser :: parser where
  "sample_parser text grammar = Some (sample_select, Some [''select::null::t''])"

lemma sample_guard:
  "guardSql sample_parser (Some ''SELECT a FROM t;'') POSTGRES_DIALECT (row_policy 5)
     = Inr (accepted (''SELECT a FROM t'' @ [LF] @ ''LIMIT 5'') [] True False [''select::null::t''])"
proof -
  have "guard_checked sample_parser (DEFAULT_GUARD_POLICY\<lparr>p_maxRows := 5\<rparr>) POSTGRES_DIALECT ''SELECT a FROM t;''
     = Inr (accepted (''SELECT a FROM t'' @ [LF] @ ''LIMIT 5'') [] True False [''select::null::t''])"
    by code_simp
  then show ?thesis
    by (simp add: guardSql_def resolve_row_policy MAX_ROW_CAP_def or_default_def)
qed







text \<open>
  C14: every verdict is well formed. One that blocks returns the caller's text unchanged with a rule and a reason
  and claims no rewriting, no warning and no table list; one that allows carries no rule and never
  claims both to have added and to have lowered a limit.
\<close>

theorem guard_verdict_well_formed:
  assumes "guardSql parse sql dialect partial = Inr v"
  shows "verdict_ok (or_default sql []) v"
  using assms
  by (auto simp: guardSql_def guard_checked_def Let_def split: sum.splits if_splits dest: verdict_ok_body)

theorem guard_verdict_well_formed_witness:
  "verdict_ok ''SELECT a FROM t;'' (accepted (''SELECT a FROM t'' @ [LF] @ ''LIMIT 5'') [] True False [''select::null::t''])"
  using guard_verdict_well_formed [OF sample_guard] by (simp add: or_default_def)

text \<open>
  The guard fails closed. If the parser rejects every text, the only statements that are allowed are the
  allowlisted read commands of SQLite and MySQL; on any other engine nothing is.
\<close>

theorem guard_fails_closed:
  assumes "\<And>q g. parse q g = None" "guardSql parse sql dialect partial = Inr v" "v_allowed v"
  shows "d_engine dialect \<in> {''sqlite'', ''mysql''} \<and> v_tables v = None \<and> v_sql v = the_body sql dialect"
proof -
  obtain policy where body: "guard_body parse policy dialect (or_default sql []) (the_stripped sql dialect) (the_body sql dialect) = Inr v"
    using guard_admits [OF assms(2,3)] by metis
  have "\<not> v_allowed w" if "guard_statement parse policy dialect original b fs explain = Inr w" for original b fs explain w
    using that assms(1) by (auto simp: guard_statement_def split: option.splits)
  note rejected = this
  from body assms(3) show ?thesis
  proof (cases rule: body_admits)
    case (explained fs n)
    with rejected assms(3) show ?thesis by blast
  next
    case (plain fs)
    with rejected assms(3) show ?thesis by blast
  qed auto
qed

theorem guard_fails_closed_witness:
  "d_engine MYSQL_DIALECT \<in> {''sqlite'', ''mysql''}
   \<and> v_tables (allowed_as_is ''SHOW TABLES'') = None
   \<and> v_sql (allowed_as_is ''SHOW TABLES'') = the_body (Some ''SHOW TABLES;'') MYSQL_DIALECT"
proof (rule guard_fails_closed)
  have "guard_checked (\<lambda>_ _. None) (DEFAULT_GUARD_POLICY\<lparr>p_maxRows := 5\<rparr>) MYSQL_DIALECT ''SHOW TABLES;''
      = Inr (allowed_as_is ''SHOW TABLES'')"
    by code_simp
  then show "guardSql (\<lambda>_ _. None) (Some ''SHOW TABLES;'') MYSQL_DIALECT (row_policy 5) = Inr (allowed_as_is ''SHOW TABLES'')"
    by (simp add: guardSql_def resolve_row_policy MAX_ROW_CAP_def or_default_def)
qed simp_all

text \<open>
  The guard throws in two cases only: the policy asks for a mode other than read-only, or the parser answers
  a lone null or undefined tree.
\<close>

theorem guard_throws_only:
  "(\<exists>e. guardSql parse sql dialect partial = Inl e) \<longrightarrow>
     pp_mode partial \<notin> {None, Some [], Some ''read-only''}
     \<or> (\<exists>q ast tl stmt. parse q (d_grammar dialect) = Some (ast, tl) \<and> statements_of ast = [stmt] \<and> is_nullish stmt)"
proof -
  have stmt: "\<exists>q ast tl stmt. parse q (d_grammar dialect) = Some (ast, tl) \<and> statements_of ast = [stmt] \<and> is_nullish stmt"
    if "guard_statement parse policy dialect original body fs explain = Inl e" for policy original body fs explain e
    using that by (auto simp: guard_statement_def split: option.splits list.splits if_splits prod.splits)
  have "\<exists>q ast tl stmt. parse q (d_grammar dialect) = Some (ast, tl) \<and> statements_of ast = [stmt] \<and> is_nullish stmt"
    if "guard_body parse policy dialect original st body = Inl e" for policy original st body e
    using that by (auto simp: guard_body_def split: if_splits sum.splits option.splits dest!: stmt)
  then show ?thesis
    using resolve_Inr_iff [of partial]
    by (auto simp: guardSql_def guard_checked_def Let_def split: sum.splits if_splits)
qed

theorem guard_throws_only_witness:
  "\<exists>q ast tl stmt. (\<lambda>_ _. Some (JNull, None)) q (d_grammar POSTGRES_DIALECT) = Some (ast, tl)
     \<and> statements_of ast = [stmt] \<and> is_nullish stmt"
proof -
  have "guard_checked (\<lambda>_ _. Some (JNull, None)) (DEFAULT_GUARD_POLICY\<lparr>p_maxRows := 5\<rparr>) POSTGRES_DIALECT ''SELECT 1''
      = Inl (ThrownError ''TypeError'' ''Cannot read properties of a null or undefined root'')"
    by code_simp
  then have "\<exists>e. guardSql (\<lambda>_ _. Some (JNull, None)) (Some ''SELECT 1'') POSTGRES_DIALECT (row_policy 5) = Inl e"
    by (simp add: guardSql_def resolve_row_policy MAX_ROW_CAP_def or_default_def)
  from guard_throws_only [THEN mp, OF this] show ?thesis
    by (simp add: row_policy_def no_policy_def)
qed

text \<open>
  The scanner nests block comments on every engine, but MySQL's do not nest. There the text hides what MySQL
  executes: the locking clause behind the first comment end is not seen by the lexical floor, although the
  guard's own scan for executable comments ends the comment in front of it.
\<close>

theorem nested_comment_hides_lock:
  "floor_violation MYSQL_DIALECT (stripCommentsAndStrings ''SELECT 1 /* /* */ FOR UPDATE'' (Some ''mysql'')) = None
   \<and> slice_from ''SELECT 1 /* /* */ FOR UPDATE'' (skip_plain_block ''SELECT 1 /* /* */ FOR UPDATE'' 11 + 2) = '' FOR UPDATE''
   \<and> floor_violation MYSQL_DIALECT (stripCommentsAndStrings ''SELECT 1 /* */ FOR UPDATE'' (Some ''mysql'')) \<noteq> None"
  by code_simp

end
