(* ===== verification/JSON.thy ===== *)
theory JSON
  imports JS_Value
begin

text \<open>
  \<open>JSON.parse\<close> and \<open>JSON.stringify\<close>. The parser is a lexer followed by a stack machine over the tokens,
  so both run over their input once and need no fuel. Text is Latin-1 here, so a \<open>\u\<close> escape
  above \<open>\u00FF\<close> is outside the model and read as an error.
\<close>

section \<open>Tokens\<close>

datatype jtok = TLBrack | TRBrack | TLBrace | TRBrace | TComma | TColon | TStr string | TNum jsnum | TWord jsval

definition hex_digit :: "char \<Rightarrow> nat option" where
  "hex_digit c =
     (if is_digit c then Some (code c - 48)
      else if 97 \<le> code c \<and> code c \<le> 102 then Some (code c - 87)
      else if 65 \<le> code c \<and> code c \<le> 70 then Some (code c - 55)
      else None)"

definition json_escape_char :: "char \<Rightarrow> char option" where
  "json_escape_char c =
     map_of [(DQUOTE, DQUOTE), (BSLASH, BSLASH), (CHR ''/'', CHR ''/''), (CHR ''b'', char_of (8 :: nat)),
             (CHR ''f'', char_of (12 :: nat)), (CHR ''n'', LF), (CHR ''r'', CR), (CHR ''t'', char_of (9 :: nat))] c"

text \<open>The rest of a string literal behind its opening quote: its contents and what follows the closing quote.\<close>

fun json_string :: "string \<Rightarrow> (string \<times> string) option" where
  "json_string [] = None"
| "json_string (c # cs) =
     (if c = DQUOTE then Some ([], cs)
      else if c = BSLASH then
        (case cs of
           [] \<Rightarrow> None
         | e # cs' \<Rightarrow>
             (if e = CHR ''u'' then
                (case cs' of
                   a # b # h # l # r \<Rightarrow>
                     (case (hex_digit a, hex_digit b, hex_digit h, hex_digit l) of
                        (Some 0, Some 0, Some x, Some y) \<Rightarrow>
                          map_option (\<lambda>(t, u). (char_of (16 * x + y) # t, u)) (json_string r)
                      | _ \<Rightarrow> None)
                 | _ \<Rightarrow> None)
              else
                (case json_escape_char e of
                   None \<Rightarrow> None
                 | Some x \<Rightarrow> map_option (\<lambda>(t, u). (x # t, u)) (json_string cs'))))
      else if code c < 32 then None
      else map_option (\<lambda>(t, u). (c # t, u)) (json_string cs))"

text \<open>\<open>(0|[1-9][0-9]*)(\.[0-9]+)?([eE][+-]?[0-9]+)?\<close>, each part with what follows it.\<close>

definition json_int_part :: "string \<Rightarrow> (string \<times> string) option" where
  "json_int_part s =
     (case s of
        [] \<Rightarrow> None
      | c # cs \<Rightarrow>
          if c = CHR ''0'' then Some (''0'', cs)
          else if is_digit c then Some (takeWhile is_digit s, dropWhile is_digit s) else None)"

definition json_frac_part :: "string \<Rightarrow> (string \<times> string) option" where
  "json_frac_part s =
     (case s of
        c # cs \<Rightarrow>
          if c = CHR ''.'' then
            (if takeWhile is_digit cs = [] then None else Some (takeWhile is_digit cs, dropWhile is_digit cs))
          else Some ([], s)
      | [] \<Rightarrow> Some ([], s))"

definition json_exp_digits :: "int \<Rightarrow> string \<Rightarrow> (int \<times> string) option" where
  "json_exp_digits sign s =
     (if takeWhile is_digit s = [] then None
      else Some (sign * digits_int 0 (takeWhile is_digit s), dropWhile is_digit s))"

definition json_exp_part :: "string \<Rightarrow> (int \<times> string) option" where
  "json_exp_part s =
     (case s of
        c # cs \<Rightarrow>
          if c = CHR ''e'' \<or> c = CHR ''E'' then
            (case cs of
               [] \<Rightarrow> None
             | d # ds \<Rightarrow>
                 if d = CHR ''+'' then json_exp_digits 1 ds
                 else if d = CHR ''-'' then json_exp_digits (- 1) ds
                 else json_exp_digits 1 cs)
          else Some (0, s)
      | [] \<Rightarrow> Some (0, s))"

definition json_unsigned :: "string \<Rightarrow> (rat \<times> string) option" where
  "json_unsigned s =
     (case json_int_part s of
        None \<Rightarrow> None
      | Some (ip, s1) \<Rightarrow>
          (case json_frac_part s1 of
             None \<Rightarrow> None
           | Some (fp, s2) \<Rightarrow>
               (case json_exp_part s2 of
                  None \<Rightarrow> None
                | Some (e, s3) \<Rightarrow>
                    Some (scale 10 (of_int (digits_int 0 (ip @ fp))) (e - int (length fp)), s3))))"

definition json_number :: "string \<Rightarrow> (jsnum \<times> string) option" where
  "json_number s =
     (case s of
        [] \<Rightarrow> None
      | c # cs \<Rightarrow>
          if c = CHR ''-'' then map_option (\<lambda>(q, r). (read_double (- q), r)) (json_unsigned cs)
          else map_option (\<lambda>(q, r). (read_double q, r)) (json_unsigned s))"

definition json_ws :: "char \<Rightarrow> bool" where
  "json_ws c \<longleftrightarrow> code c \<in> {9, 10, 13, 32}"

text \<open>One token, or \<^term>\<open>Inl\<close> for a blank; \<^term>\<open>None\<close> where no token starts.\<close>

definition json_token :: "string \<Rightarrow> (unit + jtok) option \<times> string" where
  "json_token s =
     (case s of
        [] \<Rightarrow> (None, [])
      | c # cs \<Rightarrow>
          if json_ws c then (Some (Inl ()), cs)
          else if c = CHR ''['' then (Some (Inr TLBrack), cs)
          else if c = CHR '']'' then (Some (Inr TRBrack), cs)
          else if c = CHR ''{'' then (Some (Inr TLBrace), cs)
          else if c = CHR ''}'' then (Some (Inr TRBrace), cs)
          else if c = CHR '','' then (Some (Inr TComma), cs)
          else if c = CHR '':'' then (Some (Inr TColon), cs)
          else if c = DQUOTE then
            (case json_string cs of None \<Rightarrow> (None, cs) | Some (t, r) \<Rightarrow> (Some (Inr (TStr t)), r))
          else if starts_with s ''true'' then (Some (Inr (TWord (JBool True))), drop 4 s)
          else if starts_with s ''false'' then (Some (Inr (TWord (JBool False))), drop 5 s)
          else if starts_with s ''null'' then (Some (Inr (TWord JNull)), drop 4 s)
          else (case json_number s of None \<Rightarrow> (None, cs) | Some (x, r) \<Rightarrow> (Some (Inr (TNum x)), r)))"

lemma json_string_shorter: "json_string s = Some (t, r) \<Longrightarrow> length r < length s"
  by (induction s arbitrary: t rule: json_string.induct)
    (fastforce split: if_splits list.splits option.splits nat.splits)+

lemma dropWhile_le: "length (dropWhile P xs) \<le> length xs"
  by (induction xs) auto

lemma takeWhile_shorter: "takeWhile P xs \<noteq> [] \<Longrightarrow> length (dropWhile P xs) < length xs"
  by (cases xs) (auto split: if_splits intro: le_imp_less_Suc dropWhile_le)

lemma json_number_shorter:
  assumes "json_number s = Some (x, r)"
  shows "length r < length s"
proof -
  have ip: "length r < length s" if "json_int_part s = Some (t, r)" for s t r
    using that by (auto simp: json_int_part_def dropWhile_le le_imp_less_Suc split: list.splits if_splits)
  have fp: "length r \<le> length s" if "json_frac_part s = Some (t, r)" for s t r
    using that dropWhile_le [of is_digit "tl s"] by (auto simp: json_frac_part_def split: list.splits if_splits)
  have ed: "length r \<le> length s" if "json_exp_digits g s = Some (e, r)" for g s e r
    using that dropWhile_le by (auto simp: json_exp_digits_def split: if_splits)
  have ep: "length r \<le> length s" if "json_exp_part s = Some (e, r)" for s e r
    using that by (auto simp: json_exp_part_def split: list.splits if_splits dest!: ed)
  have "length r < length s" if "json_unsigned s = Some (q, r)" for s q r
    using that by (auto simp: json_unsigned_def split: option.splits prod.splits dest!: ip fp ep)
  with assms show ?thesis
    by (cases s) (fastforce simp: json_number_def split: if_splits)+
qed

lemma json_token_shorter: "json_token s = (Some t, r) \<Longrightarrow> length r < length s"
proof (cases s)
  case (Cons c cs)
  assume tok: "json_token s = (Some t, r)"
  consider "r = cs" | u where "json_string cs = Some (u, r)" | n where "r = drop (Suc n) s"
    | x where "json_number s = Some (x, r)"
    using tok unfolding json_token_def Cons
    by (auto split: if_splits option.splits prod.splits simp: eval_nat_numeral)
  then show ?thesis
    by cases (auto simp: Cons dest: json_string_shorter json_number_shorter)
qed (simp add: json_token_def)

function json_lex :: "string \<Rightarrow> jtok list option" where
  "json_lex s =
     (if s = [] then Some []
      else (case json_token s of
              (None, _) \<Rightarrow> None
            | (Some (Inl _), r) \<Rightarrow> json_lex r
            | (Some (Inr t), r) \<Rightarrow> map_option ((#) t) (json_lex r)))"
  by pat_completeness auto
termination
  by (relation "measure length") (auto dest!: json_token_shorter [OF sym])

declare json_lex.simps [simp del]

section \<open>Objects\<close>

text \<open>
  \<open>o[k] = v\<close> on the own properties, and the order of \<open>Object.keys\<close>: array indices in ascending order
  first, then the other keys in the order of their creation.
\<close>

definition set_prop :: "props \<Rightarrow> string \<Rightarrow> jsval \<Rightarrow> props" where
  "set_prop kvs k v =
     (if k \<in> fst ` set kvs then map (\<lambda>(k', v'). (k', if k' = k then v else v')) kvs else kvs @ [(k, v)])"

definition index_key :: "string \<Rightarrow> bool" where
  "index_key k \<longleftrightarrow> list_all is_digit k \<and> k \<noteq> [] \<and> (k = ''0'' \<or> hd k \<noteq> CHR ''0'')
     \<and> length k \<le> 10 \<and> digits_int 0 k < 4294967295"

definition own_order :: "props \<Rightarrow> props" where
  "own_order kvs =
     sort_key (\<lambda>(k, _). digits_int 0 k) (filter (\<lambda>(k, _). index_key k) kvs)
     @ filter (\<lambda>(k, _). \<not> index_key k) kvs"

definition object_of :: "(string \<times> jsval) list \<Rightarrow> jsval" where
  "object_of entries = JObj (own_order (foldl (\<lambda>kvs (k, v). set_prop kvs k v) [] entries))"

section \<open>The parser\<close>

text \<open>The open containers, innermost first, with their contents in reverse; an entry waits for its value.\<close>

datatype frame = FArr "jsval list" | FObj "(string \<times> jsval) list" | FEntry "(string \<times> jsval) list" string

datatype pstate =
    PValue "frame list"
  | PItemOrEnd "frame list"
  | PKeyOrEnd "frame list"
  | PKey "frame list"
  | PColon "frame list"
  | PAfter "frame list"
  | PDone jsval

fun deliver :: "jsval \<Rightarrow> frame list \<Rightarrow> pstate option" where
  "deliver v [] = Some (PDone v)"
| "deliver v (FArr xs # fs) = Some (PAfter (FArr (v # xs) # fs))"
| "deliver v (FEntry ps k # fs) = Some (PAfter (FObj ((k, v) # ps) # fs))"
| "deliver v (FObj ps # fs) = None"

fun start_value :: "frame list \<Rightarrow> jtok \<Rightarrow> pstate option" where
  "start_value fs TLBrack = Some (PItemOrEnd (FArr [] # fs))"
| "start_value fs TLBrace = Some (PKeyOrEnd (FObj [] # fs))"
| "start_value fs (TStr s) = deliver (JStr s) fs"
| "start_value fs (TNum x) = deliver (JNum x) fs"
| "start_value fs (TWord v) = deliver v fs"
| "start_value fs _ = None"

fun start_key :: "frame list \<Rightarrow> jtok \<Rightarrow> pstate option" where
  "start_key (FObj ps # fs) (TStr k) = Some (PColon (FEntry ps k # fs))"
| "start_key _ _ = None"

fun close_frame :: "frame list \<Rightarrow> jtok \<Rightarrow> pstate option" where
  "close_frame (FArr xs # fs) TRBrack = deliver (JArr (rev xs)) fs"
| "close_frame (FObj ps # fs) TRBrace = deliver (object_of (rev ps)) fs"
| "close_frame _ _ = None"

fun json_step :: "pstate \<Rightarrow> jtok \<Rightarrow> pstate option" where
  "json_step (PValue fs) t = start_value fs t"
| "json_step (PItemOrEnd fs) t = (if t = TRBrack then close_frame fs t else start_value fs t)"
| "json_step (PKeyOrEnd fs) t = (if t = TRBrace then close_frame fs t else start_key fs t)"
| "json_step (PKey fs) t = start_key fs t"
| "json_step (PColon fs) t = (if t = TColon then Some (PValue fs) else None)"
| "json_step (PAfter fs) t =
     (if t = TComma then (case fs of FObj _ # _ \<Rightarrow> Some (PKey fs) | FArr _ # _ \<Rightarrow> Some (PValue fs) | _ \<Rightarrow> None)
      else close_frame fs t)"
| "json_step (PDone v) t = None"

fun json_run :: "pstate \<Rightarrow> jtok list \<Rightarrow> pstate option" where
  "json_run st [] = Some st"
| "json_run st (t # ts) = (case json_step st t of None \<Rightarrow> None | Some st' \<Rightarrow> json_run st' ts)"

text \<open>\<^term>\<open>None\<close> where \<open>JSON.parse\<close> throws.\<close>

definition json_parse :: "string \<Rightarrow> jsval option" where
  "json_parse s =
     (case json_lex s of
        None \<Rightarrow> None
      | Some ts \<Rightarrow> (case json_run (PValue []) ts of Some (PDone v) \<Rightarrow> Some v | _ \<Rightarrow> None))"

section \<open>The printer\<close>

definition hex_char :: "nat \<Rightarrow> char" where
  "hex_char n = (if n < 10 then char_of (48 + n) else char_of (87 + n))"

definition json_quote_char :: "char \<Rightarrow> string" where
  "json_quote_char c =
     (if c = DQUOTE then [BSLASH, DQUOTE]
      else if c = BSLASH then [BSLASH, BSLASH]
      else if code c = 8 then [BSLASH, CHR ''b'']
      else if code c = 9 then [BSLASH, CHR ''t'']
      else if code c = 10 then [BSLASH, CHR ''n'']
      else if code c = 12 then [BSLASH, CHR ''f'']
      else if code c = 13 then [BSLASH, CHR ''r'']
      else if code c < 32 then [BSLASH] @ ''u00'' @ [hex_char (code c div 16), hex_char (code c mod 16)]
      else [c])"

definition json_quote :: "string \<Rightarrow> string" where
  "json_quote s = [DQUOTE] @ concat (map json_quote_char s) @ [DQUOTE]"

text \<open>
  \<open>JSON.stringify(v)\<close> of a value that is not \<open>undefined\<close>: a property that is \<open>undefined\<close> is left out, an
  item becomes \<open>null\<close>, and so does a number that is not finite.
\<close>

fun json_stringify :: "jsval \<Rightarrow> string" where
  "json_stringify JUndef = ''null''"
| "json_stringify JNull = ''null''"
| "json_stringify (JBool b) = (if b then ''true'' else ''false'')"
| "json_stringify (JNum x) = (if isFinite x then show_jsnum x else ''null'')"
| "json_stringify (JStr s) = json_quote s"
| "json_stringify (JArr xs) = ''['' @ join '','' (map json_stringify xs) @ '']''"
| "json_stringify (JObj kvs) =
     ''{'' @ join '','' (map (\<lambda>(k, v). json_quote k @ '':'' @ json_stringify v) (filter (\<lambda>(k, v). v \<noteq> JUndef) kvs))
     @ ''}''"

end
