(* ===== verification/Mongo_Guard.thy ===== *)
theory Mongo_Guard
  imports JSON JS_Regex Core_Types
begin

text \<open>
  The safety floor for MongoDB (\<open>packages/core/src/mongo/guard.ts\<close>): the reading of a pipeline, strict or in
  shell notation, the walk that admits read-only stages and refuses server-side code and unsafe
  regular expressions at any depth, and the row cap of a pipeline and of every facet in it.
\<close>

section \<open>Policy and tables\<close>

record MongoGuardPolicy =
  mp_maxRows :: jsnum
  mp_maxDepth :: jsnum
  mp_maxRegexPatternLength :: jsnum

record PartialMongoGuardPolicy =
  mpp_maxRows :: "jsnum option"
  mpp_maxDepth :: "jsnum option"
  mpp_maxRegexPatternLength :: "jsnum option"

definition DEFAULT_MONGO_GUARD_POLICY :: MongoGuardPolicy where
  "DEFAULT_MONGO_GUARD_POLICY =
     \<lparr>mp_maxRows = Fin 1000, mp_maxDepth = Fin 400, mp_maxRegexPatternLength = Fin 200\<rparr>"

text \<open>The default row cap as the fallback of \<open>clampMaxRows\<close>.\<close>

definition DEFAULT_MONGO_ROWS :: nat where
  "DEFAULT_MONGO_ROWS = 1000"

definition resolveMongoGuardPolicy :: "PartialMongoGuardPolicy \<Rightarrow> MongoGuardPolicy" where
  "resolveMongoGuardPolicy p =
     \<lparr>mp_maxRows = Fin (of_nat (clampMaxRows (Some (or_default (mpp_maxRows p) (mp_maxRows DEFAULT_MONGO_GUARD_POLICY)))
                                  DEFAULT_MONGO_ROWS)),
      mp_maxDepth = or_default (mpp_maxDepth p) (mp_maxDepth DEFAULT_MONGO_GUARD_POLICY),
      mp_maxRegexPatternLength =
        or_default (mpp_maxRegexPatternLength p) (mp_maxRegexPatternLength DEFAULT_MONGO_GUARD_POLICY)\<rparr>"

record MongoGuardVerdict =
  mv_allowed :: bool
  mv_pipelineJson :: string
  mv_ruleId :: "string option"
  mv_reason :: "string option"
  mv_autoLimited :: bool
  mv_loweredLimit :: bool
  mv_collections :: "string list"

definition ALLOWED_STAGES :: "string list" where
  "ALLOWED_STAGES =
     [''$match'', ''$project'', ''$group'', ''$sort'', ''$limit'', ''$skip'', ''$unwind'', ''$lookup'',
      ''$facet'', ''$count'', ''$sample'', ''$addFields'', ''$set'', ''$replaceRoot'',
      ''$replaceWith'', ''$bucket'', ''$bucketAuto'', ''$sortByCount'', ''$graphLookup'',
      ''$unionWith'', ''$geoNear'', ''$redact'', ''$unset'', ''$setWindowFields'', ''$densify'',
      ''$fill'', ''$documents'', ''$search'', ''$searchMeta'']"

definition DENIED_OPERATORS_ANYWHERE :: "string list" where
  "DENIED_OPERATORS_ANYWHERE = [''$where'', ''$function'', ''$accumulator'']"

definition REGEX_OPERATORS :: "string list" where
  "REGEX_OPERATORS = [''$regexMatch'', ''$regexFind'', ''$regexFindAll'']"

definition ARRAY_ACCUMULATORS :: "string list" where
  "ARRAY_ACCUMULATORS = [''$push'', ''$addToSet'']"

text \<open>\<open>/\([^()]*[+*][^()]*\)[+*]/\<close>\<close>

definition NESTED_QUANTIFIER :: regex where
  "NESTED_QUANTIFIER = cats
     [lit (CHR ''(''), Star (none_of ''()''), one_of ''+*'', Star (none_of ''()''), lit (CHR '')''), one_of ''+*'']"

definition SAFE_INT :: int where
  "SAFE_INT = 9007199254740991"

definition mongo_blocked :: "string \<Rightarrow> string \<Rightarrow> MongoGuardVerdict" where
  "mongo_blocked rule why =
     \<lparr>mv_allowed = False, mv_pipelineJson = [], mv_ruleId = Some rule, mv_reason = Some why,
      mv_autoLimited = False, mv_loweredLimit = False, mv_collections = []\<rparr>"

section \<open>Shell notation\<close>

text \<open>
  The inner loop over a literal behind its opening quote: the re-quoted body and the text behind the closing
  quote. \<open>text[++i] ?? ''\<close> at the end of the text is the empty string.
\<close>

fun relax_literal :: "char \<Rightarrow> string \<Rightarrow> string \<times> string" where
  "relax_literal q [] = ([], [])"
| "relax_literal q (c # cs) =
     (if c = q then ([], cs)
      else if c = BSLASH then
        (case cs of
           [] \<Rightarrow> ([BSLASH], [])
         | e # cs' \<Rightarrow>
             (let (b, r) = relax_literal q cs'
              in ((if e = SQUOTE \<and> q = SQUOTE then [SQUOTE] else [BSLASH, e]) @ b, r)))
      else
        (let (b, r) = relax_literal q cs
         in ((if c = DQUOTE \<and> q = SQUOTE then [BSLASH, DQUOTE] else [c]) @ b, r)))"

definition starts_word :: "char \<Rightarrow> bool" where
  "starts_word c \<longleftrightarrow> is_alpha c \<or> c = CHR ''_'' \<or> c = CHR ''$''"

definition in_word :: "char \<Rightarrow> bool" where
  "in_word c \<longleftrightarrow> is_word c \<or> c = CHR ''$'' \<or> c = CHR ''.''"

declare relax_literal.simps(2) [simp del]

lemma relax_literal_le: "length (snd (relax_literal q s)) \<le> length s"
proof (induction "length s" arbitrary: s rule: less_induct)
  case less
  show ?case
  proof (cases s)
    case (Cons c cs)
    have "length (snd (relax_literal q cs)) \<le> length cs" using less Cons by simp
    moreover have "length (snd (relax_literal q cs')) \<le> length cs'" if "cs = e # cs'" for e cs'
      using less Cons that by simp
    ultimately show ?thesis
      by (auto simp: Cons relax_literal.simps(2) case_prod_beta Let_def le_SucI split: list.splits)
  qed simp
qed

lemma starts_in_word: "starts_word c \<Longrightarrow> in_word c"
proof -
  have "is_word (CHR ''_'')" by code_simp
  then show "starts_word c \<Longrightarrow> in_word c" by (auto simp: starts_word_def in_word_def is_word_def)
qed

text \<open>The next character that is not a blank.\<close>

definition next_visible :: "string \<Rightarrow> char option" where
  "next_visible s = char_at (trim_start s) 0"

function relaxShellJson :: "string \<Rightarrow> string" where
  "relaxShellJson s =
     (case s of
        [] \<Rightarrow> []
      | c # cs \<Rightarrow>
          if c = DQUOTE \<or> c = SQUOTE then
            [DQUOTE] @ fst (relax_literal c cs) @ [DQUOTE] @ relaxShellJson (snd (relax_literal c cs))
          else if starts_word c then
            (let word = takeWhile in_word s; r = dropWhile in_word s
             in (if next_visible r = Some (CHR '':'') then [DQUOTE] @ word @ [DQUOTE] else word) @ relaxShellJson r)
          else if c = CHR '','' \<and> next_visible cs \<in> {Some (CHR ''}''), Some (CHR '']'')} then relaxShellJson cs
          else c # relaxShellJson cs)"
  by pat_completeness auto
termination
  by (relation "measure length") (auto simp: le_imp_less_Suc relax_literal_le starts_in_word dropWhile_le)

declare relaxShellJson.simps [simp del]

definition parse_array :: "string \<Rightarrow> jsval list option" where
  "parse_array s = Option.bind (json_parse s) arr_of"

definition toStrictPipelineJson :: "string \<Rightarrow> (string \<times> jsval list) option" where
  "toStrictPipelineJson pipelineJson =
     (case parse_array pipelineJson of
        Some direct \<Rightarrow> Some (pipelineJson, direct)
      | None \<Rightarrow>
          (let relaxed = relaxShellJson pipelineJson
           in map_option (\<lambda>viaShell. (relaxed, viaShell)) (parse_array relaxed)))"

definition parsePipeline :: "string \<Rightarrow> jsval list option" where
  "parsePipeline pipelineJson = map_option snd (toStrictPipelineJson pipelineJson)"

section \<open>Regular expressions\<close>

record Violation =
  w_ruleId :: string
  w_reason :: string

definition checkPattern :: "string \<Rightarrow> MongoGuardPolicy \<Rightarrow> Violation option" where
  "checkPattern pattern policy =
     (if jsnum_lt (mp_maxRegexPatternLength policy) (of_nat (length pattern)) then
        Some \<lparr>w_ruleId = ''regex_too_long'', w_reason = ''A regular expression in the query is too long.''\<rparr>
      else if re_test NESTED_QUANTIFIER pattern then
        Some \<lparr>w_ruleId = ''regex_unsafe'',
              w_reason = ''A regular expression in the query could run for an unbounded time.''\<rparr>
      else None)"

text \<open>The word \<open>opaque\<close> stands for a pattern that cannot be read, as in the code.\<close>

definition string_or_opaque :: "jsval \<Rightarrow> string" where
  "string_or_opaque v = (case v of JStr s \<Rightarrow> s | _ \<Rightarrow> ''opaque'')"

definition regexPatternOf :: "jsval \<Rightarrow> string" where
  "regexPatternOf v =
     (case v of
        JStr s \<Rightarrow> s
      | JObj kvs \<Rightarrow>
          (case get kvs ''$regularExpression'' of
             JObj ejson \<Rightarrow> string_or_opaque (get ejson ''pattern'')
           | _ \<Rightarrow> (if ''pattern'' \<in> fst ` set kvs then string_or_opaque (get kvs ''pattern'') else ''opaque''))
      | _ \<Rightarrow> ''opaque'')"

definition inspectRegex :: "jsval \<Rightarrow> MongoGuardPolicy \<Rightarrow> Violation option" where
  "inspectRegex v policy =
     (if regexPatternOf v = ''opaque'' then
        Some \<lparr>w_ruleId = ''regex_opaque'',
              w_reason = ''A regular expression in the query could not be inspected for safety.''\<rparr>
      else checkPattern (regexPatternOf v) policy)"

section \<open>The scan of a stage\<close>

definition mongo_too_deep :: Violation where
  "mongo_too_deep = \<lparr>w_ruleId = ''too_deep'', w_reason = ''The pipeline is nested too deeply.''\<rparr>"

text \<open>The checks on one property, before its value is entered.\<close>

definition entry_violation :: "MongoGuardPolicy \<Rightarrow> string \<Rightarrow> jsval \<Rightarrow> Violation option" where
  "entry_violation policy key v =
     (if key \<in> set DENIED_OPERATORS_ANYWHERE then
        Some \<lparr>w_ruleId = ''operator_denied:'' @ key,
              w_reason = ''The '' @ key @ '' operator runs server-side code and is not allowed.''\<rparr>
      else if key = ''$regex'' \<or> key = ''$regularExpression'' then inspectRegex v policy
      else if key \<in> set REGEX_OPERATORS then
        (case v of
           JObj kvs \<Rightarrow> (if ''regex'' \<in> fst ` set kvs then inspectRegex (get kvs ''regex'') policy else None)
         | _ \<Rightarrow> None)
      else None)"

fun scanValue :: "MongoGuardPolicy \<Rightarrow> jsval \<Rightarrow> nat \<Rightarrow> Violation option"
and scan_items :: "MongoGuardPolicy \<Rightarrow> jsval list \<Rightarrow> nat \<Rightarrow> Violation option"
and scan_props :: "MongoGuardPolicy \<Rightarrow> props \<Rightarrow> nat \<Rightarrow> Violation option" where
  "scanValue policy v d =
     (if jsnum_lt (mp_maxDepth policy) (of_nat d) then Some mongo_too_deep
      else (case v of
              JArr xs \<Rightarrow> scan_items policy xs (d + 1)
            | JObj kvs \<Rightarrow> scan_props policy kvs (d + 1)
            | _ \<Rightarrow> None))"
| "scan_items policy [] d = None"
| "scan_items policy (x # xs) d = first_of (scanValue policy x d) (scan_items policy xs d)"
| "scan_props policy [] d = None"
| "scan_props policy ((k, x) # kvs) d =
     first_of (entry_violation policy k x) (first_of (scanValue policy x d) (scan_props policy kvs d))"

declare scanValue.simps [simp del]

definition collectRefs :: "string \<Rightarrow> jsval \<Rightarrow> string list \<Rightarrow> string list" where
  "collectRefs stageName spec out =
     (if stageName = ''$lookup'' \<or> stageName = ''$graphLookup'' then
        (case get_prop spec ''from'' of JStr s \<Rightarrow> add_new s out | _ \<Rightarrow> out)
      else if stageName = ''$unionWith'' then
        (case spec of
           JStr s \<Rightarrow> add_new s out
         | _ \<Rightarrow> (case get_prop spec ''coll'' of JStr s \<Rightarrow> add_new s out | _ \<Rightarrow> out))
      else out)"

definition subPipelines :: "string \<Rightarrow> jsval \<Rightarrow> jsval list list" where
  "subPipelines stageName spec =
     (case spec of
        JObj kvs \<Rightarrow>
          (if stageName = ''$lookup'' \<or> stageName = ''$unionWith''
           then (case get kvs ''pipeline'' of JArr xs \<Rightarrow> [xs] | _ \<Rightarrow> []) else [])
          @ (if stageName = ''$facet'' then List.map_filter (\<lambda>(k, v). arr_of v) kvs else [])
      | _ \<Rightarrow> [])"

fun hasArrayAccumulator :: "jsval \<Rightarrow> bool" where
  "hasArrayAccumulator (JArr xs) = list_ex hasArrayAccumulator xs"
| "hasArrayAccumulator (JObj kvs) =
     list_ex (\<lambda>(k, v). k \<in> set ARRAY_ACCUMULATORS \<or> hasArrayAccumulator v) kvs"
| "hasArrayAccumulator _ = False"

definition boundsRowCount :: "string \<Rightarrow> jsval \<Rightarrow> bool" where
  "boundsRowCount name spec \<longleftrightarrow>
     (if name = ''$limit'' then is_number spec
      else if name = ''$sample'' then is_number (get_prop spec ''size'')
      else False)"

section \<open>The walk over a pipeline\<close>

definition accumulator_violation :: Violation where
  "accumulator_violation =
     \<lparr>w_ruleId = ''unbounded_accumulator'',
      w_reason =
        ''A $push/$addToSet collects an unbounded array, and one document cannot exceed 16MB. ''
        @ ''To count distinct values of a field, write exactly ''
        @ ''[{'' @ [DQUOTE] @ ''$group'' @ [DQUOTE] @ '': {'' @ [DQUOTE] @ ''_id'' @ [DQUOTE] @ '': '' @ [DQUOTE] @ ''$field''
        @ [DQUOTE] @ ''}}, {'' @ [DQUOTE] @ ''$count'' @ [DQUOTE] @ '': '' @ [DQUOTE] @ ''n'' @ [DQUOTE]
        @ ''}] instead of $addToSet with $size. ''
        @ ''If the array is genuinely needed, put a $limit before the $group.''\<rparr>"

text \<open>The checks on one stage, its name and its specification, before its sub-pipelines are walked.\<close>

definition stage_check :: "MongoGuardPolicy \<Rightarrow> nat \<Rightarrow> bool \<Rightarrow> jsval \<Rightarrow> Violation + string \<times> jsval" where
  "stage_check policy d bounded stage =
     (case stage of
        JObj kvs \<Rightarrow>
          (case kvs of
             [(name, spec)] \<Rightarrow>
               (if name \<notin> set ALLOWED_STAGES then
                  Inl \<lparr>w_ruleId = ''stage_denied:'' @ name,
                       w_reason = ''The '' @ name @ '' stage is not a read-only operation.''\<rparr>
                else
                  (case scanValue policy spec (d + 1) of
                     Some hit \<Rightarrow> Inl hit
                   | None \<Rightarrow>
                       (if name = ''$group'' \<and> \<not> bounded \<and> hasArrayAccumulator spec then Inl accumulator_violation
                        else Inr (name, spec))))
           | _ \<Rightarrow> Inl \<lparr>w_ruleId = ''invalid_stage'', w_reason = ''Each pipeline stage must have exactly one operator.''\<rparr>)
      | _ \<Rightarrow> Inl \<lparr>w_ruleId = ''invalid_stage'', w_reason = ''Each pipeline stage must be an object.''\<rparr>)"

lemma stage_check_InrD:
  assumes "stage_check policy d bounded stage = Inr (name, spec)"
  shows "stage = JObj [(name, spec)]" "name \<in> set ALLOWED_STAGES" "scanValue policy spec (d + 1) = None"
    "name = ''$group'' \<Longrightarrow> bounded \<or> \<not> hasArrayAccumulator spec"
  using assms
  by (auto simp: stage_check_def split: jsval.splits list.splits prod.splits if_splits option.splits)

lemma size_map_filter_arr:
  "size_list (size_list size) (List.map_filter (\<lambda>(k, v). arr_of v) kvs) \<le> size_list (size_prod (\<lambda>x. 0) size) kvs"
proof (induction kvs)
  case (Cons kv kvs)
  obtain k v where "kv = (k, v)" by (cases kv)
  with Cons show ?case by (cases v) (auto simp: map_filter_simps)
qed (simp add: map_filter_simps)

lemma size_subPipelines: "size_list (size_list size) (subPipelines name spec) \<le> size spec"
proof (cases spec)
  case (JObj kvs)
  have "size_list size xs < size_list (size_prod (\<lambda>x. 0) size) kvs" if "get kvs ''pipeline'' = JArr xs" for xs
    using size_get_object [of kvs "''pipeline''"] that by simp
  with JObj size_map_filter_arr [of kvs] show ?thesis
    by (auto simp: subPipelines_def le_imp_less_Suc less_imp_le le_SucI split: jsval.splits)
qed (simp_all add: subPipelines_def)

function walk_stages :: "MongoGuardPolicy \<Rightarrow> nat \<Rightarrow> bool \<Rightarrow> string list \<Rightarrow> jsval list \<Rightarrow> Violation + string list"
and walk_subs :: "MongoGuardPolicy \<Rightarrow> nat \<Rightarrow> string list \<Rightarrow> jsval list list \<Rightarrow> Violation + string list" where
  "walk_stages policy d bounded colls [] = Inr colls"
| "walk_stages policy d bounded colls (stage # stages) =
     (case stage_check policy d bounded stage of
        Inl hit \<Rightarrow> Inl hit
      | Inr (name, spec) \<Rightarrow>
          (case walk_subs policy (d + 1) (collectRefs name spec colls) (subPipelines name spec) of
             Inl hit \<Rightarrow> Inl hit
           | Inr colls' \<Rightarrow> walk_stages policy d (bounded \<or> boundsRowCount name spec) colls' stages))"
| "walk_subs policy d colls [] = Inr colls"
| "walk_subs policy d colls (sub # subs) =
     (if jsnum_lt (mp_maxDepth policy) (of_nat d) then Inl mongo_too_deep
      else
        (case walk_stages policy d False colls sub of
           Inl hit \<Rightarrow> Inl hit
         | Inr colls' \<Rightarrow> walk_subs policy d colls' subs))"
  by pat_completeness auto
termination
proof (relation "measure (case_sum (\<lambda>(policy, d, bounded, colls, stages). size_list size stages)
      (\<lambda>(policy, d, colls, subs). size_list (size_list size) subs))", goal_cases)
  case (2 policy d bounded colls stage stages r name spec)
  then have "size spec < size stage" by (auto dest!: stage_check_InrD(1))
  with size_subPipelines [of name spec] show ?case by simp
qed auto

definition walkPipeline :: "jsval list \<Rightarrow> MongoGuardPolicy \<Rightarrow> nat \<Rightarrow> string list \<Rightarrow> Violation + string list" where
  "walkPipeline pipeline policy d colls =
     (if jsnum_lt (mp_maxDepth policy) (of_nat d) then Inl mongo_too_deep
      else walk_stages policy d False colls pipeline)"

section \<open>The row cap\<close>

datatype limit_decision = DNone | DHigh | DOk

definition limitDecision :: "jsval list \<Rightarrow> nat \<Rightarrow> limit_decision" where
  "limitDecision pipeline maxRows =
     (case rev pipeline of
        JObj [(k, JNum x)] # _ \<Rightarrow>
          (if k = ''$limit'' then (if jsnum_gt x (of_nat maxRows) then DHigh else DOk) else DNone)
      | _ \<Rightarrow> DNone)"

definition limit_stage :: "nat \<Rightarrow> jsval" where
  "limit_stage maxRows = JObj [(''$limit'', JNum (Fin (of_nat maxRows)))]"

lemma known_stages: "''$limit'' \<in> set ALLOWED_STAGES" "''$facet'' \<in> set ALLOWED_STAGES"
  by code_simp+

text \<open>The pipeline after the loop over its stages, with the flags so far.\<close>

definition cap_last :: "nat \<Rightarrow> jsval list \<times> bool \<times> bool \<Rightarrow> jsval list \<times> bool \<times> bool" where
  "cap_last maxRows r =
     (case r of (pipeline, autoLimited, loweredLimit) \<Rightarrow>
        (case limitDecision pipeline maxRows of
           DNone \<Rightarrow> (pipeline @ [limit_stage maxRows], True, loweredLimit)
         | DHigh \<Rightarrow> (butlast pipeline @ [limit_stage maxRows], autoLimited, True)
         | DOk \<Rightarrow> (pipeline, autoLimited, loweredLimit)))"

definition put_prop :: "props \<Rightarrow> string \<Rightarrow> jsval \<Rightarrow> props" where
  "put_prop kvs k v = map (\<lambda>(k', v'). (k', if k' = k then v else v')) kvs"

definition cons_flags :: "'a \<times> bool \<times> bool \<Rightarrow> 'a list \<times> bool \<times> bool \<Rightarrow> 'a list \<times> bool \<times> bool" where
  "cons_flags r rs = (fst r # fst rs, fst (snd r) \<or> fst (snd rs), snd (snd r) \<or> snd (snd rs))"

function cap_stages :: "nat \<Rightarrow> jsval list \<Rightarrow> jsval list \<times> bool \<times> bool"
and cap_branches :: "nat \<Rightarrow> props \<Rightarrow> props \<times> bool \<times> bool" where
  "cap_stages n [] = ([], False, False)"
| "cap_stages n (stage # stages) =
     cons_flags
       (case stage of
          JObj kvs \<Rightarrow>
            (case get kvs ''$facet'' of
               JObj facet \<Rightarrow> apfst (\<lambda>facet'. JObj (put_prop kvs ''$facet'' (JObj facet'))) (cap_branches n facet)
             | _ \<Rightarrow> (stage, False, False))
        | _ \<Rightarrow> (stage, False, False))
       (cap_stages n stages)"
| "cap_branches n [] = ([], False, False)"
| "cap_branches n ((k, v) # kvs) =
     cons_flags
       (case v of
          JArr xs \<Rightarrow> apfst (\<lambda>ys. (k, JArr ys)) (cap_last n (cap_stages n xs))
        | _ \<Rightarrow> ((k, v), False, False))
       (cap_branches n kvs)"
  by pat_completeness auto
termination
proof (relation "measure (case_sum (\<lambda>(n, stages). size_list size stages)
      (\<lambda>(n, kvs). size_list (size_prod (\<lambda>x. 0) size) kvs))", goal_cases)
  case (2 n stage stages kvs facet)
  then have "size (get kvs ''$facet'') < Suc (size_list (size_prod (\<lambda>x. 0) size) kvs)"
    by (intro size_get_object) simp
  with 2 show ?case by simp
qed auto

definition capPipeline :: "jsval list \<Rightarrow> nat \<Rightarrow> jsval list \<times> bool \<times> bool" where
  "capPipeline pipeline maxRows = cap_last maxRows (cap_stages maxRows pipeline)"

section \<open>Integers beyond the safe range\<close>

text \<open>
  One round of the loop outside a string at a character that may start a number: the digits behind the sign, and
  whether the literal is an integer out of range.
\<close>

definition unsafe_at :: "string \<Rightarrow> bool" where
  "unsafe_at s =
     (let neg = (hd s = CHR ''-''); ds = takeWhile is_digit (if neg then tl s else s);
          nxt = char_at (dropWhile is_digit (if neg then tl s else s)) 0
      in nxt \<notin> {Some (CHR ''.''), Some (CHR ''e''), Some (CHR ''E'')} \<and> 16 \<le> length ds
         \<and> SAFE_INT < digits_int 0 ds)"

definition after_number :: "string \<Rightarrow> string" where
  "after_number s = dropWhile is_digit (tl s)"

function unsafe_from :: "bool \<Rightarrow> string \<Rightarrow> bool" where
  "unsafe_from inString [] = False"
| "unsafe_from inString (c # cs) =
     (if inString then
        (if c = BSLASH then unsafe_from True (tl cs) else unsafe_from (c \<noteq> DQUOTE) cs)
      else if c = DQUOTE then unsafe_from True cs
      else if c = CHR ''-'' \<or> is_digit c then unsafe_at (c # cs) \<or> unsafe_from False (after_number (c # cs))
      else unsafe_from False cs)"
  by pat_completeness auto
termination
  by (relation "measure (\<lambda>(b, s). length s)") (auto simp: after_number_def le_imp_less_Suc dropWhile_le)

definition hasUnsafeIntegerLiteral :: "string \<Rightarrow> bool" where
  "hasUnsafeIntegerLiteral json = unsafe_from False json"

section \<open>The guard\<close>

definition mongo_parse_failed :: string where
  "mongo_parse_failed =
     ''The pipeline is not valid JSON. Shell constructors are the usual cause: write ''
     @ ''{'' @ [DQUOTE] @ ''$date'' @ [DQUOTE] @ '': '' @ [DQUOTE] @ ''2024-01-01T00:00:00Z'' @ [DQUOTE]
     @ ''} rather than new Date(...) or ISODate(...), ''
     @ ''{'' @ [DQUOTE] @ ''$oid'' @ [DQUOTE] @ '': '' @ [DQUOTE] @ ''...'' @ [DQUOTE] @ ''} rather than ObjectId(...), and ''
     @ ''{'' @ [DQUOTE] @ ''$regex'' @ [DQUOTE] @ '': '' @ [DQUOTE] @ ''^P'' @ [DQUOTE] @ ''} rather than a /^P/ literal.''"

definition guardPipeline :: "string \<Rightarrow> MongoGuardPolicy \<Rightarrow> MongoGuardVerdict" where
  "guardPipeline pipelineJson policy =
     (case toStrictPipelineJson pipelineJson of
        None \<Rightarrow> mongo_blocked ''parse_failed'' mongo_parse_failed
      | Some (json, pipeline) \<Rightarrow>
          (if hasUnsafeIntegerLiteral json then
             mongo_blocked ''integer_unsafe''
               (''A number in the pipeline is too large to run safely. Wrap 64-bit integers in {'' @ [DQUOTE] @ ''$numberLong''
                @ [DQUOTE] @ '': '' @ [DQUOTE] @ ''...'' @ [DQUOTE] @ ''}.'')
           else
             (case walkPipeline pipeline policy 0 [] of
                Inl hit \<Rightarrow> mongo_blocked (w_ruleId hit) (w_reason hit)
              | Inr collections \<Rightarrow>
                  (let (capped, autoLimited, loweredLimit) =
                         capPipeline pipeline (clampMaxRows (Some (mp_maxRows policy)) DEFAULT_MONGO_ROWS)
                   in \<lparr>mv_allowed = True, mv_pipelineJson = json_stringify (JArr capped), mv_ruleId = None,
                       mv_reason = None, mv_autoLimited = autoLimited, mv_loweredLimit = loweredLimit,
                       mv_collections = collections\<rparr>))))"

section \<open>What a clean walk means\<close>

text \<open>A value in which no property at any depth is refused.\<close>

definition entries_ok :: "MongoGuardPolicy \<Rightarrow> jsval \<Rightarrow> bool" where
  "entries_ok policy v \<longleftrightarrow>
     (\<forall>k kvs key x. occurs k v (JObj kvs) \<longrightarrow> (key, x) \<in> set kvs \<longrightarrow> entry_violation policy key x = None)"

lemma entries_ok_atom: "\<not> is_object v \<Longrightarrow> entries_ok policy v"
  by (cases v) (auto simp: entries_ok_def)

lemma entries_ok_Arr: "entries_ok policy (JArr xs) \<longleftrightarrow> (\<forall>x \<in> set xs. entries_ok policy x)"
  unfolding entries_ok_def by (fastforce elim: occurs_ArrE intro: occ_item)

lemma entries_ok_Obj:
  "entries_ok policy (JObj kvs) \<longleftrightarrow>
     (\<forall>k x. (k, x) \<in> set kvs \<longrightarrow> entry_violation policy k x = None \<and> entries_ok policy x)"
  unfolding entries_ok_def by (blast elim: occurs_ObjE intro: occ_prop occ_self)

lemma scan_entries_ok:
  "scanValue policy v d = None \<Longrightarrow> entries_ok policy v"
  "scan_items policy xs d = None \<Longrightarrow> \<forall>x \<in> set xs. entries_ok policy x"
  "scan_props policy kvs d = None \<Longrightarrow> \<forall>k x. (k, x) \<in> set kvs \<longrightarrow> entry_violation policy k x = None \<and> entries_ok policy x"
proof (induction policy v d and policy xs d and policy kvs d rule: scanValue_scan_items_scan_props.induct)
  case (1 policy v d)
  then show ?case
    by (cases v) (auto simp: scanValue.simps entries_ok_atom entries_ok_Arr entries_ok_Obj split: if_splits)
qed auto

text \<open>The pipelines a pipeline leads to, itself included.\<close>

inductive sub_pipeline :: "jsval list \<Rightarrow> jsval list \<Rightarrow> bool" where
  sub_self: "sub_pipeline p p"
| sub_stage: "JObj [(name, spec)] \<in> set p \<Longrightarrow> q \<in> set (subPipelines name spec) \<Longrightarrow> sub_pipeline q r \<Longrightarrow> sub_pipeline p r"

inductive_cases sub_pipelineE: "sub_pipeline p r"

text \<open>A stage that only reads.\<close>

definition read_only_stage :: "MongoGuardPolicy \<Rightarrow> jsval \<Rightarrow> bool" where
  "read_only_stage policy st \<longleftrightarrow>
     (\<exists>name spec. st = JObj [(name, spec)] \<and> name \<in> set ALLOWED_STAGES \<and> entries_ok policy spec)"

definition read_only :: "MongoGuardPolicy \<Rightarrow> jsval list \<Rightarrow> bool" where
  "read_only policy p \<longleftrightarrow> (\<forall>q st. sub_pipeline p q \<longrightarrow> st \<in> set q \<longrightarrow> read_only_stage policy st)"

lemma read_only_unfold:
  "read_only policy p \<longleftrightarrow>
     (\<forall>st \<in> set p. \<exists>name spec. st = JObj [(name, spec)] \<and> name \<in> set ALLOWED_STAGES \<and> entries_ok policy spec
        \<and> (\<forall>q \<in> set (subPipelines name spec). read_only policy q))"
  (is "?L \<longleftrightarrow> ?R")
proof
  assume ?L
  show ?R
  proof
    fix st assume st: "st \<in> set p"
    with \<open>?L\<close> sub_self obtain name spec where "st = JObj [(name, spec)]" "name \<in> set ALLOWED_STAGES" "entries_ok policy spec"
      unfolding read_only_def read_only_stage_def by blast
    moreover have "read_only policy q" if "q \<in> set (subPipelines name spec)" for q
      using \<open>?L\<close> st calculation(1) that unfolding read_only_def by (metis sub_stage)
    ultimately show "\<exists>name spec. st = JObj [(name, spec)] \<and> name \<in> set ALLOWED_STAGES \<and> entries_ok policy spec
        \<and> (\<forall>q \<in> set (subPipelines name spec). read_only policy q)" by blast
  qed
next
  assume R: ?R
  show ?L
    unfolding read_only_def
  proof (intro allI impI)
    fix q st assume "sub_pipeline p q" and st: "st \<in> set q"
    then show "read_only_stage policy st"
    proof (cases rule: sub_pipeline.cases)
      case sub_self
      with R st show ?thesis unfolding read_only_stage_def by blast
    next
      case (sub_stage name spec q')
      with R have "read_only policy q'" by fastforce
      with sub_stage st show ?thesis unfolding read_only_def by blast
    qed
  qed
qed

lemma walk_read_only:
  "walk_stages policy d bounded colls p = Inr cs \<Longrightarrow> read_only policy p"
  "walk_subs policy d colls subs = Inr cs \<Longrightarrow> \<forall>q \<in> set subs. read_only policy q"
proof (induction policy d bounded colls p and policy d colls subs arbitrary: cs and cs rule: walk_stages_walk_subs.induct)
  case (1 policy d bounded colls)
  then show ?case by (subst read_only_unfold) simp
next
  case (2 policy d bounded colls stage stages)
  obtain name spec cs' where chk: "stage_check policy d bounded stage = Inr (name, spec)"
      and sub: "walk_subs policy (d + 1) (collectRefs name spec colls) (subPipelines name spec) = Inr cs'"
      and rest: "walk_stages policy d (bounded \<or> boundsRowCount name spec) cs' stages = Inr cs"
    using "2.prems" by (auto split: sum.splits prod.splits)
  from "2.IH"(1) [OF chk refl sub] "2.IH"(2) [OF chk refl sub rest]
  show ?case
    using stage_check_InrD(1-3) [OF chk] scan_entries_ok(1)
    by (subst read_only_unfold, subst (asm) (2) read_only_unfold) auto
qed (auto split: sum.splits if_splits)

section \<open>The cap keeps a pipeline read-only\<close>

lemma allowed_names_plain: "name \<in> set ALLOWED_STAGES \<Longrightarrow> entry_violation policy name spec = None"
  by (auto simp: ALLOWED_STAGES_def entry_violation_def DENIED_OPERATORS_ANYWHERE_def REGEX_OPERATORS_def)

lemma read_only_entries: "read_only policy p \<Longrightarrow> entries_ok policy (JArr p)"
  unfolding entries_ok_Arr by (subst (asm) read_only_unfold) (auto simp: entries_ok_Obj allowed_names_plain)

lemma read_only_single:
  "read_only policy [JObj [(name, spec)]] \<longleftrightarrow>
     name \<in> set ALLOWED_STAGES \<and> entries_ok policy spec \<and> (\<forall>q \<in> set (subPipelines name spec). read_only policy q)"
  by (subst read_only_unfold) auto

lemma read_only_limit: "read_only policy [limit_stage n]"
  unfolding limit_stage_def read_only_single
  by (simp add: known_stages subPipelines_def entries_ok_atom)

lemma read_only_append: "read_only policy (p @ q) \<longleftrightarrow> read_only policy p \<and> read_only policy q"
  unfolding read_only_unfold [of policy p] read_only_unfold [of policy q] read_only_unfold [of policy "p @ q"] by auto

lemma read_only_subset: "read_only policy p \<Longrightarrow> set q \<subseteq> set p \<Longrightarrow> read_only policy q"
  by (subst (asm) read_only_unfold, subst read_only_unfold) auto

lemma read_only_cap_last: "read_only policy p \<Longrightarrow> read_only policy (fst (cap_last n (p, a, l)))"
  using read_only_limit [of policy n] read_only_subset [of policy p "butlast p"]
  by (auto simp: cap_last_def read_only_append split: limit_decision.splits dest: in_set_butlastD)

lemma entry_violation_Arr: "entry_violation policy k (JArr xs) = None \<Longrightarrow> entry_violation policy k (JArr ys) = None"
  by (auto simp: entry_violation_def inspectRegex_def regexPatternOf_def split: if_splits)

definition branches_ok :: "MongoGuardPolicy \<Rightarrow> props \<Rightarrow> bool" where
  "branches_ok policy kvs \<longleftrightarrow>
     (\<forall>(k, v) \<in> set kvs. entry_violation policy k v = None \<and> entries_ok policy v
        \<and> (\<forall>xs. v = JArr xs \<longrightarrow> read_only policy xs))"

lemma set_map_filter_arr: "xs \<in> set (List.map_filter (\<lambda>(k, v). arr_of v) kvs) \<longleftrightarrow> (\<exists>k. (k, JArr xs) \<in> set kvs)"
  by (force simp: map_filter_def)

lemma facet_stage_read_only:
  "read_only policy [JObj [(''$facet'', JObj kvs)]] \<longleftrightarrow> branches_ok policy kvs"
proof -
  have "set (subPipelines ''$facet'' (JObj kvs)) = {xs. \<exists>k. (k, JArr xs) \<in> set kvs}"
    by (auto simp: subPipelines_def set_map_filter_arr)
  then show ?thesis
    unfolding read_only_single entries_ok_Obj branches_ok_def using known_stages(2) by auto
qed

lemma cap_read_only:
  "read_only policy p \<Longrightarrow> read_only policy (fst (cap_stages n p))"
  "branches_ok policy kvs \<Longrightarrow> branches_ok policy (fst (cap_branches n kvs))"
proof (induction n p and n kvs rule: cap_stages_cap_branches.induct)
  case (1 n)
  then show ?case by simp
next
  case (2 n stage stages)
  from "2.prems" have head: "read_only policy [stage]" and rest: "read_only policy stages"
    using read_only_append [of policy "[stage]" stages] by simp_all
  from head obtain name spec where stage: "stage = JObj [(name, spec)]"
    by (subst (asm) read_only_unfold) auto
  have stages': "read_only policy (fst (cap_stages n stages))" using "2.IH"(2) rest by simp
  show ?case
  proof (cases "name = ''$facet'' \<and> (\<exists>facet. spec = JObj facet)")
    case True
    then obtain facet where spec: "name = ''$facet''" "spec = JObj facet" by blast
    have "branches_ok policy (fst (cap_branches n facet))"
      using "2.IH"(1) [of "[(name, spec)]" facet] head stage spec by (auto simp: facet_stage_read_only)
    then have "read_only policy [JObj [(''$facet'', JObj (fst (cap_branches n facet)))]]"
      by (simp add: facet_stage_read_only)
    with stages' show ?thesis
      using read_only_append [of policy "[JObj [(''$facet'', JObj (fst (cap_branches n facet)))]]" "fst (cap_stages n stages)"]
      by (simp add: stage spec put_prop_def cons_flags_def)
  next
    case False
    then have "fst (cap_stages n (stage # stages)) = stage # fst (cap_stages n stages)"
      by (auto simp: stage cons_flags_def split: jsval.splits)
    with stages' head show ?thesis using read_only_append [of policy "[stage]" "fst (cap_stages n stages)"] by simp
  qed
next
  case (3 n)
  then show ?case by simp
next
  case (4 n k v kvs)
  have kvs': "branches_ok policy (fst (cap_branches n kvs))" using "4.IH"(2) "4.prems" by (auto simp: branches_ok_def)
  show ?case
  proof (cases "\<exists>xs. v = JArr xs")
    case True
    then obtain xs where v: "v = JArr xs" by blast
    let ?zs = "fst (cap_last n (cap_stages n xs))"
    have "read_only policy (fst (cap_stages n xs))" using "4.IH"(1) [of xs] "4.prems" v by (auto simp: branches_ok_def)
    then have zs: "read_only policy ?zs"
      using read_only_cap_last [of policy "fst (cap_stages n xs)" n] by (metis prod.collapse)
    have "entry_violation policy k (JArr ?zs) = None"
      using "4.prems" v entry_violation_Arr by (auto simp: branches_ok_def)
    with zs kvs' show ?thesis
      by (auto simp: v branches_ok_def read_only_entries cons_flags_def)
  next
    case False
    then have "fst (cap_branches n ((k, v) # kvs)) = (k, v) # fst (cap_branches n kvs)"
      by (auto simp: cons_flags_def split: jsval.splits)
    with kvs' "4.prems" show ?thesis by (auto simp: branches_ok_def)
  qed
qed

section \<open>The cap reaches every facet\<close>

text \<open>A pipeline that ends in a \<open>$limit\<close> within the cap; the branches of its facets, at any depth.\<close>

definition ends_capped :: "nat \<Rightarrow> jsval list \<Rightarrow> bool" where
  "ends_capped n p \<longleftrightarrow>
     (\<exists>init x. p = init @ [JObj [(''$limit'', JNum x)]] \<and> \<not> jsnum_gt x (of_nat n))"

inductive facet_branch :: "jsval list \<Rightarrow> jsval list \<Rightarrow> bool" where
  facet_self: "facet_branch p p"
| facet_step: "JObj kvs \<in> set p \<Longrightarrow> get kvs ''$facet'' = JObj f \<Longrightarrow> (k, JArr b) \<in> set f \<Longrightarrow> facet_branch b r
    \<Longrightarrow> facet_branch p r"

definition all_capped :: "nat \<Rightarrow> jsval list \<Rightarrow> bool" where
  "all_capped n p \<longleftrightarrow> (\<forall>b. facet_branch p b \<longrightarrow> ends_capped n b)"

definition inner_capped :: "nat \<Rightarrow> jsval list \<Rightarrow> bool" where
  "inner_capped n p \<longleftrightarrow>
     (\<forall>kvs f k b. JObj kvs \<in> set p \<longrightarrow> get kvs ''$facet'' = JObj f \<longrightarrow> (k, JArr b) \<in> set f \<longrightarrow> all_capped n b)"

lemma all_capped_iff: "all_capped n p \<longleftrightarrow> ends_capped n p \<and> inner_capped n p"
  unfolding all_capped_def inner_capped_def
  by (blast elim: facet_branch.cases intro: facet_self facet_step)

lemma inner_capped_Cons: "inner_capped n (st # p) \<longleftrightarrow> inner_capped n [st] \<and> inner_capped n p"
  by (auto simp: inner_capped_def)

lemma inner_capped_mono: "inner_capped n p \<Longrightarrow> set q \<subseteq> set p \<Longrightarrow> inner_capped n q"
  by (auto simp: inner_capped_def)

lemma cap_last_capped: "inner_capped n p \<Longrightarrow> all_capped n (fst (cap_last n (p, a, l)))"
proof -
  assume inner: "inner_capped n p"
  have lim: "inner_capped n [limit_stage n]"
    by (simp add: inner_capped_def limit_stage_def)
  have end_limit: "ends_capped n (q @ [limit_stage n])" for q
    by (auto simp: ends_capped_def limit_stage_def)
  have app: "inner_capped n q \<Longrightarrow> inner_capped n (q @ [limit_stage n])" for q
    using lim by (auto simp: inner_capped_def)
  show ?thesis
  proof (cases "limitDecision p n")
    case DOk
    then have "ends_capped n p"
      by (auto simp: limitDecision_def ends_capped_def split: list.splits jsval.splits prod.splits if_splits)
    with DOk inner show ?thesis by (simp add: cap_last_def all_capped_iff)
  qed (use inner end_limit app inner_capped_mono [OF inner, of "butlast p"] in
      \<open>auto simp: cap_last_def all_capped_iff dest: in_set_butlastD\<close>)
qed

lemma get_put_prop: "get kvs k = JObj f \<Longrightarrow> get (put_prop kvs k v) k = v"
  by (induction kvs) (auto simp: put_prop_def split: if_splits)

lemma cap_capped:
  "inner_capped n (fst (cap_stages n p))"
  "\<forall>k b. (k, JArr b) \<in> set (fst (cap_branches n kvs)) \<longrightarrow> all_capped n b"
proof (induction n p and n kvs rule: cap_stages_cap_branches.induct)
  case (1 n)
  then show ?case by (simp add: inner_capped_def)
next
  case (2 n stage stages)
  have "inner_capped n [fst (case stage of
          JObj kvs \<Rightarrow>
            (case get kvs ''$facet'' of
               JObj facet \<Rightarrow> apfst (\<lambda>facet'. JObj (put_prop kvs ''$facet'' (JObj facet'))) (cap_branches n facet)
             | _ \<Rightarrow> (stage, False, False))
        | _ \<Rightarrow> (stage, False, False))]" (is "inner_capped n [fst ?r]")
    using "2.IH"(1) by (auto simp: inner_capped_def get_put_prop split: jsval.splits)
  with "2.IH"(2) show ?case
    using inner_capped_Cons [of n "fst ?r" "fst (cap_stages n stages)"]
    by (simp only: cap_stages.simps cons_flags_def fst_conv)
next
  case (3 n)
  then show ?case by simp
next
  case (4 n k v kvs)
  show ?case
  proof (cases "\<exists>xs. v = JArr xs")
    case True
    then obtain xs where v: "v = JArr xs" by blast
    have "all_capped n (fst (cap_last n (cap_stages n xs)))"
      using cap_last_capped [OF "4.IH"(1) [OF v]] by (metis prod.collapse)
    with "4.IH"(2) v show ?thesis by (auto simp: cons_flags_def)
  qed (use "4.IH"(2) in \<open>auto simp: cons_flags_def split: jsval.splits\<close>)
qed

lemma capPipeline_capped: "all_capped n (fst (capPipeline p n))"
  unfolding capPipeline_def using cap_last_capped [OF cap_capped(1) [of n p]] by (metis prod.collapse)

lemma capPipeline_read_only: "read_only policy p \<Longrightarrow> read_only policy (fst (capPipeline p n))"
  unfolding capPipeline_def using read_only_cap_last [OF cap_read_only(1)] by (metis prod.collapse)

section \<open>The referenced collections\<close>

lemma set_collectRefs: "set (collectRefs name spec out) = set out \<union> set (collectRefs name spec [])"
  by (auto simp: collectRefs_def split: jsval.splits)

lemma walk_collects:
  "walk_stages policy d bounded colls p = Inr cs \<Longrightarrow> set colls \<subseteq> set cs
     \<and> (\<forall>q name spec. sub_pipeline p q \<longrightarrow> JObj [(name, spec)] \<in> set q \<longrightarrow> set (collectRefs name spec []) \<subseteq> set cs)"
  "walk_subs policy d colls subs = Inr cs \<Longrightarrow> set colls \<subseteq> set cs
     \<and> (\<forall>p \<in> set subs. \<forall>q name spec. sub_pipeline p q \<longrightarrow> JObj [(name, spec)] \<in> set q \<longrightarrow> set (collectRefs name spec []) \<subseteq> set cs)"
proof (induction policy d bounded colls p and policy d colls subs arbitrary: cs and cs rule: walk_stages_walk_subs.induct)
  case (1 policy d bounded colls)
  then show ?case by (auto elim: sub_pipelineE)
next
  case (2 policy d bounded colls stage stages)
  obtain name spec cs' where chk: "stage_check policy d bounded stage = Inr (name, spec)"
      and sub: "walk_subs policy (d + 1) (collectRefs name spec colls) (subPipelines name spec) = Inr cs'"
      and rest: "walk_stages policy d (bounded \<or> boundsRowCount name spec) cs' stages = Inr cs"
    using "2.prems" by (auto split: sum.splits prod.splits)
  note IH1 = "2.IH"(1) [OF chk refl sub] and IH2 = "2.IH"(2) [OF chk refl sub rest]
  note stage = stage_check_InrD(1) [OF chk]
  have cs': "set cs' \<subseteq> set cs" "set colls \<subseteq> set cs" "set (collectRefs name spec []) \<subseteq> set cs"
    using IH1 IH2 set_collectRefs [of name spec colls] by auto
  have "set (collectRefs nm sp []) \<subseteq> set cs"
    if "sub_pipeline (stage # stages) q" "JObj [(nm, sp)] \<in> set q" for q nm sp
    using that(1)
  proof (cases rule: sub_pipeline.cases)
    case sub_self
    then have "JObj [(nm, sp)] = stage \<or> JObj [(nm, sp)] \<in> set stages" using that(2) by auto
    then show ?thesis using stage cs'(3) IH2 sub_pipeline.sub_self [of stages] by blast
  next
    case (sub_stage nm' sp' q')
    show ?thesis
    proof (cases "JObj [(nm', sp')] = stage")
      case True
      with sub_stage IH1 that(2) stage cs'(1) show ?thesis by fastforce
    next
      case False
      with sub_stage have "sub_pipeline stages q" by (auto intro: sub_pipeline.sub_stage)
      with IH2 that(2) show ?thesis by blast
    qed
  qed
  with cs'(2) show ?case by blast
next
  case (4 policy d colls sub subs)
  then show ?case by (auto split: sum.splits if_splits) blast+
qed auto

section \<open>Accumulators and integers\<close>

text \<open>Every array accumulator of a pipeline has a bounding stage before it, unless one came earlier still.\<close>

definition groups_bounded :: "bool \<Rightarrow> jsval list \<Rightarrow> bool" where
  "groups_bounded b p \<longleftrightarrow>
     (\<forall>pre spec post. p = pre @ JObj [(''$group'', spec)] # post \<longrightarrow> hasArrayAccumulator spec \<longrightarrow>
        b \<or> (\<exists>name sp. JObj [(name, sp)] \<in> set pre \<and> boundsRowCount name sp))"

lemma groups_bounded_Cons:
  assumes "name = ''$group'' \<Longrightarrow> b \<or> \<not> hasArrayAccumulator spec" "groups_bounded (b \<or> boundsRowCount name spec) p"
  shows "groups_bounded b (JObj [(name, spec)] # p)"
  unfolding groups_bounded_def
proof (intro allI impI)
  fix pre sp post
  assume p: "JObj [(name, spec)] # p = pre @ JObj [(''$group'', sp)] # post" and acc: "hasArrayAccumulator sp"
  show "b \<or> (\<exists>name sp. JObj [(name, sp)] \<in> set pre \<and> boundsRowCount name sp)"
  proof (cases pre)
    case Nil
    with p acc assms(1) show ?thesis by auto
  next
    case (Cons x pre')
    with p acc assms(2) show ?thesis by (auto simp: groups_bounded_def)
  qed
qed

lemma walk_bounds_groups:
  "walk_stages policy d b colls p = Inr cs \<Longrightarrow> groups_bounded b p
     \<and> (\<forall>name spec q r. JObj [(name, spec)] \<in> set p \<longrightarrow> q \<in> set (subPipelines name spec) \<longrightarrow> sub_pipeline q r
          \<longrightarrow> groups_bounded False r)"
  "walk_subs policy d colls subs = Inr cs \<Longrightarrow> \<forall>p \<in> set subs. \<forall>r. sub_pipeline p r \<longrightarrow> groups_bounded False r"
proof (induction policy d b colls p and policy d colls subs arbitrary: cs and cs rule: walk_stages_walk_subs.induct)
  case (1 policy d b colls)
  then show ?case by (simp add: groups_bounded_def)
next
  case (2 policy d b colls stage stages)
  obtain name spec cs' where chk: "stage_check policy d b stage = Inr (name, spec)"
      and sub: "walk_subs policy (d + 1) (collectRefs name spec colls) (subPipelines name spec) = Inr cs'"
      and rest: "walk_stages policy d (b \<or> boundsRowCount name spec) cs' stages = Inr cs"
    using "2.prems" by (auto split: sum.splits prod.splits)
  note IH1 = "2.IH"(1) [OF chk refl sub] and IH2 = "2.IH"(2) [OF chk refl sub rest]
  note stage = stage_check_InrD(1,4) [OF chk]
  have "groups_bounded b (stage # stages)"
    unfolding stage(1) using stage(2) IH2 by (auto intro: groups_bounded_Cons)
  with IH1 IH2 stage(1) show ?case by auto
next
  case (3 policy d colls)
  then show ?case by simp
next
  case (4 policy d colls sub subs)
  obtain cs' where w: "walk_stages policy d False colls sub = Inr cs'" "walk_subs policy d cs' subs = Inr cs"
      and d: "\<not> jsnum_lt (mp_maxDepth policy) (of_nat d)"
    using "4.prems" by (auto split: sum.splits if_splits)
  from "4.IH"(1) [OF d w(1)] have "groups_bounded False r" if "sub_pipeline sub r" for r
    using that by (blast elim: sub_pipelineE)
  with "4.IH"(2) [OF d w] show ?case by simp
qed

lemma unsafe_skip:
  "list_all (\<lambda>c. c \<noteq> DQUOTE \<and> c \<noteq> CHR ''-'' \<and> \<not> is_digit c) pre \<Longrightarrow> unsafe_from False (pre @ s) = unsafe_from False s"
  by (induction pre) auto

lemma takeWhile_digits: "list_all P ds \<Longrightarrow> post = [] \<or> \<not> P (hd post) \<Longrightarrow> takeWhile P (ds @ post) = ds \<and> dropWhile P (ds @ post) = post"
  by (induction ds) (auto simp: takeWhile_eq_Nil_iff, cases post, auto)

lemma guardPipeline_allowed:
  assumes "mv_allowed (guardPipeline js policy)"
  obtains json p cs where "toStrictPipelineJson js = Some (json, p)" "\<not> hasUnsafeIntegerLiteral json"
    "walkPipeline p policy 0 [] = Inr cs" "mv_collections (guardPipeline js policy) = cs"
    "mv_pipelineJson (guardPipeline js policy)
       = json_stringify (JArr (fst (capPipeline p (clampMaxRows (Some (mp_maxRows policy)) DEFAULT_MONGO_ROWS))))"
proof -
  obtain json p cs where *: "toStrictPipelineJson js = Some (json, p)" "\<not> hasUnsafeIntegerLiteral json"
      "walkPipeline p policy 0 [] = Inr cs"
    using assms by (auto simp: guardPipeline_def mongo_blocked_def split: option.splits if_splits sum.splits)
  with that show ?thesis by (simp add: guardPipeline_def case_prod_beta Let_def)
qed

lemma walkPipeline_stages:
  "walkPipeline p policy d colls = Inr cs \<Longrightarrow> walk_stages policy d False colls p = Inr cs"
  by (simp add: walkPipeline_def split: if_splits)

section \<open>A small example\<close>

definition sample_policy :: MongoGuardPolicy where
  "sample_policy = \<lparr>mp_maxRows = Fin 5, mp_maxDepth = Fin 20, mp_maxRegexPatternLength = Fin 30\<rparr>"

definition sample_pipeline :: string where
  "sample_pipeline = ''[{$facet: {a: [{$match: {x: 1}}]}}, {$limit: 9}]''"

definition sample_lookup :: string where
  "sample_lookup = ''[{$lookup: {from: QaQ, pipeline: [{$unionWith: QbQ}]}}]''"

text \<open>The example with its quotes in place.\<close>

definition quoted :: "string \<Rightarrow> string" where
  "quoted s = map (\<lambda>c. if c = CHR ''Q'' then DQUOTE else c) s"

definition sample_group :: string where
  "sample_group = ''[{$limit: 3}, {$group: {_id: null, xs: {$push: 1}}}]''"

lemma sample_pipeline_guarded:
  "mv_allowed (guardPipeline sample_pipeline sample_policy)"
  by code_simp

section \<open>Properties\<close>

text \<open>
  C2: the MongoDB guard admits reads only. The pipeline it hands on is one in which every stage, in the pipeline
  itself and in every sub-pipeline, is a single allowlisted operator, and no property at any depth runs
  server-side code or carries a regular expression that is too long, unsafe or unreadable.
\<close>

theorem guardPipeline_admits_only_reads:
  assumes "mv_allowed (guardPipeline js policy)"
  shows "\<exists>capped. mv_pipelineJson (guardPipeline js policy) = json_stringify (JArr capped)
    \<and> (\<forall>q st. sub_pipeline capped q \<longrightarrow> st \<in> set q \<longrightarrow>
         (\<exists>name spec. st = JObj [(name, spec)] \<and> name \<in> set ALLOWED_STAGES
            \<and> (\<forall>k kvs key x. occurs k spec (JObj kvs) \<longrightarrow> (key, x) \<in> set kvs \<longrightarrow>
                 key \<notin> set DENIED_OPERATORS_ANYWHERE \<and> entry_violation policy key x = None)))"
proof -
  from assms obtain p cs where walk: "walkPipeline p policy 0 [] = Inr cs"
      and out: "mv_pipelineJson (guardPipeline js policy)
        = json_stringify (JArr (fst (capPipeline p (clampMaxRows (Some (mp_maxRows policy)) DEFAULT_MONGO_ROWS))))"
    by (rule guardPipeline_allowed)
  have "read_only policy (fst (capPipeline p n))" for n
    using walk_read_only(1) [OF walkPipeline_stages [OF walk]] by (rule capPipeline_read_only)
  moreover have "key \<notin> set DENIED_OPERATORS_ANYWHERE" if "entry_violation policy key x = None" for key x
    using that by (auto simp: entry_violation_def)
  ultimately show ?thesis
    using out unfolding read_only_def read_only_stage_def entries_ok_def by meson
qed

theorem guardPipeline_admits_only_reads_witness:
  "\<exists>capped. mv_pipelineJson (guardPipeline sample_pipeline sample_policy) = json_stringify (JArr capped)
    \<and> (\<forall>q st. sub_pipeline capped q \<longrightarrow> st \<in> set q \<longrightarrow> (\<exists>name spec. st = JObj [(name, spec)] \<and> name \<in> set ALLOWED_STAGES))"
  using guardPipeline_admits_only_reads [OF sample_pipeline_guarded] by meson

text \<open>
  C10: the MongoDB guard bounds the rows. The pipeline it hands on, and every branch of every facet in it at any
  depth, ends in a \<open>$limit\<close> that is at most the cap, and the cap lies between 1 and 100000 whatever
  number the caller's policy holds.
\<close>

theorem guardPipeline_caps_rows:
  assumes "mv_allowed (guardPipeline js policy)"
  shows "\<exists>capped cap. mv_pipelineJson (guardPipeline js policy) = json_stringify (JArr capped)
    \<and> 1 \<le> cap \<and> cap \<le> MAX_ROW_CAP
    \<and> (\<forall>b. facet_branch capped b \<longrightarrow>
         (\<exists>init x. b = init @ [JObj [(''$limit'', JNum x)]] \<and> \<not> jsnum_gt x (of_nat cap)))"
proof -
  let ?cap = "clampMaxRows (Some (mp_maxRows policy)) DEFAULT_MONGO_ROWS"
  from assms obtain p where "mv_pipelineJson (guardPipeline js policy) = json_stringify (JArr (fst (capPipeline p ?cap)))"
    by (rule guardPipeline_allowed)
  moreover have "1 \<le> ?cap \<and> ?cap \<le> MAX_ROW_CAP"
    by (rule clamp_range) (simp_all add: DEFAULT_MONGO_ROWS_def MAX_ROW_CAP_def)
  ultimately show ?thesis
    using capPipeline_capped [of ?cap p] unfolding all_capped_def ends_capped_def by blast
qed

theorem guardPipeline_caps_rows_witness:
  "\<exists>capped init x. mv_pipelineJson (guardPipeline sample_pipeline sample_policy) = json_stringify (JArr capped)
     \<and> capped = init @ [JObj [(''$limit'', JNum x)]] \<and> \<not> jsnum_gt x 100000"
proof -
  have le: "\<not> jsnum_gt x 100000" if "\<not> jsnum_gt x (of_nat cap)" "cap \<le> MAX_ROW_CAP" for x cap
  proof -
    have "rat_of_nat cap \<le> rat_of_nat 100000" using that(2) by (simp only: of_nat_le_iff MAX_ROW_CAP_def)
    with that(1) show ?thesis by (cases x) auto
  qed
  from guardPipeline_caps_rows [OF sample_pipeline_guarded] show ?thesis
    by (meson facet_self le)
qed

text \<open>
  No reference escapes the report. Every collection that a \<open>$lookup\<close>, \<open>$graphLookup\<close> or \<open>$unionWith\<close>
  names, in the pipeline or in any sub-pipeline, is among the reported collections, on which the check
  against the catalog rests.
\<close>

theorem guardPipeline_reports_collections:
  assumes "mv_allowed (guardPipeline js policy)" "parsePipeline js = Some p"
    and "sub_pipeline p q" "JObj [(name, spec)] \<in> set q"
  shows "set (collectRefs name spec []) \<subseteq> set (mv_collections (guardPipeline js policy))"
proof -
  from assms(1) obtain json p' cs where "toStrictPipelineJson js = Some (json, p')"
      "walkPipeline p' policy 0 [] = Inr cs" "mv_collections (guardPipeline js policy) = cs"
    by (rule guardPipeline_allowed)
  with assms walk_collects(1) [OF walkPipeline_stages] show ?thesis
    by (simp add: parsePipeline_def)
qed

theorem guardPipeline_reports_collections_witness:
  "set (collectRefs ''$unionWith'' (JStr ''b'') []) \<subseteq> set (mv_collections (guardPipeline (quoted sample_lookup) sample_policy))"
proof (rule guardPipeline_reports_collections)
  let ?stage = "JObj [(''$unionWith'', JStr ''b'')]"
  let ?spec = "JObj [(''from'', JStr ''a''), (''pipeline'', JArr [?stage])]"
  show "mv_allowed (guardPipeline (quoted sample_lookup) sample_policy)" by code_simp
  show "parsePipeline (quoted sample_lookup) = Some [JObj [(''$lookup'', ?spec)]]" by code_simp
  show "sub_pipeline [JObj [(''$lookup'', ?spec)]] [?stage]"
    by (rule sub_stage [of "''$lookup''" ?spec _ "[?stage]"]) (simp_all add: subPipelines_def sub_self)
  show "JObj [(''$unionWith'', JStr ''b'')] \<in> set [?stage]" by simp
qed

text \<open>
  No document grows without bound. In an admitted pipeline and in each of its sub-pipelines, a \<open>$group\<close> that
  collects an array has a \<open>$limit\<close> or a sized \<open>$sample\<close> among the stages before it.
\<close>

theorem guardPipeline_bounds_accumulators:
  assumes "mv_allowed (guardPipeline js policy)" "parsePipeline js = Some p"
    and "sub_pipeline p (pre @ JObj [(''$group'', spec)] # post)" "hasArrayAccumulator spec"
  shows "\<exists>name sp. JObj [(name, sp)] \<in> set pre \<and> boundsRowCount name sp"
proof -
  from assms(1) obtain json p' cs where "toStrictPipelineJson js = Some (json, p')" "walkPipeline p' policy 0 [] = Inr cs"
    by (rule guardPipeline_allowed)
  with assms(2) have "walkPipeline p policy 0 [] = Inr cs" by (simp add: parsePipeline_def)
  note w = walk_bounds_groups(1) [OF walkPipeline_stages [OF this]]
  have "groups_bounded False (pre @ JObj [(''$group'', spec)] # post)"
    using assms(3) w by (blast elim: sub_pipelineE)
  with assms(4) show ?thesis by (auto simp: groups_bounded_def)
qed

theorem guardPipeline_bounds_accumulators_witness:
  "\<exists>name sp. JObj [(name, sp)] \<in> set [JObj [(''$limit'', JNum (Fin 3))]] \<and> boundsRowCount name sp"
proof (rule guardPipeline_bounds_accumulators)
  let ?spec = "JObj [(''_id'', JNull), (''xs'', JObj [(''$push'', JNum (Fin 1))])]"
  show "mv_allowed (guardPipeline sample_group sample_policy)" by code_simp
  show "parsePipeline sample_group = Some ([JObj [(''$limit'', JNum (Fin 3))]] @ JObj [(''$group'', ?spec)] # [])" by code_simp
  show "hasArrayAccumulator ?spec" by code_simp
qed (rule sub_self)

text \<open>
  An integer literal outside the range that \<open>JSON.parse\<close> keeps exact is found: for a run of at least 16 digits,
  preceded by text without quotes and numbers and followed by neither a fraction nor an exponent, the
  answer is decided by the exact value of the digits, and else by the rest of the text.
\<close>

theorem unsafe_integer_decided:
  assumes "list_all (\<lambda>c. c \<noteq> DQUOTE \<and> c \<noteq> CHR ''-'' \<and> \<not> is_digit c) pre"
    and "list_all is_digit ds" "16 \<le> length ds"
    and "post = [] \<or> (\<not> is_digit (hd post) \<and> hd post \<notin> {CHR ''.'', CHR ''e'', CHR ''E''})"
  shows "hasUnsafeIntegerLiteral (pre @ ds @ post) \<longleftrightarrow>
    SAFE_INT < int (number_of_digits ds) \<or> hasUnsafeIntegerLiteral post"
proof -
  obtain c cs where ds: "ds = c # cs" using assms(3) by (cases ds) auto
  have c: "is_digit c" "list_all is_digit cs" using assms(2) ds by auto
  have minus: "\<not> is_digit (CHR ''-'')" "\<not> is_digit DQUOTE" by code_simp+
  have tw: "takeWhile is_digit (cs @ post) = cs" "dropWhile is_digit (cs @ post) = post"
    using takeWhile_digits [OF c(2)] assms(4) by auto
  have "hd (ds @ post) \<noteq> CHR ''-''" using ds c minus by auto
  moreover have "takeWhile is_digit (ds @ post) = ds" "dropWhile is_digit (ds @ post) = post"
    using takeWhile_digits [OF assms(2)] assms(4) by auto
  moreover have "char_at post 0 \<notin> {Some (CHR ''.''), Some (CHR ''e''), Some (CHR ''E'')}"
    using assms(4) by (cases post) (auto simp: char_at_def)
  ultimately have "unsafe_at (ds @ post) \<longleftrightarrow> SAFE_INT < digits_int 0 ds"
    using assms(3) unfolding unsafe_at_def Let_def by (simp only: if_False) simp
  moreover have "after_number (ds @ post) = post" by (simp add: after_number_def ds tw)
  ultimately show ?thesis
    using c minus digits_int_val [of 0 ds]
    by (auto simp: hasUnsafeIntegerLiteral_def unsafe_skip [OF assms(1)] ds number_of_digits_def)
qed

theorem unsafe_integer_decided_witness:
  "hasUnsafeIntegerLiteral ''[{$match: {a: 9007199254740993}}]''"
proof -
  have "hasUnsafeIntegerLiteral (''[{$match: {a: '' @ ''9007199254740993'' @ ''}}]'') \<longleftrightarrow>
    SAFE_INT < int (number_of_digits ''9007199254740993'') \<or> hasUnsafeIntegerLiteral ''}}]''"
    by (rule unsafe_integer_decided) code_simp+
  moreover have "SAFE_INT < int (number_of_digits ''9007199254740993'')"
    using digits_int_val [of 0 "''9007199254740993''"]
    by (simp add: number_of_digits_def SAFE_INT_def code_def)
  ultimately show ?thesis by simp
qed

text \<open>
  A blocked verdict is empty: no pipeline text, no flags, no collections, but a rule and a reason. An allowed
  one carries neither rule nor reason.
\<close>

theorem guardPipeline_verdict_shape:
  "if mv_allowed (guardPipeline js policy)
   then mv_ruleId (guardPipeline js policy) = None \<and> mv_reason (guardPipeline js policy) = None
   else mv_pipelineJson (guardPipeline js policy) = [] \<and> mv_ruleId (guardPipeline js policy) \<noteq> None
     \<and> mv_reason (guardPipeline js policy) \<noteq> None \<and> \<not> mv_autoLimited (guardPipeline js policy)
     \<and> \<not> mv_loweredLimit (guardPipeline js policy) \<and> mv_collections (guardPipeline js policy) = []"
  by (auto simp: guardPipeline_def mongo_blocked_def Let_def split: option.splits sum.splits prod.splits)

text \<open>
  The word that marks an unreadable pattern is itself a pattern: a search for the text \<open>opaque\<close> is refused as
  if it could not be inspected, while a search for any other short plain word passes.
\<close>

theorem opaque_pattern_refused:
  "map_option w_ruleId (scanValue DEFAULT_MONGO_GUARD_POLICY (JObj [(''$regex'', JStr ''opaque'')]) 1) = Some ''regex_opaque''
   \<and> scanValue DEFAULT_MONGO_GUARD_POLICY (JObj [(''$regex'', JStr ''opaques'')]) 1 = None"
  by code_simp

end
