(* ===== verification/Mongo_Stages.thy ===== *)
theory Mongo_Stages
  imports Mongo_Guard "HOL-Library.List_Lexorder"
begin

text \<open>
  The pipeline checks and rewrites around the MongoDB guard: the distinct count that is rewritten so that the guard
  admits it (\<open>packages/core/src/mongo/normalise.ts\<close>), and the field references a pipeline cannot
  resolve (\<open>packages/core/src/mongo/stage-fields.ts\<close>). A \<open>Set\<close> of names is a list without duplicates.
\<close>

section \<open>The distinct count\<close>

definition soleKey :: "props \<Rightarrow> string option" where
  "soleKey doc = (case doc of [(k, v)] \<Rightarrow> Some k | _ \<Rightarrow> None)"

fun referenceCount :: "string \<Rightarrow> jsval \<Rightarrow> nat" where
  "referenceCount ref (JStr s) = (if s = ref then 1 else 0)"
| "referenceCount ref (JArr xs) = sum_list (map (referenceCount ref) xs)"
| "referenceCount ref (JObj kvs) = sum_list (map (\<lambda>(k, v). referenceCount ref v) kvs)"
| "referenceCount ref _ = 0"

definition other_keys :: "props \<Rightarrow> string list" where
  "other_keys doc = filter (\<lambda>k. k \<noteq> ''_id'') (map fst doc)"

text \<open>The array name and the field of \<open>{$group: {_id: null, r: {$addToSet: "$field"}}}\<close>.\<close>

definition distinct_group :: "jsval \<Rightarrow> (string \<times> string) option" where
  "distinct_group stage =
     (case stage of
        JObj [(g, JObj grp)] \<Rightarrow>
          (if g \<noteq> ''$group'' \<or> get grp ''_id'' \<noteq> JNull then None
           else
             (case other_keys grp of
                [arrayName] \<Rightarrow>
                  (case get grp arrayName of
                     JObj [(acc, JStr field)] \<Rightarrow>
                       (if acc \<noteq> ''$addToSet'' \<or> \<not> starts_with field ''$'' \<or> starts_with field ''$$'' then None
                        else Some (arrayName, field))
                   | _ \<Rightarrow> None)
              | _ \<Rightarrow> None))
      | _ \<Rightarrow> None)"

text \<open>The output name of \<open>{$project: {n: {$size: "$r"}}}\<close> when the array is read exactly once.\<close>

definition size_projection :: "string \<Rightarrow> jsval \<Rightarrow> string option" where
  "size_projection ref stage =
     (case stage of
        JObj [(p, JObj projection)] \<Rightarrow>
          (if p \<notin> {''$project'', ''$addFields'', ''$set''} \<or> referenceCount ref (JObj projection) \<noteq> 1 then None
           else
             (case other_keys projection of
                [countName] \<Rightarrow>
                  (if get projection countName = JObj [(''$size'', JStr ref)] then Some countName else None)
              | _ \<Rightarrow> None))
      | _ \<Rightarrow> None)"

definition rewriteDistinctCount :: "jsval list \<Rightarrow> jsval list option" where
  "rewriteDistinctCount pipeline =
     (case pipeline of
        groupStage # projectStage # rest \<Rightarrow>
          (case distinct_group groupStage of
             None \<Rightarrow> None
           | Some (arrayName, field) \<Rightarrow>
               (case size_projection (CHR ''$'' # arrayName) projectStage of
                  None \<Rightarrow> None
                | Some countName \<Rightarrow>
                    (if referenceCount (CHR ''$'' # arrayName) (JArr rest) \<noteq> 0 then None
                     else Some
                       (JObj [(''$match'', JObj [(slice_from field 1, JObj [(''$exists'', JBool True)])])]
                        # JObj [(''$group'', JObj [(''_id'', JStr field)])]
                        # JObj [(''$count'', JStr countName)]
                        # rest))))
      | _ \<Rightarrow> None)"

section \<open>References into a narrowed document\<close>

definition MODELLED :: "string list" where
  "MODELLED = [''$group'', ''$count'', ''$project'', ''$addFields'', ''$set'', ''$unset'', ''$lookup'', ''$unwind'', ''$match'',
     ''$sort'', ''$limit'', ''$skip'', ''$sample'']"

record UnknownStageField =
  u_field :: string
  u_stage :: nat
  u_available :: "string list"

text \<open>\<open>k.split('.')[0]\<close>\<close>

definition first_segment :: "string \<Rightarrow> string" where
  "first_segment k = hd (split_on (CHR ''.'') k)"

definition rootOf :: "string \<Rightarrow> string option" where
  "rootOf ref =
     (if \<not> starts_with ref ''$'' \<or> starts_with ref ''$$'' then None
      else
        let path = slice_from ref 1
        in if path = [] then None
           else (case index_of path ''.'' 0 of None \<Rightarrow> Some path | Some dot \<Rightarrow> Some (slice path 0 dot)))"

text \<open>\<open>if (root) out.push(root)\<close>: an empty root is dropped.\<close>

definition root_refs :: "string \<Rightarrow> string list" where
  "root_refs s = (case rootOf s of None \<Rightarrow> [] | Some r \<Rightarrow> if r = [] then [] else [r])"

fun fieldRefsIn :: "jsval \<Rightarrow> string list" where
  "fieldRefsIn (JStr s) = root_refs s"
| "fieldRefsIn (JArr xs) = concat (map fieldRefsIn xs)"
| "fieldRefsIn (JObj kvs) =
     (if soleKey kvs = Some ''$literal'' then [] else concat (map (\<lambda>(k, v). fieldRefsIn v) kvs))"
| "fieldRefsIn _ = []"

text \<open>\<open>v === 0 || v === false\<close>\<close>

definition dropped :: "jsval \<Rightarrow> bool" where
  "dropped v \<longleftrightarrow> v = JNum (Fin 0) \<or> v = JBool False"

definition projected_name :: "bool \<Rightarrow> string \<times> jsval \<Rightarrow> string list" where
  "projected_name inclusion kv =
     (case kv of (k, v) \<Rightarrow>
        if k = ''_id'' then (if dropped v then [] else [''_id''])
        else if inclusion \<and> dropped v then [] else [first_segment k])"

definition add_all :: "'a list \<Rightarrow> 'a list \<Rightarrow> 'a list" where
  "add_all xs out = foldl (\<lambda>acc x. add_new x acc) out xs"

definition projectedNames :: "props \<Rightarrow> bool \<Rightarrow> string list" where
  "projectedNames spec inclusion =
     add_all (concat (map (projected_name inclusion) spec)
       @ (if inclusion \<and> ''_id'' \<notin> fst ` set spec then [''_id''] else [])) []"

definition isInclusionProjection :: "props \<Rightarrow> bool" where
  "isInclusionProjection spec =
     (case filter (\<lambda>(k, v). k \<noteq> ''_id'') spec of
        (k, v) # _ \<Rightarrow> \<not> dropped v
      | [] \<Rightarrow> \<not> dropped (get spec ''_id''))"

definition without_all :: "string list \<Rightarrow> string list \<Rightarrow> string list" where
  "without_all names out = filter (\<lambda>n. n \<notin> set names) out"

definition undotted :: "string list \<Rightarrow> string list" where
  "undotted names = filter (\<lambda>n. \<not> str_includes n ''.'') names"

text \<open>The references of a stage that are read from the current document.\<close>

definition stage_refs :: "string \<Rightarrow> jsval \<Rightarrow> string list" where
  "stage_refs name spec =
     (if name = ''$lookup'' \<and> doc_of spec \<noteq> None
      then fieldRefsIn (get_prop spec ''localField'') @ fieldRefsIn (get_prop spec ''let'')
      else fieldRefsIn spec)"

text \<open>
  The \<open>switch\<close>: the names available behind the stage. The outer option is the \<open>return null\<close> of a
  shape the code gives up on, the inner one the \<open>null\<close> before the first narrowing stage.
\<close>

definition after_stage :: "string \<Rightarrow> jsval \<Rightarrow> string list option \<Rightarrow> string list option option" where
  "after_stage name spec available =
     (if name = ''$group'' then
        (case spec of JObj kvs \<Rightarrow> Some (Some (map fst kvs)) | _ \<Rightarrow> None)
      else if name = ''$count'' then
        (case spec of JStr s \<Rightarrow> Some (Some [s]) | _ \<Rightarrow> None)
      else if name = ''$project'' then
        (case spec of
           JObj kvs \<Rightarrow>
             (if isInclusionProjection kvs then Some (Some (projectedNames kvs True))
              else Some (map_option (without_all (undotted (map fst kvs))) available))
         | _ \<Rightarrow> None)
      else if name = ''$addFields'' \<or> name = ''$set'' then
        (case spec of
           JObj kvs \<Rightarrow> Some (map_option (add_all (map (\<lambda>(k, v). first_segment k) kvs)) available)
         | _ \<Rightarrow> None)
      else if name = ''$unset'' then
        (case spec of
           JStr s \<Rightarrow> Some (map_option (without_all (undotted [s])) available)
         | JArr xs \<Rightarrow> Some (map_option (without_all (undotted (List.map_filter str_of xs))) available)
         | _ \<Rightarrow> None)
      else if name = ''$lookup'' then
        (case get_prop spec ''as'' of
           JStr s \<Rightarrow> Some (map_option (add_all [first_segment s]) available)
         | _ \<Rightarrow> None)
      else if name = ''$unwind'' then
        (case get_prop spec ''includeArrayIndex'' of
           JStr s \<Rightarrow> Some (map_option (add_all [first_segment s]) available)
         | _ \<Rightarrow> Some available)
      else if name \<in> {''$match'', ''$sort'', ''$limit'', ''$skip'', ''$sample''} then Some available
      else None)"

definition sorted_names :: "string list \<Rightarrow> string list" where
  "sorted_names ns = sort_key (map code) ns"

fun unknown_from :: "nat \<Rightarrow> string list option \<Rightarrow> jsval list \<Rightarrow> UnknownStageField option" where
  "unknown_from i available [] = None"
| "unknown_from i available (stage # stages) =
     (case stage of
        JObj [(name, spec)] \<Rightarrow>
          (if name \<notin> set MODELLED then None
           else
             (case (case available of
                      None \<Rightarrow> None
                    | Some av \<Rightarrow> map_option (\<lambda>ref. (ref, av)) (List.find (\<lambda>ref. ref \<notin> set av) (stage_refs name spec))) of
                Some (ref, av) \<Rightarrow> Some \<lparr>u_field = ref, u_stage = i, u_available = sorted_names av\<rparr>
              | None \<Rightarrow>
                  (case after_stage name spec available of
                     None \<Rightarrow> None
                   | Some available' \<Rightarrow> unknown_from (i + 1) available' stages)))
      | _ \<Rightarrow> None)"

definition firstUnknownStageField :: "jsval list \<Rightarrow> UnknownStageField option" where
  "firstUnknownStageField pipeline = unknown_from 0 None pipeline"

section \<open>Misquoted fields\<close>

record MisquotedField =
  q_raw :: string
  q_suggestion :: string

definition quote_pairs :: "(char \<times> char) list" where
  "quote_pairs = [(BACKTICK, BACKTICK), (DQUOTE, DQUOTE), (SQUOTE, SQUOTE), (CHR ''['', CHR '']'')]"

definition unquoteSegment :: "string \<Rightarrow> string" where
  "unquoteSegment segment =
     (case List.find (\<lambda>(l, r). 1 < length segment \<and> starts_with segment [l] \<and> ends_with segment [r]) quote_pairs of
        Some _ \<Rightarrow> slice segment 1 (length segment - 1)
      | None \<Rightarrow> segment)"

fun collectPaths :: "jsval \<Rightarrow> string list" where
  "collectPaths (JStr s) =
     (if starts_with s ''$'' \<and> \<not> starts_with s ''$$'' \<and> 1 < length s then [slice_from s 1] else [])"
| "collectPaths (JArr xs) = concat (map collectPaths xs)"
| "collectPaths (JObj kvs) = concat (map (\<lambda>(k, v). collectPaths v) kvs)"
| "collectPaths _ = []"

definition unquote_path :: "string \<Rightarrow> string" where
  "unquote_path raw = join ''.'' (map unquoteSegment (split_on (CHR ''.'') raw))"

definition firstMisquotedField :: "jsval list \<Rightarrow> string list \<Rightarrow> MisquotedField option" where
  "firstMisquotedField pipeline catalogFields =
     map_option (\<lambda>raw. \<lparr>q_raw = raw, q_suggestion = unquote_path raw\<rparr>)
       (List.find (\<lambda>raw. raw \<notin> set catalogFields \<and> unquote_path raw \<noteq> raw \<and> unquote_path raw \<in> set catalogFields)
          (collectPaths (JArr pipeline)))"

section \<open>What the rewrite and the checks guarantee\<close>

lemma distinct_groupD:
  assumes "distinct_group stage = Some (arrayName, field)"
  shows "starts_with field ''$''" "\<not> starts_with field ''$$''"
  using assms by (auto simp: distinct_group_def split: jsval.splits list.splits prod.splits if_splits)

text \<open>Behind its dollar sign the field does not start with another one, so it is no operator name.\<close>

lemma no_dollar_plain:
  assumes "\<not> starts_with k ''$''"
  shows "entry_violation policy k v = None"
proof -
  have "\<forall>op \<in> set (DENIED_OPERATORS_ANYWHERE @ REGEX_OPERATORS @ [''$regex'', ''$regularExpression'']). starts_with op ''$''"
    by code_simp
  with assms show ?thesis by (auto simp: entry_violation_def)
qed

lemma field_tail: "starts_with field ''$'' \<Longrightarrow> \<not> starts_with field ''$$'' \<Longrightarrow> \<not> starts_with (slice_from field 1) ''$''"
  by (cases field) (auto simp: starts_with_def slice_from_def)

lemma plain_stages: "''$match'' \<in> set ALLOWED_STAGES" "''$group'' \<in> set ALLOWED_STAGES" "''$count'' \<in> set ALLOWED_STAGES"
  by code_simp+

lemma rewriteDistinctCountE:
  assumes "rewriteDistinctCount p = Some q"
  obtains g pr rest arrayName field countName where "p = g # pr # rest"
    "distinct_group g = Some (arrayName, field)" "size_projection (CHR ''$'' # arrayName) pr = Some countName"
    "referenceCount (CHR ''$'' # arrayName) (JArr rest) = 0"
    "q = JObj [(''$match'', JObj [(slice_from field 1, JObj [(''$exists'', JBool True)])])]
       # JObj [(''$group'', JObj [(''_id'', JStr field)])] # JObj [(''$count'', JStr countName)] # rest"
  using assms
  by (auto simp: rewriteDistinctCount_def split: list.splits option.splits if_splits prod.splits)

lemma find_Some_props: "List.find P xs = Some x \<Longrightarrow> x \<in> set xs \<and> P x"
  by (rule find_SomeD)

text \<open>A stage that narrows the document to names the walk has computed.\<close>

definition narrowing :: "jsval \<Rightarrow> bool" where
  "narrowing stage \<longleftrightarrow> (\<exists>name spec. stage = JObj [(name, spec)] \<and> name \<in> {''$group'', ''$count'', ''$project''})"

lemma after_stage_narrowing:
  assumes "after_stage name spec None = Some (Some av)"
  shows "name \<in> {''$group'', ''$count'', ''$project''}"
  using assms by (auto simp: after_stage_def split: if_splits jsval.splits)

lemma unknown_from_narrowed:
  assumes "unknown_from i available p = Some u"
  shows "i \<le> u_stage u \<and> u_stage u < i + length p
    \<and> (\<exists>name spec. p ! (u_stage u - i) = JObj [(name, spec)] \<and> u_field u \<in> set (stage_refs name spec))
    \<and> u_field u \<notin> set (u_available u)
    \<and> (available \<noteq> None \<or> (\<exists>k < u_stage u - i. narrowing (p ! k)))"
  using assms
proof (induction p arbitrary: i available)
  case (Cons stage stages)
  obtain name spec where stage: "stage = JObj [(name, spec)]" and name: "name \<in> set MODELLED"
    using Cons.prems by (auto split: jsval.splits list.splits prod.splits if_splits)
  show ?case
  proof (cases "case available of None \<Rightarrow> None
      | Some av \<Rightarrow> map_option (\<lambda>ref. (ref, av)) (List.find (\<lambda>ref. ref \<notin> set av) (stage_refs name spec))")
    case (Some hit)
    then obtain av where "available = Some av" "List.find (\<lambda>ref. ref \<notin> set av) (stage_refs name spec) = Some (fst hit)" "snd hit = av"
      by (auto split: option.splits)
    with Cons.prems Some stage name find_Some_props show ?thesis
      by (fastforce simp: sorted_names_def split: prod.splits)
  next
    case None
    then obtain available' where next': "after_stage name spec available = Some available'"
        and rest: "unknown_from (i + 1) available' stages = Some u"
      using Cons.prems stage name by (auto split: option.splits)
    have ih: "i + 1 \<le> u_stage u \<and> u_stage u < i + 1 + length stages
        \<and> (\<exists>name spec. stages ! (u_stage u - (i + 1)) = JObj [(name, spec)] \<and> u_field u \<in> set (stage_refs name spec))
        \<and> u_field u \<notin> set (u_available u)
        \<and> (available' \<noteq> None \<or> (\<exists>k < u_stage u - (i + 1). narrowing (stages ! k)))"
      using Cons.IH [OF rest] by simp
    have "available \<noteq> None \<or> (\<exists>k < u_stage u - i. narrowing ((stage # stages) ! k))"
    proof (cases available)
      case unavailable: None
      show ?thesis
      proof (cases available')
        case None
        with ih obtain k where "k < u_stage u - (i + 1)" "narrowing (stages ! k)" by auto
        with ih show ?thesis by (intro disjI2 exI [of _ "Suc k"]) auto
      next
        case (Some av)
        with next' unavailable after_stage_narrowing have "narrowing stage"
          unfolding narrowing_def stage by blast
        with ih show ?thesis by (intro disjI2 exI [of _ 0]) auto
      qed
    qed simp
    moreover have "u_stage u - i = Suc (u_stage u - (i + 1))"
      using ih by linarith
    then have "(stage # stages) ! (u_stage u - i) = stages ! (u_stage u - (i + 1))" by simp
    ultimately show ?thesis using ih by simp
  qed
qed simp

section \<open>Properties\<close>


definition sample_distinct :: "jsval list" where
  "sample_distinct =
     [JObj [(''$group'', JObj [(''_id'', JNull), (''r'', JObj [(''$addToSet'', JStr ''$region'')])])],
      JObj [(''$project'', JObj [(''n'', JObj [(''$size'', JStr ''$r'')])])],
      JObj [(''$limit'', JNum (Fin 1))]]"


text \<open>
  Only provable absences are reported. A reported field is referenced by the reported stage, is not among the
  names listed as available, and an earlier stage has narrowed the document: before a \<open>$group\<close>,
  \<open>$count\<close> or \<open>$project\<close> nothing is ever reported.
\<close>

theorem unknown_field_is_provable:
  assumes "firstUnknownStageField p = Some u"
  shows "u_stage u < length p
    \<and> (\<exists>name spec. p ! u_stage u = JObj [(name, spec)] \<and> u_field u \<in> set (stage_refs name spec))
    \<and> u_field u \<notin> set (u_available u) \<and> (\<exists>k < u_stage u. narrowing (p ! k))"
  using unknown_from_narrowed [OF assms [unfolded firstUnknownStageField_def]] by simp

theorem unknown_field_is_provable_witness:
  "\<exists>k < 1. narrowing ([JObj [(''$group'', JObj [(''_id'', JStr ''$a'')])], JObj [(''$project'', JObj [(''x'', JStr ''$b.c'')])]] ! k)"
proof -
  have "firstUnknownStageField [JObj [(''$group'', JObj [(''_id'', JStr ''$a'')])], JObj [(''$project'', JObj [(''x'', JStr ''$b.c'')])]]
    = Some \<lparr>u_field = ''b'', u_stage = 1, u_available = [''_id'']\<rparr>"
    by code_simp
  from unknown_field_is_provable [OF this] show ?thesis by simp
qed

text \<open>
  The \<open>localField\<close> of a \<open>$lookup\<close> is written without a dollar sign, and a name without one is never taken
  for a reference: an absent local field goes unreported, although the check means to read it.
\<close>

theorem lookup_local_field_unchecked:
  "firstUnknownStageField
     [JObj [(''$group'', JObj [(''_id'', JStr ''$a'')])],
      JObj [(''$lookup'', JObj [(''from'', JStr ''b''), (''localField'', JStr ''gone''), (''foreignField'', JStr ''x''), (''as'', JStr ''y'')])]]
     = None"
  by code_simp

text \<open>
  A reported misquoting is certain: the path as written is no catalog field, its unquoted form is one and
  differs from it, and it is referenced in the pipeline.
\<close>

theorem misquoted_field_is_certain:
  assumes "firstMisquotedField p known = Some m"
  shows "q_raw m \<in> set (collectPaths (JArr p)) \<and> q_raw m \<notin> set known \<and> q_suggestion m \<in> set known
    \<and> q_suggestion m = unquote_path (q_raw m) \<and> q_suggestion m \<noteq> q_raw m"
  using assms by (auto simp: firstMisquotedField_def dest!: find_Some_props)

theorem misquoted_field_is_certain_witness:
  "''total'' \<in> set [''total'']"
proof -
  have "firstMisquotedField [JObj [(''$match'', JStr ''$[total]'')]] [''total''] = Some \<lparr>q_raw = ''[total]'', q_suggestion = ''total''\<rparr>"
    by code_simp
  from misquoted_field_is_certain [OF this] show ?thesis by simp
qed

end
