(* ===== verification/History.thy ===== *)
theory History
  imports Core_Types "HOL-Library.AList" "HOL-Library.List_Lexorder" "HOL-Library.Multiset"
begin

text \<open>
  The two in-memory stores of \<open>packages/core/src/history.ts\<close>: the query history and the few-shot examples. Both
  keep one bounded list per scope, a scope being a connection and a user; what that guarantees is stated
  once, in a locale, and used for both. The \<open>Map\<close> of buckets is an association list in insertion order.
\<close>

section \<open>Numbers as positions\<close>

text \<open>\<open>Math.min\<close>, \<open>Math.max\<close>, addition, and the relative positions of \<open>Array.prototype.slice\<close>.\<close>

fun num_le :: "jsnum \<Rightarrow> jsnum \<Rightarrow> bool" where
  "num_le (Fin x) (Fin y) = (x \<le> y)"
| "num_le NegInf y = True"
| "num_le x PosInf = True"
| "num_le x y = False"

definition math_min :: "jsnum \<Rightarrow> jsnum \<Rightarrow> jsnum" where
  "math_min x y = (if x = NaN \<or> y = NaN then NaN else if num_le x y then x else y)"

definition math_max :: "jsnum \<Rightarrow> jsnum \<Rightarrow> jsnum" where
  "math_max x y = (if x = NaN \<or> y = NaN then NaN else if num_le x y then y else x)"

fun num_add :: "jsnum \<Rightarrow> jsnum \<Rightarrow> jsnum" where
  "num_add (Fin x) (Fin y) = Fin (x + y)"
| "num_add NaN y = NaN"
| "num_add x NaN = NaN"
| "num_add PosInf NegInf = NaN"
| "num_add NegInf PosInf = NaN"
| "num_add PosInf y = PosInf"
| "num_add NegInf y = NegInf"
| "num_add x y = y"

definition toward_zero :: "rat \<Rightarrow> int" where
  "toward_zero x = (if x < 0 then - \<lfloor>- x\<rfloor> else \<lfloor>x\<rfloor>)"

fun rel_index :: "nat \<Rightarrow> jsnum \<Rightarrow> nat" where
  "rel_index n NaN = 0"
| "rel_index n NegInf = 0"
| "rel_index n PosInf = n"
| "rel_index n (Fin x) =
     (let i = toward_zero x in if i < 0 then nat (max 0 (int n + i)) else nat (min (int n) i))"

definition list_slice :: "'a list \<Rightarrow> jsnum \<Rightarrow> jsnum \<Rightarrow> 'a list" where
  "list_slice xs a b =
     (let i = rel_index (length xs) a; j = rel_index (length xs) b in take (j - i) (drop i xs))"

lemma set_list_slice: "set (list_slice xs a b) \<subseteq> set xs"
  by (auto simp: list_slice_def Let_def dest!: in_set_takeD in_set_dropD)

section \<open>The history\<close>

datatype history_status = StatusOk | StatusBlocked | StatusError

record HistoryEntry =
  h_id :: string
  h_at :: string
  h_connectionId :: string
  h_userId :: "string option"
  h_question :: "string option"
  h_sql :: string
  h_status :: history_status
  h_errorCode :: "string option"
  h_durationMs :: "jsnum option"
  h_rowCount :: "jsnum option"
  h_tokens :: "(jsnum option \<times> jsnum option) option"

record HistoryPage =
  items :: "HistoryEntry list"
  total :: nat

type_synonym 'e buckets = "(string \<times> 'e list) list"

text \<open>The key: the connection, a NUL, and the user, who is the empty string when absent.\<close>

definition key :: "string \<Rightarrow> string option \<Rightarrow> string" where
  "key connectionId userId = connectionId @ [NUL] @ or_default userId []"

definition bucket_of :: "'e buckets \<Rightarrow> string \<Rightarrow> 'e list" where
  "bucket_of bs k = or_default (map_of bs k) []"

record MemoryHistoryStore =
  buckets :: "HistoryEntry buckets"
  capPerScope :: nat

definition new_MemoryHistoryStore :: "nat option \<Rightarrow> MemoryHistoryStore" where
  "new_MemoryHistoryStore cap = \<lparr>buckets = [], capPerScope = or_default cap 500\<rparr>"

definition history_add :: "MemoryHistoryStore \<Rightarrow> HistoryEntry \<Rightarrow> MemoryHistoryStore" where
  "history_add st entry =
     (let k = key (h_connectionId entry) (h_userId entry);
          list = entry # bucket_of (buckets st) k
      in st\<lparr>buckets := AList.update k (take (capPerScope st) list) (buckets st)\<rparr>)"

text \<open>\<open>rows.sort((a, b) => (a.at < b.at ? 1 : a.at > b.at ? -1 : 0))\<close>: stable, newest first, strings by code unit.\<close>

definition newest_first :: "HistoryEntry list \<Rightarrow> HistoryEntry list" where
  "newest_first rows = rev (sort_key (\<lambda>e. map code (h_at e)) (rev rows))"

record history_opts =
  op_limit :: "jsnum option"
  op_offset :: "jsnum option"
  op_userId :: "string option"

definition history_rows :: "MemoryHistoryStore \<Rightarrow> string \<Rightarrow> string option \<Rightarrow> HistoryEntry list" where
  "history_rows st connectionId userId =
     (if userId \<noteq> None then bucket_of (buckets st) (key connectionId userId)
      else newest_first (filter (\<lambda>e. h_connectionId e = connectionId) (concat (map snd (buckets st)))))"

definition history_list :: "MemoryHistoryStore \<Rightarrow> string \<Rightarrow> history_opts \<Rightarrow> HistoryPage" where
  "history_list st connectionId opts =
     (let limit = math_max (Fin 1) (math_min (or_default (op_limit opts) (Fin 50)) (Fin 200));
          offset = math_max (Fin 0) (or_default (op_offset opts) (Fin 0));
          rows = history_rows st connectionId (op_userId opts)
      in \<lparr>items = list_slice rows offset (num_add offset limit), total = length rows\<rparr>)"

text \<open>\<open>n.toString(36)\<close> of a natural number.\<close>

definition base36_digit :: "nat \<Rightarrow> char" where
  "base36_digit n = (if n < 10 then char_of (48 + n) else char_of (87 + n))"

fun base36 :: "nat \<Rightarrow> string" where
  "base36 n = (if n < 36 then [base36_digit n] else base36 (n div 36) @ [base36_digit (n mod 36)])"

declare base36.simps [simp del]

text \<open>The id and the new value of the module's counter, given the clock.\<close>

definition historyId :: "nat \<Rightarrow> nat \<Rightarrow> string \<times> nat" where
  "historyId now counter = (''h_'' @ base36 now @ ''_'' @ base36 (counter + 1), counter + 1)"

section \<open>Few-shot examples\<close>

record FewShotExample =
  x_question :: string
  x_sql :: string

definition STOP :: "string list" where
  "STOP = [''the'', ''a'', ''an'', ''of'', ''in'', ''on'', ''for'', ''to'', ''by'', ''and'', ''or'', ''how'', ''many'', ''what'',
     ''is'', ''are'', ''per'', ''each'', ''all'', ''show'', ''list'', ''get'']"

text \<open>
  \<open>s.split(/[^a-z0-9_]+/u)\<close>. A separator of several characters is split at each of them here; the empty strings
  this gives are dropped by the length test of \<open>terms\<close>.
\<close>

definition term_char :: "char \<Rightarrow> bool" where
  "term_char c \<longleftrightarrow> is_lower c \<or> is_digit c \<or> c = CHR ''_''"

fun split_terms :: "string \<Rightarrow> string list" where
  "split_terms [] = [[]]"
| "split_terms (c # cs) =
     (if term_char c then (c # hd (split_terms cs)) # tl (split_terms cs) else [] # split_terms cs)"

definition terms :: "string \<Rightarrow> string list" where
  "terms s = foldl (\<lambda>ws w. add_new w ws) []
     (filter (\<lambda>w. 2 < length w \<and> w \<notin> set STOP) (split_terms (toLowerCase s)))"

definition overlap :: "string list \<Rightarrow> string list \<Rightarrow> nat" where
  "overlap a b = length (filter (\<lambda>t. t \<in> set b) a)"

record MemoryFewShotStore =
  byConn :: "FewShotExample buckets"
  capPerConn :: nat

definition new_MemoryFewShotStore :: "nat option \<Rightarrow> MemoryFewShotStore" where
  "new_MemoryFewShotStore cap = \<lparr>byConn = [], capPerConn = or_default cap 200\<rparr>"

definition same_question :: "FewShotExample \<Rightarrow> FewShotExample \<Rightarrow> bool" where
  "same_question e f \<longleftrightarrow> toLowerCase (trim (x_question e)) = toLowerCase (trim (x_question f))"

text \<open>\<open>findIndex\<close> and \<open>splice(existing, 1)\<close>: the first element that satisfies the test is taken out.\<close>

fun remove_first :: "('a \<Rightarrow> bool) \<Rightarrow> 'a list \<Rightarrow> 'a list" where
  "remove_first P [] = []"
| "remove_first P (x # xs) = (if P x then xs else x # remove_first P xs)"

definition put_example :: "FewShotExample \<Rightarrow> FewShotExample list \<Rightarrow> FewShotExample list" where
  "put_example e xs = e # remove_first (\<lambda>x. same_question x e) xs"

definition fewshot_add :: "MemoryFewShotStore \<Rightarrow> string \<Rightarrow> FewShotExample \<Rightarrow> string option \<Rightarrow> MemoryFewShotStore" where
  "fewshot_add st connectionId e userId =
     (let k = key connectionId userId
      in st\<lparr>byConn := AList.update k (take (capPerConn st) (put_example e (bucket_of (byConn st) k))) (byConn st)\<rparr>)"

text \<open>\<open>sort((a, b) => b.score - a.score)\<close>: stable, best first.\<close>

definition best_first :: "(FewShotExample \<times> nat) list \<Rightarrow> (FewShotExample \<times> nat) list" where
  "best_first xs = rev (sort_key snd (rev xs))"

definition fewshot_retrieve :: "MemoryFewShotStore \<Rightarrow> string \<Rightarrow> string \<Rightarrow> jsnum \<Rightarrow> string option \<Rightarrow> FewShotExample list" where
  "fewshot_retrieve st connectionId question limit userId =
     (let q = terms question;
          scored = map (\<lambda>ex. (ex, overlap q (terms (x_question ex)))) (bucket_of (byConn st) (key connectionId userId))
      in map fst (list_slice (best_first (filter (\<lambda>(ex, score). 0 < score) scored)) (Fin 0) limit))"

section \<open>The contract of a bounded store with scopes\<close>

text \<open>
  What a client of either store relies on: an entry goes to the bucket of its scope, in front of what is there and
  cut to the cap, and no other bucket changes.
\<close>

locale scoped_store =
  fixes add :: "'s \<Rightarrow> 'x \<Rightarrow> 's"
    and scope :: "'x \<Rightarrow> string"
    and item :: "'x \<Rightarrow> 'e"
    and bucket :: "'s \<Rightarrow> string \<Rightarrow> 'e list"
    and cap :: "'s \<Rightarrow> nat"
    and put :: "'e \<Rightarrow> 'e list \<Rightarrow> 'e list"
  assumes cap_add [simp]: "cap (add st e) = cap st"
    and bucket_add_same: "bucket (add st e) (scope e) = take (cap st) (put (item e) (bucket st (scope e)))"
    and bucket_add_other: "k \<noteq> scope e \<Longrightarrow> bucket (add st e) k = bucket st k"
begin

definition adds :: "'s \<Rightarrow> 'x list \<Rightarrow> 's" where
  "adds st es = foldl add st es"

lemma cap_adds [simp]: "cap (adds st es) = cap st"
  unfolding adds_def by (induction es arbitrary: st) auto

lemma bucket_adds_snoc:
  "bucket (adds st (es @ [e])) k =
     (if scope e = k then take (cap st) (put (item e) (bucket (adds st es) k)) else bucket (adds st es) k)"
  using bucket_add_same [of "adds st es" e] bucket_add_other [of k e "adds st es"] cap_adds [of st es]
  by (auto simp: adds_def)

lemma bounded: "length (bucket st k) \<le> cap st \<Longrightarrow> length (bucket (adds st es) k) \<le> cap st"
proof (induction es rule: rev_induct)
  case (snoc e es)
  then show ?case by (simp add: bucket_adds_snoc)
qed (simp add: adds_def)

text \<open>The bucket of a scope depends on the entries of that scope only.\<close>

lemma isolated: "bucket (adds st es) k = bucket (adds st (filter (\<lambda>e. scope e = k) es)) k"
proof (induction es rule: rev_induct)
  case (snoc e es)
  then show ?case by (simp add: bucket_adds_snoc)
qed simp

end

text \<open>A store that only puts in front keeps exactly the newest entries of a scope.\<close>

locale log_store = scoped_store +
  assumes put_front: "put e xs = e # xs"
begin

lemma keeps_newest:
  assumes "bucket st k = []"
  shows "bucket (adds st es) k = take (cap st) (rev (map item (filter (\<lambda>e. scope e = k) es)))"
proof (induction es rule: rev_induct)
  case Nil
  then show ?case using assms by (simp add: adds_def)
next
  case (snoc e es)
  then show ?case by (cases "cap st") (simp_all add: bucket_adds_snoc put_front)
qed

end

definition history_scope :: "HistoryEntry \<Rightarrow> string" where
  "history_scope e = key (h_connectionId e) (h_userId e)"

definition history_bucket :: "MemoryHistoryStore \<Rightarrow> string \<Rightarrow> HistoryEntry list" where
  "history_bucket st k = bucket_of (buckets st) k"

lemma bucket_of_update: "bucket_of (AList.update k xs bs) k' = (if k' = k then xs else bucket_of bs k')"
  by (simp add: bucket_of_def or_default_def update_conv)

interpretation hist: log_store history_add history_scope id history_bucket capPerScope "(#)"
  by unfold_locales
    (simp_all add: history_add_def history_scope_def history_bucket_def Let_def bucket_of_update)

text \<open>The examples of the few-shot store, each with its scope.\<close>

type_synonym scoped_example = "string \<times> FewShotExample \<times> string option"

definition add_example :: "MemoryFewShotStore \<Rightarrow> scoped_example \<Rightarrow> MemoryFewShotStore" where
  "add_example st x = (case x of (c, e, u) \<Rightarrow> fewshot_add st c e u)"

definition example_scope :: "scoped_example \<Rightarrow> string" where
  "example_scope x = (case x of (c, e, u) \<Rightarrow> key c u)"

definition example_item :: "scoped_example \<Rightarrow> FewShotExample" where
  "example_item x = fst (snd x)"

definition example_bucket :: "MemoryFewShotStore \<Rightarrow> string \<Rightarrow> FewShotExample list" where
  "example_bucket st k = bucket_of (byConn st) k"

interpretation few: scoped_store add_example example_scope example_item example_bucket capPerConn put_example
  by unfold_locales
    (auto simp: add_example_def example_scope_def example_item_def example_bucket_def fewshot_add_def Let_def
      bucket_of_update)

section \<open>Keys and order\<close>

lemma takeWhile_stop: "x \<notin> set c \<Longrightarrow> takeWhile (\<lambda>y. y \<noteq> x) (c @ x # d) = c"
  by (induction c) auto

lemma key_inject:
  assumes "NUL \<notin> set c" "NUL \<notin> set c'"
  shows "key c u = key c' u' \<longleftrightarrow> c = c' \<and> or_default u [] = or_default u' []"
proof
  assume eq: "key c u = key c' u'"
  from arg_cong [OF eq, of "takeWhile (\<lambda>y. y \<noteq> NUL)"] assms have "c = c'"
    by (simp add: key_def takeWhile_stop)
  with eq show "c = c' \<and> or_default u [] = or_default u' []" by (simp add: key_def)
qed (simp add: key_def)

lemma newest_first_mset: "mset (newest_first rows) = mset rows"
  by (simp add: newest_first_def)

lemma newest_first_sorted: "sorted_wrt (\<lambda>a b. map code (h_at b) \<le> map code (h_at a)) (newest_first rows)"
proof -
  have "sorted (map (\<lambda>e. map code (h_at e)) (sort_key (\<lambda>e. map code (h_at e)) (rev rows)))" by simp
  then show ?thesis unfolding newest_first_def sorted_wrt_rev by (simp add: sorted_map)
qed

lemma best_first_sorted: "sorted_wrt (\<lambda>a b. snd b \<le> snd a) (best_first xs)"
proof -
  have "sorted (map snd (sort_key snd (rev xs)))" by simp
  then show ?thesis unfolding best_first_def sorted_wrt_rev by (simp add: sorted_map)
qed

lemma math_max_ge: "x \<noteq> NaN \<Longrightarrow> math_max (Fin a) x = Fin y \<Longrightarrow> a \<le> y"
  by (cases x) (auto simp: math_max_def split: if_splits)

lemma rel_index_step:
  assumes "0 \<le> x" "0 \<le> y" "y \<le> of_nat m"
  shows "rel_index n (Fin (x + y)) - rel_index n (Fin x) \<le> m"
proof -
  have "\<lfloor>x + y\<rfloor> \<le> \<lfloor>x + of_nat m\<rfloor>" using assms by (intro floor_mono) simp
  then have "\<lfloor>x + y\<rfloor> \<le> \<lfloor>x\<rfloor> + int m" by (simp add: floor_add_int [symmetric] del: floor_add_int)
  moreover have "0 \<le> \<lfloor>x\<rfloor>" "0 \<le> \<lfloor>x + y\<rfloor>" using assms by simp_all
  ultimately show ?thesis using assms by (simp add: toward_zero_def Let_def)
qed

lemma page_length:
  "length (list_slice rows (math_max (Fin 0) off)
     (num_add (math_max (Fin 0) off) (math_max (Fin 1) (math_min lm (Fin 200))))) \<le> 200"
proof -
  let ?l = "math_max (Fin 1) (math_min lm (Fin 200))" and ?o = "math_max (Fin 0) off"
  have l: "?l = NaN \<or> (\<exists>y. ?l = Fin y \<and> 0 \<le> y \<and> y \<le> 200)"
    by (cases lm) (auto simp: math_max_def math_min_def)
  have o: "?o = NaN \<or> ?o = PosInf \<or> (\<exists>x. ?o = Fin x \<and> 0 \<le> x)"
    by (cases off) (auto simp: math_max_def)
  have "rel_index n (num_add ?o ?l) - rel_index n ?o \<le> 200" for n
  proof (cases "\<exists>x y. ?o = Fin x \<and> ?l = Fin y")
    case True
    then obtain x y where "?o = Fin x" "?l = Fin y" by blast
    with l o rel_index_step [of x y 200 n] show ?thesis by (simp del: rel_index.simps(4))
  next
    case False
    with l o show ?thesis by auto
  qed
  then show ?thesis by (simp add: list_slice_def Let_def min.coboundedI2)
qed

lemma base36_chars: "set (base36 n) \<subseteq> base36_digit ` {..<36}"
proof (induction n rule: base36.induct)
  case (1 n)
  then show ?case by (subst base36.simps) auto
qed

lemma base36_digit_value:
  assumes "m < 36" "n < 36" "base36_digit m = base36_digit n"
  shows "m = n"
proof -
  have "code (base36_digit k) = (if k < 10 then 48 + k else 87 + k)" if "k < 36" for k
    using that by (simp add: base36_digit_def code_char_of)
  from this [OF assms(1)] this [OF assms(2)] arg_cong [OF assms(3), of code]
  have "(if m < 10 then 48 + m else 87 + m) = (if n < 10 then 48 + n else 87 + n)" by simp
  then show ?thesis by (simp split: if_splits)
qed

lemma base36_inject: "base36 m = base36 n \<Longrightarrow> m = n"
proof (induction m arbitrary: n rule: less_induct)
  case (less m)
  show ?case
  proof (cases "m < 36 \<or> n < 36")
    case True
    have ne: "base36 k \<noteq> []" for k by (subst base36.simps) simp
    from True less.prems show ?thesis
      by (subst (asm) (1 2) base36.simps) (auto split: if_splits simp: ne ne [symmetric] dest: base36_digit_value)
  next
    case False
    with less.prems have "base36 (m div 36) = base36 (n div 36)" "base36_digit (m mod 36) = base36_digit (n mod 36)"
      by (simp_all add: base36.simps [of m] base36.simps [of n])
    with less.IH [of "m div 36"] False base36_digit_value [of "m mod 36" "n mod 36"]
    have "m div 36 = n div 36" "m mod 36 = n mod 36" by auto
    then show ?thesis by (metis div_mult_mod_eq)
  qed
qed

lemma base36_no_underscore: "CHR ''_'' \<notin> set (base36 n)"
proof -
  have "CHR ''_'' \<notin> base36_digit ` {..<36}" by code_simp
  with base36_chars [of n] show ?thesis by blast
qed

section \<open>Few-shot questions stay distinct\<close>

definition question_key :: "FewShotExample \<Rightarrow> string" where
  "question_key e = toLowerCase (trim (x_question e))"

lemma remove_first_distinct:
  "distinct (map f xs) \<Longrightarrow> distinct (map f (remove_first P xs))"
proof (induction xs)
  case (Cons x xs)
  have "set (remove_first P xs) \<subseteq> set xs" by (induction xs) auto
  with Cons show ?case by auto
qed simp

lemma remove_first_key:
  assumes "distinct (map question_key xs)"
  shows "question_key e \<notin> question_key ` set (remove_first (\<lambda>x. same_question x e) xs)"
  using assms
proof (induction xs)
  case (Cons x xs)
  then show ?case by (auto simp: same_question_def question_key_def)
qed simp

lemma put_example_distinct:
  "distinct (map question_key xs) \<Longrightarrow> distinct (map question_key (put_example e xs))"
  using remove_first_key [of xs e] remove_first_distinct [of question_key xs] by (auto simp: put_example_def)

lemma few_distinct:
  assumes "distinct (map question_key (example_bucket st k))"
  shows "distinct (map question_key (example_bucket (few.adds st xs) k))"
proof (induction xs rule: rev_induct)
  case Nil
  then show ?case using assms by (simp add: few.adds_def)
next
  case (snoc x xs)
  then show ?case
    using put_example_distinct [OF snoc, of "example_item x"]
    by (auto simp: few.bucket_adds_snoc take_map [symmetric] distinct_take)
qed

section \<open>Properties\<close>

text \<open>The store after a sequence of entries, and a short history used in the examples.\<close>

definition history_after :: "nat option \<Rightarrow> HistoryEntry list \<Rightarrow> MemoryHistoryStore" where
  "history_after cap es = foldl history_add (new_MemoryHistoryStore cap) es"

definition entry :: "string \<Rightarrow> string option \<Rightarrow> string \<Rightarrow> HistoryEntry" where
  "entry c u sql =
     \<lparr>h_id = ''h'', h_at = sql, h_connectionId = c, h_userId = u, h_question = None, h_sql = sql,
      h_status = StatusOk, h_errorCode = None, h_durationMs = None, h_rowCount = None, h_tokens = None\<rparr>"

lemma history_after_bucket:
  "history_bucket (history_after cap es) k = take (or_default cap 500) (rev (filter (\<lambda>e. history_scope e = k) es))"
  using hist.keeps_newest [of "new_MemoryHistoryStore cap" k es]
  by (simp add: history_after_def hist.adds_def new_MemoryHistoryStore_def history_bucket_def bucket_of_def or_default_def)



text \<open>
  Without a user the page is drawn from all retained entries of the connection, each exactly once, sorted by
  time, newest first.
\<close>

theorem history_local_mode:
  "mset (history_rows st c None) = {#e \<in># mset (concat (map snd (buckets st))). h_connectionId e = c#}
   \<and> sorted_wrt (\<lambda>a b. map code (h_at b) \<le> map code (h_at a)) (history_rows st c None)"
  by (simp add: history_rows_def newest_first_mset newest_first_sorted mset_filter)

text \<open>A page never holds more than 200 entries, whatever numbers the caller passes as limit and offset.\<close>

theorem history_page_bounded: "length (items (history_list st c opts)) \<le> 200"
  using page_length by (simp add: history_list_def Let_def)

text \<open>
  An absent user and the empty user name share one bucket, so the entries of one are listed to the other.
\<close>

theorem absent_user_shares_bucket:
  "items (history_list (history_after None [entry ''c'' None ''private'']) ''c''
     \<lparr>op_limit = None, op_offset = None, op_userId = Some []\<rparr>) = [entry ''c'' None ''private'']"
  by code_simp

text \<open>The ids of history rows are distinct as long as the counter is, whatever the clock says.\<close>

theorem historyId_unique:
  assumes "fst (historyId t c) = fst (historyId t' c')"
  shows "t = t' \<and> c = c'"
proof -
  have eq: "base36 t @ CHR ''_'' # base36 (c + 1) = base36 t' @ CHR ''_'' # base36 (c' + 1)"
    using assms by (simp add: historyId_def)
  from arg_cong [OF eq, of "takeWhile (\<lambda>y. y \<noteq> CHR ''_'')"] have "base36 t = base36 t'"
    by (simp add: takeWhile_stop base36_no_underscore)
  with eq have "base36 (c + 1) = base36 (c' + 1)" by simp
  with \<open>base36 t = base36 t'\<close> show ?thesis using base36_inject by fastforce
qed

theorem historyId_unique_witness: "(1 :: nat) = 1 \<and> (0 :: nat) = 0"
  using historyId_unique [of 1 0 1 0] by simp

text \<open>
  The example store never holds the same question twice in one scope, comparing without case and outer
  blanks, and never more than its cap, whatever examples are added in whatever order.
\<close>

theorem fewshot_questions_distinct:
  "distinct (map question_key (example_bucket (foldl add_example (new_MemoryFewShotStore cap) xs) k))
   \<and> length (example_bucket (foldl add_example (new_MemoryFewShotStore cap) xs) k) \<le> or_default cap 200"
  using few_distinct [of "new_MemoryFewShotStore cap" k xs] few.bounded [of "new_MemoryFewShotStore cap" k xs]
  by (simp add: few.adds_def new_MemoryFewShotStore_def example_bucket_def bucket_of_def or_default_def)

text \<open>
  Examples do not leak between scopes: what one scope holds depends only on the examples that were added to
  that very scope.
\<close>

theorem fewshot_isolated:
  "example_bucket (foldl add_example st xs) k = example_bucket (foldl add_example st (filter (\<lambda>x. example_scope x = k) xs)) k"
  using few.isolated [of st xs k] by (simp only: few.adds_def)

text \<open>
  Retrieval returns examples of the asking scope only, each sharing at least one term with the question, the
  best matches first, and at most as many as asked for.
\<close>

theorem fewshot_retrieve_sound:
  "set (fewshot_retrieve st c q (Fin (of_nat n)) u) \<subseteq> set (example_bucket st (key c u))
   \<and> list_all (\<lambda>ex. 0 < overlap (terms q) (terms (x_question ex))) (fewshot_retrieve st c q (Fin (of_nat n)) u)
   \<and> sorted_wrt (\<lambda>a b. overlap (terms q) (terms (x_question b)) \<le> overlap (terms q) (terms (x_question a)))
       (fewshot_retrieve st c q (Fin (of_nat n)) u)
   \<and> length (fewshot_retrieve st c q (Fin (of_nat n)) u) \<le> n"
proof -
  let ?score = "\<lambda>ex. overlap (terms q) (terms (x_question ex))"
  let ?hits = "filter (\<lambda>(ex, score). 0 < score) (map (\<lambda>ex. (ex, ?score ex)) (example_bucket st (key c u)))"
  let ?page = "list_slice (best_first ?hits) (Fin 0) (Fin (of_nat n))"
  have r: "fewshot_retrieve st c q (Fin (of_nat n)) u = map fst ?page"
    by (simp add: fewshot_retrieve_def example_bucket_def Let_def)
  have page: "?page = take n (best_first ?hits)"
  proof -
    have "nat (min (int a) (int n)) = min a n" for a by auto
    moreover have "take (min (length ys) n) ys = take n ys" for ys :: "(FewShotExample \<times> nat) list"
      by (cases "n \<le> length ys") auto
    ultimately show ?thesis by (simp add: list_slice_def toward_zero_def Let_def)
  qed
  have mem: "ex \<in> set (example_bucket st (key c u)) \<and> k = ?score ex \<and> 0 < k" if "(ex, k) \<in> set ?page" for ex k
    using that set_list_slice [of "best_first ?hits"] by (auto simp: best_first_def)
  have snd_score: "snd p = ?score (fst p)" if "p \<in> set ?page" for p
    using mem [of "fst p" "snd p"] that by simp
  have "sorted_wrt (\<lambda>a b. snd b \<le> snd a) ?page"
    unfolding page using sorted_wrt_take best_first_sorted by blast
  then have "sorted_wrt (\<lambda>a b. ?score (fst b) \<le> ?score (fst a)) ?page"
    by (rule sorted_wrt_mono_rel [rotated]) (simp add: snd_score [symmetric])
  moreover have "0 < ?score ex \<and> ex \<in> set (example_bucket st (key c u))" if "ex \<in> set (map fst ?page)" for ex
  proof -
    from that obtain k where "(ex, k) \<in> set ?page" by auto
    from mem [OF this] show ?thesis by simp
  qed
  then have "list_all (\<lambda>ex. 0 < ?score ex) (map fst ?page)" "set (map fst ?page) \<subseteq> set (example_bucket st (key c u))"
    unfolding list_all_iff by blast+
  ultimately show ?thesis
    unfolding r by (simp add: sorted_wrt_map page)
qed

end
