(* ===== verification/Extract.thy ===== *)
theory Extract
  imports Strip
begin

text \<open>
  \<open>packages/core/src/extract.ts\<close>: reading a query, or the reason why there is none, out of the reply of a
  language model. The theory holds the removal of a reasoning model's narration from a whole reply and
  from a stream of chunks (a state machine with a carry), the extraction of SQL from fences, from a whole
  message and from prose, and the clean-up of the model's refusals. Every regular expression of the file
  is an expression of \<open>JS_Regex\<close>.

  The properties relate the stream filter to a specification on the whole reply, for every way the reply
  is cut into chunks, and say what an extraction may contain.
\<close>

section \<open>Model: regular expressions\<close>

definition fence :: regex where "fence = lits ''```''"

definition FENCE_RE :: regex where
  "FENCE_RE = cats [fence, Star (Chr (\<lambda>c. is_alpha c \<or> is_digit c \<or> c \<in> set ''+_-'')), Star ws, Opt (lit LF),
     Group 1 (LazyStar anyc), fence]"

definition ANY_FENCE :: regex where
  "ANY_FENCE = cats [fence, LazyStar anyc, fence]"

definition SQL_VERBS :: "string list" where
  "SQL_VERBS =
     [''select'', ''with'', ''explain'', ''show'', ''describe'', ''desc'', ''pragma'', ''insert'', ''update'', ''delete'', ''drop'',
      ''create'', ''alter'', ''truncate'', ''merge'', ''replace'', ''call'', ''grant'', ''revoke'', ''copy'', ''values'', ''table'']"

definition SQL_START_RE :: regex where
  "SQL_START_RE = cats [Bol, Group 1 (ors (map cis SQL_VERBS)), WordB]"

definition INLINE_START_RE :: regex where
  "INLINE_START_RE = cats [Or Bol (lit LF), Star ws,
     Group 1 (cats [ors (map cis [''select'', ''with'', ''explain'']), WordB, LazyStar anyc]),
     Look (Or (cats [lit LF, Star ws, lit LF]) Eol)]"

definition IMPOSSIBLE_SENTINEL :: regex where
  "IMPOSSIBLE_SENTINEL = cats [Bol, Star ws, lits ''IMPOSSIBLE'', Star ws, lit CHR '':'', Star ws, Group 1 (plus anyc)]"

definition REASON_MAX_LENGTH :: nat where "REASON_MAX_LENGTH = 300"

definition SENTINEL_WORD :: regex where
  "SENTINEL_WORD = cats [WordB, cis ''IMPOSSIBLE'', WordB, Star ws, Opt (lit CHR '':''), Star ws]"

definition OFF_TOPIC :: regex where
  "OFF_TOPIC = Or
     (cats [WordB, Opt (Group 1 (cis ''the '')), cis ''question '', Group 2 (ors (map cis [''cannot be answered'', ''is not'', ''isn't''])), WordB,
        Star (none_of ''.''), WordB, Group 3 (ors (map cis [''not related to'', ''unrelated to'', ''does not relate''])), WordB])
     (cats [WordB, cis ''not related to the '', Opt (Group 4 (cis ''provided '')), cis ''schema'', WordB])"

definition bounded :: "regex \<Rightarrow> regex" where
  "bounded r = cats [WordB, r, WordB]"

definition PHRASINGS :: "(regex \<times> string) list" where
  "PHRASINGS =
     [(bounded (cis ''the provided schema''), ''this database''),
      (bounded (cats [cis ''the '', Opt (Group 1 (Or (cis ''given '') (cis ''current ''))), cis ''schema'']), ''this database''),
      (bounded (cats [cis ''does not contain any information '', Group 1 (ors (map cis [''about'', ''on'', ''related to'']))]), ''doesn't have anything about''),
      (bounded (cis ''does not contain any''), ''doesn't have any''),
      (bounded (cis ''does not contain''), ''doesn't have''),
      (bounded (cats [cis ''does not '', Group 1 (ors (map cis [''include'', ''have'', ''provide'']))]), ''doesn't have''),
      (Or (bounded (cis ''is not able to'')) (bounded (cis ''cannot be'')), ''can't be'')]"

definition TWO_SPACES :: regex where "TWO_SPACES = cats [ws, ws, Star ws]"

definition SPACES :: regex where "SPACES = plus ws"

definition think_words :: regex where
  "think_words = ors (map cis [''think'', ''thinking'', ''reasoning''])"

definition THINK_BLOCK :: regex where
  "THINK_BLOCK = cats [lit CHR ''<'', Group 1 think_words, lit CHR ''>'', LazyStar anyc, lits ''</'', Backref 1, lit CHR ''>'']"

definition THINK_UNCLOSED :: regex where
  "THINK_UNCLOSED = cats [Bol, Star ws, lit CHR ''<'', think_words, lit CHR ''>'', Star anyc, Eol]"

definition SENTINEL_LINE :: regex where
  "SENTINEL_LINE = cats [MBol, Star (Chr (\<lambda>c. is_space c \<and> c \<noteq> LF)), cis ''IMPOSSIBLE'', WordB, Star (Chr (\<lambda>c. c \<noteq> LF)), MEol]"

section \<open>Model: the reasoning filter\<close>

definition OPEN :: regex where
  "OPEN = cats [lit CHR ''<'', Group 1 think_words, lit CHR ''>'']"

definition CLOSE :: regex where
  "CLOSE = cats [lits ''</'', Group 1 think_words, lit CHR ''>'']"

definition LONGEST_TAG :: nat where
  "LONGEST_TAG = length ''</reasoning>''"

datatype phase = Leading | Narrating | Passthrough

record reasoning_filter =
  rf_phase :: phase
  rf_carry :: string

definition createReasoningFilter :: reasoning_filter where
  "createReasoningFilter = \<lparr>rf_phase = Leading, rf_carry = []\<rparr>"

text \<open>The part of the chunk handler behind \<open>phase === 'narrating'\<close>, on the buffer.\<close>

definition narrate :: "string \<Rightarrow> string \<times> reasoning_filter" where
  "narrate buffer =
     (case re_exec CLOSE buffer 0 of
        None \<Rightarrow>
          ([], \<lparr>rf_phase = Narrating,
                rf_carry = (case last_index_of buffer ''<'' of
                              Some lt \<Rightarrow> if length buffer - lt \<le> LONGEST_TAG then slice_from buffer lt else []
                            | None \<Rightarrow> [])\<rparr>)
      | Some close \<Rightarrow> (slice_from buffer (m_end close), \<lparr>rf_phase = Passthrough, rf_carry = []\<rparr>))"

text \<open>One call of the function that \<open>createReasoningFilter\<close> returns.\<close>

definition filter_chunk :: "reasoning_filter \<Rightarrow> string \<Rightarrow> string \<times> reasoning_filter" where
  "filter_chunk st chunk =
     (let buffer = rf_carry st @ chunk in
      case rf_phase st of
        Passthrough \<Rightarrow> (buffer, \<lparr>rf_phase = Passthrough, rf_carry = []\<rparr>)
      | Narrating \<Rightarrow> narrate buffer
      | Leading \<Rightarrow>
          (let opened = re_exec OPEN buffer 0 in
           case opened of
             Some m \<Rightarrow>
               if trim (take (m_index m) buffer) = [] then narrate (slice_from buffer (m_end m))
               else if trim buffer = [] then ([], \<lparr>rf_phase = Leading, rf_carry = buffer\<rparr>)
               else (buffer, \<lparr>rf_phase = Passthrough, rf_carry = []\<rparr>)
           | None \<Rightarrow>
               if trim buffer = [] \<or> starts_with (trim_start buffer) ''<'' \<and> length buffer < LONGEST_TAG
               then ([], \<lparr>rf_phase = Leading, rf_carry = buffer\<rparr>)
               else (buffer, \<lparr>rf_phase = Passthrough, rf_carry = []\<rparr>)))"

text \<open>The host feeds the chunks in order and forwards what comes back.\<close>

fun filter_stream :: "reasoning_filter \<Rightarrow> string list \<Rightarrow> string" where
  "filter_stream st [] = []"
| "filter_stream st (chunk # chunks) =
     (let (out, st') = filter_chunk st chunk in out @ filter_stream st' chunks)"

section \<open>Model: extraction\<close>

definition withoutReasoning :: "string \<Rightarrow> string" where
  "withoutReasoning s = trim (replace_first THINK_UNCLOSED (replace_all THINK_BLOCK s (\<lambda>_. '' '')) (\<lambda>_. '' ''))"

text \<open>\<open>s.replace(t, r)\<close> with a string \<open>t\<close>: the first occurrence.\<close>

definition replace_text :: "string \<Rightarrow> string \<Rightarrow> string \<Rightarrow> string" where
  "replace_text s t r = (case index_of s t 0 of None \<Rightarrow> s | Some i \<Rightarrow> take i s @ r @ drop (i + length t) s)"

definition tidy :: "string \<Rightarrow> string" where
  "tidy explanation =
     trim (replace_all SPACES (replace_all SENTINEL_WORD (replace_all SENTINEL_LINE explanation (\<lambda>_. '' '')) (\<lambda>_. [])) (\<lambda>_. '' ''))"

datatype extraction_source = Fence | Inline | Whole

record Extraction =
  x_sql :: string
  x_explanation :: string
  x_source :: extraction_source

definition fence_body :: "string \<Rightarrow> rmatch \<Rightarrow> string" where
  "fence_body s m = trim (case m_group s m 1 of None \<Rightarrow> [] | Some b \<Rightarrow> b)"

fun first_fence :: "string \<Rightarrow> rmatch list \<Rightarrow> Extraction option" where
  "first_fence raw [] = None"
| "first_fence raw (f # fs) =
     (let candidate = fence_body raw f in
      if candidate \<noteq> [] \<and> re_test SQL_START_RE candidate then
        Some \<lparr>x_sql = candidate,
              x_explanation = tidy (replace_all ANY_FENCE (replace_text raw (m_whole raw f) '' '') (\<lambda>_. '' '')),
              x_source = Fence\<rparr>
      else first_fence raw fs)"

definition inline_sql :: "string \<Rightarrow> Extraction option" where
  "inline_sql raw =
     (case re_exec INLINE_START_RE raw 0 of
        None \<Rightarrow> None
      | Some m \<Rightarrow>
          (case m_group raw m 1 of
             None \<Rightarrow> None
           | Some found \<Rightarrow>
               if length (trim found) > 8
               then Some \<lparr>x_sql = trim found, x_explanation = tidy (replace_text raw found '' ''), x_source = Inline\<rparr>
               else None))"

definition extractSql :: "string \<Rightarrow> Extraction option" where
  "extractSql s =
     (let raw = withoutReasoning s in
      case first_fence raw (match_all FENCE_RE raw) of
        Some x \<Rightarrow> Some x
      | None \<Rightarrow>
          (let trimmed = trim raw in
           if re_test SQL_START_RE trimmed
           then Some \<lparr>x_sql = trimmed, x_explanation = [], x_source = Whole\<rparr>
           else inline_sql raw))"

definition humanizeReason :: "string \<Rightarrow> string" where
  "humanizeReason reason =
     (if re_test OFF_TOPIC reason then ''That question isn't about the data in this database.''
      else trim (replace_all TWO_SPACES
        (fold (\<lambda>(pattern, replacement) out. replace_all pattern out (\<lambda>_. replacement)) PHRASINGS reason) (\<lambda>_. '' '')))"

text \<open>The character appended to a cut text, U+2026, is outside the modelled range: it is a parameter.\<close>

definition truncateAtWordBoundary :: "char \<Rightarrow> string \<Rightarrow> nat \<Rightarrow> string" where
  "truncateAtWordBoundary ellipsis s max_length =
     (if length s \<le> max_length then s
      else
        let head = take max_length s in
        trim_end (case last_index_of head '' '' of
                    Some lastSpace \<Rightarrow> if 2 * lastSpace > max_length then take lastSpace head else head
                  | None \<Rightarrow> head) @ [ellipsis])"

definition extractImpossible :: "char \<Rightarrow> string \<Rightarrow> string option" where
  "extractImpossible ellipsis s =
     (let t = trim (withoutReasoning s) in
      case re_exec IMPOSSIBLE_SENTINEL t 0 of
        None \<Rightarrow> None
      | Some m \<Rightarrow>
          (let reason = (case m_group t m 1 of None \<Rightarrow> [] | Some r \<Rightarrow> r);
               firstLine = trim (hd (split_on LF (trim reason)));
               cleaned = trim (replace_all SENTINEL_WORD firstLine (\<lambda>_. []));
               humanized = humanizeReason cleaned;
               sentenceCased = toUpperCase (take 1 humanized) @ slice_from humanized 1
           in Some (truncateAtWordBoundary ellipsis sentenceCased REASON_MAX_LENGTH)))"

section \<open>Tags\<close>

text \<open>
  What the filter relies on in its two expressions: a match is one of finitely many tags, without regard to
  case, and a tag holds one opening and one closing angle bracket, at its ends.
\<close>

definition tag_here :: "string list \<Rightarrow> string \<Rightarrow> nat \<Rightarrow> nat \<Rightarrow> bool" where
  "tag_here tags s i j \<longleftrightarrow> (\<exists>w \<in> set tags. j = i + length w \<and> j \<le> length s \<and> toLowerCase (slice s i j) = w)"

definition first_tag :: "string list \<Rightarrow> string \<Rightarrow> nat \<Rightarrow> nat \<Rightarrow> bool" where
  "first_tag tags s i j \<longleftrightarrow> tag_here tags s i j \<and> (\<forall>i' < i. \<forall>j'. \<not> tag_here tags s i' j')"

definition is_tag :: "string \<Rightarrow> bool" where
  "is_tag w \<longleftrightarrow> (\<exists>u. w = CHR ''<'' # u @ ''>'' \<and> CHR ''<'' \<notin> set u \<and> CHR ''>'' \<notin> set u)"

definition opening_tags :: "string list" where
  "opening_tags = [''<think>'', ''<thinking>'', ''<reasoning>'']"

definition closing_tags :: "string list" where
  "closing_tags = [''</think>'', ''</thinking>'', ''</reasoning>'']"

lemma tag_here_append: "j \<le> length s \<Longrightarrow> tag_here tags (s @ t) i j \<longleftrightarrow> tag_here tags s i j"
  by (auto simp: tag_here_def slice_append_left)

lemma tag_here_shift: "tag_here tags (s @ t) (length s + i) j \<longleftrightarrow> (\<exists>j'. j = length s + j' \<and> tag_here tags t i j')"
proof
  assume t: "tag_here tags (s @ t) (length s + i) j"
  then obtain j' where "j = length s + j'" by (auto simp: tag_here_def add.assoc)
  with t show "\<exists>j'. j = length s + j' \<and> tag_here tags t i j'"
    by (auto simp: tag_here_def slice_append_right)
qed (auto simp: tag_here_def slice_append_right)

locale tag_regex =
  fixes R :: regex and tags :: "string list"
  assumes matches_tag: "i \<le> length s \<Longrightarrow> (\<exists>c. (j, c) \<in> set (matches R s i [])) \<longleftrightarrow> tag_here tags s i j"
    and tags_shape: "w \<in> set tags \<Longrightarrow> is_tag w"
    and tags_short: "w \<in> set tags \<Longrightarrow> length w \<le> LONGEST_TAG"
begin

lemma tag_ends:
  assumes "tag_here tags s i j"
  shows "i < j" "j \<le> length s" "j \<le> i + LONGEST_TAG" "s ! i = CHR ''<''" "s ! (j - 1) = CHR ''>''"
    "\<And>k. i < k \<Longrightarrow> k < j \<Longrightarrow> s ! k \<noteq> CHR ''<''" "\<And>k. i \<le> k \<Longrightarrow> k < j - 1 \<Longrightarrow> s ! k \<noteq> CHR ''>''"
proof -
  from assms obtain w where w: "w \<in> set tags" "j = i + length w" "j \<le> length s" "toLowerCase (slice s i j) = w"
    by (auto simp: tag_here_def)
  with tags_shape obtain u where u: "w = CHR ''<'' # u @ ''>''" "CHR ''<'' \<notin> set u" "CHR ''>'' \<notin> set u"
    by (auto simp: is_tag_def)
  note at = lower_nth [OF w(4,2,3)]
  show "i < j" "j \<le> length s" "j \<le> i + LONGEST_TAG" using w u tags_short [OF w(1)] by auto
  show "s ! i = CHR ''<''" using at [of 0] u(1) by simp
  show "s ! (j - 1) = CHR ''>''" using at [of "length w - 1"] w(2) u(1) by (simp add: nth_append)
  show "s ! k \<noteq> CHR ''<''" if k: "i < k" "k < j" for k
  proof -
    have "lower (s ! k) = (u @ ''>'') ! (k - Suc i)" "k - Suc i < length (u @ ''>'')"
      using at [of "k - i"] k w(2) u(1) by (auto simp: nth_Cons')
    moreover from this(2) have "(u @ ''>'') ! (k - Suc i) \<in> set (u @ ''>'')" by (rule nth_mem)
    ultimately show ?thesis using u(2) by auto
  qed
  show "s ! k \<noteq> CHR ''>''" if k: "i \<le> k" "k < j - 1" for k
  proof -
    have "lower (s ! k) = (CHR ''<'' # u) ! (k - i)" "k - i < length (CHR ''<'' # u)"
      using at [of "k - i"] k w(2) u(1) by (auto simp: nth_Cons' nth_append)
    moreover from this(2) have "(CHR ''<'' # u) ! (k - i) \<in> set (CHR ''<'' # u)" by (rule nth_mem)
    ultimately show ?thesis using u(3) by auto
  qed
qed

lemma tag_unique: "tag_here tags s i j \<Longrightarrow> tag_here tags s i j' \<Longrightarrow> j = j'"
proof (induction j j' rule: linorder_wlog)
  case (le j j')
  note t = tag_ends [OF le.prems(1)] and t' = tag_ends [OF le.prems(2)]
  show ?case
    using t(1) t'(1) t'(7) [of "j - 1"] t(5) le.hyps by fastforce
qed simp

lemma first_tag_unique: "first_tag tags s i j \<Longrightarrow> first_tag tags s i' j' \<Longrightarrow> i = i' \<and> j = j'"
  unfolding first_tag_def by (metis linorder_neqE_nat tag_unique)

lemma exec_None_iff: "re_exec R s 0 = None \<longleftrightarrow> (\<forall>i j. \<not> tag_here tags s i j)"
proof -
  have "re_exec R s 0 = None \<longleftrightarrow> (\<forall>i \<le> length s. matches R s i [] = [])"
    by (auto simp: re_exec_def first_from_None_iff less_Suc_eq_le simp del: upt_Suc)
  also have "\<dots> \<longleftrightarrow> (\<forall>i \<le> length s. \<forall>j. \<not> tag_here tags s i j)"
    by (metis matches_tag list.set_intros(1) list.set(1) empty_iff list.exhaust surj_pair)
  also have "\<dots> \<longleftrightarrow> (\<forall>i j. \<not> tag_here tags s i j)"
    using tag_ends(1,2) by (meson less_imp_le order_trans)
  finally show ?thesis .
qed

lemma exec_Some:
  assumes "re_exec R s 0 = Some m"
  shows "first_tag tags s (m_index m) (m_end m)"
proof -
  note e = re_exec_Some [OF assms]
  have "tag_here tags s (m_index m) (m_end m)"
    using matches_tag [of "m_index m" s "m_end m"] e by auto
  moreover have "\<not> tag_here tags s i j" if "i < m_index m" for i j
    using re_exec_least [OF assms, of i] that matches_tag [of i s j] e by auto
  ultimately show ?thesis by (simp add: first_tag_def)
qed

lemma exec_first_tag:
  assumes "first_tag tags s i j"
  obtains m where "re_exec R s 0 = Some m" "m_index m = i" "m_end m = j"
proof (cases "re_exec R s 0")
  case None
  then show ?thesis using assms exec_None_iff first_tag_def by blast
next
  case (Some m)
  then show ?thesis using that exec_Some first_tag_unique assms by blast
qed

lemma first_tag_append:
  assumes "first_tag tags s i j"
  shows "first_tag tags (s @ t) i j"
  unfolding first_tag_def
proof (intro conjI allI impI)
  have here: "tag_here tags s i j" using assms by (simp add: first_tag_def)
  then show "tag_here tags (s @ t) i j"
    using tag_here_append tag_ends(2) by blast
  fix i' j' assume "i' < i"
  show "\<not> tag_here tags (s @ t) i' j'"
  proof
    assume t: "tag_here tags (s @ t) i' j'"
    have "j' \<le> i"
    proof (rule ccontr)
      assume "\<not> j' \<le> i"
      with tag_ends(6) [OF t, of i] \<open>i' < i\<close> have "(s @ t) ! i \<noteq> CHR ''<''" by simp
      with tag_ends(1,2,4) [OF here] show False by (simp add: nth_append)
    qed
    with tag_ends(1,2) [OF here] have "tag_here tags s i' j'"
      using t tag_here_append [of j' s tags t i'] by simp
    with assms \<open>i' < i\<close> show False by (simp add: first_tag_def)
  qed
qed

end

text \<open>Reading a tag piece by piece.\<close>

lemma tag_read_append:
  assumes "i + length u + length v \<le> length s"
  shows "toLowerCase (slice s i (i + length (u @ v))) = u @ v \<longleftrightarrow>
    toLowerCase (slice s i (i + length u)) = u \<and> toLowerCase (slice s (i + length u) (i + length u + length v)) = v"
proof -
  have "slice s i (i + length (u @ v)) = slice s i (i + length u) @ slice s (i + length u) (i + length u + length v)"
    using slice_append [of i "i + length u" "i + length u + length v" s] by (simp add: add.assoc)
  moreover have "length (slice s i (i + length u)) = length u" using assms by (simp add: length_slice)
  ultimately show ?thesis by simp
qed

lemma tag_read_one: "i < length s \<Longrightarrow> toLowerCase (slice s i (Suc i)) = [c] \<longleftrightarrow> lower (s ! i) = c"
  by (simp add: slice_def toLowerCase_def take_Suc_conv_app_nth hd_drop_conv_nth take_Suc)

lemma in_think_words:
  assumes "i \<le> length s"
  shows "(j, c') \<in> set (matches think_words s i c) \<longleftrightarrow>
     c' = c \<and> (\<exists>w \<in> set [''think'', ''thinking'', ''reasoning'']. j = i + length w \<and> j \<le> length s \<and> toLowerCase (slice s i j) = w)"
proof -
  have lowered: "toLowerCase ''think'' = ''think''" "toLowerCase ''thinking'' = ''thinking''" "toLowerCase ''reasoning'' = ''reasoning''"
    by code_simp+
  have "(j, c') \<in> set (matches think_words s i c) \<longleftrightarrow>
      (j, c') \<in> set (matches (cis ''think'') s i c) \<or> (j, c') \<in> set (matches (cis ''thinking'') s i c)
      \<or> (j, c') \<in> set (matches (cis ''reasoning'') s i c)"
    by (simp add: think_words_def)
  then show ?thesis unfolding in_cis [OF assms] lowered by auto
qed

lemma tag_match:
  assumes pre: "\<And>j c'. (j, c') \<in> set (matches pre s i []) \<longleftrightarrow>
      c' = [] \<and> j = i + length p \<and> j \<le> length s \<and> toLowerCase (slice s i j) = p"
  shows "(\<exists>c. (j, c) \<in> set (matches (cats [pre, Group 1 think_words, lit CHR ''>'']) s i [])) \<longleftrightarrow>
    tag_here (map (\<lambda>w. p @ w @ ''>'') [''think'', ''thinking'', ''reasoning'']) s i j"
    (is "?m \<longleftrightarrow> ?t")
proof -
  let ?ws = "[''think'', ''thinking'', ''reasoning'']"
  have "?m \<longleftrightarrow> i + length p \<le> length s \<and> toLowerCase (slice s i (i + length p)) = p
      \<and> (\<exists>k d. (k, d) \<in> set (matches think_words s (i + length p) []) \<and> k < length s \<and> s ! k = CHR ''>'' \<and> j = Suc k)"
    unfolding read_match pre by (safe; metis)
  also have "\<dots> \<longleftrightarrow> (\<exists>w \<in> set ?ws. i + length p \<le> length s \<and> toLowerCase (slice s i (i + length p)) = p
      \<and> i + length p + length w \<le> length s \<and> toLowerCase (slice s (i + length p) (i + length p + length w)) = w
      \<and> i + length p + length w < length s \<and> s ! (i + length p + length w) = CHR ''>'' \<and> j = Suc (i + length p + length w))"
  proof (cases "i + length p \<le> length s")
    case True
    show ?thesis unfolding in_think_words [OF True] by blast
  qed simp
  also have "\<dots> \<longleftrightarrow> (\<exists>w \<in> set ?ws. j = i + length (p @ w @ ''>'') \<and> j \<le> length s \<and> toLowerCase (slice s i j) = p @ w @ ''>'')"
  proof (rule bex_cong [OF refl])
    fix w
    show "(i + length p \<le> length s \<and> toLowerCase (slice s i (i + length p)) = p
      \<and> i + length p + length w \<le> length s \<and> toLowerCase (slice s (i + length p) (i + length p + length w)) = w
      \<and> i + length p + length w < length s \<and> s ! (i + length p + length w) = CHR ''>'' \<and> j = Suc (i + length p + length w))
      \<longleftrightarrow> (j = i + length (p @ w @ ''>'') \<and> j \<le> length s \<and> toLowerCase (slice s i j) = p @ w @ ''>'')"
    proof (cases "j = Suc (i + length p + length w) \<and> j \<le> length s")
      case True
      then have "i + length p + length (w @ ''>'') \<le> length s" "(i + length p) + length w + length ''>'' \<le> length s"
          "i + length p + length w < length s" by auto
      from tag_read_append [OF this(1)] tag_read_append [OF this(2)] tag_read_one [OF this(3)] True
      show ?thesis by (auto simp: add.assoc)
    qed auto
  qed
  also have "\<dots> \<longleftrightarrow> ?t" by (simp add: tag_here_def)
  finally show ?thesis .
qed

interpretation opens: tag_regex OPEN opening_tags
proof
  fix i j and s :: string assume "i \<le> length s"
  have "(k, c') \<in> set (matches (lit CHR ''<'') s i []) \<longleftrightarrow>
      c' = [] \<and> k = i + length ''<'' \<and> k \<le> length s \<and> toLowerCase (slice s i k) = ''<''" for k c'
    using tag_read_one [of i s "CHR ''<''"] by (auto simp: in_lit)
  from tag_match [OF this] show "(\<exists>c. (j, c) \<in> set (matches OPEN s i [])) \<longleftrightarrow> tag_here opening_tags s i j"
    by (simp add: OPEN_def opening_tags_def del: matches.simps)
qed (auto simp: opening_tags_def is_tag_def LONGEST_TAG_def)

interpretation closes: tag_regex CLOSE closing_tags
proof
  fix i j and s :: string assume "i \<le> length s"
  have "(k, c') \<in> set (matches (lits ''</'') s i []) \<longleftrightarrow>
      c' = [] \<and> k = i + length ''</'' \<and> k \<le> length s \<and> toLowerCase (slice s i k) = ''</''" for k c'
    using tag_read_append [of i "''<''" "''/''" s] tag_read_one [of i s "CHR ''<''"] tag_read_one [of "Suc i" s "CHR ''/''"]
    by (auto simp: lits_def lit_def)
  from tag_match [OF this] show "(\<exists>c. (j, c) \<in> set (matches CLOSE s i [])) \<longleftrightarrow> tag_here closing_tags s i j"
    by (simp add: CLOSE_def closing_tags_def del: matches.simps)
qed (auto simp: closing_tags_def is_tag_def LONGEST_TAG_def)

section \<open>The filter on a whole reply\<close>

text \<open>The specification: what a reader should see of a reply, without regard to chunks.\<close>

definition after_close :: "string \<Rightarrow> string" where
  "after_close s = (case re_exec CLOSE s 0 of None \<Rightarrow> [] | Some m \<Rightarrow> slice_from s (m_end m))"

definition visible :: "string \<Rightarrow> string" where
  "visible s =
     (case re_exec OPEN s 0 of
        Some m \<Rightarrow> if trim (take (m_index m) s) = [] then after_close (slice_from s (m_end m)) else s
      | None \<Rightarrow> s)"

lemma after_close_first_tag: "first_tag closing_tags s i j \<Longrightarrow> after_close s = drop j s"
  by (erule closes.exec_first_tag) (simp add: after_close_def slice_from_def)

lemma after_close_no_tag: "(\<And>i j. \<not> tag_here closing_tags s i j) \<Longrightarrow> after_close s = []"
  using closes.exec_None_iff [of s] by (simp add: after_close_def)

lemma after_close_cases:
  obtains (tag) i j where "first_tag closing_tags s i j" "after_close s = drop j s"
  | (none) "\<And>i j. \<not> tag_here closing_tags s i j" "after_close s = []"
  using closes.exec_Some [of s] closes.exec_None_iff [of s]
  by (cases "re_exec CLOSE s 0") (auto simp: after_close_def slice_from_def)

lemma after_close_skip:
  assumes skip: "\<And>i j. i < length u \<Longrightarrow> \<not> tag_here closing_tags (u @ s) i j"
  shows "after_close (u @ s) = after_close s"
proof (cases s rule: after_close_cases)
  case (tag i j)
  have "first_tag closing_tags (u @ s) (length u + i) (length u + j)"
    unfolding first_tag_def
  proof (intro conjI allI impI)
    show "tag_here closing_tags (u @ s) (length u + i) (length u + j)"
      using tag(1) tag_here_shift by (simp add: first_tag_def)
    fix i' j' assume "i' < length u + i"
    then show "\<not> tag_here closing_tags (u @ s) i' j'"
      using skip [of i' j'] tag(1) tag_here_shift [of closing_tags u s "i' - length u" j']
      by (cases "i' < length u") (auto simp: first_tag_def)
  qed
  then show ?thesis using tag(2) after_close_first_tag by simp
next
  case none
  have "\<not> tag_here closing_tags (u @ s) i j" for i j
    using skip [of i j] none(1) tag_here_shift [of closing_tags u s "i - length u" j] by (cases "i < length u") auto
  then show ?thesis using none(2) after_close_no_tag by simp
qed

lemma last_lt:
  assumes "i < length s" "s ! i = CHR ''<''" "\<And>k. i < k \<Longrightarrow> k < length s \<Longrightarrow> s ! k \<noteq> CHR ''<''"
  shows "last_index_of s ''<'' = Some i"
proof (rule last_index_ofI)
  have "starts_with (drop k s) ''<'' \<longleftrightarrow> k < length s \<and> s ! k = CHR ''<''" for k
    by (cases "k < length s") (simp_all add: starts_with_def take_Suc hd_drop_conv_nth)
  then show "starts_with (drop i s) ''<''" "\<And>k. i < k \<Longrightarrow> k \<le> length s \<Longrightarrow> \<not> starts_with (drop k s) ''<''"
    using assms by auto
qed (use assms in simp)

lemma narrate_None:
  assumes "re_exec CLOSE buffer 0 = None"
  shows "\<exists>carry. narrate buffer = ([], \<lparr>rf_phase = Narrating, rf_carry = carry\<rparr>)
    \<and> (\<forall>rest. after_close (buffer @ rest) = after_close (carry @ rest))"
proof -
  define carry where "carry = rf_carry (snd (narrate buffer))"
  have n: "narrate buffer = ([], \<lparr>rf_phase = Narrating, rf_carry = carry\<rparr>)"
    using assms by (simp add: carry_def narrate_def)
  have carry: "carry = (case last_index_of buffer ''<'' of
      Some lt \<Rightarrow> if length buffer - lt \<le> LONGEST_TAG then slice_from buffer lt else [] | None \<Rightarrow> [])"
    using assms by (simp add: carry_def narrate_def)
  then have "suffix carry buffer" by (auto simp: slice_from_def suffix_drop split: option.splits)
  then obtain u where u: "buffer = u @ carry" by (auto simp: suffix_def)
  have "after_close (u @ carry @ rest) = after_close (carry @ rest)" for rest
  proof (rule after_close_skip)
    fix i j assume i: "i < length u"
    show "\<not> tag_here closing_tags (u @ carry @ rest) i j"
    proof
      assume "tag_here closing_tags (u @ carry @ rest) i j"
      then have t: "tag_here closing_tags (buffer @ rest) i j" by (simp add: u)
      note e = closes.tag_ends [OF t]
      have long: "length buffer < j"
        using assms t tag_here_append closes.exec_None_iff by (meson not_le)
      have "i < length buffer" using i by (simp add: u)
      have "last_index_of buffer ''<'' = Some i"
      proof (rule last_lt)
        show "buffer ! i = CHR ''<''" using e(4) \<open>i < length buffer\<close> by (simp add: nth_append)
        show "buffer ! k \<noteq> CHR ''<''" if "i < k" "k < length buffer" for k
          using e(6) [of k] that long by (simp add: nth_append)
      qed fact
      moreover have "length buffer - i \<le> LONGEST_TAG" using e(3) long by simp
      ultimately have "carry = drop i buffer" using carry by (simp add: slice_from_def)
      then have "length carry = length buffer - i" by simp
      with u i show False by simp
    qed
  qed
  with n u show ?thesis by auto
qed

lemma narrate_Some:
  assumes "re_exec CLOSE buffer 0 = Some m"
  shows "narrate buffer = (drop (m_end m) buffer, \<lparr>rf_phase = Passthrough, rf_carry = []\<rparr>)"
    "after_close (buffer @ rest) = drop (m_end m) buffer @ rest"
proof -
  have t: "first_tag closing_tags buffer (m_index m) (m_end m)" using closes.exec_Some [OF assms] .
  show "after_close (buffer @ rest) = drop (m_end m) buffer @ rest"
    using after_close_first_tag [OF closes.first_tag_append [OF t]] re_exec_Some(3) [OF assms] by simp
qed (simp add: narrate_def assms slice_from_def)

lemma stream_passthrough: "filter_stream \<lparr>rf_phase = Passthrough, rf_carry = []\<rparr> chunks = concat chunks"
  by (induction chunks) (simp_all add: filter_chunk_def)

lemma stream_after_narrate:
  "(case narrate buffer of (out, st) \<Rightarrow> out @ filter_stream st chunks) = after_close (buffer @ concat chunks)"
proof (induction chunks arbitrary: buffer)
  case Nil
  then show ?case
    using narrate_Some(1) [of buffer] narrate_None [of buffer] by (cases "re_exec CLOSE buffer 0") (auto simp: after_close_def slice_from_def)
next
  case (Cons chunk chunks)
  show ?case
  proof (cases "re_exec CLOSE buffer 0")
    case None
    from narrate_None [OF this] obtain carry where "narrate buffer = ([], \<lparr>rf_phase = Narrating, rf_carry = carry\<rparr>)"
      "after_close (buffer @ concat (chunk # chunks)) = after_close (carry @ concat (chunk # chunks))" by blast
    with Cons.IH [of "carry @ chunk"] show ?thesis by (simp add: filter_chunk_def)
  next
    case (Some m)
    with narrate_Some(1) [OF this] narrate_Some(2) [OF this, of "concat (chunk # chunks)"] show ?thesis by (simp add: stream_passthrough filter_chunk_def)
  qed
qed

lemma lt_not_space [simp]: "\<not> is_space CHR ''<''"
  by code_simp

text \<open>A reply the filter can decide: not blank, at most one blank in front, and, if it opens with an angle bracket, long enough or a tag.\<close>

definition decidable_reply :: "string \<Rightarrow> bool" where
  "decidable_reply s \<longleftrightarrow>
     trim s \<noteq> [] \<and> length (takeWhile is_space s) \<le> 1
     \<and> (starts_with (trim_start s) ''<'' \<longrightarrow> LONGEST_TAG \<le> length s \<or> re_test OPEN s)"

definition undecided :: "string \<Rightarrow> bool" where
  "undecided s \<longleftrightarrow> trim s = [] \<or> \<not> re_test OPEN s \<and> starts_with (trim_start s) ''<'' \<and> length s < LONGEST_TAG"

lemma undecided_not_decidable: "undecided s \<Longrightarrow> \<not> decidable_reply s"
  by (auto simp: undecided_def decidable_reply_def)

lemma opening_short: "tag_here opening_tags s i j \<Longrightarrow> j < i + LONGEST_TAG"
  by (auto simp: tag_here_def opening_tags_def LONGEST_TAG_def)

text \<open>Once the filter lets a reply through, no opening tag could have appeared at its start.\<close>

lemma no_tag_after_all:
  assumes none: "re_exec OPEN s 0 = None" and decided: "\<not> undecided s"
    and few: "length (takeWhile is_space (s @ t)) \<le> 1"
  shows "visible (s @ t) = s @ t"
proof (cases "re_exec OPEN (s @ t) 0")
  case (Some m)
  note tag = opens.exec_Some [OF Some, unfolded first_tag_def, THEN conjunct1]
  note e = opens.tag_ends [OF tag]
  have "trim (take (m_index m) (s @ t)) \<noteq> []"
  proof
    assume blank: "trim (take (m_index m) (s @ t)) = []"
    have at: "m_index m < length (s @ t)" "(s @ t) ! m_index m = CHR ''<''" using e(1,2,4) by auto
    then have few': "m_index m \<le> 1" using blank_front(1) [OF blank] few by simp
    have len: "length s < m_end m"
      using none tag tag_here_append opens.exec_None_iff by (meson not_le)
    with opening_short [OF tag] few' have short: "length s < LONGEST_TAG" by simp
    have "m_index m < length s"
    proof (rule ccontr)
      assume "\<not> m_index m < length s"
      with blank have "trim s = []" by (simp add: trim_Nil_iff)
      with decided show False by (simp add: undecided_def)
    qed
    with blank at have "trim_start s = drop (m_index m) s" by (intro blank_front) (auto simp: nth_append)
    then have "starts_with (trim_start s) ''<''"
      using \<open>m_index m < length s\<close> at by (simp add: starts_with_def take_Suc hd_drop_conv_nth nth_append)
    with decided short none show False by (simp add: undecided_def re_test_def)
  qed
  with Some show ?thesis by (simp add: visible_def)
qed (simp add: visible_def)

lemma stream_leading:
  assumes "decidable_reply (carry @ concat chunks)" "undecided carry"
  shows "filter_stream \<lparr>rf_phase = Leading, rf_carry = carry\<rparr> chunks = visible (carry @ concat chunks)"
  using assms
proof (induction chunks arbitrary: carry)
  case Nil
  then show ?case using undecided_not_decidable by simp
next
  case (Cons chunk chunks)
  define buffer where "buffer = carry @ chunk"
  have whole: "carry @ concat (chunk # chunks) = buffer @ concat chunks" by (simp add: buffer_def)
  show ?case
  proof (cases "re_exec OPEN buffer 0")
    case (Some m)
    have tag: "first_tag opening_tags (buffer @ concat chunks) (m_index m) (m_end m)"
      using opens.first_tag_append [OF opens.exec_Some [OF Some]] .
    note b = re_exec_Some(2,3) [OF Some]
    from opens.exec_first_tag [OF tag] obtain m' where m': "re_exec OPEN (buffer @ concat chunks) 0 = Some m'"
      "m_index m' = m_index m" "m_end m' = m_end m" .
    have "\<not> trim buffer = []"
      using opens.tag_ends(1,2,4) [OF opens.exec_Some [OF Some, unfolded first_tag_def, THEN conjunct1]]
      by (auto simp: trim_Nil_iff list_all_length intro!: exI [of _ "m_index m"])
    with m' Some b stream_after_narrate [of chunks "drop (m_end m) buffer"] show ?thesis
      unfolding whole
      by (simp add: filter_chunk_def buffer_def [symmetric] visible_def Let_def slice_from_def stream_passthrough)
  next
    case None
    show ?thesis
    proof (cases "undecided buffer")
      case True
      with None Cons.IH [of buffer] Cons.prems(1) show ?thesis
        unfolding whole by (auto simp: filter_chunk_def buffer_def [symmetric] undecided_def)
    next
      case False
      with None no_tag_after_all [OF None False, of "concat chunks"] Cons.prems(1) show ?thesis
        unfolding whole
        by (auto simp: filter_chunk_def buffer_def [symmetric] undecided_def re_test_def stream_passthrough decidable_reply_def)
    qed
  qed
qed

lemma after_close_suffix: "suffix (after_close s) s"
  by (auto simp: after_close_def slice_from_def suffix_drop split: option.splits)

section \<open>Properties of the filter\<close>



text \<open>
  The filter only ever drops a front part: what it has shown of a stream is a suffix of what arrived, whatever the
  chunks are.
\<close>

theorem reasoning_filter_suffix: "suffix (filter_stream createReasoningFilter chunks) (concat chunks)"
proof -
  have "suffix (filter_stream \<lparr>rf_phase = Leading, rf_carry = carry\<rparr> chunks) (carry @ concat chunks)" for carry
  proof (induction chunks arbitrary: carry)
    case (Cons chunk chunks)
    define buffer where "buffer = carry @ chunk"
    have "suffix (after_close (drop n buffer @ concat chunks)) (buffer @ concat chunks)" for n
      by (rule suffix_order.trans [OF after_close_suffix]) (simp add: suffix_drop)
    with Cons.IH [of buffer] have "suffix (filter_stream \<lparr>rf_phase = Leading, rf_carry = carry\<rparr> (chunk # chunks)) (buffer @ concat chunks)"
      by (simp add: filter_chunk_def buffer_def [symmetric] stream_passthrough stream_after_narrate slice_from_def split: option.split)
    then show ?case by (simp add: buffer_def)
  qed (simp add: suffix_def)
  from this [of "[]"] show ?thesis by (simp add: createReasoningFilter_def)
qed

text \<open>
  Blanks in front of the tag count towards its length: a tag that is cut behind enough blanks passes as content and the whole
  narration is shown, although the same reply in one chunk is hidden.
\<close>

theorem padded_narration_leaks:
  "filter_stream createReasoningFilter [''         <th'', ''ink>secret</think>1''] = ''         <think>secret</think>1''
   \<and> filter_stream createReasoningFilter [''         <think>secret</think>1''] = ''1''"
  by code_simp

text \<open>
  A short reply that opens with an angle bracket and is no tag is never shown: the filter waits for more and is never told
  that the stream has ended.
\<close>

theorem short_reply_swallowed: "filter_stream createReasoningFilter [''<none>''] = []"
  by code_simp


section \<open>Extraction\<close>

lemma unclosed_whole: "re_exec THINK_UNCLOSED u 0 = Some m \<Longrightarrow> m_index m = 0 \<and> m_end m = length u"
  by (drule re_exec_Some(5)) (auto simp: THINK_UNCLOSED_def in_cats_Cons in_cats_Nil split: if_splits simp del: matches.simps(1-9) matches.simps(12-))

lemma unclosed_match:
  assumes "tag_here opening_tags u k j" "\<And>i. i < k \<Longrightarrow> is_space (u ! i)"
  shows "re_exec THINK_UNCLOSED u 0 \<noteq> None"
proof -
  note e = opens.tag_ends [OF assms(1)]
  have "\<exists>c. (j, c) \<in> set (matches OPEN u k [])" using opens.matches_tag [of k u j] e assms(1) by simp
  then obtain l where l: "k < length u" "u ! k = CHR ''<''" "l < length u" "u ! l = CHR ''>''" "j = Suc l"
      and "\<exists>d. (l, d) \<in> set (matches think_words u (Suc k) [])"
    unfolding OPEN_def read_match by blast
  then have words: "(l, []) \<in> set (matches think_words u (Suc k) [])" using in_think_words [of "Suc k" u l] by auto
  have blanks: "(k, []) \<in> set (matches (Star ws) u 0 [])"
    using assms(2) l(1) in_Star_ws [of 0 u k "[]" "[]"] by (simp add: all_between_def)
  have rest: "(length u, []) \<in> set (matches (Star anyc) u j [])"
    using e(2) in_Star_Chr [of j u "length u" "[]" "\<lambda>_. True" "[]"] by (simp add: all_between_def anyc_def)
  have "(length u, []) \<in> set (matches THINK_UNCLOSED u 0 [])"
    unfolding THINK_UNCLOSED_def read_match
    apply (rule exI [of _ 0], rule exI [of _ "[]"], rule conjI, simp)
    using blanks words rest l by fastforce
  then have "matches THINK_UNCLOSED u 0 [] \<noteq> []" by auto
  then show ?thesis unfolding re_exec_def first_from_None_iff by (auto intro!: bexI [of _ 0])
qed


text \<open>
  Once the narration is removed, no reply opens with one: neither a closed block nor one that was cut off before its
  closing tag leaves its opening tag at the start of the answer.
\<close>

theorem withoutReasoning_hides_opening: "\<not> tag_here opening_tags (withoutReasoning s) 0 j"
proof
  define u where "u = replace_all THINK_BLOCK s (\<lambda>_. '' '')"
  assume t: "tag_here opening_tags (withoutReasoning s) 0 j"
  show False
  proof (cases "re_exec THINK_UNCLOSED u 0")
    case None
    then have "withoutReasoning s = trim u" by (simp add: withoutReasoning_def u_def replace_first_def)
    moreover obtain a b where "u = a @ trim u @ b" "list_all is_space a"
      using trim_start_split [of u] trim_end_split [of "trim_start u"] by (metis append_assoc trim_def)
    moreover from this have "tag_here opening_tags u (length a) (length a + j)"
      using t calculation(1) tag_here_shift [of opening_tags a "trim u @ b" 0 "length a + j"]
        tag_here_append [of j "trim u" opening_tags b 0] opens.tag_ends(2) [OF t] by simp
    moreover have "is_space (u ! i)" if "i < length a" for i
      using calculation(2,3) that by (metis list_all_length nth_append)
    ultimately show False using unclosed_match None by blast
  next
    case (Some m)
    with unclosed_whole [OF Some] have "withoutReasoning s = trim '' ''"
      by (simp add: withoutReasoning_def u_def replace_first_def slice_def)
    moreover have "trim '' '' = []" by code_simp
    ultimately show False using opens.tag_ends(1,2) [OF t] by simp
  qed
qed


definition read_verbs :: "string list" where
  "read_verbs = [''select'', ''with'', ''explain'']"

lemma read_verb_props: "w \<in> set read_verbs \<Longrightarrow> w \<noteq> [] \<and> list_all is_word w \<and> toLowerCase w = w"
  by (auto simp: read_verbs_def) (code_simp+)

lemma verb_start:
  assumes "w \<in> set read_verbs" "length w \<le> length t" "toLowerCase (take (length w) t) = w" "\<not> word_at t (length w)"
  shows "re_test SQL_START_RE t"
proof -
  note w = read_verb_props [OF assms(1)]
  have "lower (t ! (length w - 1)) = w ! (length w - 1)"
    using assms(2) w lower_nth [of t 0 "length w" w "length w - 1"] assms(3) by (simp add: slice_def)
  then have "is_word (t ! (length w - 1))"
    using w by (metis is_word_lower list_all_length length_greater_0_conv diff_less zero_less_one)
  then have b: "at_boundary t (length w)"
    using assms(2,4) w by (cases "length w") (auto simp: at_boundary_def word_at_def)
  have "(length w, []) \<in> set (matches (ors (map cis SQL_VERBS)) t 0 [])"
  proof -
    have "w \<in> set SQL_VERBS" "SQL_VERBS \<noteq> []" using assms(1) by (auto simp: read_verbs_def SQL_VERBS_def)
    moreover have "toLowerCase (slice t 0 (length w)) = toLowerCase w" using assms(3) w by (simp add: slice_def)
    ultimately show ?thesis using assms(2) in_ors_cis [of 0 t SQL_VERBS "length w" "[]" "[]"] by auto
  qed
  then have "(length w, [(1, 0, length w)]) \<in> set (matches (Group 1 (ors (map cis SQL_VERBS))) t 0 [])"
    unfolding in_Group by blast
  moreover have "(length w, [(1, 0, length w)]) \<in> set (matches (cats [WordB]) t (length w) [(1, 0, length w)])"
    using b by (simp add: in_cats_Cons in_cats_Nil in_WordB del: matches.simps)
  moreover have "(0, []) \<in> set (matches Bol t 0 [])" by simp
  ultimately have "(length w, [(1, 0, length w)]) \<in> set (matches SQL_START_RE t 0 [])"
    unfolding SQL_START_RE_def in_cats_Cons [of _ _ Bol] in_cats_Cons [of _ _ "Group 1 r" for r] by blast
  then show ?thesis unfolding re_test_iff by (auto intro!: exI [of _ 0])
qed

lemma inline_read:
  assumes "re_exec INLINE_START_RE raw 0 = Some m" "m_group raw m 1 = Some found"
  shows "\<exists>p p1 q w. w \<in> set read_verbs \<and> p1 = p + length w \<and> p1 \<le> length raw \<and> toLowerCase (slice raw p p1) = w
    \<and> at_boundary raw p1 \<and> p1 \<le> q \<and> q \<le> length raw \<and> found = slice raw p q"
proof -
  have no_caps: "c' = c" if "(j, c') \<in> set (matches (Look (Or (cats [lit LF, Star ws, lit LF]) Eol)) raw i c)" for i j c c'
    using that by (rule no_groups_captures [rotated]) (simp add: cats_def lit_def ws_def)
  from re_exec_Some(5) [OF assms(1)] obtain i0 d0 p d1 q d2 where
      pre: "(i0, d0) \<in> set (matches (Or Bol (lit LF)) raw (m_index m) [])" "(p, d1) \<in> set (matches (Star ws) raw i0 d0)"
      and body: "(q, d2) \<in> set (matches (cats [ors (map cis [''select'', ''with'', ''explain'']), WordB, LazyStar anyc]) raw p d1)"
      and caps: "m_caps m = (1, p, q) # d2"
    unfolding INLINE_START_RE_def in_cats_Cons in_cats_Nil in_Group by (blast dest: no_caps)
  have i0: "i0 \<le> length raw" using matches_bounds(2) [OF pre(1)] re_exec_Some(2,3) [OF assms(1)] by simp
  have d0: "caps_ok (length raw) d0" using matches_bounds(3) [OF pre(1)] re_exec_Some(2,3) [OF assms(1)] by simp
  note p = matches_bounds(2,3) [OF pre(2) i0 d0]
  from body obtain p1 w where w: "w \<in> set read_verbs" "p1 = p + length w" "p1 \<le> length raw" "toLowerCase (slice raw p p1) = toLowerCase w"
      and b: "at_boundary raw p1" and rest: "(q, d2) \<in> set (matches (LazyStar anyc) raw p1 d1)"
    unfolding in_cats_Cons in_cats_Nil in_WordB in_ors_cis [OF p(1) list.simps(3)] read_verbs_def by blast
  have "p1 \<le> q" "q \<le> length raw" using matches_bounds(1,2) [OF rest w(3) p(2)] by auto
  moreover have "found = slice raw p q" using assms(2) caps by (simp add: m_group_def)
  ultimately show ?thesis using w b read_verb_props [OF w(1)] by metis
qed

lemma inline_found:
  assumes "re_exec INLINE_START_RE raw 0 = Some m" "m_group raw m 1 = Some found"
  shows "sublist found raw" "re_test SQL_START_RE (trim found)"
proof -
  show "sublist found raw" using assms(2) slice_sublist by (auto simp: m_group_def)
  obtain p p1 q w where w: "w \<in> set read_verbs" "p1 = p + length w" "p1 \<le> length raw" "toLowerCase (slice raw p p1) = w"
      and b: "at_boundary raw p1" and q: "p1 \<le> q" "q \<le> length raw" and found: "found = slice raw p q"
    using inline_read [OF assms] by blast
  note props = read_verb_props [OF w(1)]
  have at: "lower (raw ! (p + k)) = w ! k" if "k < length w" for k using lower_nth [OF w(4,2,3) that] .
  then have word: "is_word (raw ! (p + k))" if "k < length w" for k
    using that props by (metis is_word_lower list_all_length)
  have nth: "found ! k = raw ! (p + k)" if "p + k < q" for k using that found q(2) by (simp add: slice_def)
  have len: "length found = q - p" using q found by (simp add: length_slice)
  have "found \<noteq> []" using len w(2) q(1) props by (cases w) auto
  moreover have "\<not> is_space (found ! 0)" using word [of 0] nth [of 0] w(2) q(1) props word_not_space by (cases w) auto
  ultimately have "trim_start found = found" by (cases found) (auto simp: trim_start_def)
  then have t: "trim found = trim_end found" by (simp add: trim_def)
  have "\<not> is_space (found ! (length w - 1))"
    using word [of "length w - 1"] nth [of "length w - 1"] w(2) q(1) props word_not_space by (cases w) auto
  then have long: "length w \<le> length (trim found)"
    unfolding t using trim_end_keeps [of "length w - 1" found] len w(2) q(1) props by (cases w) (auto simp: Suc_le_eq)
  have tk: "trim found ! k = found ! k" if "k < length (trim found)" for k
    using trim_end_prefix [of found] that unfolding t by (metis nth_append prefix_def)
  show "re_test SQL_START_RE (trim found)"
  proof (rule verb_start [OF w(1) long])
    have le: "k < q - p" if "k < length (trim found)" for k
      using that trim_end_prefix [of found] len t prefix_length_le by fastforce
    show "toLowerCase (take (length w) (trim found)) = w"
    proof (rule nth_equalityI)
      fix k assume "k < length (toLowerCase (take (length w) (trim found)))"
      then have k: "k < length w" "k < length (trim found)" "p + k < q" using long le [of k] by (auto simp: toLowerCase_def)
      then show "toLowerCase (take (length w) (trim found)) ! k = w ! k"
        using at [of k] tk [of k] nth [of k] by (simp add: toLowerCase_def)
    qed (use long in simp)
    have "word_at raw (p1 - 1)" using word [of "length w - 1"] w(2,3) props by (cases w) (auto simp: word_at_def)
    with b have "\<not> word_at raw p1" using w(2) props by (cases w) (auto simp: at_boundary_def)
    then show "\<not> word_at (trim found) (length w)"
      using tk [of "length w"] nth [of "length w"] le [of "length w"] w(2) q(2) by (auto simp: word_at_def)
  qed
qed

lemma first_fence_sound: "first_fence raw fs = Some x \<Longrightarrow> sublist (x_sql x) raw \<and> re_test SQL_START_RE (x_sql x) \<and> trim (x_sql x) = x_sql x"
proof (induction raw fs rule: first_fence.induct)
  case (2 raw f fs)
  have "sublist (fence_body raw f) raw"
    using sublist_order.order_trans [OF trim_sublist slice_sublist]
    by (auto simp: fence_body_def m_group_def trim_def trim_start_def trim_end_def split: option.splits)
  with 2 show ?case by (auto simp: Let_def fence_body_def split: if_splits)
qed simp

text \<open>
  Extraction invents nothing: the extracted statement is a contiguous, trimmed part of the reply without its narration and
  starts with a statement verb, whichever of the three ways found it.
\<close>

theorem extractSql_sound:
  assumes "extractSql s = Some x"
  shows "sublist (x_sql x) (withoutReasoning s) \<and> re_test SQL_START_RE (x_sql x) \<and> trim (x_sql x) = x_sql x"
proof -
  define raw where "raw = withoutReasoning s"
  from assms consider (fenced) "first_fence raw (match_all FENCE_RE raw) = Some x"
    | (whole) "re_test SQL_START_RE (trim raw)" "x_sql x = trim raw"
    | (inline) m found where "re_exec INLINE_START_RE raw 0 = Some m" "m_group raw m 1 = Some found" "x_sql x = trim found"
    by (auto simp: extractSql_def raw_def [symmetric] Let_def inline_sql_def split: option.splits if_splits)
  then show ?thesis
  proof cases
    case fenced
    then show ?thesis using first_fence_sound by (simp add: raw_def)
  next
    case whole
    then show ?thesis by (simp add: raw_def trim_sublist)
  next
    case inline
    then show ?thesis
      using inline_found [OF inline(1,2)] sublist_order.order_trans [OF trim_sublist] by (simp add: raw_def)
  qed
qed

theorem extractSql_sound_witness: "re_test SQL_START_RE ''select a''"
proof -
  have "extractSql ''Sure: ```sql select a``` ok'' = Some \<lparr>x_sql = ''select a'', x_explanation = ''Sure: ok'', x_source = Fence\<rparr>"
    by code_simp
  from extractSql_sound [OF this] show ?thesis by simp
qed

lemma truncate_bound: "length (truncateAtWordBoundary ellipsis s n) \<le> n + 1"
proof -
  have "length (trim_end (take k (take n s))) \<le> n" for k using length_trim_end [of "take k (take n s)"] by simp
  moreover have "length (trim_end (take n s)) \<le> n" using length_trim_end [of "take n s"] by simp
  ultimately show ?thesis by (auto simp: truncateAtWordBoundary_def Let_def le_SucI split: option.splits)
qed

lemma fold_replace_avoids:
  "c \<notin> set s \<Longrightarrow> list_all (\<lambda>(_, r). c \<notin> set r) ps \<Longrightarrow>
     c \<notin> set (fold (\<lambda>(pattern, replacement) out. replace_all pattern out (\<lambda>_. replacement)) ps s)"
proof (induction ps arbitrary: s)
  case (Cons p ps)
  then show ?case using replace_all_avoids [of c s "\<lambda>_. snd p" "fst p"] by (cases p) simp
qed simp

lemma humanizeReason_one_line:
  assumes "LF \<notin> set s"
  shows "LF \<notin> set (humanizeReason s)"
proof -
  have "list_all (\<lambda>(_, r). LF \<notin> set r) PHRASINGS" by (simp add: PHRASINGS_def LF_def)
  note avoids = fold_replace_avoids [OF assms this]
  have "LF \<notin> set '' ''" "LF \<notin> set ''That question isn't about the data in this database.''" by (simp_all add: LF_def)
  then show ?thesis
    using trim_avoids [OF replace_all_avoids [OF avoids, of "\<lambda>_. '' ''" TWO_SPACES]] by (simp only: humanizeReason_def split: if_split) simp
qed

lemma toUpperCase_one_line: 
  assumes "LF \<notin> set s"
  shows "LF \<notin> set (toUpperCase s)"
proof -
  have "upper c \<noteq> LF" if "c \<noteq> LF" for c
  proof
    assume "upper c = LF"
    then have "code (upper c) = 10" by (simp add: LF_def code_def)
    moreover have "code (upper c) = code c \<or> 65 \<le> code (upper c)"
      by (auto simp: upper_def is_lower_def code_char_of)
    ultimately have "code c = code LF" by (auto simp: LF_def code_def)
    with that show False by simp
  qed
  moreover have "LF \<notin> set ''SS''" by (simp add: LF_def)
  ultimately show ?thesis using assms unfolding toUpperCase_def by (auto simp del: list.set(2) split: if_splits) (metis empty_iff insert_iff list.set)
qed

lemma truncate_one_line: "LF \<notin> set s \<Longrightarrow> ellipsis \<noteq> LF \<Longrightarrow> LF \<notin> set (truncateAtWordBoundary ellipsis s n)"
  using prefix_order.trans [OF trim_end_prefix] set_mono_prefix
  by (auto simp: truncateAtWordBoundary_def Let_def trim_end_def dest!: set_dropWhileD in_set_takeD split: option.splits)

text \<open>
  A refusal shown to the reader is one line of at most 300 characters and the ellipsis that marks a cut.
\<close>

theorem extractImpossible_bounded:
  assumes "extractImpossible ellipsis s = Some r" "ellipsis \<noteq> LF"
  shows "length r \<le> REASON_MAX_LENGTH + 1 \<and> LF \<notin> set r"
proof -
  define first where "first u = trim (replace_all SENTINEL_WORD (trim (hd (split_on LF (trim u)))) (\<lambda>_. []))" for u
  from assms(1) obtain u where r: "r = truncateAtWordBoundary ellipsis (toUpperCase (take 1 (humanizeReason (first u)))
      @ slice_from (humanizeReason (first u)) 1) REASON_MAX_LENGTH"
    by (auto simp: extractImpossible_def Let_def first_def split: option.splits)
  have "LF \<notin> set (humanizeReason (first u))"
    unfolding first_def by (intro humanizeReason_one_line trim_avoids replace_all_avoids hd_split_on_avoids) simp
  then have "LF \<notin> set (toUpperCase (take 1 (humanizeReason (first u))) @ slice_from (humanizeReason (first u)) 1)"
    using toUpperCase_one_line [of "take 1 (humanizeReason (first u))"] by (auto simp: slice_from_def dest: in_set_takeD in_set_dropD)
  with assms(2) show ?thesis unfolding r using truncate_bound truncate_one_line by blast
qed

theorem extractImpossible_bounded_witness: "length ''This database doesn't have sales'' \<le> 301"
proof -
  have "extractImpossible CHR ''~'' ''IMPOSSIBLE: the schema does not include sales'' = Some ''This database doesn't have sales''"
    by code_simp
  moreover have "CHR ''~'' \<noteq> LF" by (simp add: LF_def)
  ultimately show ?thesis using extractImpossible_bounded by (fastforce simp: REASON_MAX_LENGTH_def)
qed

end
