(* ===== verification/Sql_Keywords.thy ===== *)
theory Sql_Keywords
  imports Core_Types
begin

text \<open>
  \<open>packages/core/src/sql-keywords.ts\<close>: the reserved words of each engine, packed as one word list and one
  bit per word and engine in base64, with the cache in front of the unpacking. The properties are that the
  cache is transparent and that an unknown engine gets the union of all lists.
\<close>

section \<open>Model\<close>

definition WORDS :: string where
  "WORDS =
     ''abort|accessible|action|add|after|all|alter|always|analyse|analyze|and|any|array|as|asc|asensitive|asymmetric|'' @
     ''attach|authorization|autoincrement|before|begin|between|bigint|binary|blob|both|by|call|cascade|case|cast|chan'' @
     ''ge|char|character|check|cluster|collate|collation|column|commit|compress|concurrently|condition|conflict|conne'' @
     ''ct|constraint|continue|convert|create|cross|cube|cume_dist|current|current_catalog|current_date|current_role|c'' @
     ''urrent_schema|current_time|current_timestamp|current_user|cursor|database|databases|date|day_hour|day_microsec'' @
     ''ond|day_minute|day_second|dec|decimal|declare|default|deferrable|deferred|delayed|delete|dense_rank|desc|descr'' @
     ''ibe|detach|deterministic|distinct|distinctrow|div|do|double|drop|dual|each|else|elseif|empty|enclosed|end|esca'' @
     ''pe|escaped|except|exclude|exclusive|exists|exit|explain|fail|false|fetch|filter|first|first_value|float|float4'' @
     ''|float8|following|for|force|foreign|freeze|from|full|fulltext|function|generated|get|glob|grant|group|grouping'' @
     ''|groups|having|high_priority|hour_microsecond|hour_minute|hour_second|identified|if|ignore|ilike|immediate|in|'' @
     ''index|indexed|infile|initially|inner|inout|insensitive|insert|instead|int|int1|int2|int3|int4|int8|integer|int'' @
     ''ersect|interval|into|io_after_gtids|io_before_gtids|is|isnull|iterate|join|json_table|key|keys|kill|lag|lambda'' @
     ''|last|last_value|lateral|lead|leading|leave|left|like|limit|linear|lines|load|localtime|localtimestamp|lock|lo'' @
     ''ng|longblob|longtext|loop|low_priority|match|materialized|maxvalue|mediumblob|mediumint|mediumtext|middleint|m'' @
     ''inus|minute_microsecond|minute_second|mod|mode|modifies|natural|no|no_write_to_binlog|nocompress|not|nothing|n'' @
     ''otnull|nowait|nth_value|ntile|null|nulls|number|numeric|of|offset|on|only|optimize|optimizer_costs|option|opti'' @
     ''onally|or|order|others|out|outer|outfile|over|overlaps|partition|pctfree|percent_rank|pivot|pivot_longer|pivot'' @
     ''_wider|placing|plan|pragma|preceding|precision|primary|prior|procedure|public|purge|qualify|query|raise|range|'' @
     ''rank|raw|read|read_write|reads|real|recursive|references|regexp|reindex|release|rename|repeat|replace|require|'' @
     ''resignal|resource|restrict|return|returning|revoke|right|rlike|rollback|row|row_number|rows|savepoint|schema|s'' @
     ''chemas|second_microsecond|select|sensitive|separator|session_user|set|share|show|signal|similar|size|smallint|'' @
     ''some|spatial|specific|sql|sql_big_result|sql_calc_found_rows|sql_small_result|sqlexception|sqlstate|sqlwarning'' @
     ''|ssl|start|starting|stored|straight_join|summarize|symmetric|synonym|system|system_user|table|tablesample|temp'' @
     ''|temporary|terminated|then|ties|tinyblob|tinyint|tinytext|to|trailing|transaction|trigger|true|unbounded|undo|'' @
     ''union|unique|unlock|unpivot|unsigned|update|usage|use|user|using|utc_date|utc_time|utc_timestamp|vacuum|values'' @
     ''|varbinary|varchar|varchar2|varcharacter|variadic|varying|verbose|view|virtual|when|where|while|window|with|wi'' @
     ''thout|write|xor|year_month|zerofill''"

definition WORD_LIST :: "string list" where
  "WORD_LIST = split_on CHR ''|'' WORDS"

definition BY_ENGINE :: "(string \<times> string) list" where
  "BY_ENGINE =
     [(''sqlite'', ''/WZ66KhRpkwAV6XG3gxrqsHeDCgrBAfAAJhjDq4CFxz4RbURAQAAaKM1Iga8Aw==''),
      (''postgres'', ''IH8FxehExh8AQyREAgN6MAHFACgLUMcAAIgiHCaBEAAQAAWQkACAHGEyMICyAQ==''),
      (''mysql'', ''aubQf6/In/z++d4/c/Ou99+s9//9+f9/36046/cKWLO/3+5+Tf87mn177135PQ==''),
      (''oracle'', ''YGxACBoiAgBBUYQEGiAiMCEMBCwBAAIDIMKkigYEoEAAIQIQYwAECSExAjQkAQ==''),
      (''duckdb'', ''IH8BxKhAAgAAwyREAgMqIAFEACgAUgQAAIAgHAbwEAIQAAEQhADACGGyIICwAQ=='')]"

text \<open>\<open>atob\<close>: the value of a base64 digit, and the bytes of each group of four digits.\<close>

definition base64_value :: "char \<Rightarrow> int" where
  "base64_value c =
     (let n = int (code c) in
      if is_upper c then n - 65 else if is_lower c then n - 71 else if is_digit c then n + 4
      else if c = CHR ''+'' then 62 else 63)"

definition group_value :: "char \<Rightarrow> char \<Rightarrow> char \<Rightarrow> char \<Rightarrow> int" where
  "group_value a b c d = ((base64_value a * 64 + base64_value b) * 64 + base64_value c) * 64 + base64_value d"

fun atob :: "string \<Rightarrow> int list" where
  "atob (a # b # c # d # rest) =
     (if c = CHR ''='' then [group_value a b CHR ''A'' CHR ''A'' div 65536]
      else if d = CHR ''='' then (let n = group_value a b c CHR ''A'' in [n div 65536, n div 256 mod 256])
      else (let n = group_value a b c d in [n div 65536, n div 256 mod 256, n mod 256]) @ atob rest)"
| "atob _ = []"

text \<open>\<open>(bytes.charCodeAt(i >> 3) >> (i & 7)) & 1\<close>; behind the last byte the code is \<open>NaN\<close> and the bit is 0.\<close>

definition word_bit :: "int list \<Rightarrow> int \<Rightarrow> bool" where
  "word_bit bytes i =
     (let k = nat (i div 8) in k < length bytes \<and> bytes ! k div 2 ^ nat (i mod 8) mod 2 = 1)"

fun select_words :: "int list \<Rightarrow> int \<Rightarrow> string list \<Rightarrow> string list" where
  "select_words bytes i [] = []"
| "select_words bytes i (w # ws) = (if word_bit bytes i then w # select_words bytes (i + 1) ws else select_words bytes (i + 1) ws)"

definition unpackWords :: "string \<Rightarrow> string list" where
  "unpackWords engine_key =
     (case map_of BY_ENGINE engine_key of
        Some packed \<Rightarrow> select_words (atob packed) 0 WORD_LIST
      | None \<Rightarrow> WORD_LIST)"

type_synonym word_cache = "(string \<times> string list) list"

definition reservedWordsFor :: "word_cache \<Rightarrow> string \<Rightarrow> string list \<times> word_cache" where
  "reservedWordsFor cache engine =
     (let k = toLowerCase engine in
      case map_of cache k of
        Some words \<Rightarrow> (words, cache)
      | None \<Rightarrow> (let words = unpackWords k in (words, (k, words) # cache)))"

text \<open>The set a module sees that starts from the empty cache.\<close>

definition reserved :: "string \<Rightarrow> string list" where
  "reserved engine = unpackWords (toLowerCase engine)"

text \<open>The calls of a run, in order, over one cache.\<close>

fun reserved_calls :: "word_cache \<Rightarrow> string list \<Rightarrow> string list list" where
  "reserved_calls cache [] = []"
| "reserved_calls cache (engine # engines) =
     (let (words, cache') = reservedWordsFor cache engine in words # reserved_calls cache' engines)"

section \<open>The cache\<close>

definition cache_sound :: "word_cache \<Rightarrow> bool" where
  "cache_sound cache \<longleftrightarrow> (\<forall>k words. map_of cache k = Some words \<longrightarrow> words = unpackWords k)"

lemma reservedWordsFor_sound:
  assumes "cache_sound cache"
  shows "fst (reservedWordsFor cache engine) = reserved engine" "cache_sound (snd (reservedWordsFor cache engine))"
  using assms by (auto simp: reservedWordsFor_def reserved_def cache_sound_def Let_def split: option.splits)

lemma reserved_calls_sound: "cache_sound cache \<Longrightarrow> reserved_calls cache engines = map reserved engines"
proof (induction engines arbitrary: cache)
  case (Cons engine engines)
  with reservedWordsFor_sound [OF Cons.prems, of engine] show ?case
    by (simp add: case_prod_beta)
qed simp

lemma select_words_subset: "set (select_words bytes i ws) \<subseteq> set ws"
  by (induction bytes i ws rule: select_words.induct) auto

text \<open>
  The cache is transparent: in any sequence of calls, every call gets the word list unpacked for its engine, and the list of
  no engine is larger than the union that an unknown engine gets.
\<close>

theorem reserved_cache_transparent:
  "reserved_calls [] engines = map reserved engines \<and> (map_of BY_ENGINE (toLowerCase unknown) = None \<longrightarrow> set (reserved e) \<subseteq> set (reserved unknown))"
  using reserved_calls_sound [of "[]" engines] select_words_subset
  by (auto simp: cache_sound_def reserved_def unpackWords_def split: option.splits)

theorem reserved_cache_transparent_witness: "set (reserved ''sqlite'') \<subseteq> set (reserved ''*'')"
proof -
  have "map_of BY_ENGINE (toLowerCase ''*'') = None" by code_simp
  with reserved_cache_transparent [of "[]" "''*''" "''sqlite''"] show ?thesis by blast
qed

end
