(* ===== verification/Identifier_Case.thy ===== *)
theory Identifier_Case
  imports Sql_Keywords Strip
begin

text \<open>
  \<open>packages/core/src/identifier-case.ts\<close>: the repair of identifiers from the catalog. A statement is cut into
  code and opaque spans (literals, comments, quoted names); only code is rewritten. The four loops of the
  file share their shape: \<open>rewrite_loop\<close> is that shape, given the end of a span and the rewriting of a piece
  of code, which also says whether it changed anything.

  The properties: a rewriting leaves every opaque span as it is, inserts only identifiers of the catalog that
  cannot leave their quotes, and never resolves an ambiguous name; blanking keeps length and offsets.
\<close>

section \<open>Model: literals and quoting\<close>

definition CLOSING :: "char \<Rightarrow> char option" where
  "CLOSING c = map_of [(BACKTICK, BACKTICK), (DQUOTE, DQUOTE), (CHR ''['', CHR '']'')] c"

definition closing_of :: "char \<Rightarrow> char" where
  "closing_of q = (case CLOSING q of Some c \<Rightarrow> c | None \<Rightarrow> q)"

definition quoted :: "string \<Rightarrow> char \<Rightarrow> string" where
  "quoted name quoteChar = [quoteChar] @ name @ [closing_of quoteChar]"

definition ident_start :: regex where "ident_start = Chr (\<lambda>c. is_alpha c \<or> c = CHR ''_'')"
definition ident_part :: regex where "ident_part = Chr (\<lambda>c. is_word c \<or> c = CHR ''$'')"
definition ident :: regex where "ident = Cat ident_start (Star ident_part)"

definition TABLE_POSITION :: regex where
  "TABLE_POSITION = cats [WordB, Group 1 (ors (map cis [''from'', ''join'', ''update'', ''into''])), Group 2 (plus ws),
     Group 3 (Opt (one_of [BACKTICK, DQUOTE, CHR ''[''])), Group 4 ident, Opt (one_of [BACKTICK, DQUOTE, CHR '']'']),
     Opt (Group 5 (cats [Star ws, lit CHR ''.'', Star ws, Group 6 (Opt (one_of [BACKTICK, DQUOTE, CHR ''[''])), Group 7 ident,
       Opt (one_of [BACKTICK, DQUOTE, CHR '']''])]))]"

definition DOLLAR_OPEN :: regex where
  "DOLLAR_OPEN = Or (cats [Bol, lit CHR ''$'', ident_start, Star (Chr is_word), lit CHR ''$'']) (cats [Bol, lits ''$$''])"

definition E_BEFORE :: regex where
  "E_BEFORE = cats [WordB, ci CHR ''E'', Eol]"

definition end_or :: "string \<Rightarrow> nat option \<Rightarrow> nat \<Rightarrow> nat" where
  "end_or sql close len = (case close of None \<Rightarrow> length sql | Some k \<Rightarrow> k + len)"

definition dollar_span :: "string \<Rightarrow> nat \<Rightarrow> nat option" where
  "dollar_span sql i =
     (case re_exec DOLLAR_OPEN (slice_from sql i) 0 of
        None \<Rightarrow> None
      | Some m \<Rightarrow>
          (let tag = m_whole (slice_from sql i) m in
           Some (end_or sql (index_of sql tag (i + length tag)) (length tag))))"

text \<open>
  The literal loop of \<open>skipTo\<close> is the one of the lexical scanner; it answers the end of the text where the scanner
  may stop one behind it.
\<close>

definition literal_end :: "string \<Rightarrow> nat \<Rightarrow> char \<Rightarrow> bool \<Rightarrow> nat" where
  "literal_end sql i q escaped = min (skip_lit (if escaped then esc_always else esc_never) q sql (i + 1)) (length sql)"

definition skipTo :: "string \<Rightarrow> nat \<Rightarrow> bool \<Rightarrow> bool \<Rightarrow> nat option" where
  "skipTo sql i doubleQuoteIsLiteral backslash =
     (let ch = char_at sql i; nxt = char_at sql (i + 1) in
      case (if ch = Some CHR ''$'' then dollar_span sql i else None) of
        Some e \<Rightarrow> Some e
      | None \<Rightarrow>
          if ch = Some CHR ''-'' \<and> nxt = Some CHR ''-'' then Some (end_or sql (index_of sql [LF] i) 0)
          else if ch = Some CHR ''/'' \<and> nxt = Some CHR ''*'' then Some (end_or sql (index_of sql ''*/'' (i + 2)) 2)
          else if ch = Some SQUOTE \<or> ch = Some DQUOTE \<and> doubleQuoteIsLiteral then
            Some (literal_end sql i (the ch) (backslash \<or> re_test E_BEFORE (slice sql (i - 2) i)))
          else None)"

datatype Folding = FoldLower | FoldUpper | FoldNone

definition foldingFor :: "string \<Rightarrow> Folding" where
  "foldingFor engine = (if engine = ''postgres'' then FoldLower else if engine = ''oracle'' then FoldUpper else FoldNone)"

fun folded :: "string \<Rightarrow> Folding \<Rightarrow> string" where
  "folded name FoldLower = toLowerCase name"
| "folded name FoldUpper = toUpperCase name"
| "folded name FoldNone = name"

section \<open>Model: the loop over chunk and opaque spans\<close>

text \<open>
  Both results of rewriting a piece of chunk: its text, and whether the variable \<open>changed\<close> was set. The end of
  a span lies behind its start for every span function of the file, so the last branch is never taken.
\<close>

type_synonym code_fix = "string \<Rightarrow> nat \<Rightarrow> string \<times> bool"

function rewrite_loop :: "(nat \<Rightarrow> nat option) \<Rightarrow> code_fix \<Rightarrow> string \<Rightarrow> nat \<Rightarrow> nat \<Rightarrow> string \<times> bool" where
  "rewrite_loop skip fixCode sql start i =
     (if i < length sql then
        case skip i of
          None \<Rightarrow> rewrite_loop skip fixCode sql start (i + 1)
        | Some e \<Rightarrow>
            if i < e then
              (let (chunk, changed) = fixCode (slice sql start i) start;
                   (rest, changed') = rewrite_loop skip fixCode sql e e
               in (chunk @ slice sql i e @ rest, changed \<or> changed'))
            else ([], False)
      else fixCode (slice_from sql start) start)"
  by pat_completeness auto
termination
  by (relation "measure (\<lambda>(skip, fixCode, sql, start, i). length sql - i)") auto

declare rewrite_loop.simps [simp del]

definition if_changed :: "string \<times> bool \<Rightarrow> string option" where
  "if_changed r = (if snd r then Some (fst r) else None)"

text \<open>\<open>code.replace(r, callback)\<close> with a callback that may set \<open>changed\<close>.\<close>

definition replace_marking :: "regex \<Rightarrow> string \<Rightarrow> (rmatch \<Rightarrow> string option) \<Rightarrow> string \<times> bool" where
  "replace_marking r chunk f =
     (replace_all r chunk (\<lambda>m. case f m of Some t \<Rightarrow> t | None \<Rightarrow> m_whole chunk m), list_ex (\<lambda>m. f m \<noteq> None) (match_all r chunk))"

definition code_span :: "string \<Rightarrow> char \<Rightarrow> nat \<Rightarrow> nat option" where
  "code_span sql quoteChar i = skipTo sql i (quoteChar \<noteq> DQUOTE) (quoteChar = BACKTICK)"

text \<open>The loops of the quoting functions treat a quoted identifier as opaque as well.\<close>

definition quoted_span :: "string \<Rightarrow> char \<Rightarrow> nat \<Rightarrow> nat option" where
  "quoted_span sql quoteChar i =
     (if char_at sql i = Some quoteChar then Some (end_or sql (index_of sql [closing_of quoteChar] (i + 1)) 1)
      else code_span sql quoteChar i)"

section \<open>Model: the rewritings\<close>

text \<open>The map from lower-cased names to names; the empty name marks an ambiguous one.\<close>

definition by_lower_step :: "string \<Rightarrow> (string \<rightharpoonup> string) \<Rightarrow> (string \<rightharpoonup> string)" where
  "by_lower_step name byLower =
     (let l = toLowerCase name in
      case byLower l of
        Some other \<Rightarrow> if other \<noteq> name then byLower(l \<mapsto> []) else byLower
      | None \<Rightarrow> byLower(l \<mapsto> name))"

definition by_lower :: "string list \<Rightarrow> (string \<rightharpoonup> string)" where
  "by_lower names = fold by_lower_step names Map.empty"

text \<open>\<open>byLower.get(...)\<close> with the test \<open>!canonical\<close> behind it.\<close>

definition canonical_of :: "string list \<Rightarrow> string \<Rightarrow> string option" where
  "canonical_of names token =
     (case by_lower names (toLowerCase token) of Some c \<Rightarrow> if c = [] then None else Some c | None \<Rightarrow> None)"

definition DOT_AHEAD :: regex where "DOT_AHEAD = cats [Bol, Star ws, lit CHR ''.'']"

definition group_text :: "string \<Rightarrow> rmatch \<Rightarrow> nat \<Rightarrow> string" where
  "group_text s m n = (case m_group s m n of Some t \<Rightarrow> t | None \<Rightarrow> [])"

definition fix_table :: "string list \<Rightarrow> char \<Rightarrow> Folding \<Rightarrow> string \<Rightarrow> rmatch \<Rightarrow> string option" where
  "fix_table tableNames quoteChar fol chunk m =
     (let keyword = group_text chunk m 1; gap = group_text chunk m 2; opening = group_text chunk m 3; first = group_text chunk m 4;
          second = m_group chunk m 7;
          target = (case second of Some t \<Rightarrow> t | None \<Rightarrow> first)
      in case canonical_of tableNames target of
           None \<Rightarrow> None
         | Some canonical \<Rightarrow>
             if re_test DOT_AHEAD (slice_from chunk (m_end m)) then None
             else
               let wasQuoted = (case second of None \<Rightarrow> opening | Some _ \<Rightarrow> group_text chunk m 6) \<noteq> [];
                   resolvesTo = (if wasQuoted then target else folded target fol)
               in if resolvesTo = canonical then None
                  else
                    let fixed = quoted canonical quoteChar in
                    Some (keyword @ gap @
                      (case second of
                         None \<Rightarrow> fixed
                       | Some _ \<Rightarrow> (if opening \<noteq> [] then quoted first (hd opening) else first) @ ''.'' @ fixed)))"

definition correctTableCase :: "string \<Rightarrow> string list \<Rightarrow> char \<Rightarrow> Folding \<Rightarrow> string option" where
  "correctTableCase sql tableNames quoteChar fol =
     if_changed (rewrite_loop (code_span sql quoteChar)
       (\<lambda>chunk _. replace_marking TABLE_POSITION chunk (fix_table tableNames quoteChar fol chunk)) sql 0 0)"

definition BARE_IDENTIFIER :: regex where
  "BARE_IDENTIFIER = cats [Group 1 ident, Group 2 (Cat (Star ws) (Opt (one_of ''.('')))]"

definition NAME_POSITION :: regex where
  "NAME_POSITION = cats [ors ([Cat WordB (cis ''from''), Cat WordB (cis ''join''), Cat WordB (cis ''update''), Cat WordB (cis ''into''), lit CHR ''.'']), Star ws, Eol]"

definition QUALIFIER_POSITION :: regex where
  "QUALIFIER_POSITION = cats [ors [Cat WordB (cis ''from''), Cat WordB (cis ''join''), Cat WordB (cis ''update''), Cat WordB (cis ''into'')], plus ws, Eol]"

definition KEYWORD_ARGUMENT :: regex where
  "KEYWORD_ARGUMENT = cats [WordB, ors (map cis [''extract'', ''trim'', ''position'', ''overlay'', ''substring'']), Star ws, lit CHR ''('', Star ws, Eol]"

definition LITERAL_AHEAD :: regex where
  "LITERAL_AHEAD = cats [Bol, Star ws, lit SQUOTE]"

definition ANY_RESERVED :: "string list" where
  "ANY_RESERVED = reserved ''*''"

definition fix_identifier :: "string \<Rightarrow> string list \<Rightarrow> char \<Rightarrow> string list \<Rightarrow> string \<Rightarrow> nat \<Rightarrow> rmatch \<Rightarrow> string option" where
  "fix_identifier sql names quoteChar tableNames chunk chunkStart m =
     (let token = group_text chunk m 1; tail = group_text chunk m 2; offset = m_index m in
      if starts_with (trim_start tail) ''('' then None
      else case canonical_of names token of
        None \<Rightarrow> None
      | Some canonical \<Rightarrow>
          let front = take offset chunk in
          if re_test KEYWORD_ARGUMENT front then None
          else if re_test LITERAL_AHEAD (slice_from sql (chunkStart + offset + length token)) then None
          else if starts_with (trim_start tail) ''.''
               \<and> (re_test QUALIFIER_POSITION front \<or> toLowerCase token \<notin> toLowerCase ` set tableNames) then None
          else if toLowerCase token \<in> set ANY_RESERVED \<and> \<not> re_test NAME_POSITION front then None
          else Some (quoted canonical quoteChar @ tail))"

definition quoteCatalogIdentifiers :: "string \<Rightarrow> string list \<Rightarrow> char \<Rightarrow> string list \<Rightarrow> string option" where
  "quoteCatalogIdentifiers sql names quoteChar tableNames =
     (if names = [] then None
      else if_changed (rewrite_loop (quoted_span sql quoteChar)
        (\<lambda>chunk chunkStart. replace_marking BARE_IDENTIFIER chunk (fix_identifier sql names quoteChar tableNames chunk chunkStart)) sql 0 0))"

definition CLAUSE_KEYWORD :: regex where
  "CLAUSE_KEYWORD = cats [Bol, plus ws, ors (map cis
     [''from'', ''where'', ''group'', ''order'', ''having'', ''limit'', ''offset'', ''union'', ''join'', ''on'', ''window'', ''fetch'', ''into'']), WordB]"

definition RESERVED_ALIAS :: regex where
  "RESERVED_ALIAS = cats [WordB, cis ''as'', plus ws, Group 1 ident, Star ws, Look (ors [lit CHR '','', lit CHR '')'', Eol, ws])]"

definition BRACKET_AHEAD :: regex where "BRACKET_AHEAD = cats [Bol, Star ws, lit CHR '')'']"
definition WORD_AHEAD :: regex where "WORD_AHEAD = cats [Bol, plus ws, ident_start]"

text \<open>\<open>whole.replace(alias, ...)\<close> with a string: the first occurrence, wherever it is.\<close>

definition replace_once :: "string \<Rightarrow> string \<Rightarrow> string \<Rightarrow> string" where
  "replace_once s t r = (case index_of s t 0 of None \<Rightarrow> s | Some i \<Rightarrow> take i s @ r @ drop (i + length t) s)"

definition fix_alias :: "string list \<Rightarrow> char \<Rightarrow> string \<Rightarrow> rmatch \<Rightarrow> string option" where
  "fix_alias reservedWords quoteChar chunk m =
     (let alias = group_text chunk m 1; rest = slice_from chunk (m_end m) in
      if toLowerCase alias \<notin> set reservedWords then None
      else if re_test BRACKET_AHEAD rest then None
      else if re_test WORD_AHEAD rest \<and> \<not> re_test CLAUSE_KEYWORD rest then None
      else Some (replace_once (m_whole chunk m) alias (quoted alias quoteChar)))"

definition quoteReservedAliases :: "string \<Rightarrow> char \<Rightarrow> string \<Rightarrow> string option" where
  "quoteReservedAliases sql quoteChar engine =
     if_changed (rewrite_loop (quoted_span sql quoteChar)
       (\<lambda>chunk _. replace_marking RESERVED_ALIAS chunk (fix_alias (reserved engine) quoteChar chunk)) sql 0 0)"

text \<open>The same loop with blanks for the spans.\<close>

function blank_loop :: "string \<Rightarrow> nat \<Rightarrow> nat \<Rightarrow> string" where
  "blank_loop sql start i =
     (if i < length sql then
        case skipTo sql i False False of
          None \<Rightarrow> blank_loop sql start (i + 1)
        | Some e \<Rightarrow> if i < e then slice sql start i @ replicate (e - i) SPACE @ blank_loop sql e e else []
      else slice_from sql start)"
  by pat_completeness auto
termination
  by (relation "measure (\<lambda>(sql, start, i). length sql - i)") auto

declare blank_loop.simps [simp del]

definition withoutLiteralsAndComments :: "string \<Rightarrow> string" where
  "withoutLiteralsAndComments sql = blank_loop sql 0 0"

text \<open>
  The loop of \<open>hasUnterminatedLiteral\<close>; the flag says whether a literal is open. A comment ends behind its start, so the
  maximum with the next index is that end.
\<close>

function unterminated_from :: "string \<Rightarrow> bool \<Rightarrow> bool \<Rightarrow> nat \<Rightarrow> bool" where
  "unterminated_from sql backslash opened i =
     (if i < length sql then
        let ch = sql ! i; nxt = char_at sql (i + 1) in
        if opened then
          (if backslash \<and> ch = BSLASH then unterminated_from sql backslash True (i + 2)
           else if ch = SQUOTE \<and> nxt = Some SQUOTE then unterminated_from sql backslash True (i + 2)
           else if ch = SQUOTE then unterminated_from sql backslash False (i + 1)
           else unterminated_from sql backslash True (i + 1))
        else
          let dollar = (if ch = CHR ''$'' then skipTo sql i False False else None) in
          (if dollar \<noteq> None \<and> i < the dollar then unterminated_from sql backslash False (the dollar)
           else if ch = CHR ''-'' \<and> nxt = Some CHR ''-'' then
             unterminated_from sql backslash False (max (i + 1) (end_or sql (index_of sql [LF] i) 0))
           else if ch = CHR ''/'' \<and> nxt = Some CHR ''*'' then
             unterminated_from sql backslash False (max (i + 1) (end_or sql (index_of sql ''*/'' (i + 2)) 2))
           else if ch = SQUOTE then unterminated_from sql backslash True (i + 1)
           else unterminated_from sql backslash False (i + 1))
      else opened)"
  by pat_completeness auto
termination
  by (relation "measure (\<lambda>(sql, backslash, opened, i). length sql - i)") (auto simp: split: option.splits)

declare unterminated_from.simps [simp del]

definition hasUnterminatedLiteral :: "string \<Rightarrow> bool \<Rightarrow> bool" where
  "hasUnterminatedLiteral sql backslash = unterminated_from sql backslash False 0"

definition UNKNOWN_TABLE :: regex where
  "UNKNOWN_TABLE = cats [WordB, Group 1 (ors (map cis
     [''doesn't exist'', ''does not exist'', ''not found'', ''unknown table'', ''invalid object name'', ''undefined table'', ''no such table'',
      ''table or view does not exist''])), WordB]"

definition looksLikeUnknownTable :: "string \<Rightarrow> bool" where
  "looksLikeUnknownTable message = re_test UNKNOWN_TABLE message"

section \<open>Spans end behind their start\<close>

definition span_ok :: "string \<Rightarrow> (nat \<Rightarrow> nat option) \<Rightarrow> bool" where
  "span_ok sql skip \<longleftrightarrow> (\<forall>i < length sql. \<forall>e. skip i = Some e \<longrightarrow> i < e \<and> e \<le> length sql)"

lemma end_or_bounds:
  assumes "i < k" "i < length sql"
  shows "i < end_or sql (index_of sql t k) (length t) \<and> end_or sql (index_of sql t k) (length t) \<le> length sql"
  using assms index_of_SomeD [of sql t k] by (fastforce simp: end_or_def split: option.splits)

lemma line_end_bounds:
  assumes "sql ! i \<noteq> LF" "i < length sql"
  shows "i < end_or sql (index_of sql [LF] i) 0 \<and> end_or sql (index_of sql [LF] i) 0 \<le> length sql"
proof (cases "index_of sql [LF] i")
  case (Some k)
  note k = index_of_SomeD [OF Some]
  then have "sql ! k = LF" by (simp add: take_Suc hd_drop_conv_nth)
  with assms k Some show ?thesis by (cases "k = i") (auto simp: end_or_def)
qed (use assms in \<open>simp add: end_or_def\<close>)

lemma dollar_whole: "re_exec DOLLAR_OPEN s 0 = Some m \<Longrightarrow> m_whole s m \<noteq> []"
proof -
  assume m: "re_exec DOLLAR_OPEN s 0 = Some m"
  note b = re_exec_Some [OF m]
  from b(5) have "m_index m < m_end m"
    unfolding DOLLAR_OPEN_def ident_start_def lits_def lit_def
    by (auto simp: in_cats_Cons in_cats_Nil in_Star_Chr all_between_def simp del: matches.simps(5) split: if_splits)
  with b(3) show ?thesis by (simp add: m_whole_def slice_def)
qed

lemma skipTo_bounds:
  assumes "i < length sql" "skipTo sql i d b = Some e"
  shows "i < e \<and> e \<le> length sql"
proof -
  have dollar: "i < e \<and> e \<le> length sql" if "dollar_span sql i = Some e"
    using that assms(1) dollar_whole [of "slice_from sql i"] end_or_bounds [of i "i + length t" sql t for t]
    by (auto simp: dollar_span_def Let_def split: option.splits)
  have lit: "i < literal_end sql i q esc \<and> literal_end sql i q esc \<le> length sql" for q esc
    using assms(1) lit_gt by (simp add: literal_end_def)
  have "sql ! i \<noteq> LF" if "char_at sql i = Some CHR ''-''" using that by (auto simp: LF_def dest: char_at_SomeD)
  with assms dollar lit line_end_bounds [of sql i] end_or_bounds [of i "i + 2" sql "''*/''"] show ?thesis
    by (auto simp: skipTo_def Let_def numeral_2_eq_2 split: option.splits if_splits)
qed

lemma code_span_ok: "span_ok sql (code_span sql q)"
  using skipTo_bounds by (simp add: span_ok_def code_span_def)

lemma quoted_span_ok: "span_ok sql (quoted_span sql q)"
  using skipTo_bounds end_or_bounds [of i "i + 1" sql "[closing_of q]" for i]
  by (auto simp: span_ok_def quoted_span_def code_span_def)

section \<open>The pieces of a statement\<close>

text \<open>
  A segmentation of the text from an index: pieces of code, in which no span starts, each with the opaque span behind it;
  the last piece has none.
\<close>

inductive segmented :: "(nat \<Rightarrow> nat option) \<Rightarrow> string \<Rightarrow> nat \<Rightarrow> (string \<times> string) list \<Rightarrow> bool" for skip sql where
  last: "k \<le> length sql \<Longrightarrow> \<forall>j. k \<le> j \<longrightarrow> j < length sql \<longrightarrow> skip j = None \<Longrightarrow> segmented skip sql k [(slice_from sql k, [])]"
| span: "k \<le> i \<Longrightarrow> i < e \<Longrightarrow> e \<le> length sql \<Longrightarrow> \<forall>j. k \<le> j \<longrightarrow> j < i \<longrightarrow> skip j = None \<Longrightarrow> skip i = Some e \<Longrightarrow>
    segmented skip sql e segs \<Longrightarrow> segmented skip sql k ((slice sql k i, slice sql i e) # segs)"

fun rewrite_pieces :: "code_fix \<Rightarrow> nat \<Rightarrow> (string \<times> string) list \<Rightarrow> string" where
  "rewrite_pieces fixCode k [] = []"
| "rewrite_pieces fixCode k ((c, l) # segs) = fst (fixCode c k) @ l @ rewrite_pieces fixCode (k + length c + length l) segs"

lemma segmented_concat: "segmented skip sql k segs \<Longrightarrow> concat (map (\<lambda>(c, l). c @ l) segs) = slice_from sql k"
proof (induction rule: segmented.induct)
  case (span k i e segs)
  then have "slice sql k i @ slice sql i e @ slice_from sql e = slice_from sql k"
    using slice_append [of k i e sql] by (simp add: slice_def slice_from_def)
      (metis append.assoc append_take_drop_id drop_drop le_add_diff_inverse2 le_trans less_imp_le)
  with span show ?case by simp
qed simp

lemma rewrite_loop_pieces:
  assumes "span_ok sql skip"
  shows "start \<le> i \<Longrightarrow> i \<le> length sql \<Longrightarrow> \<forall>j. start \<le> j \<longrightarrow> j < i \<longrightarrow> skip j = None \<Longrightarrow>
    \<exists>segs. segmented skip sql start segs \<and> fst (rewrite_loop skip fixCode sql start i) = rewrite_pieces fixCode start segs"
proof (induction "length sql - i" arbitrary: start i rule: less_induct)
  case less
  show ?case
  proof (cases "i < length sql")
    case False
    with less.prems show ?thesis
      by (subst rewrite_loop.simps) (auto intro!: exI [of _ "[(slice_from sql start, [])]"] segmented.last)
  next
    case True
    show ?thesis
    proof (cases "skip i")
      case None
      with True less.prems less.hyps [of "i + 1" start] show ?thesis
        by (subst rewrite_loop.simps) (auto simp: less_Suc_eq)
    next
      case (Some e)
      with True assms have e: "i < e" "e \<le> length sql" by (auto simp: span_ok_def)
      with True have "length sql - e < length sql - i" by simp
      from less.hyps [OF this, of e] e obtain segs where segs: "segmented skip sql e segs"
        "fst (rewrite_loop skip fixCode sql e e) = rewrite_pieces fixCode e segs" by auto
      have "fst (rewrite_loop skip fixCode sql start i) = rewrite_pieces fixCode start ((slice sql start i, slice sql i e) # segs)"
        using Some True e less.prems segs(2) by (subst rewrite_loop.simps) (simp add: case_prod_beta Let_def length_slice)
      with segmented.span [OF less.prems(1) e less.prems(3) Some segs(1)] show ?thesis by blast
    qed
  qed
qed


section \<open>Names\<close>

definition ident_char :: "char \<Rightarrow> bool" where
  "ident_char c \<longleftrightarrow> is_word c \<or> c = CHR ''$''"

lemma ident_char_lower [simp]: "ident_char (lower c) \<longleftrightarrow> ident_char c"
proof -
  have "lower c = CHR ''$'' \<longleftrightarrow> c = CHR ''$''"
    by (cases c; simp add: lower_Char is_upper_Char; blast)
  then show ?thesis by (simp add: ident_char_def)
qed

lemma ident_match: "(j, c') \<in> set (matches ident s i c) \<Longrightarrow> list_all ident_char (slice s i j)"
proof -
  assume m: "(j, c') \<in> set (matches ident s i c)"
  then have i: "i < length s" "is_alpha (s ! i) \<or> s ! i = CHR ''_''" "(j, c') \<in> set (matches (Star ident_part) s (Suc i) c)"
    unfolding ident_def ident_start_def in_Cat in_Chr by auto
  then have "all_between (\<lambda>c. is_word c \<or> c = CHR ''$'') s (Suc i) j"
    unfolding ident_part_def by (subst (asm) in_Star_Chr) auto
  moreover have "ident_char (s ! i)" using i(2) by (auto simp: ident_char_def is_word_def code_def)
  ultimately have "all_between ident_char s i j"
    unfolding all_between_def ident_char_def by (metis Suc_leD Suc_leI le_neq_implies_less)
  then show ?thesis by (rule all_between_slice)
qed

lemma same_lower_ident: "toLowerCase n = toLowerCase t \<Longrightarrow> list_all ident_char t \<Longrightarrow> list_all ident_char n"
  unfolding toLowerCase_def by (metis (mono_tags, lifting) ident_char_lower list.pred_map list.pred_mono_strong comp_apply list.pred_cong)

text \<open>The map answers with a name exactly when it is the only one of its spelling without case.\<close>

definition sole :: "string list \<Rightarrow> string \<Rightarrow> string \<Rightarrow> bool" where
  "sole names l n \<longleftrightarrow> n \<in> set names \<and> toLowerCase n = l \<and> (\<forall>n' \<in> set names. toLowerCase n' = l \<longrightarrow> n' = n)"

lemma by_lower_snoc: "by_lower (names @ [n]) = by_lower_step n (by_lower names)"
  by (simp add: by_lower_def)

lemma by_lower_spec:
  "(by_lower names l = None \<longleftrightarrow> (\<forall>n \<in> set names. toLowerCase n \<noteq> l)) \<and> (\<forall>n. n \<noteq> [] \<longrightarrow> (by_lower names l = Some n \<longleftrightarrow> sole names l n))"
proof (induction names rule: rev_induct)
  case (snoc x names)
  then show ?case
    unfolding by_lower_snoc
    by (cases "by_lower names (toLowerCase x)"; cases "toLowerCase x = l")
      (auto simp: by_lower_step_def Let_def sole_def)
qed (simp add: by_lower_def sole_def)

lemma canonical_of_iff: "canonical_of names token = Some n \<longleftrightarrow> n \<noteq> [] \<and> sole names (toLowerCase token) n"
proof (cases "by_lower names (toLowerCase token)")
  case (Some c)
  then show ?thesis using by_lower_spec [of names "toLowerCase token"] by (auto simp: canonical_of_def)
qed (use by_lower_spec [of names "toLowerCase token"] in \<open>auto simp: canonical_of_def sole_def\<close>)


section \<open>What a rewriting may do\<close>

text \<open>A text in which some names were replaced by their quoted spelling in the catalog, and nothing else.\<close>

inductive requoted :: "string list \<Rightarrow> char \<Rightarrow> string \<Rightarrow> string \<Rightarrow> bool" for names q where
  nil: "requoted names q [] []"
| keep: "requoted names q s t \<Longrightarrow> requoted names q (c # s) (c # t)"
| name: "sole names (toLowerCase token) n \<Longrightarrow> list_all ident_char n \<Longrightarrow> requoted names q s t \<Longrightarrow>
    requoted names q (token @ s) (quoted n q @ t)"

lemma requoted_refl: "requoted names q s s"
  by (induction s) (auto intro: requoted.intros)

lemma requoted_append: "requoted names q s t \<Longrightarrow> requoted names q s' t' \<Longrightarrow> requoted names q (s @ s') (t @ t')"
proof (induction rule: requoted.induct)
  case (name token n s t)
  then show ?case using requoted.name [of names token n q "s @ s'" "t @ t'"] by simp
qed (auto intro: requoted.intros)

lemma bare_identifier_read:
  assumes "re_exec BARE_IDENTIFIER s k = Some m"
  shows "m_whole s m = group_text s m 1 @ group_text s m 2" "list_all ident_char (group_text s m 1)"
proof -
  have no: "groups ident = []" by (simp add: ident_def ident_start_def ident_part_def)
  have no2: "groups (Cat (Star ws) (Opt (one_of ''.(''))) = []" by (simp add: ws_def one_of_def)
  from re_exec_Some(5) [OF assms] obtain j d d' where
      j: "(j, d) \<in> set (matches ident s (m_index m) [])"
      and e: "(m_end m, d') \<in> set (matches (Cat (Star ws) (Opt (one_of ''.(''))) s j ((1, m_index m, j) # d))"
      and caps: "m_caps m = (2, j, m_end m) # d'"
    unfolding BARE_IDENTIFIER_def in_cats_Cons in_cats_Nil in_Group by blast
  have d: "d = []" "d' = [(1, m_index m, j)]"
    using no_groups_captures [OF no j] no_groups_captures [OF no2 e] by auto
  have le: "m_index m \<le> length s" using re_exec_Some(2,3) [OF assms] by simp
  have b: "m_index m \<le> j" "j \<le> length s" using matches_bounds(1,2) [OF j le] by auto
  have "j \<le> m_end m" using matches_bounds(1) [OF e b(2)] b d by simp
  with b caps d show "m_whole s m = group_text s m 1 @ group_text s m 2"
    using slice_append [of "m_index m" j "m_end m" s] by (simp add: m_whole_def group_text_def m_group_def)
  show "list_all ident_char (group_text s m 1)"
    using ident_match [OF j] caps d by (simp add: group_text_def m_group_def)
qed

lemma fix_identifier_Some:
  assumes "fix_identifier sql names q tables s k m = Some t"
  shows "\<exists>n. sole names (toLowerCase (group_text s m 1)) n \<and> t = quoted n q @ group_text s m 2"
  using assms by (auto simp: fix_identifier_def Let_def canonical_of_iff split: if_splits option.splits)

lemma fix_identifiers_requoted:
  "requoted names q s (fst (replace_marking BARE_IDENTIFIER s (fix_identifier sql names q tables s k)))"
  unfolding replace_marking_def fst_conv
proof (rule replace_all_rel)
  fix m j assume m: "re_exec BARE_IDENTIFIER s j = Some m"
  note read = bare_identifier_read [OF m]
  show "requoted names q (m_whole s m) (case fix_identifier sql names q tables s k m of Some t \<Rightarrow> t | None \<Rightarrow> m_whole s m)"
  proof (cases "fix_identifier sql names q tables s k m")
    case (Some t)
    with fix_identifier_Some obtain n where n: "sole names (toLowerCase (group_text s m 1)) n" "t = quoted n q @ group_text s m 2" by blast
    have "list_all ident_char n" using same_lower_ident [OF _ read(2)] n(1) by (simp add: sole_def)
    with n Some read(1) show ?thesis using requoted.name [OF n(1) _ requoted_refl] by simp
  qed (simp add: requoted_refl)
qed (auto intro: requoted_refl requoted_append)

lemma no_groups:
  "groups (ors (map cis [''from'', ''join'', ''update'', ''into''])) = []" "groups (plus ws) = []" "groups ident = []"
  "groups (Opt (one_of x)) = []" "groups (Star ws) = []" "groups (lit y) = []"
  by (simp_all add: plus_def ws_def ident_def ident_start_def ident_part_def one_of_def lit_def)

definition table_tail :: regex where
  "table_tail = cats [Star ws, lit CHR ''.'', Star ws, Group 6 (Opt (one_of [BACKTICK, DQUOTE, CHR ''[''])), Group 7 ident,
     Opt (one_of [BACKTICK, DQUOTE, CHR '']''])]"

lemma groups_table_tail: "groups table_tail = [6, 7]"
  by (simp add: table_tail_def cats_def ws_def one_of_def lit_def ident_def ident_start_def ident_part_def)

lemma table_tail_read:
  assumes "(e, d) \<in> set (matches table_tail s i c)" "i \<le> length s" "caps_ok (length s) c"
  shows "\<exists>a0 a b. d = (7, a, b) # (6, a0, a) # c \<and> i \<le> a \<and> a \<le> b \<and> b \<le> e \<and> list_all ident_char (slice s a b)"
proof -
  from assms(1) obtain j1 e1 j2 e2 j3 e3 j4 e4 j5 e5 where
      t1: "(j1, e1) \<in> set (matches (Star ws) s i c)" and t2: "(j2, e2) \<in> set (matches (lit CHR ''.'') s j1 e1)"
      and t3: "(j3, e3) \<in> set (matches (Star ws) s j2 e2)"
      and t4: "(j4, e4) \<in> set (matches (Opt (one_of [BACKTICK, DQUOTE, CHR ''[''])) s j3 e3)"
      and t5: "(j5, e5) \<in> set (matches ident s j4 ((6, j3, j4) # e4))"
      and t6: "(e, d) \<in> set (matches (Opt (one_of [BACKTICK, DQUOTE, CHR '']''])) s j5 ((7, j4, j5) # e5))"
    unfolding table_tail_def in_cats_Cons in_cats_Nil in_Group by force
  note f = no_groups_captures [OF no_groups(5) t1] no_groups_captures [OF no_groups(6) t2] no_groups_captures [OF no_groups(5) t3]
    no_groups_captures [OF no_groups(4) t4] no_groups_captures [OF no_groups(3) t5] no_groups_captures [OF no_groups(4) t6]
  have h1: "i \<le> j1" "j1 \<le> length s" using matches_bounds [OF t1 assms(2,3)] by simp_all
  have h2: "j1 \<le> j2" "j2 \<le> length s" using matches_bounds [OF t2 h1(2)] assms(3) f by simp_all
  have h3: "j2 \<le> j3" "j3 \<le> length s" using matches_bounds [OF t3 h2(2)] assms(3) f by simp_all
  have h4: "j3 \<le> j4" "j4 \<le> length s" using matches_bounds [OF t4 h3(2)] assms(3) f by simp_all
  have h5: "j4 \<le> j5" "j5 \<le> length s" using matches_bounds [OF t5 h4(2)] assms(3) f h4 by simp_all
  have h6: "j5 \<le> e" using matches_bounds [OF t6 h5(2)] assms(3) f h4 h5 by simp
  show ?thesis using f h1 h2 h3 h4 h5 h6 ident_match [OF t5] by (intro exI [of _ j3] exI [of _ j4] exI [of _ j5]) simp
qed

lemma table_head_read:
  assumes "re_exec TABLE_POSITION s k = Some m"
  shows "\<exists>k1 k2 k3 k4 k5. m_index m \<le> k1 \<and> k1 \<le> k2 \<and> k2 \<le> k3 \<and> k3 \<le> k4 \<and> k4 \<le> k5 \<and> k5 \<le> length s \<and> k5 \<le> m_end m
    \<and> list_all ident_char (slice s k3 k4)
    \<and> (m_end m, m_caps m) \<in> set (matches (Opt (Group 5 table_tail)) s k5 [(4, k3, k4), (3, k2, k3), (2, k1, k2), (1, m_index m, k1)])"
proof -
  from re_exec_Some(5) [OF assms] obtain k1 d1 k2 d2 k3 d3 k4 d4 k5 d5 where
      1: "(k1, d1) \<in> set (matches (ors (map cis [''from'', ''join'', ''update'', ''into''])) s (m_index m) [])"
      and 2: "(k2, d2) \<in> set (matches (plus ws) s k1 ((1, m_index m, k1) # d1))"
      and 3: "(k3, d3) \<in> set (matches (Opt (one_of [BACKTICK, DQUOTE, CHR ''[''])) s k2 ((2, k1, k2) # d2))"
      and 4: "(k4, d4) \<in> set (matches ident s k3 ((3, k2, k3) # d3))"
      and 5: "(k5, d5) \<in> set (matches (Opt (one_of [BACKTICK, DQUOTE, CHR '']''])) s k4 ((4, k3, k4) # d4))"
      and 6: "(m_end m, m_caps m) \<in> set (matches (Opt (Group 5 table_tail)) s k5 d5)"
    unfolding TABLE_POSITION_def in_cats_Cons in_cats_Nil in_Group in_WordB table_tail_def by blast
  note c = no_groups_captures [OF no_groups(1) 1] no_groups_captures [OF no_groups(2) 2] no_groups_captures [OF no_groups(4) 3]
    no_groups_captures [OF no_groups(3) 4] no_groups_captures [OF no_groups(4) 5]
  have le: "m_index m \<le> length s" using re_exec_Some(2,3) [OF assms] by simp
  have b1: "m_index m \<le> k1" "k1 \<le> length s" using matches_bounds [OF 1 le] by simp_all
  have b2: "k1 \<le> k2" "k2 \<le> length s" using matches_bounds [OF 2 b1(2)] b1 c by simp_all
  have b3: "k2 \<le> k3" "k3 \<le> length s" using matches_bounds [OF 3 b2(2)] b1 b2 c by simp_all
  have b4: "k3 \<le> k4" "k4 \<le> length s" using matches_bounds [OF 4 b3(2)] b1 b2 b3 c by simp_all
  have b5: "k4 \<le> k5" "k5 \<le> length s" using matches_bounds [OF 5 b4(2)] b1 b2 b3 b4 c by simp_all
  have "k5 \<le> m_end m" using matches_bounds(1) [OF 6 b5(2)] c b1 b2 b3 b4 by simp
  moreover have "d5 = [(4, k3, k4), (3, k2, k3), (2, k1, k2), (1, m_index m, k1)]" using c by simp
  ultimately show ?thesis using b1(1) b2(1) b3(1) b4(1) b5 6 ident_match [OF 4] by blast
qed

lemma table_position_read:
  assumes "re_exec TABLE_POSITION s k = Some m"
  shows "\<exists>u. m_whole s m = group_text s m 1 @ group_text s m 2 @ u
      \<and> sublist (group_text s m 4) u \<and> list_all ident_char (group_text s m 4)
      \<and> (\<forall>t. m_group s m 7 = Some t \<longrightarrow> sublist t u \<and> list_all ident_char t)"
proof -
  from table_head_read [OF assms] obtain k1 k2 k3 k4 k5 where
      b: "m_index m \<le> k1" "k1 \<le> k2" "k2 \<le> k3" "k3 \<le> k4" "k4 \<le> k5" "k5 \<le> length s" "k5 \<le> m_end m"
      and first: "list_all ident_char (slice s k3 k4)"
      and opt: "(m_end m, m_caps m) \<in> set (matches (Opt (Group 5 table_tail)) s k5 [(4, k3, k4), (3, k2, k3), (2, k1, k2), (1, m_index m, k1)])"
    by blast
  let ?c = "[(4, k3, k4), (3, k2, k3), (2, k1, k2), (1, m_index m, k1)] :: caps"
  have ok: "caps_ok (length s) ?c" using b by simp
  have kept: "reset (groups (Group 5 table_tail)) ?c = ?c" by (simp add: groups_table_tail reset_def)
  from opt consider "m_caps m = ?c" | d where "(m_end m, d) \<in> set (matches table_tail s k5 ?c)" "m_caps m = (5, k5, m_end m) # d"
    unfolding in_Opt in_Group kept by blast
  then have caps: "map_of (m_caps m) 1 = Some (m_index m, k1) \<and> map_of (m_caps m) 2 = Some (k1, k2) \<and> map_of (m_caps m) 4 = Some (k3, k4)
      \<and> (\<forall>a b. map_of (m_caps m) 7 = Some (a, b) \<longrightarrow> k5 \<le> a \<and> a \<le> b \<and> b \<le> m_end m \<and> list_all ident_char (slice s a b))"
    by cases (use table_tail_read [OF _ b(6) ok] in fastforce)+
  define u where "u = slice s k2 (m_end m)"
  have "sublist (slice s a b) u" if "k2 \<le> a" "a \<le> b" "b \<le> m_end m" for a b
    using slice_append [of k2 a "m_end m" s] slice_append [of a b "m_end m" s] that unfolding u_def by (metis le_trans sublist_appendI)
  moreover have "m_whole s m = slice s (m_index m) k1 @ slice s k1 k2 @ u"
    using slice_append [of "m_index m" k1 "m_end m" s] slice_append [of k1 k2 "m_end m" s] b by (simp add: m_whole_def u_def)
  ultimately show ?thesis
    using caps b first by (intro exI [of _ u]) (auto simp: group_text_def m_group_def)
qed


text \<open>
  A text in which references to tables were replaced: the keyword and the blanks behind it stay, a qualifier stays a name of the text,
  and the reference becomes the quoted spelling of the only table that it can mean.
\<close>

inductive repaired :: "string list \<Rightarrow> char \<Rightarrow> string \<Rightarrow> string \<Rightarrow> bool" for names q where
  nil: "repaired names q [] []"
| keep: "repaired names q s t \<Longrightarrow> repaired names q (c # s) (c # t)"
| table: "sole names (toLowerCase target) n \<Longrightarrow> list_all ident_char n \<Longrightarrow> sublist target u \<Longrightarrow>
    qual = [] \<or> (\<exists>first q'. list_all ident_char first \<and> sublist first u \<and> (qual = first @ ''.'' \<or> qual = quoted first q' @ ''.'')) \<Longrightarrow>
    repaired names q s t \<Longrightarrow> repaired names q (lead @ u @ s) (lead @ qual @ quoted n q @ t)"

lemma repaired_refl: "repaired names q s s"
  by (induction s) (auto intro: repaired.intros)

lemma repaired_append: "repaired names q s t \<Longrightarrow> repaired names q s' t' \<Longrightarrow> repaired names q (s @ s') (t @ t')"
proof (induction rule: repaired.induct)
  case (table target n u qual s t lead)
  then show ?case using repaired.table [of names target n u qual q "s @ s'" "t @ t'" lead] by simp
qed (auto intro: repaired.intros)

lemma fix_table_Some:
  assumes "fix_table names q fol s m = Some t"
  shows "\<exists>n qual target. target = (case m_group s m 7 of Some t \<Rightarrow> t | None \<Rightarrow> group_text s m 4) \<and> sole names (toLowerCase target) n
    \<and> t = group_text s m 1 @ group_text s m 2 @ qual @ quoted n q
    \<and> (qual = [] \<or> (\<exists>q'. qual = group_text s m 4 @ ''.'' \<or> qual = quoted (group_text s m 4) q' @ ''.''))"
proof -
  from assms obtain n where n: "canonical_of names (case m_group s m 7 of Some t \<Rightarrow> t | None \<Rightarrow> group_text s m 4) = Some n"
      and t: "t = group_text s m 1 @ group_text s m 2 @ (case m_group s m 7 of None \<Rightarrow> quoted n q
        | Some _ \<Rightarrow> (if group_text s m 3 \<noteq> [] then quoted (group_text s m 4) (hd (group_text s m 3)) else group_text s m 4) @ ''.'' @ quoted n q)"
    unfolding fix_table_def Let_def by (auto split: option.split_asm if_split_asm)
  show ?thesis
  proof (cases "m_group s m 7")
    case None
    with n t show ?thesis by - (rule exI [of _ n], rule exI [of _ "[]"], simp add: canonical_of_iff)
  next
    case (Some t7)
    with n t show ?thesis
      by - (rule exI [of _ n], rule exI [of _ "(if group_text s m 3 \<noteq> [] then quoted (group_text s m 4) (hd (group_text s m 3)) else group_text s m 4) @ ''.''"],
        auto simp: canonical_of_iff)
  qed
qed

lemma fix_tables_repaired: "repaired names q s (fst (replace_marking TABLE_POSITION s (fix_table names q fol s)))"
  unfolding replace_marking_def fst_conv
proof (rule replace_all_rel)
  fix m j assume m: "re_exec TABLE_POSITION s j = Some m"
  show "repaired names q (m_whole s m) (case fix_table names q fol s m of Some t \<Rightarrow> t | None \<Rightarrow> m_whole s m)"
  proof (cases "fix_table names q fol s m")
    case (Some t)
    from table_position_read [OF m] obtain u where u: "m_whole s m = (group_text s m 1 @ group_text s m 2) @ u @ []"
        "sublist (group_text s m 4) u" "list_all ident_char (group_text s m 4)"
        "\<And>t. m_group s m 7 = Some t \<Longrightarrow> sublist t u \<and> list_all ident_char t" by auto
    from fix_table_Some [OF Some] obtain n qual target where
        t: "target = (case m_group s m 7 of Some t \<Rightarrow> t | None \<Rightarrow> group_text s m 4)" "sole names (toLowerCase target) n"
        "t = (group_text s m 1 @ group_text s m 2) @ qual @ quoted n q @ []"
        "qual = [] \<or> (\<exists>q'. qual = group_text s m 4 @ ''.'' \<or> qual = quoted (group_text s m 4) q' @ ''.'')" by auto
    have target: "sublist target u" "list_all ident_char target" using t(1) u(2-4) by (auto split: option.splits)
    have "list_all ident_char n" using same_lower_ident [OF _ target(2)] t(2) by (simp add: sole_def)
    from repaired.table [OF t(2) this target(1) _ repaired.nil, of qual q "group_text s m 1 @ group_text s m 2"] t(4) u(2,3)
    show ?thesis unfolding Some option.case t(3) u(1) by blast
  qed (simp add: repaired_refl)
qed (auto intro: repaired_refl repaired_append)

definition rewritten :: "(string \<Rightarrow> string \<Rightarrow> bool) \<Rightarrow> (nat \<Rightarrow> nat option) \<Rightarrow> string \<Rightarrow> string \<Rightarrow> bool" where
  "rewritten R skip sql out \<longleftrightarrow>
     (\<exists>parts. segmented skip sql 0 (map (\<lambda>(c, c', l). (c, l)) parts) \<and> sql = concat (map (\<lambda>(c, c', l). c @ l) parts)
        \<and> out = concat (map (\<lambda>(c, c', l). c' @ l) parts) \<and> (\<forall>(c, c', l) \<in> set parts. R c c'))"

lemma rewrite_parts:
  assumes "\<And>c k. R c (fst (fixCode c k))"
  shows "\<exists>parts. map (\<lambda>(c, c', l). (c, l)) parts = segs \<and> rewrite_pieces fixCode k segs = concat (map (\<lambda>(c, c', l). c' @ l) parts)
    \<and> (\<forall>(c, c', l) \<in> set parts. R c c')"
proof (induction segs arbitrary: k)
  case (Cons p segs)
  obtain c l where p: "p = (c, l)" by fastforce
  from Cons.IH obtain parts where "map (\<lambda>(c, c', l). (c, l)) parts = segs"
      "rewrite_pieces fixCode (k + length c + length l) segs = concat (map (\<lambda>(c, c', l). c' @ l) parts)" "\<forall>(c, c', l) \<in> set parts. R c c'" by blast
  then show ?case using assms p by (intro exI [of _ "(c, fst (fixCode c k), l) # parts"]) auto
qed simp

lemma rewrite_loop_rewritten:
  assumes "span_ok sql skip" "\<And>c k. R c (fst (fixCode c k))"
  shows "rewritten R skip sql (fst (rewrite_loop skip fixCode sql 0 0))"
proof -
  from rewrite_loop_pieces [OF assms(1), of 0 0 fixCode] obtain segs where
      segs: "segmented skip sql 0 segs" "fst (rewrite_loop skip fixCode sql 0 0) = rewrite_pieces fixCode 0 segs" by auto
  from rewrite_parts [of R fixCode segs 0, OF assms(2)] obtain parts where parts: "map (\<lambda>(c, c', l). (c, l)) parts = segs"
      "rewrite_pieces fixCode 0 segs = concat (map (\<lambda>(c, c', l). c' @ l) parts)" "\<forall>(c, c', l) \<in> set parts. R c c'" by blast
  have "concat (map (\<lambda>(c, l). c @ l) segs) = sql" using segmented_concat [OF segs(1)] by (simp add: slice_from_def)
  then have "sql = concat (map (\<lambda>(c, c', l). c @ l) parts)"
    unfolding parts(1) [symmetric] by (simp add: comp_def case_prod_unfold)
  with segs parts show ?thesis unfolding rewritten_def by (intro exI [of _ parts]) simp
qed

lemma unchanged_rewritten:
  assumes "span_ok sql skip" "\<And>c. R c c"
  shows "rewritten R skip sql sql"
proof -
  have "rewritten R skip sql (fst (rewrite_loop skip (\<lambda>c _. (c, False)) sql 0 0))"
    using rewrite_loop_rewritten [OF assms(1)] assms(2) by simp
  moreover have "rewritten (=) skip sql (fst (rewrite_loop skip (\<lambda>c _. (c, False)) sql 0 0))"
    using rewrite_loop_rewritten [OF assms(1), of "(=)"] by simp
  then have "fst (rewrite_loop skip (\<lambda>c _. (c, False)) sql 0 0) = sql"
    unfolding rewritten_def by (auto intro!: arg_cong [of _ _ concat] map_cong)
  ultimately show ?thesis by simp
qed

lemma if_changed_rewritten:
  assumes "span_ok sql skip" "\<And>c. R c c" "\<And>c k. R c (fst (fixCode c k))"
  shows "rewritten R skip sql (case if_changed (rewrite_loop skip fixCode sql 0 0) of Some out \<Rightarrow> out | None \<Rightarrow> sql)"
  using rewrite_loop_rewritten [of sql skip R fixCode, OF assms(1,3)] unchanged_rewritten [of sql skip R, OF assms(1,2)] by (simp add: if_changed_def)

text \<open>A text in which some reserved words were put in quotes.\<close>

inductive wrapped :: "string list \<Rightarrow> char \<Rightarrow> string \<Rightarrow> string \<Rightarrow> bool" for reserved_words q where
  nil: "wrapped reserved_words q [] []"
| keep: "wrapped reserved_words q s t \<Longrightarrow> wrapped reserved_words q (c # s) (c # t)"
| word: "toLowerCase w \<in> set reserved_words \<Longrightarrow> list_all ident_char w \<Longrightarrow> wrapped reserved_words q s t \<Longrightarrow>
    wrapped reserved_words q (w @ s) (quoted w q @ t)"

lemma wrapped_refl: "wrapped rs q s s"
  by (induction s) (auto intro: wrapped.intros)

lemma wrapped_append: "wrapped rs q s t \<Longrightarrow> wrapped rs q s' t' \<Longrightarrow> wrapped rs q (s @ s') (t @ t')"
proof (induction rule: wrapped.induct)
  case (word w s t)
  then show ?case using wrapped.word [of w rs q "s @ s'" "t @ t'"] by simp
qed (auto intro: wrapped.intros)

lemma replace_once_wrapped:
  assumes "toLowerCase w \<in> set rs" "list_all ident_char w"
  shows "wrapped rs q s (replace_once s w (quoted w q))"
proof (cases "index_of s w 0")
  case (Some i)
  then have "s = take i s @ w @ drop (i + length w) s"
    using index_of_SomeD(3) [OF Some] by (metis append_take_drop_id drop_drop add.commute)
  with Some wrapped_append [OF wrapped_refl wrapped.word [OF assms wrapped_refl]] show ?thesis
    by (metis (no_types, lifting) option.simps(5) replace_once_def)
qed (simp add: replace_once_def wrapped_refl)

lemma reserved_alias_ident: "groups_sat (\<lambda>n t. n = 1 \<longrightarrow> list_all ident_char t) s RESERVED_ALIAS"
proof -
  have "groups_sat P s (cis w)" for P w by (induction w) (simp_all add: cis_def ci_def)
  moreover have "groups_sat P s ident" for P by (simp add: ident_def ident_start_def ident_part_def)
  ultimately show ?thesis
    using ident_match by (simp add: RESERVED_ALIAS_def cats_def plus_def ws_def lit_def del: matches.simps)
qed

lemma fix_aliases_wrapped: "wrapped rs q s (fst (replace_marking RESERVED_ALIAS s (fix_alias rs q s)))"
  unfolding replace_marking_def fst_conv
proof (rule replace_all_rel)
  fix m j assume m: "re_exec RESERVED_ALIAS s j = Some m"
  have "list_all ident_char (group_text s m 1)"
    using exec_group_sat [OF reserved_alias_ident m] by (auto simp: group_text_def split: option.splits)
  then show "wrapped rs q (m_whole s m) (case fix_alias rs q s m of Some t \<Rightarrow> t | None \<Rightarrow> m_whole s m)"
    by (auto simp: fix_alias_def Let_def wrapped_refl intro!: replace_once_wrapped)
qed (auto intro: wrapped_refl wrapped_append)

section \<open>Properties\<close>

text \<open>
  Quoting from the catalog changes nothing but names, and only into what the catalog means: the statement is cut into code and
  opaque spans (literals, comments, dollar quotes, quoted names), every span stays as it is, and in the code some names
  become the quoted spelling of the only catalog name equal to them without case. That spelling holds identifier characters
  only, so no name of the catalog can leave its quotes.
\<close>

theorem quoteCatalogIdentifiers_only_quotes:
  "rewritten (requoted names q) (quoted_span sql q) sql
     (case quoteCatalogIdentifiers sql names q tables of Some out \<Rightarrow> out | None \<Rightarrow> sql)"
proof (cases "names = []")
  case True
  have "rewritten (requoted names q) (quoted_span sql q) sql sql"
    by (rule unchanged_rewritten) (rule quoted_span_ok requoted_refl)+
  with True show ?thesis by (simp add: quoteCatalogIdentifiers_def)
next
  case False
  have "rewritten (requoted names q) (quoted_span sql q) sql (case if_changed (rewrite_loop (quoted_span sql q)
      (\<lambda>c k. replace_marking BARE_IDENTIFIER c (fix_identifier sql names q tables c k)) sql 0 0) of Some out \<Rightarrow> out | None \<Rightarrow> sql)"
    by (rule if_changed_rewritten) (rule quoted_span_ok requoted_refl fix_identifiers_requoted)+
  with False show ?thesis by (simp add: quoteCatalogIdentifiers_def)
qed

text \<open>
  Repairing table references keeps literals, comments and every piece of code that is no table reference; a reference that
  is changed becomes the quoted name of the one table it can mean, never one of several that differ in case only.
\<close>

theorem correctTableCase_only_repairs:
  "rewritten (repaired names q) (code_span sql q) sql
     (case correctTableCase sql names q fol of Some out \<Rightarrow> out | None \<Rightarrow> sql)"
  unfolding correctTableCase_def 
  by (rule if_changed_rewritten) (rule code_span_ok repaired_refl fix_tables_repaired)+

text \<open>
  Quoting reserved aliases puts words that the engine reserves in quotes and does nothing else: no literal, comment or
  quoted name changes, and no other character of the code.
\<close>

theorem quoteReservedAliases_only_wraps:
  "rewritten (wrapped (reserved engine) q) (quoted_span sql q) sql
     (case quoteReservedAliases sql q engine of Some out \<Rightarrow> out | None \<Rightarrow> sql)"
  unfolding quoteReservedAliases_def
  by (rule if_changed_rewritten) (rule quoted_span_ok wrapped_refl fix_aliases_wrapped)+

lemma blank_loop_pieces:
  assumes "start \<le> i" "i \<le> length sql" "\<forall>j. start \<le> j \<longrightarrow> j < i \<longrightarrow> skipTo sql j False False = None"
  shows "\<exists>segs. segmented (\<lambda>i. skipTo sql i False False) sql start segs
    \<and> blank_loop sql start i = concat (map (\<lambda>(c, l). c @ replicate (length l) SPACE) segs)"
  using assms
proof (induction "length sql - i" arbitrary: start i rule: less_induct)
  case less
  let ?skip = "\<lambda>i. skipTo sql i False False"
  show ?case
  proof (cases "i < length sql")
    case False
    with less.prems show ?thesis
      by (subst blank_loop.simps) (auto intro!: exI [of _ "[(slice_from sql start, [])]"] segmented.last)
  next
    case True
    show ?thesis
    proof (cases "?skip i")
      case None
      with True less.prems less.hyps [of "i + 1" start] show ?thesis
        by (subst blank_loop.simps) (auto simp: less_Suc_eq)
    next
      case (Some e)
      with True skipTo_bounds have e: "i < e" "e \<le> length sql" by blast+
      with True have "length sql - e < length sql - i" by simp
      from less.hyps [OF this, of e] e obtain segs where segs: "segmented ?skip sql e segs"
        "blank_loop sql e e = concat (map (\<lambda>(c, l). c @ replicate (length l) SPACE) segs)" by auto
      have "blank_loop sql start i = concat (map (\<lambda>(c, l). c @ replicate (length l) SPACE) ((slice sql start i, slice sql i e) # segs))"
        using Some True e segs(2) by (subst blank_loop.simps) (simp add: length_slice)
      with segmented.span [OF less.prems(1) e less.prems(3) Some segs(1)] show ?thesis by blast
    qed
  qed
qed

text \<open>
  Blanking literals and comments keeps every offset: the result is the statement with each span replaced by as many blanks,
  so a keyword found in it stands at the same place of the statement, in code.
\<close>

theorem withoutLiteralsAndComments_keeps_offsets:
  "length (withoutLiteralsAndComments sql) = length sql
   \<and> (\<exists>segs. segmented (\<lambda>i. skipTo sql i False False) sql 0 segs \<and> concat (map (\<lambda>(c, l). c @ l) segs) = sql
        \<and> withoutLiteralsAndComments sql = concat (map (\<lambda>(c, l). c @ replicate (length l) SPACE) segs))"
proof -
  from blank_loop_pieces [of 0 0 sql] obtain segs where segs: "segmented (\<lambda>i. skipTo sql i False False) sql 0 segs"
    "withoutLiteralsAndComments sql = concat (map (\<lambda>(c, l). c @ replicate (length l) SPACE) segs)"
    by (auto simp: withoutLiteralsAndComments_def)
  from segmented_concat [OF segs(1)] have sql: "concat (map (\<lambda>(c, l). c @ l) segs) = sql" by (simp add: slice_from_def)
  have "length (concat (map (\<lambda>(c, l). c @ replicate (length l) SPACE) segs)) = length (concat (map (\<lambda>(c, l). c @ l) segs))"
    by (induction segs) auto
  with segs sql show ?thesis by metis
qed

section \<open>Values in apostrophes\<close>

text \<open>A value written the way SQL asks for: every apostrophe doubled, one at each end.\<close>

definition sql_value :: "string \<Rightarrow> string" where
  "sql_value v = [SQUOTE] @ concat (map (\<lambda>c. if c = SQUOTE then [SQUOTE, SQUOTE] else [c]) v) @ [SQUOTE]"

lemma escaped_value_closes:
  "unterminated_from (pre @ concat (map (\<lambda>c. if c = SQUOTE then [SQUOTE, SQUOTE] else [c]) v) @ [SQUOTE]) False True (length pre) = False"
proof (induction v arbitrary: pre)
  case Nil
  then show ?case
    by (subst unterminated_from.simps) (simp add: char_at_def nth_append, subst unterminated_from.simps, simp)
next
  case (Cons c v)
  show ?case
  proof (cases "c = SQUOTE")
    case True
    with Cons.IH [of "pre @ [SQUOTE, SQUOTE]"] show ?thesis
      by (subst unterminated_from.simps) (simp add: char_at_def nth_append)
  next
    case False
    with Cons.IH [of "pre @ [c]"] show ?thesis
      by (subst unterminated_from.simps) (simp add: char_at_def nth_append)
  qed
qed

text \<open>
  A correctly written value is never reported as unterminated, whatever it contains, where the backslash is no escape.
\<close>

theorem escaped_value_is_terminated: "hasUnterminatedLiteral (sql_value v) False = False"
proof -
  have "hasUnterminatedLiteral (sql_value v) False = unterminated_from (sql_value v) False True 1"
    unfolding hasUnterminatedLiteral_def
    by (subst unterminated_from.simps) (simp add: sql_value_def Let_def SQUOTE_def)
  then show ?thesis using escaped_value_closes [of "[SQUOTE]" v] by (simp add: sql_value_def)
qed

text \<open>
  A dollar sign inside a name counts as the start of a dollar quote: the rest of the statement behind such a name is blanked as
  if it were a literal.
\<close>

theorem dollar_in_name_blanks_code:
  "withoutLiteralsAndComments ''a$b$c except d'' = ''a             ''"
  by code_simp

text \<open>
  An alias named as the keyword in front of it is not the one that gets the quotes.
\<close>

theorem alias_as_quotes_the_keyword:
  "fix_alias [''as''] DQUOTE ''b as as'' \<lparr>m_index = 2, m_end = 7, m_caps = [(1, 5, 7)]\<rparr> = Some ([DQUOTE] @ ''as'' @ [DQUOTE] @ '' as'')
   \<and> re_exec RESERVED_ALIAS ''b as as'' 0 = Some \<lparr>m_index = 2, m_end = 7, m_caps = [(1, 5, 7)]\<rparr>"
  by code_simp

end
