(* ===== verification/Column_Hints.thy ===== *)
theory Column_Hints
  imports JSON JS_Regex "HOL-Library.Multiset"
begin

text \<open>
  \<open>packages/core/src/coltype.ts\<close> and \<open>packages/core/src/column-hints.ts\<close>: what a column's type and a probe of its
  values say about it. The theory holds the coarse kind of a column, the test for columns that store a moment
  as a number, the epoch unit of such a column, the keys of a JSON column, the hint built from them and the
  budget of probes.

  The properties bound the hint and the probes, say when an epoch unit is right for a whole range and that
  names of keys reach the hint only when they recur and only when they were asked for.
\<close>

section \<open>Model: the kind of a column\<close>

datatype ColumnKind = KText | KNumber | KBigint | KDecimal | KBoolean | KTimestamp | KDate | KJson | KBinary | KUnknown

definition word_in :: "string list \<Rightarrow> regex" where
  "word_in ws' = cats [WordB, Group 1 (ors (map lits ws')), WordB]"

definition start_or_boundary :: regex where
  "start_or_boundary = Group 1 (Or Bol WordB)"

definition BOOLEAN_TYPES :: regex where
  "BOOLEAN_TYPES = cats [start_or_boundary, Group 2 (Or (lits ''bool'') (lits ''boolean'')), WordB]"

definition BIT_TYPE :: regex where
  "BIT_TYPE = cats [start_or_boundary, lits ''bit'', WordB, NegLook (cats [Star ws, lits ''varying'']),
     NegLook (cats [Star ws, lit CHR ''('', Star ws, NegLook (cats [lit CHR ''1'', Star ws, lit CHR '')''])])]"

definition TINYINT_1 :: regex where "TINYINT_1 = cats [WordB, lits ''tinyint(1)'']"

definition JSON_TYPE :: regex where "JSON_TYPE = cats [WordB, lits ''json'']"

definition BINARY_TYPES :: regex where
  "BINARY_TYPES = Or (word_in [''bytea'', ''binary'', ''varbinary'', ''image'', ''raw'', ''bfile''])
     (cats [WordB, Opt (Group 2 (ors (map lits [''long'', ''medium'', ''tiny'']))), lits ''blob'', WordB])"

definition TEXT_TYPES :: regex where
  "TEXT_TYPES = ors
     [cats [start_or_boundary, Group 2 (ors (map lits [''long'', ''medium'', ''tiny''])), lits ''text'', WordB],
      cats [WordB, Opt (lit CHR ''n''), lits ''text'', WordB],
      cats [WordB, Opt (lit CHR ''n''), Opt (Group 3 (lits ''var'')), lits ''char'', Star dig, WordB],
      cats [WordB, lits ''character'', WordB], cats [WordB, lits ''string'', WordB], cats [WordB, Opt (lit CHR ''n''), lits ''clob'', WordB],
      cats [WordB, lits ''enum'', WordB], cats [WordB, lits ''set'', WordB], cats [WordB, lits ''name'', WordB], cats [WordB, lits ''citext'', WordB],
      cats [WordB, Group 4 (ors (map lits [''uuid'', ''inet'', ''cidr'', ''macaddr'', ''xml''])), WordB]]"

definition classifyColumnKind :: "string option \<Rightarrow> ColumnKind" where
  "classifyColumnKind dbType =
     (case dbType of
        None \<Rightarrow> KUnknown
      | Some raw \<Rightarrow>
          if raw = [] then KUnknown
          else
            let t = toLowerCase raw in
            if re_test TINYINT_1 t \<or> re_test BOOLEAN_TYPES t \<or> re_test BIT_TYPE t then KBoolean
            else if re_test (word_in [''bigint'', ''int8'', ''bigserial'']) t then KBigint
            else if re_test (word_in [''numeric'', ''decimal'', ''money'', ''dec'', ''number'']) t then KDecimal
            else if re_test (word_in [''smallint'', ''integer'', ''int'', ''int2'', ''int4'', ''serial'', ''smallserial'', ''mediumint'', ''tinyint'', ''year'']) t then KNumber
            else if re_test (word_in [''real'', ''double'', ''float'', ''float4'', ''float8'', ''binary_float'', ''binary_double'']) t then KNumber
            else if re_test (word_in [''timestamp'', ''timestamptz'', ''datetime'']) t then KTimestamp
            else if re_test (cats [WordB, lits ''date'', WordB]) t then KDate
            else if re_test JSON_TYPE t then KJson
            else if re_test BINARY_TYPES t then KBinary
            else if re_test TEXT_TYPES t then KText
            else KUnknown)"

section \<open>Model: moments\<close>

definition TIMEISH_NAME :: regex where
  "TIMEISH_NAME = Or
     (cats [Or Bol (lit CHR ''_''),
        ors [cis ''at'', cis ''ts'', cis ''time'', cis ''date'', cis ''timestamp'', cis ''created'', cis ''updated'', cis ''modified'', cis ''deleted'',
          Cat (cis ''expire'') (Opt (ci CHR ''s'')), cis ''expiry'', cis ''last_seen'', cis ''since'', cis ''until''],
        Or (lit CHR ''_'') Eol])
     (cats [ors [cis ''time'', cis ''date'', cis ''timestamp''], Eol])"

definition ID_NAME :: regex where
  "ID_NAME = cats [Or Bol (lit CHR ''_''),
     ors (map cis [''id'', ''ids'', ''key'', ''uuid'', ''guid'', ''hash'', ''no'', ''num'', ''number'', ''code'', ''by'']), Eol]"

definition HAS_SCALE :: regex where
  "HAS_SCALE = cats [lit CHR ''('', Star ws, plus dig, Star ws, lit CHR '','', Star ws, one_of ''123456789'', Star dig, Star ws, lit CHR '')'']"

definition INTEGERISH :: regex where
  "INTEGERISH = cats [Bol, ors [cats [cis ''big'', Star ws, cis ''int''], cis ''int'', cis ''integer'', cis ''int2'', cis ''int4'', cis ''int8'', cis ''smallint'',
     cis ''tinyint'', cis ''mediumint'', cats [cis ''unsigned'', plus ws, cis ''big'', plus ws, cis ''int''], cis ''numeric'', cis ''number'', cis ''decimal''], WordB]"

definition isMomentColumn :: "string \<Rightarrow> string \<Rightarrow> bool" where
  "isMomentColumn name dbType =
     (let type = trim dbType in
      re_test INTEGERISH type \<and> \<not> re_test HAS_SCALE type \<and> re_test TIMEISH_NAME name \<and> \<not> re_test ID_NAME name)"

definition SENTINEL_FLOOR :: rat where "SENTINEL_FLOOR = 9 * 10 ^ 18"

definition bucketOf :: "rat \<Rightarrow> string option" where
  "bucketOf v =
     (if 10 ^ 17 \<le> v then Some ''epoch nanoseconds''
      else if 10 ^ 14 \<le> v then Some ''epoch microseconds''
      else if 10 ^ 11 \<le> v then Some ''epoch milliseconds''
      else if 10 ^ 8 \<le> v then Some ''epoch seconds''
      else None)"

text \<open>A bound that is absent or no finite number counts as absent.\<close>

fun finite_bound :: "jsnum option \<Rightarrow> rat option" where
  "finite_bound (Some (Fin v)) = Some v"
| "finite_bound _ = None"

text \<open>The second bound may be left out, or be passed as null: the outer option is for the former.\<close>

definition epochUnitOf :: "jsnum option \<Rightarrow> jsnum option option \<Rightarrow> string option" where
  "epochUnitOf lo hi =
     (let low = finite_bound lo; high = (case hi of None \<Rightarrow> low | Some h \<Rightarrow> finite_bound h) in
      case (low, high) of
        (Some l, Some h) \<Rightarrow>
          if l \<le> 0 then None
          else
            let top' = (if SENTINEL_FLOOR \<le> h then l else h) in
            (if bucketOf l \<noteq> None \<and> bucketOf l = bucketOf top' then bucketOf l else None)
      | _ \<Rightarrow> None)"

section \<open>Model: JSON columns\<close>

definition JSON_CAPABLE :: regex where
  "JSON_CAPABLE = cats [Bol, ors (map cis [''json'', ''jsonb'', ''text'', ''longtext'', ''mediumtext'', ''tinytext'', ''varchar'', ''character varying'', ''citext'',
     ''char'', ''clob'', ''nclob'', ''nvarchar'', ''string''])]"

definition isJsonCandidateColumn :: "string \<Rightarrow> bool" where
  "isJsonCandidateColumn dbType = re_test JSON_CAPABLE (trim dbType)"

definition JSON_KEY :: regex where
  "JSON_KEY = cats [Bol, Chr (\<lambda>c. is_alpha c \<or> c = CHR ''_''), upto_times 39 (Chr is_word), Eol]"

definition JSON_MAX_KEYS :: nat where "JSON_MAX_KEYS = 12"
definition JSON_MIN_ROWS_TO_NAME :: nat where "JSON_MIN_ROWS_TO_NAME = 3"
definition JSON_KEY_SHARE :: rat where "JSON_KEY_SHARE = nearest_double (4 / 10)"

type_synonym key_counts = "(string \<times> nat) list"

definition count_of :: "key_counts \<Rightarrow> string \<Rightarrow> nat" where
  "count_of seenIn k = (case map_of seenIn k of None \<Rightarrow> 0 | Some n \<Rightarrow> n)"

text \<open>\<open>seenIn.set(k, (seenIn.get(k) ?? 0) + 1)\<close>: a new key goes to the end.\<close>

fun bump :: "string \<Rightarrow> key_counts \<Rightarrow> key_counts" where
  "bump k [] = [(k, 1)]"
| "bump k ((k', n) # rest) = (if k' = k then (k', n + 1) # rest else (k', n) # bump k rest)"

text \<open>The object a cell holds: the parsed text if it is a string that starts with a brace and parses to an object.\<close>

definition json_object_of :: "jsval \<Rightarrow> props option" where
  "json_object_of raw =
     (case raw of
        JStr s \<Rightarrow>
          (let t = trim s in
           if starts_with t ''{'' then (case json_parse t of Some (JObj kvs) \<Rightarrow> Some kvs | _ \<Rightarrow> None) else None)
      | _ \<Rightarrow> None)"

fun count_keys :: "jsval list \<Rightarrow> key_counts \<Rightarrow> nat \<Rightarrow> (key_counts \<times> nat) option" where
  "count_keys [] seenIn parsed = Some (seenIn, parsed)"
| "count_keys (raw # rest) seenIn parsed =
     (case json_object_of raw of
        None \<Rightarrow> None
      | Some kvs \<Rightarrow>
          if list_all (\<lambda>(k, _). re_test JSON_KEY k) kvs
          then count_keys rest (fold (\<lambda>(k, _). bump k) kvs seenIn) (parsed + 1)
          else None)"

definition needed_rows :: "nat \<Rightarrow> rat" where
  "needed_rows parsed = max 2 (nearest_double (of_nat parsed * JSON_KEY_SHARE))"

definition jsonShapeOf :: "jsval list \<Rightarrow> string list option" where
  "jsonShapeOf values =
     (case count_keys values [] 0 of
        None \<Rightarrow> None
      | Some (seenIn, parsed) \<Rightarrow>
          if parsed = 0 then None
          else if parsed < JSON_MIN_ROWS_TO_NAME then Some []
          else
            let stable = map fst (filter (\<lambda>(_, n). needed_rows parsed \<le> of_nat n) seenIn) in
            Some (if 2 \<le> length stable \<and> length stable \<le> JSON_MAX_KEYS then stable else []))"

definition HINT_CAP :: nat where "HINT_CAP = 185"

fun keep_keys :: "nat \<Rightarrow> string list \<Rightarrow> string list \<Rightarrow> string list" where
  "keep_keys lead kept [] = kept"
| "keep_keys lead kept (k # ks) =
     (if lead + length (join '', '' (kept @ [k])) > HINT_CAP then kept else keep_keys lead (kept @ [k]) ks)"

definition jsonHint :: "string \<Rightarrow> string list \<Rightarrow> bool \<Rightarrow> string" where
  "jsonHint accessor keys nameKeys =
     (let prefix' = ''JSON object, read with '' @ accessor in
      if keys = [] then prefix'
      else if \<not> nameKeys then prefix' @ '' ('' @ show_nat (length keys) @ '' recurring '' @ (if length keys = 1 then ''key'' else ''keys'') @ '')''
      else
        let lead = prefix' @ ''; keys: '';
            kept = keep_keys (length lead) [] keys;
            shown = (if kept \<noteq> [] then kept else take 1 keys)
        in lead @ join '', '' shown @ (if length shown < length keys then '', ...'' else []))"

definition MAX_HINT_PROBES :: nat where "MAX_HINT_PROBES = 200"
definition MAX_HINT_PROBES_PER_TABLE :: nat where "MAX_HINT_PROBES_PER_TABLE = 4"

definition hintProbesPerTable :: "nat \<Rightarrow> nat" where
  "hintProbesPerTable tableCount =
     (let fairShare = MAX_HINT_PROBES div max 1 tableCount in
      max 1 (min MAX_HINT_PROBES_PER_TABLE fairShare))"

datatype element_kind = ENumber | EString

fun element_kind_of :: "jsval \<Rightarrow> element_kind option" where
  "element_kind_of (JNum _) = Some ENumber"
| "element_kind_of (JStr _) = Some EString"
| "element_kind_of _ = None"

text \<open>The outer option of the result is the early return of null.\<close>

fun element_kinds :: "jsval list \<Rightarrow> element_kind option \<Rightarrow> element_kind option option" where
  "element_kinds [] seen = Some seen"
| "element_kinds (el # els) seen =
     (case element_kind_of el of
        None \<Rightarrow> None
      | Some t \<Rightarrow> if seen \<noteq> None \<and> seen \<noteq> Some t then None else element_kinds els (Some t))"

definition json_array_of :: "jsval \<Rightarrow> jsval list option" where
  "json_array_of raw =
     (case raw of
        JStr s \<Rightarrow>
          (let t = trim s in
           if starts_with t ''['' then (case json_parse t of Some (JArr xs) \<Rightarrow> Some xs | _ \<Rightarrow> None) else None)
      | _ \<Rightarrow> None)"

fun array_kinds :: "jsval list \<Rightarrow> element_kind option \<Rightarrow> element_kind option" where
  "array_kinds [] seen = seen"
| "array_kinds (raw # rest) seen =
     (case json_array_of raw of
        None \<Rightarrow> None
      | Some xs \<Rightarrow> (case element_kinds xs seen of None \<Rightarrow> None | Some seen' \<Rightarrow> array_kinds rest seen'))"

text \<open>Without any value the result is null, which is also what the loop starts with.\<close>

definition jsonArrayElementOf :: "jsval list \<Rightarrow> element_kind option" where
  "jsonArrayElementOf values = array_kinds values None"

section \<open>Parsed objects have distinct keys\<close>

lemma set_prop_distinct: "distinct (map fst kvs) \<Longrightarrow> distinct (map fst (set_prop kvs k v))"
proof (cases "k \<in> fst ` set kvs")
  case True
  have "map fst (map (\<lambda>(k', v'). (k', if k' = k then v else v')) kvs) = map fst kvs"
    by (simp add: case_prod_unfold)
  with True show "distinct (map fst kvs) \<Longrightarrow> distinct (map fst (set_prop kvs k v))" unfolding set_prop_def by (simp only: if_True)
qed (simp add: set_prop_def)

lemma own_order_distinct: "distinct (map fst kvs) \<Longrightarrow> distinct (map fst (own_order kvs))"
proof -
  have "mset (own_order kvs) = mset kvs" by (simp add: own_order_def case_prod_unfold)
  then have "mset (map fst (own_order kvs)) = mset (map fst kvs)" by simp
  then show "distinct (map fst kvs) \<Longrightarrow> distinct (map fst (own_order kvs))" using mset_eq_imp_distinct_iff by blast
qed

definition keys_distinct :: "jsval \<Rightarrow> bool" where
  "keys_distinct v \<longleftrightarrow> (\<forall>kvs. v = JObj kvs \<longrightarrow> distinct (map fst kvs))"

lemma object_of_distinct: "keys_distinct (object_of entries)"
proof -
  have "distinct (map fst (foldl (\<lambda>kvs (k, v). set_prop kvs k v) kvs entries))" if "distinct (map fst kvs)" for kvs
    using that by (induction entries arbitrary: kvs) (auto intro: set_prop_distinct)
  from this [of "[]"] show ?thesis by (simp add: keys_distinct_def object_of_def own_order_distinct)
qed

fun token_ok :: "jtok \<Rightarrow> bool" where
  "token_ok (TWord v) = keys_distinct v"
| "token_ok _ = True"

fun result_ok :: "pstate \<Rightarrow> bool" where
  "result_ok (PDone v) = keys_distinct v"
| "result_ok _ = True"

lemma deliver_ok: "deliver v fs = Some st \<Longrightarrow> keys_distinct v \<Longrightarrow> result_ok st"
  by (induction v fs rule: deliver.induct) auto

lemma start_value_ok: "start_value fs t = Some st \<Longrightarrow> token_ok t \<Longrightarrow> result_ok st"
  by (induction fs t rule: start_value.induct) (auto intro: deliver_ok simp: keys_distinct_def)

lemma close_frame_ok: "close_frame fs t = Some st \<Longrightarrow> result_ok st"
  by (induction fs t rule: close_frame.induct) (auto intro: deliver_ok object_of_distinct simp: keys_distinct_def)

lemma start_key_ok: "start_key fs t = Some st \<Longrightarrow> result_ok st"
  by (induction fs t rule: start_key.induct) auto

lemma json_step_ok: "json_step st t = Some st' \<Longrightarrow> token_ok t \<Longrightarrow> result_ok st'"
  by (induction st t rule: json_step.induct)
    (auto dest: start_value_ok close_frame_ok start_key_ok split: if_splits list.splits frame.splits)

lemma json_run_ok: "json_run st ts = Some st' \<Longrightarrow> result_ok st \<Longrightarrow> list_all token_ok ts \<Longrightarrow> result_ok st'"
  by (induction st ts rule: json_run.induct) (auto dest: json_step_ok split: option.splits)

lemma json_token_ok: "json_token s = (Some (Inr t), r) \<Longrightarrow> token_ok t"
  by (auto simp: json_token_def keys_distinct_def Let_def split: if_splits option.splits prod.splits list.splits)

lemma json_lex_ok: "json_lex s = Some ts \<Longrightarrow> list_all token_ok ts"
proof (induction s arbitrary: ts rule: json_lex.induct)
  case (1 s)
  show ?case
  proof (cases "s = []")
    case False
    obtain t r where t: "json_token s = (t, r)" by fastforce
    with False "1.prems" consider "t = Some (Inl ())" "json_lex r = Some ts"
      | u us where "t = Some (Inr u)" "json_lex r = Some us" "ts = u # us"
      by (subst (asm) json_lex.simps) (auto split: option.splits sum.splits)
    then show ?thesis using "1.IH" [OF False t [symmetric]] t json_token_ok by cases auto
  qed (use "1.prems" in \<open>simp add: json_lex.simps\<close>)
qed

lemma json_parse_keys_distinct: "json_parse s = Some v \<Longrightarrow> keys_distinct v"
  using json_run_ok [of "PValue []"] json_lex_ok by (fastforce simp: json_parse_def split: option.splits pstate.splits)


section \<open>Counting keys\<close>

definition has_key :: "string \<Rightarrow> jsval \<Rightarrow> bool" where
  "has_key k raw \<longleftrightarrow> (\<exists>kvs. json_object_of raw = Some kvs \<and> k \<in> fst ` set kvs)"

lemma count_of_bump: "count_of (bump k seen) k' = count_of seen k' + (if k = k' then 1 else 0)"
  by (induction k seen rule: bump.induct) (auto simp: count_of_def)

lemma fst_bump: "fst ` set (bump k seen) = insert k (fst ` set seen)"
  by (induction k seen rule: bump.induct) auto

lemma distinct_bump: "distinct (map fst seen) \<Longrightarrow> distinct (map fst (bump k seen))"
  by (induction k seen rule: bump.induct) (auto simp: fst_bump dest!: arg_cong [of _ _ set])

lemma count_of_fold:
  "distinct (map fst kvs) \<Longrightarrow> count_of (fold (\<lambda>(k, _). bump k) kvs seen) k' = count_of seen k' + (if k' \<in> fst ` set kvs then 1 else 0)"
  by (induction kvs arbitrary: seen) (auto simp: count_of_bump image_iff split: prod.splits)

lemma distinct_fold: "distinct (map fst seen) \<Longrightarrow> distinct (map fst (fold (\<lambda>(k, _). bump k) kvs seen))"
  by (induction kvs arbitrary: seen) (auto simp: distinct_bump)

lemma json_object_of_distinct: "json_object_of raw = Some kvs \<Longrightarrow> distinct (map fst kvs)"
  using json_parse_keys_distinct
  by (auto simp: json_object_of_def keys_distinct_def Let_def split: jsval.splits if_splits option.splits)

lemma count_keys_counts:
  assumes "count_keys values seen n = Some (seen', n')" "distinct (map fst seen)"
  shows "count_of seen' k = count_of seen k + length (filter (has_key k) values) \<and> n' = n + length values \<and> distinct (map fst seen')"
  using assms
proof (induction "values" seen n rule: count_keys.induct)
  case (2 raw rest seen n)
  from "2.prems" obtain kvs where kvs: "json_object_of raw = Some kvs" "list_all (\<lambda>(k, _). re_test JSON_KEY k) kvs"
      and rest: "count_keys rest (fold (\<lambda>(k, _). bump k) kvs seen) (n + 1) = Some (seen', n')"
    by (auto split: option.splits if_splits)
  have "has_key k raw \<longleftrightarrow> k \<in> fst ` set kvs" using kvs(1) by (simp add: has_key_def)
  with "2.IH" [OF kvs rest distinct_fold] "2.prems"(2) count_of_fold [OF json_object_of_distinct [OF kvs(1)], of seen k] show ?case by simp
qed simp

lemma count_keys_objects: "count_keys values seen n = Some r \<Longrightarrow> list_all (\<lambda>raw. json_object_of raw \<noteq> None) values"
  by (induction "values" seen n rule: count_keys.induct) (auto split: option.splits if_splits)

section \<open>Properties\<close>

text \<open>
  A key is named only if it recurs: at least three rows were read, every one an object, and the key is present in two of them
  and in the share of rows the code asks for. At most twelve keys are named.
\<close>

theorem jsonShapeOf_only_recurring:
  assumes "jsonShapeOf values = Some keys" "k \<in> set keys"
  shows "3 \<le> length values \<and> list_all (\<lambda>raw. json_object_of raw \<noteq> None) values \<and> length keys \<le> 12
    \<and> 2 \<le> length (filter (has_key k) values) \<and> needed_rows (length values) \<le> of_nat (length (filter (has_key k) values))"
proof -
  from assms obtain seen n where c: "count_keys values [] 0 = Some (seen, n)" and n: "\<not> n < JSON_MIN_ROWS_TO_NAME"
      and keys: "keys = map fst (filter (\<lambda>(_, m). needed_rows n \<le> of_nat m) seen)" "length keys \<le> JSON_MAX_KEYS"
    by (auto simp: jsonShapeOf_def Let_def split: option.splits if_splits)
  note counts = count_keys_counts [OF c, of k]
  from assms(2) keys(1) obtain m where m: "(k, m) \<in> set seen" "needed_rows n \<le> of_nat m" by auto
  with counts have "count_of seen k = m" by (simp add: count_of_def)
  with counts have "m = length (filter (has_key k) values)" "n = length values" by (auto simp: count_of_def)
  moreover have "2 \<le> m" using m(2) unfolding needed_rows_def by (metis max.bounded_iff of_nat_le_iff of_nat_numeral)
  ultimately show ?thesis
    using n keys(2) m(2) count_keys_objects [OF c] by (simp add: JSON_MIN_ROWS_TO_NAME_def JSON_MAX_KEYS_def)
qed

definition sample_rows :: "jsval list" where
  "sample_rows = replicate 3 (JStr (''{'' @ [DQUOTE] @ ''a'' @ [DQUOTE] @ '':1,'' @ [DQUOTE] @ ''b'' @ [DQUOTE] @ '':2}''))"

theorem jsonShapeOf_only_recurring_witness: "2 \<le> length (filter (has_key ''a'') sample_rows)"
proof -
  have "jsonShapeOf sample_rows = Some [''a'', ''b'']" by code_simp
  from jsonShapeOf_only_recurring [OF this, of "''a''"] show ?thesis by simp
qed

text \<open>
  Unless the caller asks for names, the hint says how many keys recur and nothing else about them: it is the same for any
  two lists of keys of one length.
\<close>

theorem jsonHint_hides_names: "length ks = length ks' \<Longrightarrow> jsonHint accessor ks False = jsonHint accessor ks' False"
  by (cases ks; cases ks') (simp_all add: jsonHint_def)

theorem jsonHint_hides_names_witness: "jsonHint ''->'' [''alice''] False = jsonHint ''->'' [''bob''] False"
  by (rule jsonHint_hides_names) simp

lemma keep_keys_take:
  "length lead + length (join '', '' kept) \<le> HINT_CAP \<or> kept = [] \<Longrightarrow>
   \<exists>n. keep_keys (length lead) kept ks = kept @ take n ks \<and>
       (keep_keys (length lead) kept ks = [] \<or> length lead + length (join '', '' (keep_keys (length lead) kept ks)) \<le> HINT_CAP)"
proof (induction "length lead" kept ks rule: keep_keys.induct)
  case (1 kept)
  then show ?case by auto
next
  case (2 kept k ks)
  show ?case
  proof (cases "length lead + length (join '', '' (kept @ [k])) > HINT_CAP")
    case True
    with "2.prems" show ?thesis by (auto intro!: exI [of _ 0])
  next
    case False
    with "2.hyps" obtain n where "keep_keys (length lead) (kept @ [k]) ks = (kept @ [k]) @ take n ks"
      "keep_keys (length lead) (kept @ [k]) ks = [] \<or> length lead + length (join '', '' (keep_keys (length lead) (kept @ [k]) ks)) \<le> HINT_CAP"
      by auto
    with False show ?thesis by (auto intro!: exI [of _ "Suc n"])
  qed
qed

text \<open>
  A hint with names never cuts one: it lists a front part of the keys, whole, marks what it left out, and stays within its cap
  and the mark unless the first key alone is too long.
\<close>

theorem jsonHint_cuts_at_keys:
  assumes "keys \<noteq> []"
  shows "\<exists>n. 1 \<le> n \<and> n \<le> length keys
    \<and> jsonHint accessor keys True
      = ''JSON object, read with '' @ accessor @ ''; keys: '' @ join '', '' (take n keys) @ (if n < length keys then '', ...'' else [])
    \<and> (n = 1 \<or> length (jsonHint accessor keys True) \<le> HINT_CAP + 5)"
proof -
  define lead where "lead = (''JSON object, read with '' @ accessor) @ ''; keys: ''"
  define kept where "kept = keep_keys (length lead) [] keys"
  have "\<exists>n. kept = take n keys \<and> (kept = [] \<or> length lead + length (join '', '' kept) \<le> HINT_CAP)"
    using keep_keys_take [of lead "[]" keys] unfolding kept_def by simp
  then obtain n where n: "kept = take n keys" and fits: "kept = [] \<or> length lead + length (join '', '' kept) \<le> HINT_CAP" by blast
  have hint: "jsonHint accessor keys True = lead @ join '', '' (if kept \<noteq> [] then kept else take 1 keys)
      @ (if length (if kept \<noteq> [] then kept else take 1 keys) < length keys then '', ...'' else [])"
    using assms unfolding jsonHint_def Let_def lead_def kept_def by (simp only: if_False not_True_eq_False simp_thms)
  show ?thesis
  proof (cases "kept = []")
    case True
    have "length (take 1 keys) = 1" "1 \<le> length keys" using assms by (cases keys; simp)+
    with True show ?thesis using hint by (intro exI [of _ 1]) (simp add: lead_def del: length_take)
  next
    case False
    define k where "k = length kept"
    have k: "kept = take k keys" "1 \<le> k" "k \<le> length keys" using n False by (auto simp: k_def Suc_le_eq min_def)
    have "length (jsonHint accessor keys True) \<le> HINT_CAP + 5" using hint False fits by simp
    moreover have "jsonHint accessor keys True = lead @ join '', '' (take k keys) @ (if k < length keys then '', ...'' else [])"
      using hint False k(1) by (simp add: k_def [symmetric])
    ultimately show ?thesis using k(2,3) by (intro exI [of _ k]) (simp add: lead_def)
  qed
qed

theorem jsonHint_cuts_at_keys_witness: "\<exists>n. 1 \<le> n \<and> n \<le> length [''a'', ''b'']"
  using jsonHint_cuts_at_keys [of "[''a'', ''b'']" "''->''"] by blast

lemma bucketOf_between: "bucketOf l = Some u \<Longrightarrow> bucketOf h = Some u \<Longrightarrow> l \<le> v \<Longrightarrow> v \<le> h \<Longrightarrow> bucketOf v = Some u"
  by (auto simp: bucketOf_def split: if_splits)

text \<open>
  A unit stated for a column is right for its whole range: with both ends below the sentinel floor, every value between them
  falls into the stated unit.
\<close>

theorem epochUnitOf_right_for_range:
  assumes "epochUnitOf (Some (Fin lo)) (Some (Some (Fin hi))) = Some u" "hi < SENTINEL_FLOOR" "lo \<le> v" "v \<le> hi"
  shows "bucketOf v = Some u"
proof -
  have "bucketOf lo = Some u" "bucketOf hi = Some u" using assms(1,2) by (auto simp: epochUnitOf_def Let_def split: if_splits)
  from bucketOf_between [OF this assms(3,4)] show ?thesis .
qed

theorem epochUnitOf_right_for_range_witness: "bucketOf 1700000500000 = Some ''epoch milliseconds''"
proof -
  have "epochUnitOf (Some (Fin 1700000000000)) (Some (Some (Fin 1700001000000))) = Some ''epoch milliseconds''" by code_simp
  from epochUnitOf_right_for_range [OF this, of 1700000500000] show ?thesis by (simp add: SENTINEL_FLOOR_def)
qed

text \<open>
  The budget of probes is spread over the tables: each gets at least one and at most four, and up to two hundred tables they
  stay within the budget together.
\<close>

theorem hintProbes_within_budget:
  "1 \<le> hintProbesPerTable n \<and> hintProbesPerTable n \<le> 4 \<and> (n \<le> 200 \<longrightarrow> n * hintProbesPerTable n \<le> MAX_HINT_PROBES)"
proof -
  have "n * hintProbesPerTable n \<le> MAX_HINT_PROBES" if "1 \<le> n" "n \<le> 200"
  proof -
    have share: "1 \<le> MAX_HINT_PROBES div n" using div_le_mono [of n 200 n] that by (simp add: MAX_HINT_PROBES_def)
    then have "hintProbesPerTable n \<le> MAX_HINT_PROBES div n" using that by (simp add: hintProbesPerTable_def Let_def)
    then have "n * hintProbesPerTable n \<le> n * (MAX_HINT_PROBES div n)" by (rule mult_le_mono2)
    also have "\<dots> \<le> MAX_HINT_PROBES" by simp
    finally show ?thesis .
  qed
  moreover have "hintProbesPerTable n \<le> 4" "1 \<le> hintProbesPerTable n"
    by (auto simp: hintProbesPerTable_def Let_def MAX_HINT_PROBES_PER_TABLE_def)
  ultimately show ?thesis by (cases n) auto
qed

theorem hintProbes_within_budget_witness: "150 * hintProbesPerTable 150 \<le> MAX_HINT_PROBES"
  using hintProbes_within_budget [of 150] by simp

text \<open>
  With more than two hundred tables the share is still one probe each, so the total passes the budget the code says it never
  exceeds.
\<close>

theorem hintProbes_exceed_budget: "n > 200 \<Longrightarrow> n * hintProbesPerTable n > MAX_HINT_PROBES"
  by (simp add: hintProbesPerTable_def MAX_HINT_PROBES_def Let_def)

theorem hintProbes_exceed_budget_witness: "201 * hintProbesPerTable 201 > MAX_HINT_PROBES"
  using hintProbes_exceed_budget [of 201] by simp

end
