(* ===== verification/Catalog.thy ===== *)
theory Catalog
  imports Sql_Keywords Strip History
begin

text \<open>
  \<open>packages/core/src/catalog.ts\<close> with the catalog's data of \<open>types.ts\<close>: the schema as the prompt shows it, the
  join paths, and the pruning of a large schema to the tables a question needs.

  Sets and maps of the source keep their insertion order where it is observable and are lists then. The two
  caches of the file hold results that depend only on their key, an object the code never changes, so the
  model computes them. Counts are natural numbers. A table is a new object exactly where \<open>trimColumns\<close> builds
  one, so it answers \<open>None\<close> for the table itself, which is what the reported strategy compares.

  The properties: a quoted identifier is one token and reads back as the name; trimming keeps keys and
  order and says what it left out; pruning keeps the best table, stays within its caps and reaches only tables
  that match or are at most two joins away.
\<close>

section \<open>Model: the catalog\<close>

record ColumnInfo =
  c_name :: string
  c_dbType :: string
  c_nullable :: bool
  c_default :: "string option"
  c_generated :: "bool option"
  c_comment :: "string option"
  c_enumValues :: "string list option"
  c_sampledValues :: "string list option"

definition VALUE_SAMPLE_MAX_DISTINCT :: nat where "VALUE_SAMPLE_MAX_DISTINCT = 24"

record ForeignKeyInfo =
  fk_name :: "string option"
  fk_columns :: "string list"
  fk_refSchema :: "string option"
  fk_refTable :: string
  fk_refColumns :: "string list"

record IndexInfo =
  ix_name :: string
  ix_columns :: "string list"
  ix_unique :: bool
  ix_method :: "string option"
  ix_predicate :: "string option"
  ix_definition :: "string option"

record TriggerInfo =
  tr_name :: string
  tr_schema :: "string option"
  tr_table :: string
  tr_timing :: string
  tr_events :: "string list"
  tr_enabled :: bool
  tr_definition :: "string option"

datatype routine_kind = Function | Procedure
datatype volatility = Immutable | Stable | Volatile | Unknown

record RoutineInfo =
  ro_schema :: "string option"
  ro_name :: string
  ro_kind :: routine_kind
  ro_args :: string
  ro_returns :: "string option"
  ro_language :: "string option"
  ro_volatility :: volatility
  ro_securityDefiner :: "bool option"
  ro_source :: "string option"

datatype table_kind = Table | View | MaterializedView
datatype table_source = Db | File

record TableInfo =
  t_schema :: "string option"
  t_name :: string
  t_kind :: table_kind
  t_columns :: "ColumnInfo list"
  t_primaryKey :: "string list"
  t_foreignKeys :: "ForeignKeyInfo list"
  t_uniques :: "string list list"
  t_checks :: "string list"
  t_indexes :: "IndexInfo list"
  t_comment :: "string option"
  t_rowEstimate :: "jsnum option"
  t_isPartitioned :: "bool option"
  t_partitionOf :: "string option"
  t_definition :: "string option"
  t_source :: "table_source option"

record EnumTypeInfo =
  en_schema :: "string option"
  en_name :: string
  en_values :: "string list"

record SequenceInfo =
  sq_schema :: "string option"
  sq_name :: string
  sq_ownedBy :: "string option"

record SchemaCatalog =
  k_engine :: string
  k_schemas :: "string list"
  k_tables :: "TableInfo list"
  k_enums :: "EnumTypeInfo list"
  k_sequences :: "SequenceInfo list"
  k_triggers :: "TriggerInfo list"
  k_routines :: "RoutineInfo list"
  k_extensions :: "string list option"
  k_warnings :: "string list"
  k_fetchedAt :: string

record PrunerSettings =
  ps_maxTables :: "nat option"
  ps_maxSchemaTokens :: "nat option"

section \<open>Model: rendering\<close>

definition estimateTokens :: "string \<Rightarrow> nat" where
  "estimateTokens s = (length s + 3) div 4"

definition COMMENT_CAP :: nat where "COMMENT_CAP = 200"
definition FK_CLOSURE_HOPS :: nat where "FK_CLOSURE_HOPS = 2"
definition VALUE_SAMPLE_CAP :: nat where "VALUE_SAMPLE_CAP = 80"

text \<open>A string that is present and not empty: the JavaScript test \<open>x ? ... : ...\<close> on an optional string.\<close>

definition truthy :: "string option \<Rightarrow> string option" where
  "truthy x = (case x of Some s \<Rightarrow> if s = [] then None else Some s | None \<Rightarrow> None)"

definition flatten :: "string \<Rightarrow> string" where
  "flatten s = trim (replace_all (plus ws) s (\<lambda>_. '' ''))"

definition sanitizeValue :: "string \<Rightarrow> string" where
  "sanitizeValue v =
     (let flat = map (\<lambda>c. if c = CHR ''|'' then CHR ''/'' else c) (flatten v) in
      if length flat > VALUE_SAMPLE_CAP then take VALUE_SAMPLE_CAP flat else flat)"

definition sanitizeComment :: "string option \<Rightarrow> string option" where
  "sanitizeComment comment =
     (case truthy comment of
        None \<Rightarrow> None
      | Some s \<Rightarrow>
          (let flat = flatten s in
           if flat = [] then None
           else Some (if length flat > COMMENT_CAP then take COMMENT_CAP flat @ ''...'' else flat)))"

definition PLAIN_IDENTIFIER_RE :: regex where
  "PLAIN_IDENTIFIER_RE = cats [Bol, Chr (\<lambda>c. is_alpha c \<or> c = CHR ''_''), Star (Chr is_word), Eol]"

definition needsQuoting :: "string \<Rightarrow> string \<Rightarrow> bool" where
  "needsQuoting name engine =
     (if \<not> re_test PLAIN_IDENTIFIER_RE name then True
      else if toLowerCase name \<in> set (reserved engine) then True
      else if engine = ''oracle'' then name \<noteq> toUpperCase name
      else if engine = ''mysql'' \<or> engine = ''sqlite'' \<or> engine = ''duckdb'' then False
      else name \<noteq> toLowerCase name)"

text \<open>\<open>name.split(quote).join(quote + quote)\<close>.\<close>

definition double_quotes :: "char \<Rightarrow> string \<Rightarrow> string" where
  "double_quotes q s = concat (map (\<lambda>c. if c = q then [q, q] else [c]) s)"

definition bare_name :: "char \<Rightarrow> string \<Rightarrow> string" where
  "bare_name q raw = (if length raw > 1 \<and> starts_with raw [q] \<and> ends_with raw [q] then slice raw 1 (length raw - 1) else raw)"

definition promptIdentifier :: "string \<Rightarrow> char \<Rightarrow> string \<Rightarrow> string" where
  "promptIdentifier raw q engine =
     (let name = bare_name q raw in
      if \<not> needsQuoting name engine then name else [q] @ double_quotes q name @ [q])"

definition qualifiedName :: "TableInfo \<Rightarrow> bool \<Rightarrow> char \<Rightarrow> string \<Rightarrow> string" where
  "qualifiedName t multiSchema q engine =
     (let name = promptIdentifier (t_name t) q engine in
      case (if multiSchema then truthy (t_schema t) else None) of
        Some s \<Rightarrow> promptIdentifier s q engine @ ''.'' @ name
      | None \<Rightarrow> name)"

definition MAX_INDEXES_PER_TABLE :: nat where "MAX_INDEXES_PER_TABLE = 8"
definition MAX_OBJECTS :: nat where "MAX_OBJECTS = 30"
definition MAX_EDGES :: nat where "MAX_EDGES = 200"
definition MAX_FUNCTIONS :: nat where "MAX_FUNCTIONS = 40"

definition andMore :: "nat \<Rightarrow> nat \<Rightarrow> string" where
  "andMore n shown = (if n > shown then '' (and '' @ show_nat (n - shown) @ '' more not shown)'' else [])"

definition quote_of :: "SchemaCatalog \<Rightarrow> char" where
  "quote_of catalog = (case dialectFor (k_engine catalog) of Some d \<Rightarrow> d_quoteChar d | None \<Rightarrow> DQUOTE)"

definition multi_schema :: "SchemaCatalog \<Rightarrow> bool" where
  "multi_schema catalog \<longleftrightarrow> length (k_schemas catalog) > 1"

text \<open>\<open>Math.round\<close>, and the row estimate in brackets.\<close>

fun js_round :: "jsnum \<Rightarrow> jsnum" where
  "js_round (Fin x) = Fin (of_int \<lfloor>x + 1 / 2\<rfloor>)"
| "js_round x = x"

definition row_estimate :: "TableInfo \<Rightarrow> string" where
  "row_estimate t =
     (case t_rowEstimate t of
        Some n \<Rightarrow> if jsnum_ge n 0 then '' [~'' @ show_jsnum (js_round n) @ '' rows]'' else []
      | None \<Rightarrow> [])"

definition idents :: "string list \<Rightarrow> char \<Rightarrow> string \<Rightarrow> string" where
  "idents names q engine = join '','' (map (\<lambda>c. promptIdentifier c q engine) names)"

definition column_fk :: "TableInfo \<Rightarrow> ColumnInfo \<Rightarrow> char \<Rightarrow> string \<Rightarrow> string list" where
  "column_fk t c q engine =
     (case List.find (\<lambda>f. c_name c \<in> set (fk_columns f)) (t_foreignKeys t) of
        None \<Rightarrow> []
      | Some fk \<Rightarrow>
          [''FK->'' @ (case truthy (fk_refSchema fk) of Some s \<Rightarrow> promptIdentifier s q engine @ ''.'' | None \<Rightarrow> [])
            @ promptIdentifier (fk_refTable fk) q engine @ ''.'' @ idents (fk_refColumns fk) q engine])"

definition column_values :: "ColumnInfo \<Rightarrow> string list" where
  "column_values c =
     (let enums = (case c_enumValues c of Some vs \<Rightarrow> vs | None \<Rightarrow> []); samples = (case c_sampledValues c of Some vs \<Rightarrow> vs | None \<Rightarrow> []) in
      if enums \<noteq> [] then [''values: '' @ join ''|'' (map sanitizeValue (take VALUE_SAMPLE_MAX_DISTINCT enums))]
      else if samples \<noteq> [] then [''sample values: '' @ join ''|'' (map sanitizeValue (take VALUE_SAMPLE_MAX_DISTINCT samples))]
      else [])"

definition column_line :: "TableInfo \<Rightarrow> char \<Rightarrow> string \<Rightarrow> ColumnInfo \<Rightarrow> string" where
  "column_line t q engine c =
     join '' ''
       ([('' '' @ promptIdentifier (c_name c) q engine) @ '' '' @ c_dbType c]
        @ (if c_name c \<in> set (t_primaryKey t) then [''PK''] else [])
        @ column_fk t c q engine
        @ (if \<not> c_nullable c then [''NOT NULL''] else [])
        @ column_values c
        @ (case sanitizeComment (c_comment c) of Some s \<Rightarrow> [''-- '' @ s] | None \<Rightarrow> []))"

definition index_text :: "char \<Rightarrow> string \<Rightarrow> IndexInfo \<Rightarrow> string" where
  "index_text q engine i =
     ix_name i @ ''('' @ idents (ix_columns i) q engine @ '')'' @ (if ix_unique i then '' UNIQUE'' else [])
     @ (if truthy (ix_predicate i) \<noteq> None then '' WHERE ...'' else [])"

definition table_head :: "TableInfo \<Rightarrow> bool \<Rightarrow> char \<Rightarrow> string \<Rightarrow> string" where
  "table_head t multiSchema q engine =
     (case t_kind t of View \<Rightarrow> ''VIEW'' | MaterializedView \<Rightarrow> ''MATERIALIZED VIEW'' | Table \<Rightarrow> ''TABLE'') @ '' ''
     @ qualifiedName t multiSchema q engine @ row_estimate t
     @ (case sanitizeComment (t_comment t) of Some s \<Rightarrow> '' -- '' @ s | None \<Rightarrow> [])
     @ (if t_source t = Some File then '' [from uploaded file]'' else [])"

definition table_lines :: "bool \<Rightarrow> char \<Rightarrow> string \<Rightarrow> TableInfo \<Rightarrow> string list" where
  "table_lines multiSchema q engine t =
     (if truthy (t_partitionOf t) \<noteq> None then []
      else [table_head t multiSchema q engine] @ map (column_line t q engine) (t_columns t)
        @ (if t_indexes t \<noteq> [] then ['' INDEXES: '' @ join '', '' (map (index_text q engine) (take MAX_INDEXES_PER_TABLE (t_indexes t)))] else []))"

definition dotted :: "bool \<Rightarrow> string option \<Rightarrow> string \<Rightarrow> string" where
  "dotted show_schema schema name =
     (case (if show_schema then truthy schema else None) of Some s \<Rightarrow> s @ ''.'' @ name | None \<Rightarrow> name)"

definition trigger_lines :: "SchemaCatalog \<Rightarrow> string list" where
  "trigger_lines catalog =
     (if k_triggers catalog = [] then []
      else (''TRIGGERS:'' @ andMore (length (k_triggers catalog)) MAX_OBJECTS)
        # map (\<lambda>tr. '' '' @ tr_name tr @ '' '' @ tr_timing tr @ '' '' @ join ''/'' (tr_events tr) @ '' ON ''
                 @ dotted True (tr_schema tr) (tr_table tr) @ (if tr_enabled tr then [] else '' [disabled]''))
            (take MAX_OBJECTS (k_triggers catalog)))"

definition procedure_lines :: "SchemaCatalog \<Rightarrow> string list" where
  "procedure_lines catalog =
     (let procedures = filter (\<lambda>r. ro_kind r = Procedure) (k_routines catalog) in
      if procedures = [] then []
      else (''STORED PROCEDURES (reference only - NEVER call these; a read-only query cannot invoke them):'' @ andMore (length procedures) MAX_OBJECTS)
        # map (\<lambda>r. '' '' @ dotted (multi_schema catalog) (ro_schema r) (ro_name r) @ ''('' @ ro_args r @ '')'') (take MAX_OBJECTS procedures))"

definition sequence_lines :: "SchemaCatalog \<Rightarrow> string list" where
  "sequence_lines catalog =
     (if k_sequences catalog = [] then []
      else [''SEQUENCES: '' @ join '', '' (map (\<lambda>s. dotted (multi_schema catalog) (sq_schema s) (sq_name s)) (take MAX_OBJECTS (k_sequences catalog)))
        @ andMore (length (k_sequences catalog)) MAX_OBJECTS])"

definition enum_lines :: "SchemaCatalog \<Rightarrow> string list" where
  "enum_lines catalog =
     (if k_enums catalog = [] then []
      else (''ENUM TYPES:'' @ andMore (length (k_enums catalog)) MAX_OBJECTS)
        # map (\<lambda>e. '' '' @ en_name e @ '': '' @ join ''|'' (map sanitizeValue (take 32 (en_values e)))) (take MAX_OBJECTS (k_enums catalog)))"

definition callable_routines :: "SchemaCatalog \<Rightarrow> RoutineInfo list" where
  "callable_routines catalog =
     filter (\<lambda>r. ro_kind r = Function \<and> (ro_volatility r = Immutable \<or> ro_volatility r = Stable)) (k_routines catalog)"

definition function_lines :: "SchemaCatalog \<Rightarrow> string list" where
  "function_lines catalog =
     (let callable = callable_routines catalog in
      if callable = [] then []
      else (''CALLABLE READ-ONLY FUNCTIONS (safe to use in SELECT; call by the exact name shown):'' @ andMore (length callable) MAX_FUNCTIONS)
        # map (\<lambda>r. '' '' @ dotted (multi_schema catalog) (ro_schema r) (ro_name r) @ ''('' @ ro_args r @ '')''
                 @ (case truthy (ro_returns r) of Some s \<Rightarrow> '' -> '' @ s | None \<Rightarrow> [])) (take MAX_FUNCTIONS callable))"

section \<open>Model: join paths\<close>

definition drop_last :: "nat \<Rightarrow> string \<Rightarrow> string" where
  "drop_last n s = take (length s - n) s"

definition singularOf :: "string \<Rightarrow> string" where
  "singularOf name =
     (if ends_with name ''ies'' then drop_last 3 name @ ''y''
      else if ends_with name ''ses'' then drop_last 2 name
      else if ends_with name ''s'' then drop_last 1 name
      else name)"

definition dot :: regex where "dot = Chr (\<lambda>c. \<not> line_end c)"

definition FK_COLUMN :: regex where
  "FK_COLUMN = cats [Bol, Group 1 (Cat dot (LazyStar dot)), Opt (lit CHR ''_''), cis ''id'', Eol]"

definition CAMEL_STEP :: regex where
  "CAMEL_STEP = Cat (Group 1 (Chr (\<lambda>c. is_lower c \<or> is_digit c))) (Group 2 (Chr is_upper))"

definition fkBase :: "string \<Rightarrow> string option" where
  "fkBase column =
     (case re_exec FK_COLUMN column 0 of
        None \<Rightarrow> None
      | Some m \<Rightarrow>
          (let found = (case m_group column m 1 of Some s \<Rightarrow> s | None \<Rightarrow> []);
               base = toLowerCase (replace_all CAMEL_STEP found
                 (\<lambda>k. (case m_group found k 1 of Some s \<Rightarrow> s | None \<Rightarrow> []) @ ''_'' @ (case m_group found k 2 of Some s \<Rightarrow> s | None \<Rightarrow> [])))
           in if base = [] then None else Some base))"

definition first_by_name :: "TableInfo list \<Rightarrow> (string \<rightharpoonup> TableInfo)" where
  "first_by_name tables =
     foldl (\<lambda>m t. foldl (\<lambda>m k. if m k = None then m(k \<mapsto> t) else m) m [toLowerCase (t_name t), singularOf (toLowerCase (t_name t))]) Map.empty tables"

definition inferred_edge :: "SchemaCatalog \<Rightarrow> string list \<Rightarrow> (string \<rightharpoonup> TableInfo) \<Rightarrow> TableInfo \<Rightarrow> ColumnInfo \<Rightarrow> string option" where
  "inferred_edge catalog declared byName t c =
     (let q = quote_of catalog; engine = k_engine catalog; multi = multi_schema catalog in
      case fkBase (c_name c) of
        None \<Rightarrow> None
      | Some base \<Rightarrow>
          if base = ''i'' then None
          else if (toLowerCase (t_name t) @ ''.'' @ toLowerCase (c_name c)) \<in> set declared then None
          else
            (case (case byName base of Some x \<Rightarrow> Some x | None \<Rightarrow> byName (last (split_on CHR ''_'' base))) of
               None \<Rightarrow> None
             | Some target \<Rightarrow>
                 if toLowerCase (t_name target) = toLowerCase (t_name t) then None
                 else
                   let pk = (case t_primaryKey target of p # _ \<Rightarrow> p | [] \<Rightarrow> ''id'') in
                   Some (qualifiedName t multi q engine @ ''.'' @ promptIdentifier (c_name c) q engine @ '' ~ ''
                     @ qualifiedName target multi q engine @ ''.'' @ promptIdentifier pk q engine @ ''  [inferred from naming]'')))"

definition inferredRelationships :: "SchemaCatalog \<Rightarrow> string list \<Rightarrow> string list" where
  "inferredRelationships catalog declared =
     foldl (\<lambda>out (t, c). case inferred_edge catalog declared (first_by_name (k_tables catalog)) t c of None \<Rightarrow> out | Some e \<Rightarrow> add_new e out) []
       (concat (map (\<lambda>t. map (Pair t) (t_columns t)) (k_tables catalog)))"

definition declared_edge :: "SchemaCatalog \<Rightarrow> TableInfo \<Rightarrow> ForeignKeyInfo \<Rightarrow> string" where
  "declared_edge catalog t fk =
     (let q = quote_of catalog; engine = k_engine catalog; multi = multi_schema catalog in
      qualifiedName t multi q engine @ ''.'' @ idents (fk_columns fk) q engine @ '' = ''
      @ (case (if multi then truthy (fk_refSchema fk) else None) of Some s \<Rightarrow> promptIdentifier s q engine @ ''.'' | None \<Rightarrow> [])
      @ promptIdentifier (fk_refTable fk) q engine @ ''.'' @ idents (fk_refColumns fk) q engine)"

definition declared_keys :: "SchemaCatalog \<Rightarrow> string list" where
  "declared_keys catalog =
     concat (map (\<lambda>t. map (\<lambda>fk. toLowerCase (t_name t) @ ''.'' @ toLowerCase (case fk_columns fk of c # _ \<Rightarrow> c | [] \<Rightarrow> [])) (t_foreignKeys t)) (k_tables catalog))"

definition joinGraph :: "SchemaCatalog \<Rightarrow> string list" where
  "joinGraph catalog =
     concat (map (\<lambda>t. map (declared_edge catalog t) (t_foreignKeys t)) (k_tables catalog))
     @ inferredRelationships catalog (declared_keys catalog)"

definition edge_lines :: "SchemaCatalog \<Rightarrow> string list" where
  "edge_lines catalog =
     (let edges = joinGraph catalog in
      if edges = [] then []
      else (''RELATIONSHIPS (join paths):'' @ andMore (length edges) MAX_EDGES) # map (\<lambda>e. '' '' @ e) (take MAX_EDGES edges))"

definition formatCatalogForPrompt :: "SchemaCatalog \<Rightarrow> string" where
  "formatCatalogForPrompt catalog =
     join [LF]
       (concat (map (table_lines (multi_schema catalog) (quote_of catalog) (k_engine catalog)) (k_tables catalog))
        @ trigger_lines catalog @ procedure_lines catalog @ sequence_lines catalog @ enum_lines catalog
        @ function_lines catalog @ edge_lines catalog)"

section \<open>Model: pruning\<close>

definition STOPWORDS :: "string list" where
  "STOPWORDS = [''the'', ''a'', ''an'', ''of'', ''in'', ''on'', ''for'', ''to'', ''by'', ''and'', ''or'', ''with'', ''show'', ''me'', ''all'', ''list'', ''get'',
     ''give'', ''what'', ''which'', ''how'', ''many'', ''much'', ''per'', ''top'', ''last'', ''first'', ''is'', ''are'', ''was'', ''were'', ''from'']"

definition question_terms :: "string \<Rightarrow> string list" where
  "question_terms question =
     map (\<lambda>w. if ends_with w ''s'' \<and> length w > 3 then drop_last 1 w else w)
       (filter (\<lambda>w. length w > 2 \<and> w \<notin> set STOPWORDS) (split_terms (toLowerCase question)))"

text \<open>
  \<open>raw.split(/[^A-Za-z0-9]+|(?<=[a-z0-9])(?=[A-Z])/u)\<close>: cut at other characters and between a small letter or digit and a
  capital. A run of other characters gives empty pieces here, which the length test drops.
\<close>

fun identifier_pieces :: "string \<Rightarrow> string \<Rightarrow> string list" where
  "identifier_pieces piece [] = [piece]"
| "identifier_pieces piece (c # cs) =
     (if \<not> (is_alpha c \<or> is_digit c) then piece # identifier_pieces [] cs
      else if piece \<noteq> [] \<and> (is_lower (last piece) \<or> is_digit (last piece)) \<and> is_upper c then piece # identifier_pieces [c] cs
      else identifier_pieces (piece @ [c]) cs)"

definition tokenizeIdentifier :: "string \<Rightarrow> string list" where
  "tokenizeIdentifier raw = filter (\<lambda>w. length w > 1) (map toLowerCase (identifier_pieces [] raw))"

record TableScoreTokens =
  st_name :: string
  st_nameTokens :: "string list"
  st_columnTokens :: "string list"
  st_commentHay :: string

definition or_empty :: "string option \<Rightarrow> string" where
  "or_empty x = (case x of Some s \<Rightarrow> s | None \<Rightarrow> [])"

definition scoreTokensOf :: "TableInfo \<Rightarrow> TableScoreTokens" where
  "scoreTokensOf t =
     \<lparr>st_name = toLowerCase (t_name t), st_nameTokens = tokenizeIdentifier (t_name t),
      st_columnTokens = concat (map (\<lambda>c. tokenizeIdentifier (c_name c)) (t_columns t)),
      st_commentHay = toLowerCase (join '' '' (or_empty (t_comment t) # map (\<lambda>c. or_empty (c_comment c)) (t_columns t)))\<rparr>"

definition term_score :: "TableScoreTokens \<Rightarrow> string \<Rightarrow> nat" where
  "term_score s w =
     (let plural = w @ ''s'' in
      if st_name s = w \<or> st_name s = plural then 6
      else if w \<in> set (st_nameTokens s) \<or> plural \<in> set (st_nameTokens s) then 5
      else if str_includes (st_name s) w then 4
      else if w \<in> set (st_columnTokens s) \<or> plural \<in> set (st_columnTokens s) then 2
      else if str_includes (st_commentHay s) w then 1
      else 0)"

definition scoreTable :: "TableInfo \<Rightarrow> string list \<Rightarrow> nat" where
  "scoreTable t qTerms = sum_list (map (term_score (scoreTokensOf t)) qTerms)"

definition MIN_COLUMNS_KEPT :: nat where "MIN_COLUMNS_KEPT = 12"

definition sampled_or_enum :: "ColumnInfo \<Rightarrow> string list" where
  "sampled_or_enum c =
     (case c_enumValues c of
        Some (v # vs) \<Rightarrow> v # vs
      | _ \<Rightarrow> (case c_sampledValues c of Some vs \<Rightarrow> vs | None \<Rightarrow> []))"

definition columnChars :: "ColumnInfo \<Rightarrow> nat" where
  "columnChars c =
     length (c_name c) + length (c_dbType c) + length (or_empty (c_comment c)) + 24
     + sum_list (map (\<lambda>v. min (length v) VALUE_SAMPLE_CAP + 1) (take VALUE_SAMPLE_MAX_DISTINCT (sampled_or_enum c)))"

definition estimateTableTokens :: "TableInfo \<Rightarrow> nat" where
  "estimateTableTokens t =
     (length (t_name t) + length (or_empty (t_schema t)) + length (or_empty (t_comment t)) + 24
      + sum_list (map columnChars (t_columns t)) + length (t_foreignKeys t) * 40
      + sum_list (map (\<lambda>i. length (ix_name i) + length (join '','' (ix_columns i)) + 12) (take MAX_INDEXES_PER_TABLE (t_indexes t)))
      + 3) div 4"

definition key_names :: "TableInfo \<Rightarrow> string list \<Rightarrow> string list" where
  "key_names t referencedByOthers = t_primaryKey t @ concat (map fk_columns (t_foreignKeys t)) @ referencedByOthers"

definition column_rank :: "string list \<Rightarrow> string list \<Rightarrow> ColumnInfo \<Rightarrow> nat" where
  "column_rank keyNames qTerms c =
     (if c_name c \<in> set keyNames \<or> toLowerCase (c_name c) \<in> set keyNames then 0
      else if list_ex (\<lambda>w. str_includes (toLowerCase (c_name c)) w) qTerms then 1
      else 2)"

text \<open>The loop that keeps columns, given how many are kept and how many tokens are used; it answers the kept indices.\<close>

fun keep_columns :: "nat \<Rightarrow> nat \<Rightarrow> nat \<Rightarrow> (nat \<times> ColumnInfo) list \<Rightarrow> nat list" where
  "keep_columns budget kept used [] = []"
| "keep_columns budget kept used ((i, c) # rest) =
     (let cost = (columnChars c + 3) div 4 in
      if MIN_COLUMNS_KEPT \<le> kept \<and> used + cost > budget then []
      else i # keep_columns budget (kept + 1) (used + cost) rest)"

definition ordered_columns :: "TableInfo \<Rightarrow> string list \<Rightarrow> string list \<Rightarrow> (nat \<times> ColumnInfo) list" where
  "ordered_columns t keyNames qTerms = sort_key (\<lambda>(i, c). column_rank keyNames qTerms c) (enumerate 0 (t_columns t))"

definition trimColumns :: "TableInfo \<Rightarrow> string list \<Rightarrow> nat \<Rightarrow> string list \<Rightarrow> TableInfo option" where
  "trimColumns t qTerms budgetTokens referencedByOthers =
     (if estimateTableTokens t \<le> budgetTokens \<or> length (t_columns t) \<le> MIN_COLUMNS_KEPT then None
      else
        let keyNames = key_names t referencedByOthers;
            keptIndices = keep_columns budgetTokens 0 (estimateTableTokens (t\<lparr>t_columns := []\<rparr>)) (ordered_columns t keyNames qTerms);
            omitted = length (t_columns t) - length keptIndices
        in if omitted = 0 then None
           else
             let marker = ''['' @ show_nat omitted @ '' of '' @ show_nat (length (t_columns t)) @ '' columns not shown]'';
                 room = COMMENT_CAP - length marker - 1;
                 existing = flatten (or_empty (t_comment t));
                 lead = (if existing \<noteq> [] \<and> room > 0 then take room existing @ '' '' else [])
             in Some (t\<lparr>t_columns := map snd (filter (\<lambda>(i, _). i \<in> set keptIndices) (enumerate 0 (t_columns t))),
                        t_comment := Some (lead @ marker)\<rparr>))"

definition table_key :: "string option \<Rightarrow> string \<Rightarrow> string" where
  "table_key schema name = or_empty schema @ ''.'' @ name"

definition key_of :: "TableInfo \<Rightarrow> string" where
  "key_of t = table_key (t_schema t) (t_name t)"

definition tables_by_key :: "TableInfo list \<Rightarrow> (string \<rightharpoonup> TableInfo)" where
  "tables_by_key tables = foldl (\<lambda>m t. m(key_of t \<mapsto> t, ''.'' @ t_name t \<mapsto> t)) Map.empty tables"

text \<open>The foreign keys as undirected edges between the keys of the tables.\<close>

definition fk_edges :: "TableInfo list \<Rightarrow> (string \<times> string) list" where
  "fk_edges tables =
     concat (map (\<lambda>t. concat (map (\<lambda>fk.
       case (case tables_by_key tables (table_key (fk_refSchema fk) (fk_refTable fk)) of
               Some r \<Rightarrow> Some r | None \<Rightarrow> tables_by_key tables (''.'' @ fk_refTable fk)) of
         None \<Rightarrow> []
       | Some r \<Rightarrow> [(key_of t, key_of r), (key_of r, key_of t)]) (t_foreignKeys t))) tables)"

definition neighbors :: "(string \<times> string) list \<Rightarrow> string \<Rightarrow> string list" where
  "neighbors edges k = map snd (filter (\<lambda>(a, _). a = k) edges)"

definition next_frontier :: "(string \<times> string) list \<Rightarrow> string list \<Rightarrow> string list \<Rightarrow> string list" where
  "next_frontier edges expanded frontier =
     foldl (\<lambda>nxt n. if n \<in> set expanded then nxt else add_new n nxt) [] (concat (map (neighbors edges) frontier))"

fun expand :: "(string \<times> string) list \<Rightarrow> nat \<Rightarrow> nat \<Rightarrow> string list \<Rightarrow> string list \<Rightarrow> string list" where
  "expand edges maxTables 0 expanded frontier = expanded"
| "expand edges maxTables (Suc hops) expanded frontier =
     (if length expanded < maxTables then
        let nxt = next_frontier edges expanded frontier in expand edges maxTables hops (expanded @ nxt) nxt
      else expanded)"

fun keep_tables :: "nat \<Rightarrow> nat \<Rightarrow> nat \<Rightarrow> nat \<Rightarrow> TableInfo list \<Rightarrow> TableInfo list" where
  "keep_tables maxTables budget kept used [] = []"
| "keep_tables maxTables budget kept used (t # ts) =
     (if maxTables \<le> kept then []
      else
        let cost = estimateTableTokens t in
        if kept = 0 then t # keep_tables maxTables budget 1 (used + min cost (budget div 2)) ts
        else if used + cost > budget then keep_tables maxTables budget kept used ts
        else t # keep_tables maxTables budget (kept + 1) (used + cost) ts)"

definition scored_tables :: "TableInfo list \<Rightarrow> string list \<Rightarrow> (TableInfo \<times> nat) list" where
  "scored_tables tables qTerms = sort_key (\<lambda>(_, s). - int s) (map (\<lambda>t. (t, scoreTable t qTerms)) tables)"

definition order_of :: "(TableInfo \<times> nat) list \<Rightarrow> TableInfo \<Rightarrow> nat" where
  "order_of scored t =
     (case map_of (rev (map (\<lambda>(i, (u, _)). (key_of u, i)) (enumerate 0 scored))) (key_of t) of Some i \<Rightarrow> i | None \<Rightarrow> 0)"

definition seed_keys :: "(TableInfo \<times> nat) list \<Rightarrow> string list" where
  "seed_keys scored = foldl (\<lambda>ks k. add_new k ks) [] (map (\<lambda>(t, _). key_of t) (filter (\<lambda>(_, s). s > 0) scored))"

definition candidates :: "TableInfo list \<Rightarrow> nat \<Rightarrow> string list \<Rightarrow> TableInfo list" where
  "candidates tables maxTables qTerms =
     (let scored = scored_tables tables qTerms;
          expanded = expand (fk_edges tables) maxTables FK_CLOSURE_HOPS (seed_keys scored) (seed_keys scored);
          chosen = map fst (filter (\<lambda>(t, s). key_of t \<in> set expanded \<or> s > 0) scored);
          chosen' = (if chosen = [] then map fst (take maxTables scored) else chosen)
      in sort_key (order_of scored) chosen')"

definition referenced_columns :: "TableInfo list \<Rightarrow> string \<Rightarrow> string list" where
  "referenced_columns tables name =
     concat (map (\<lambda>t. concat (map (\<lambda>fk. if toLowerCase (fk_refTable fk) = name then map toLowerCase (fk_refColumns fk) else []) (t_foreignKeys t))) tables)"

datatype prune_strategy = NoPruning | TermMatch | BudgetTrim

record PruneResult =
  pr_catalog :: SchemaCatalog
  pr_schemaText :: string
  pr_dropped :: nat
  pr_strategy :: prune_strategy

definition prune_by_terms :: "SchemaCatalog \<Rightarrow> TableInfo list \<Rightarrow> string \<Rightarrow> nat \<Rightarrow> nat \<Rightarrow> PruneResult" where
  "prune_by_terms catalog tables question maxTables maxSchemaTokens =
     (let qTerms = question_terms question;
          kept = keep_tables maxTables (max 500 (maxSchemaTokens - 400)) 0 0 (candidates tables maxTables qTerms);
          rendered = formatCatalogForPrompt (catalog\<lparr>k_tables := kept\<rparr>)
      in if estimateTokens rendered > maxSchemaTokens then
           let budget = max 200 (maxSchemaTokens div max 1 (length kept));
               trimmed = map (\<lambda>t. trimColumns t qTerms budget (referenced_columns tables (toLowerCase (t_name t)))) kept;
               final = map (\<lambda>(t, r). case r of Some t' \<Rightarrow> t' | None \<Rightarrow> t) (zip kept trimmed);
               catalog' = catalog\<lparr>k_tables := final\<rparr>
           in \<lparr>pr_catalog = catalog', pr_schemaText = formatCatalogForPrompt catalog', pr_dropped = length tables - length kept,
                pr_strategy = (if list_ex (\<lambda>r. r \<noteq> None) trimmed then BudgetTrim else TermMatch)\<rparr>
         else
           \<lparr>pr_catalog = catalog\<lparr>k_tables := kept\<rparr>, pr_schemaText = rendered, pr_dropped = length tables - length kept,
             pr_strategy = TermMatch\<rparr>)"

definition pruneCatalog :: "SchemaCatalog \<Rightarrow> string \<Rightarrow> PrunerSettings \<Rightarrow> PruneResult" where
  "pruneCatalog catalog question settings =
     (let maxTables = (case ps_maxTables settings of Some n \<Rightarrow> n | None \<Rightarrow> 200);
          maxSchemaTokens = (case ps_maxSchemaTokens settings of Some n \<Rightarrow> n | None \<Rightarrow> 6000);
          tables = filter (\<lambda>t. truthy (t_partitionOf t) = None) (k_tables catalog);
          fullText = formatCatalogForPrompt (catalog\<lparr>k_tables := tables\<rparr>)
      in if length tables \<le> maxTables \<and> estimateTokens fullText \<le> maxSchemaTokens then
           \<lparr>pr_catalog = catalog\<lparr>k_tables := tables\<rparr>, pr_schemaText = fullText,
             pr_dropped = length (k_tables catalog) - length tables, pr_strategy = NoPruning\<rparr>
         else prune_by_terms catalog tables question maxTables maxSchemaTokens)"

section \<open>Quoted identifiers\<close>

fun undouble :: "char \<Rightarrow> string \<Rightarrow> string" where
  "undouble q (a # b # s) = (if a = q \<and> b = q then q # undouble q s else a # undouble q (b # s))"
| "undouble q s = s"

lemma double_quotes_Nil [simp]: "double_quotes q [] = []"
  by (simp add: double_quotes_def)

lemma double_quotes_Cons [simp]: "double_quotes q (c # s) = (if c = q then q # q # double_quotes q s else c # double_quotes q s)"
  by (simp add: double_quotes_def)

lemma undouble_other: "c \<noteq> q \<Longrightarrow> undouble q (c # s) = c # undouble q s"
  by (cases s) simp_all

lemma undouble_double [simp]: "undouble q (double_quotes q s) = s"
  by (induction s) (simp_all add: undouble_other)

lemma esc_never_False: "\<not> esc_never s i"
  by (simp add: esc_never_def)

lemma skip_double_quotes:
  assumes "rest = [] \<or> hd rest \<noteq> q"
  shows "skip_lit esc_never q (pre @ double_quotes q s @ [q] @ rest) (length pre) = length pre + length (double_quotes q s) + 1"
proof (induction s arbitrary: pre)
  case Nil
  show ?case
    using assms by (subst skip_lit.simps) (auto simp: esc_never_False char_at_def nth_append hd_conv_nth)
next
  case (Cons c s)
  show ?case
  proof (cases "c = q")
    case True
    have "skip_lit esc_never q (pre @ double_quotes q (c # s) @ [q] @ rest) (length pre)
        = skip_lit esc_never q ((pre @ [q, q]) @ double_quotes q s @ [q] @ rest) (length (pre @ [q, q]))"
      using True by (subst skip_lit.simps) (simp add: esc_never_False char_at_def nth_append)
    then show ?thesis unfolding Cons.IH [of "pre @ [q, q]"] using True by simp
  next
    case False
    have "skip_lit esc_never q (pre @ double_quotes q (c # s) @ [q] @ rest) (length pre)
        = skip_lit esc_never q ((pre @ [c]) @ double_quotes q s @ [q] @ rest) (length (pre @ [c]))"
      using False by (subst skip_lit.simps) (simp add: esc_never_False nth_append)
    then show ?thesis unfolding Cons.IH [of "pre @ [c]"] using False by simp
  qed
qed

section \<open>Trimming columns\<close>

lemma keep_columns_take:
  "\<exists>m. keep_columns b k u cs = map fst (take m cs) \<and> min (length cs) (MIN_COLUMNS_KEPT - k) \<le> m \<and> m \<le> length cs"
proof (induction b k u cs rule: keep_columns.induct)
  case (2 b k u i c rest)
  show ?case
  proof (cases "MIN_COLUMNS_KEPT \<le> k \<and> u + (columnChars c + 3) div 4 > b")
    case True
    then show ?thesis by (intro exI [of _ 0]) simp
  next
    case False
    with "2.IH" [OF refl] obtain m where "keep_columns b (k + 1) (u + (columnChars c + 3) div 4) rest = map fst (take m rest)"
      "min (length rest) (MIN_COLUMNS_KEPT - (k + 1)) \<le> m" "m \<le> length rest" by auto
    with False show ?thesis by (intro exI [of _ "Suc m"]) auto
  qed
qed simp

lemma sorted_zero_first:
  assumes "sorted (map f ys)" "y \<in> set ys" "f y = (0::nat)" "length (filter (\<lambda>y. f y = 0) ys) \<le> m"
  shows "y \<in> set (take m ys)"
proof -
  obtain i where i: "i < length ys" "ys ! i = y" using assms(2) by (metis in_set_conv_nth)
  have "f (ys ! j) = 0" if "j \<le> i" for j
    using sorted_nth_mono [OF assms(1), of j i] that i assms(3) by simp
  then have "filter (\<lambda>y. f y = 0) (take (Suc i) ys) = take (Suc i) ys"
    using i(1) by (auto simp: filter_id_conv in_set_conv_nth less_Suc_eq_le)
  then have "Suc i \<le> length (filter (\<lambda>y. f y = 0) ys)"
    using i(1) by (metis (no_types, lifting) append_take_drop_id filter_append le_add1 length_append length_take min.absorb2 Suc_leI)
  with assms(4) i show ?thesis by (metis Suc_le_lessD in_set_conv_nth le_trans length_take min_less_iff_conj nth_take)
qed

definition is_key_column :: "TableInfo \<Rightarrow> string list \<Rightarrow> ColumnInfo \<Rightarrow> bool" where
  "is_key_column t refs c \<longleftrightarrow> c_name c \<in> set (key_names t refs) \<or> toLowerCase (c_name c) \<in> set (key_names t refs)"

lemma ordered_columns_props:
  "mset (ordered_columns t ks qs) = mset (enumerate 0 (t_columns t))" "length (ordered_columns t ks qs) = length (t_columns t)"
  "distinct (map fst (ordered_columns t ks qs))"
proof -
  show m: "mset (ordered_columns t ks qs) = mset (enumerate 0 (t_columns t))" by (simp add: ordered_columns_def)
  show "length (ordered_columns t ks qs) = length (t_columns t)" using mset_eq_length [OF m] by simp
  have "mset (map fst (ordered_columns t ks qs)) = mset (map fst (enumerate 0 (t_columns t)))" using m by (simp only: mset_map)
  then show "distinct (map fst (ordered_columns t ks qs))" using mset_eq_imp_distinct_iff [of _ "map fst (enumerate 0 (t_columns t))"] by simp
qed

lemma length_filter_index:
  assumes "set is \<subseteq> {..<length xs}" "distinct is"
  shows "length (filter (\<lambda>(i, _). i \<in> set is) (enumerate 0 xs)) = length is"
proof -
  have "map fst (filter (\<lambda>(i, _). i \<in> set is) (enumerate 0 xs)) = filter (\<lambda>i. i \<in> set is) [0..<length xs]"
    using filter_map [of "\<lambda>i. i \<in> set is" fst "enumerate 0 xs"] by (simp add: case_prod_unfold comp_def)
  then have "length (filter (\<lambda>(i, _). i \<in> set is) (enumerate 0 xs)) = length (filter (\<lambda>i. i \<in> set is) [0..<length xs])"
    by (metis length_map)
  also have "\<dots> = card (set is \<inter> {..<length xs})"
    by (subst distinct_length_filter) (auto intro!: arg_cong [of _ _ card])
  finally show ?thesis using assms by (simp add: Int_absorb2 distinct_card)
qed

text \<open>
  Trimming a wide table loses no key and misleads nobody: the columns that stay are columns of the table in their order, at
  least twelve of them, every key column among them as long as there are at most twelve, and the comment says how many of how
  many are missing within the cap that comments are cut to.
\<close>

theorem trimColumns_keeps_keys:
  assumes "trimColumns t qTerms budget refs = Some t'"
  shows "subseq (t_columns t') (t_columns t) \<and> MIN_COLUMNS_KEPT \<le> length (t_columns t')
    \<and> (length (filter (is_key_column t refs) (t_columns t)) \<le> MIN_COLUMNS_KEPT \<longrightarrow>
         (\<forall>c \<in> set (t_columns t). is_key_column t refs c \<longrightarrow> c \<in> set (t_columns t')))
    \<and> suffix (''['' @ show_nat (length (t_columns t) - length (t_columns t')) @ '' of '' @ show_nat (length (t_columns t)) @ '' columns not shown]'')
        (or_empty (t_comment t'))"
proof -
  define keys where "keys = key_names t refs"
  define cols where "cols = ordered_columns t keys qTerms"
  define kept where "kept = keep_columns budget 0 (estimateTableTokens (t\<lparr>t_columns := []\<rparr>)) cols"
  from assms have large: "MIN_COLUMNS_KEPT < length (t_columns t)"
      and cols': "t_columns t' = map snd (filter (\<lambda>(i, _). i \<in> set kept) (enumerate 0 (t_columns t)))"
      and comment: "suffix (''['' @ show_nat (length (t_columns t) - length kept) @ '' of '' @ show_nat (length (t_columns t)) @ '' columns not shown]'')
        (or_empty (t_comment t'))"
    by (auto simp: trimColumns_def Let_def keys_def cols_def kept_def or_empty_def suffix_def split: if_splits)
  note props = ordered_columns_props [of t keys qTerms, folded cols_def]
  from keep_columns_take [of budget 0 _ cols] obtain m where m: "kept = map fst (take m cols)" "MIN_COLUMNS_KEPT \<le> m" "m \<le> length cols"
    unfolding kept_def using large props(2) by fastforce
  have "set cols = set (enumerate 0 (t_columns t))" using props(1) by (metis set_mset_mset)
  then have idx: "(i, c) \<in> set cols \<longleftrightarrow> i < length (t_columns t) \<and> t_columns t ! i = c" for i c
    by (auto simp: in_set_enumerate_eq)
  have kept: "set kept \<subseteq> {..<length (t_columns t)}" "distinct kept"
    using m(1) idx props(3) by (auto dest!: in_set_takeD simp: distinct_take take_map [symmetric])
  have len: "length (t_columns t') = length kept"
    using length_filter_index [OF kept] by (simp add: cols')
  have "subseq (t_columns t') (t_columns t)"
    using subseq_map [OF subseq_filter_left, of snd _ "enumerate 0 (t_columns t)"] by (simp add: cols')
  moreover have "MIN_COLUMNS_KEPT \<le> length (t_columns t')" using len m by simp
  moreover have "c \<in> set (t_columns t')"
    if few: "length (filter (is_key_column t refs) (t_columns t)) \<le> MIN_COLUMNS_KEPT" and c: "c \<in> set (t_columns t)" "is_key_column t refs c" for c
  proof -
    have rank: "column_rank keys qTerms c = 0 \<longleftrightarrow> is_key_column t refs c" for c
      by (simp add: column_rank_def is_key_column_def keys_def)
    have "mset (filter (\<lambda>(i, c). column_rank keys qTerms c = 0) cols) = mset (filter (\<lambda>(i, c). column_rank keys qTerms c = 0) (enumerate 0 (t_columns t)))"
      using props(1) by (simp add: mset_filter)
    then have "length (filter (\<lambda>(i, c). column_rank keys qTerms c = 0) cols) = length (filter (\<lambda>(i, c). column_rank keys qTerms c = 0) (enumerate 0 (t_columns t)))"
      by (rule mset_eq_length)
    also have "\<dots> = length (filter (is_key_column t refs) (t_columns t))"
      using filter_map [of "is_key_column t refs" snd "enumerate 0 (t_columns t)"] rank by (simp add: case_prod_unfold comp_def)
    finally have "length (filter (\<lambda>p. column_rank keys qTerms (snd p) = 0) cols) \<le> m" using few m(2) by (simp add: case_prod_unfold)
    moreover obtain i where i: "(i, c) \<in> set cols" using c(1) idx by (metis in_set_conv_nth)
    moreover have "sorted (map (\<lambda>p. column_rank keys qTerms (snd p)) cols)"
      unfolding cols_def ordered_columns_def case_prod_unfold by (rule sorted_sort_key)
    ultimately have "(i, c) \<in> set (take m cols)" using sorted_zero_first [of "\<lambda>p. column_rank keys qTerms (snd p)" cols "(i, c)" m] rank c(2) by simp
    then have "i \<in> set kept" using m(1) by force
    with i idx show ?thesis unfolding cols' by (auto simp: in_set_enumerate_eq intro!: image_eqI [of _ _ "(i, c)"])
  qed
  ultimately show ?thesis using comment len by simp
qed

text \<open>A table of thirteen columns whose key is the last, and the tables and catalogs of the examples.\<close>

definition example_column :: "string \<Rightarrow> ColumnInfo" where
  "example_column name = \<lparr>c_name = name, c_dbType = ''text'', c_nullable = True, c_default = None, c_generated = None, c_comment = None,
     c_enumValues = None, c_sampledValues = None\<rparr>"

definition example_table :: "string \<Rightarrow> string list \<Rightarrow> string list \<Rightarrow> TableInfo" where
  "example_table name columns pk = \<lparr>t_schema = None, t_name = name, t_kind = Table, t_columns = map example_column columns, t_primaryKey = pk,
     t_foreignKeys = [], t_uniques = [], t_checks = [], t_indexes = [], t_comment = None, t_rowEstimate = None, t_isPartitioned = None,
     t_partitionOf = None, t_definition = None, t_source = None\<rparr>"

definition example_catalog :: "TableInfo list \<Rightarrow> SchemaCatalog" where
  "example_catalog tables = \<lparr>k_engine = ''sqlite'', k_schemas = [], k_tables = tables, k_enums = [], k_sequences = [], k_triggers = [],
     k_routines = [], k_extensions = None, k_warnings = [], k_fetchedAt = []\<rparr>"

definition wide_table :: TableInfo where
  "wide_table = example_table ''w'' [''a'', ''b'', ''c'', ''d'', ''e'', ''f'', ''g'', ''h'', ''i'', ''j'', ''k'', ''l'', ''id''] [''id'']"

theorem trimColumns_keeps_keys_witness:
  "\<exists>t'. trimColumns wide_table [] 5 [] = Some t' \<and> example_column ''id'' \<in> set (t_columns t')"
proof -
  have "trimColumns wide_table [] 5 [] \<noteq> None" by code_simp
  then obtain t' where t': "trimColumns wide_table [] 5 [] = Some t'" by blast
  moreover have "length (filter (is_key_column wide_table []) (t_columns wide_table)) \<le> MIN_COLUMNS_KEPT" by code_simp
  moreover have "example_column ''id'' \<in> set (t_columns wide_table)" "is_key_column wide_table [] (example_column ''id'')" by code_simp+
  ultimately show ?thesis using trimColumns_keeps_keys [OF t'] by blast
qed

section \<open>Pruning\<close>

lemma keep_tables_subseq: "subseq (keep_tables mT b k u ts) ts"
  by (induction mT b k u ts rule: keep_tables.induct) (auto simp: Let_def)

lemma keep_tables_members: "t \<in> set (keep_tables mT b k u ts) \<Longrightarrow> t \<in> set ts"
  using list_emb_set [OF keep_tables_subseq] by metis

lemma keep_tables_length: "k + length (keep_tables mT b k u ts) \<le> max k mT"
  by (induction mT b k u ts rule: keep_tables.induct) (auto simp: Let_def split: if_splits)

lemma keep_tables_cost:
  "0 < k \<Longrightarrow> u \<le> b \<Longrightarrow> u + sum_list (map estimateTableTokens (keep_tables mT b k u ts)) \<le> b"
  by (induction mT b k u ts rule: keep_tables.induct) (auto simp: Let_def)

lemma keep_tables_first:
  assumes "0 < mT"
  shows "keep_tables mT b 0 0 (t # ts) = t # keep_tables mT b 1 (min (estimateTableTokens t) (b div 2)) ts"
  using assms by (simp add: Let_def)

text \<open>The tables whose key is at most \<open>n\<close> foreign keys away from a set of keys.\<close>

primrec hops_from :: "(string \<times> string) list \<Rightarrow> string set \<Rightarrow> nat \<Rightarrow> string set" where
  "hops_from edges S 0 = S"
| "hops_from edges S (Suc n) = hops_from edges S n \<union> {b. \<exists>a \<in> hops_from edges S n. (a, b) \<in> set edges}"

lemma hops_from_mono: "m \<le> n \<Longrightarrow> hops_from edges S m \<subseteq> hops_from edges S n"
  by (induction n) (auto simp: le_Suc_eq)

lemma next_frontier_edges: "n \<in> set (next_frontier edges expanded frontier) \<Longrightarrow> \<exists>k \<in> set frontier. (k, n) \<in> set edges"
proof -
  have "set (foldl (\<lambda>nxt n. if n \<in> set expanded then nxt else add_new n nxt) acc xs) \<subseteq> set acc \<union> set xs" for acc xs
  proof (induction xs arbitrary: acc)
    case (Cons a xs)
    from Cons.IH [of "if a \<in> set expanded then acc else add_new a acc"] show ?case by (auto split: if_splits)
  qed simp
  from this [of "[]" "concat (map (neighbors edges) frontier)"]
  show "n \<in> set (next_frontier edges expanded frontier) \<Longrightarrow> \<exists>k \<in> set frontier. (k, n) \<in> set edges"
    unfolding next_frontier_def neighbors_def by fastforce
qed

lemma expand_hops:
  assumes "set expanded \<subseteq> hops_from edges S n" "set frontier \<subseteq> hops_from edges S n"
  shows "set (expand edges mT hops expanded frontier) \<subseteq> hops_from edges S (n + hops)"
  using assms
proof (induction edges mT hops expanded frontier arbitrary: n rule: expand.induct)
  case (1 edges mT expanded frontier)
  then show ?case by simp
next
  case (2 edges mT hops expanded frontier)
  define nxt where "nxt = next_frontier edges expanded frontier"
  have "set nxt \<subseteq> hops_from edges S (Suc n)" using next_frontier_edges "2.prems"(2) unfolding nxt_def by fastforce
  moreover have "set expanded \<subseteq> hops_from edges S (Suc n)" using "2.prems"(1) by auto
  moreover have "hops_from edges S n \<subseteq> hops_from edges S (n + Suc hops)" by (rule hops_from_mono) simp
  ultimately show ?case using "2.IH" [of nxt "Suc n"] "2.prems" by (auto simp: nxt_def [symmetric] Let_def)
qed

lemma set_add_all: "set (foldl (\<lambda>ks k. add_new k ks) acc xs) = set acc \<union> set xs"
  by (induction xs arbitrary: acc) auto

lemma scored_tables_props: "(t, s) \<in> set (scored_tables tables qs) \<longleftrightarrow> t \<in> set tables \<and> s = scoreTable t qs"
  by (auto simp: scored_tables_def)

lemma seed_keys_set: "set (seed_keys (scored_tables tables qs)) = key_of ` {t \<in> set tables. scoreTable t qs > 0}"
  by (force simp: seed_keys_def set_add_all scored_tables_props)


lemma candidates_members:
  "t \<in> set (candidates tables mT qs) \<Longrightarrow>
     t \<in> set tables \<and> (scoreTable t qs > 0 \<or> key_of t \<in> hops_from (fk_edges tables) (key_of ` {u \<in> set tables. scoreTable u qs > 0}) FK_CLOSURE_HOPS
       \<or> (\<forall>u \<in> set tables. scoreTable u qs = 0))"
proof -
  define scored where "scored = scored_tables tables qs"
  define expanded where "expanded = expand (fk_edges tables) mT FK_CLOSURE_HOPS (seed_keys scored) (seed_keys scored)"
  define chosen where "chosen = map fst (filter (\<lambda>(t, s). key_of t \<in> set expanded \<or> s > 0) scored)"
  let ?seeds = "key_of ` {u \<in> set tables. scoreTable u qs > 0}"
  assume "t \<in> set (candidates tables mT qs)"
  then consider "t \<in> set chosen" | "chosen = []" "t \<in> set (map fst (take mT scored))"
    unfolding candidates_def Let_def scored_def [symmetric] expanded_def [symmetric] chosen_def [symmetric] by (cases "chosen = []") auto
  moreover have "set expanded \<subseteq> hops_from (fk_edges tables) ?seeds FK_CLOSURE_HOPS"
    using expand_hops [of "seed_keys scored" "fk_edges tables" ?seeds 0 "seed_keys scored" mT FK_CLOSURE_HOPS] seed_keys_set [of tables qs]
    by (simp add: expanded_def scored_def)
  moreover have "u \<in> set chosen" if "u \<in> set tables" "scoreTable u qs > 0" for u
    using that scored_tables_props [of u "scoreTable u qs" tables qs] by (force simp: chosen_def scored_def)
  ultimately show ?thesis
    using scored_tables_props [of t _ tables qs] unfolding chosen_def scored_def by cases (force dest!: in_set_takeD)+
qed

lemma candidates_complete:
  assumes "t \<in> set tables" "scoreTable t qs > 0"
  shows "t \<in> set (candidates tables mT qs)"
proof -
  have "(t, scoreTable t qs) \<in> set (scored_tables tables qs)" using assms scored_tables_props by blast
  with assms(2) have t: "t \<in> set (map fst (filter (\<lambda>(t, s). key_of t \<in> set ex \<or> s > 0) (scored_tables tables qs)))" for ex by force
  then have "map fst (filter (\<lambda>(t, s). key_of t \<in> set ex \<or> s > 0) (scored_tables tables qs)) \<noteq> []" for ex by (metis list.set(1) empty_iff)
  with t show ?thesis by (simp add: candidates_def Let_def)
qed

text \<open>With distinct keys the position in the scored list orders the candidates, so sorting them by it does nothing.\<close>

lemma order_of_scored:
  assumes "distinct (map (key_of \<circ> fst) scored)" "i < length scored"
  shows "order_of scored (fst (scored ! i)) = i"
proof -
  let ?al = "map (\<lambda>(i, (u, _)). (key_of u, i)) (enumerate 0 scored)"
  have keys: "map fst ?al = map (key_of \<circ> fst) scored"
    by (simp add: case_prod_unfold comp_def) (metis (no_types, lifting) comp_def map_eq_conv map_map map_snd_enumerate)
  then have "distinct (map fst (rev ?al))" using assms(1) by (simp add: rev_map [symmetric])
  moreover have "(key_of (fst (scored ! i)), i) \<in> set (rev ?al)"
    unfolding set_rev set_map using assms(2) by (auto simp: in_set_enumerate_eq case_prod_unfold intro!: image_eqI [of _ _ "(i, scored ! i)"])
  ultimately show ?thesis by (simp add: order_of_def)
qed


lemma subseq_sorted: "subseq xs ys \<Longrightarrow> sorted ys \<Longrightarrow> sorted xs"
proof (induction rule: list_emb.induct)
  case (list_emb_Cons2 x y xs ys)
  then show ?case using list_emb_set [OF list_emb_Cons2.hyps(2)] by fastforce
qed simp_all

lemma subseq_take: "subseq (take n xs) xs"
  by (metis append_take_drop_id subseq_append_le_same_iff subseq_order.refl list_emb_append2 prefix_imp_subseq take_is_prefix)

lemma candidates_in_order:
  assumes "distinct (map key_of tables)"
  shows "candidates tables mT qs =
    (let scored = scored_tables tables qs;
         chosen = filter (\<lambda>(t, s). key_of t \<in> set (expand (fk_edges tables) mT FK_CLOSURE_HOPS (seed_keys scored) (seed_keys scored)) \<or> s > 0) scored
     in map fst (if chosen = [] then take mT scored else chosen))"
proof -
  define scored where "scored = scored_tables tables qs"
  have "mset (map (key_of \<circ> fst) scored) = mset (map key_of tables)"
    by (simp add: scored_def scored_tables_def image_mset.compositionality comp_def)
  then have dist: "distinct (map (key_of \<circ> fst) scored)" using assms mset_eq_imp_distinct_iff by blast
  have idx: "map (\<lambda>p. order_of scored (fst p)) scored = [0..<length scored]"
    by (rule nth_equalityI) (simp_all add: order_of_scored [OF dist])
  have "sorted (map (\<lambda>p. order_of scored (fst p)) xs)" if "subseq xs scored" for xs
    using subseq_map [OF that, of "\<lambda>p. order_of scored (fst p)"] unfolding idx
    by (meson sorted_upt subseq_sorted)
  then have noop: "sort_key (order_of scored) (map fst xs) = map fst xs" if "subseq xs scored" for xs
    using that by (intro sort_key_id_if_sorted) (simp add: comp_def)
  show ?thesis
    unfolding candidates_def Let_def scored_def [symmetric] using noop [OF subseq_filter_left] noop [OF subseq_take] by simp
qed

lemma scored_head_best:
  assumes "tables \<noteq> []"
  shows "\<exists>t s rest. scored_tables tables qs = (t, s) # rest \<and> t \<in> set tables \<and> s = scoreTable t qs \<and> (\<forall>u \<in> set tables. scoreTable u qs \<le> s)"
proof -
  have "scored_tables tables qs \<noteq> []"
    using assms by (metis scored_tables_props equals0I list.set(1) list.set_sel(1) empty_iff)
  then obtain p rest where p: "scored_tables tables qs = p # rest" by (cases "scored_tables tables qs") auto
  have "sorted (map (\<lambda>(_, s). - int s) (scored_tables tables qs))" by (simp add: scored_tables_def)
  then have max: "s \<le> snd p" if "(t, s) \<in> set (scored_tables tables qs)" for t s
    using that p by (force simp: case_prod_unfold)
  moreover have "(fst p, snd p) \<in> set (scored_tables tables qs)" using p by simp
  then have "fst p \<in> set tables \<and> snd p = scoreTable (fst p) qs" using scored_tables_props by blast
  moreover have "scored_tables tables qs = (fst p, snd p) # rest" using p by simp
  ultimately show ?thesis using scored_tables_props by blast
qed

lemma candidates_head:
  assumes "tables \<noteq> []" "0 < mT" "distinct (map key_of tables)"
  shows "\<exists>t rest. candidates tables mT qs = t # rest \<and> t \<in> set tables \<and> (\<forall>u \<in> set tables. scoreTable u qs \<le> scoreTable t qs)"
proof -
  from scored_head_best [OF assms(1)] obtain t s rest where s: "scored_tables tables qs = (t, s) # rest" "t \<in> set tables" "s = scoreTable t qs"
      "\<forall>u \<in> set tables. scoreTable u qs \<le> s" by blast
  show ?thesis
  proof (cases "s = 0")
    case True
    then have "set (seed_keys (scored_tables tables qs)) = {}" using seed_keys_set [of tables qs] s(4) by auto
    then have "seed_keys (scored_tables tables qs) = []" by simp
    moreover have "expand e mT n [] [] = []" for e n by (induction n) (auto simp: next_frontier_def)
    moreover have "\<forall>(u, k) \<in> set (scored_tables tables qs). k = 0"
    proof (safe)
      fix u k assume "(u, k) \<in> set (scored_tables tables qs)"
      then have "u \<in> set tables" "k = scoreTable u qs" using scored_tables_props by blast+
      then show "k = 0" using s(4) True by simp
    qed
    then have "filter (\<lambda>(t, s). 0 < s) (scored_tables tables qs) = []" by (auto simp: filter_empty_conv)
    ultimately show ?thesis
      using candidates_in_order [OF assms(3), of mT qs] assms(2) s True by (cases mT) auto
  next
    case False
    then show ?thesis using candidates_in_order [OF assms(3), of mT qs] s by (auto simp: Let_def)
  qed
qed


section \<open>Properties\<close>

text \<open>
  An identifier shown to the model reads back as itself: either it is a plain word, or it stands in quotes, a lexer finds the end
  of the quotes exactly at the end of the identifier, and halving the doubled quotes gives the name.
\<close>

theorem promptIdentifier_round_trip:
  assumes "rest = [] \<or> hd rest \<noteq> q"
  shows "promptIdentifier raw q engine = bare_name q raw \<and> \<not> needsQuoting (bare_name q raw) engine
    \<or> (\<exists>body. promptIdentifier raw q engine = [q] @ body @ [q] \<and> undouble q body = bare_name q raw
         \<and> skip_lit esc_never q (promptIdentifier raw q engine @ rest) 1 = length (promptIdentifier raw q engine))"
  using skip_double_quotes [OF assms, of "[q]" "bare_name q raw"]
  by (auto simp: promptIdentifier_def Let_def)

theorem promptIdentifier_round_trip_witness:
  "promptIdentifier [CHR ''a'', DQUOTE, CHR ''b''] DQUOTE ''sqlite'' = [DQUOTE, CHR ''a'', DQUOTE, DQUOTE, CHR ''b'', DQUOTE]"
proof -
  have "needsQuoting (bare_name DQUOTE [CHR ''a'', DQUOTE, CHR ''b'']) ''sqlite''" by code_simp
  moreover note promptIdentifier_round_trip [of "[]" DQUOTE "[CHR ''a'', DQUOTE, CHR ''b'']" "''sqlite''"]
  moreover have "bare_name DQUOTE [CHR ''a'', DQUOTE, CHR ''b''] = [CHR ''a'', DQUOTE, CHR ''b'']" by code_simp
  ultimately show ?thesis by (auto simp: promptIdentifier_def DQUOTE_def)
qed

definition shown_of :: "TableInfo \<Rightarrow> TableInfo \<Rightarrow> bool" where
  "shown_of t t' \<longleftrightarrow> t_name t' = t_name t \<and> t_schema t' = t_schema t \<and> t_primaryKey t' = t_primaryKey t \<and> subseq (t_columns t') (t_columns t)"

lemma shown_of_refl [simp]: "shown_of t t"
  by (simp add: shown_of_def)

lemma trimColumns_shown: "trimColumns t qs b refs = Some t' \<Longrightarrow> shown_of t t'"
  using subseq_map [OF subseq_filter_left, of snd _ "enumerate 0 (t_columns t)"]
  by (auto simp: trimColumns_def shown_of_def Let_def split: if_splits)

definition table_cap :: "PrunerSettings \<Rightarrow> nat" where
  "table_cap settings = (case ps_maxTables settings of Some n \<Rightarrow> n | None \<Rightarrow> 200)"

definition own_tables :: "SchemaCatalog \<Rightarrow> TableInfo list" where
  "own_tables catalog = filter (\<lambda>t. truthy (t_partitionOf t) = None) (k_tables catalog)"

text \<open>What pruning answers with, in terms of the tables it keeps.\<close>

lemma prune_by_terms_shape:
  "\<exists>kept. (\<exists>b. kept = keep_tables mT b 0 0 (candidates tables mT (question_terms question)))
    \<and> list_all2 shown_of kept (k_tables (pr_catalog (prune_by_terms catalog tables question mT mS)))
    \<and> pr_schemaText (prune_by_terms catalog tables question mT mS) = formatCatalogForPrompt (pr_catalog (prune_by_terms catalog tables question mT mS))
    \<and> pr_strategy (prune_by_terms catalog tables question mT mS) \<noteq> NoPruning"
proof -
  define kept where "kept = keep_tables mT (max 500 (mS - 400)) 0 0 (candidates tables mT (question_terms question))"
  define trimmed where "trimmed = map (\<lambda>t. trimColumns t (question_terms question) (max 200 (mS div max 1 (length kept)))
    (referenced_columns tables (toLowerCase (t_name t)))) kept"
  define final where "final = map (\<lambda>(t, r). case r of Some t' \<Rightarrow> t' | None \<Rightarrow> t) (zip kept trimmed)"
  have result: "prune_by_terms catalog tables question mT mS =
      (if estimateTokens (formatCatalogForPrompt (catalog\<lparr>k_tables := kept\<rparr>)) > mS
       then \<lparr>pr_catalog = catalog\<lparr>k_tables := final\<rparr>, pr_schemaText = formatCatalogForPrompt (catalog\<lparr>k_tables := final\<rparr>),
          pr_dropped = length tables - length kept, pr_strategy = (if list_ex (\<lambda>r. r \<noteq> None) trimmed then BudgetTrim else TermMatch)\<rparr>
       else \<lparr>pr_catalog = catalog\<lparr>k_tables := kept\<rparr>, pr_schemaText = formatCatalogForPrompt (catalog\<lparr>k_tables := kept\<rparr>),
          pr_dropped = length tables - length kept, pr_strategy = TermMatch\<rparr>)"
    unfolding prune_by_terms_def Let_def final_def trimmed_def kept_def by (rule refl)
  have "list_all2 shown_of kept final"
    unfolding final_def trimmed_def by (auto simp: list_all2_conv_all_nth dest: trimColumns_shown split: option.splits)
  moreover have "list_all2 shown_of kept kept" by (simp add: list_all2_same)
  ultimately have "list_all2 shown_of kept (k_tables (pr_catalog (prune_by_terms catalog tables question mT mS)))"
    unfolding result by simp
  moreover have "pr_schemaText (prune_by_terms catalog tables question mT mS)
      = formatCatalogForPrompt (pr_catalog (prune_by_terms catalog tables question mT mS))"
    unfolding result by simp
  moreover have "pr_strategy (prune_by_terms catalog tables question mT mS) \<noteq> NoPruning"
    unfolding result by simp
  ultimately show ?thesis unfolding kept_def by blast
qed

lemma list_all2_right_member:
  assumes "list_all2 P xs ys" "y \<in> set ys"
  obtains x where "x \<in> set xs" "P x y"
  using assms by (induction rule: list_all2_induct) auto

lemma pruneCatalog_cases:
  obtains (none) "pruneCatalog catalog question settings = \<lparr>pr_catalog = catalog\<lparr>k_tables := own_tables catalog\<rparr>,
      pr_schemaText = formatCatalogForPrompt (catalog\<lparr>k_tables := own_tables catalog\<rparr>),
      pr_dropped = length (k_tables catalog) - length (own_tables catalog), pr_strategy = NoPruning\<rparr>"
      "length (own_tables catalog) \<le> table_cap settings"
  | (by_terms) mS where "pruneCatalog catalog question settings = prune_by_terms catalog (own_tables catalog) question (table_cap settings) mS"
proof (cases "length (own_tables catalog) \<le> table_cap settings \<and> estimateTokens (formatCatalogForPrompt (catalog\<lparr>k_tables := own_tables catalog\<rparr>))
    \<le> (case ps_maxSchemaTokens settings of Some n \<Rightarrow> n | None \<Rightarrow> 6000)")
  case True
  then show ?thesis
    by (intro none) (simp_all add: pruneCatalog_def Let_def flip: own_tables_def table_cap_def)
next
  case False
  then show ?thesis
    by (intro by_terms [of "case ps_maxSchemaTokens settings of Some n \<Rightarrow> n | None \<Rightarrow> 6000"])
      (simp only: pruneCatalog_def Let_def own_tables_def [symmetric] table_cap_def [symmetric] if_False)
qed

text \<open>
  Pruning never shows more tables than its cap; every table it shows is one of the catalog, not a partition, whole or with fewer
  columns; and the text handed to the prompt is the rendering of exactly these tables.
\<close>

theorem pruneCatalog_within_cap:
  "length (k_tables (pr_catalog (pruneCatalog catalog question settings))) \<le> table_cap settings
   \<and> list_all (\<lambda>t'. list_ex (\<lambda>t. shown_of t t') (own_tables catalog)) (k_tables (pr_catalog (pruneCatalog catalog question settings)))
   \<and> pr_schemaText (pruneCatalog catalog question settings) = formatCatalogForPrompt (pr_catalog (pruneCatalog catalog question settings))"
proof (cases rule: pruneCatalog_cases [of catalog question settings])
  case none
  then show ?thesis by (auto simp: list_all_iff list_ex_iff intro: shown_of_refl)
next
  case (by_terms mS)
  from prune_by_terms_shape [of "table_cap settings" "own_tables catalog" question catalog mS] obtain b where
    shape: "list_all2 shown_of (keep_tables (table_cap settings) b 0 0 (candidates (own_tables catalog) (table_cap settings) (question_terms question)))
        (k_tables (pr_catalog (pruneCatalog catalog question settings)))"
      "pr_schemaText (pruneCatalog catalog question settings) = formatCatalogForPrompt (pr_catalog (pruneCatalog catalog question settings))"
    unfolding by_terms by blast
  let ?kept = "keep_tables (table_cap settings) b 0 0 (candidates (own_tables catalog) (table_cap settings) (question_terms question))"
  have "length ?kept \<le> table_cap settings" using keep_tables_length [of 0 "table_cap settings" b 0] by simp
  then have few: "length (k_tables (pr_catalog (pruneCatalog catalog question settings))) \<le> table_cap settings"
    unfolding list_all2_lengthD [OF shape(1), symmetric] .
  have "set ?kept \<subseteq> set (own_tables catalog)"
    using keep_tables_members candidates_members by blast
  have own: "list_ex (\<lambda>t. shown_of t t') (own_tables catalog)"
    if "t' \<in> set (k_tables (pr_catalog (pruneCatalog catalog question settings)))" for t'
  proof -
    from list_all2_right_member [OF shape(1) that] obtain t where "t \<in> set ?kept" "shown_of t t'" .
    with \<open>set ?kept \<subseteq> set (own_tables catalog)\<close> show ?thesis unfolding list_ex_iff by blast
  qed
  show ?thesis unfolding list_all_iff using few own shape(2) by blast
qed

text \<open>
  The best match is always shown: if the tables have different keys and the cap allows a table at all, a table with the highest score
  is among those shown, whatever the budget.
\<close>

theorem pruneCatalog_keeps_best:
  assumes "own_tables catalog \<noteq> []" "0 < table_cap settings" "distinct (map key_of (own_tables catalog))"
  shows "\<exists>t \<in> set (own_tables catalog). (\<forall>u \<in> set (own_tables catalog). scoreTable u (question_terms question) \<le> scoreTable t (question_terms question))
    \<and> (\<exists>t' \<in> set (k_tables (pr_catalog (pruneCatalog catalog question settings))). shown_of t t')"
proof -
  from candidates_head [OF assms, of "question_terms question"] obtain t rest where
    t: "candidates (own_tables catalog) (table_cap settings) (question_terms question) = t # rest" "t \<in> set (own_tables catalog)"
      "\<forall>u \<in> set (own_tables catalog). scoreTable u (question_terms question) \<le> scoreTable t (question_terms question)" by blast
  have "\<exists>t' \<in> set (k_tables (pr_catalog (pruneCatalog catalog question settings))). shown_of t t'"
  proof (cases rule: pruneCatalog_cases [of catalog question settings])
    case none
    then show ?thesis using t(2) by (intro bexI [of _ t]) simp_all
  next
    case (by_terms mS)
    from prune_by_terms_shape [of "table_cap settings" "own_tables catalog" question catalog mS] obtain b where
      "list_all2 shown_of (keep_tables (table_cap settings) b 0 0 (t # rest)) (k_tables (pr_catalog (pruneCatalog catalog question settings)))"
      unfolding by_terms t(1) by blast
    then show ?thesis unfolding keep_tables_first [OF assms(2)] by (auto simp: list_all2_Cons1)
  qed
  with t show ?thesis by blast
qed

theorem pruneCatalog_keeps_best_witness:
  "\<exists>t' \<in> set (k_tables (pr_catalog (pruneCatalog (example_catalog [example_table ''t u'' [] []]) ''u'' \<lparr>ps_maxTables = Some 1, ps_maxSchemaTokens = Some 0\<rparr>))).
     t_name t' = ''t u''"
proof -
  have own: "own_tables (example_catalog [example_table ''t u'' [] []]) = [example_table ''t u'' [] []]" by code_simp
  have "0 < table_cap \<lparr>ps_maxTables = Some 1, ps_maxSchemaTokens = Some 0\<rparr>" by (simp add: table_cap_def)
  from pruneCatalog_keeps_best [of "example_catalog [example_table ''t u'' [] []]", unfolded own, OF _ this, of "''u''"]
  show ?thesis by (auto simp: shown_of_def example_table_def)
qed

text \<open>
  Whatever is shown of a pruned schema is there for a reason: the table matches a term of the question, or it is at most two foreign
  keys away from one that does, or no table matches at all.
\<close>

theorem pruneCatalog_relevant:
  assumes "pr_strategy (pruneCatalog catalog question settings) \<noteq> NoPruning"
    "t' \<in> set (k_tables (pr_catalog (pruneCatalog catalog question settings)))"
  shows "\<exists>t \<in> set (own_tables catalog). shown_of t t' \<and>
    (scoreTable t (question_terms question) > 0
     \<or> key_of t \<in> hops_from (fk_edges (own_tables catalog)) (key_of ` {u \<in> set (own_tables catalog). scoreTable u (question_terms question) > 0}) 2
     \<or> (\<forall>u \<in> set (own_tables catalog). scoreTable u (question_terms question) = 0))"
proof (cases rule: pruneCatalog_cases [of catalog question settings])
  case none
  then show ?thesis using assms(1) by simp
next
  case (by_terms mS)
  from prune_by_terms_shape [of "table_cap settings" "own_tables catalog" question catalog mS] obtain b where
    "list_all2 shown_of (keep_tables (table_cap settings) b 0 0 (candidates (own_tables catalog) (table_cap settings) (question_terms question)))
      (k_tables (pr_catalog (pruneCatalog catalog question settings)))"
    unfolding by_terms by blast
  with assms(2) obtain t where t: "t \<in> set (keep_tables (table_cap settings) b 0 0 (candidates (own_tables catalog) (table_cap settings) (question_terms question)))"
      "shown_of t t'"
    by (blast elim: list_all2_right_member)
  have "t \<in> set (candidates (own_tables catalog) (table_cap settings) (question_terms question))"
    using keep_tables_members [OF t(1)] .
  from candidates_members [OF this] t(2) show ?thesis unfolding FK_CLOSURE_HOPS_def by blast
qed

theorem pruneCatalog_relevant_witness:
  "\<exists>t \<in> {example_table ''a b'' [] [], example_table ''users x'' [] []}. t_name t = ''users x'' \<and> scoreTable t (question_terms ''users'') > 0"
proof -
  let ?c = "example_catalog [example_table ''a b'' [] [], example_table ''users x'' [] []]"
  let ?s = "\<lparr>ps_maxTables = Some 1, ps_maxSchemaTokens = Some 1000\<rparr>"
  have "pr_strategy (pruneCatalog ?c ''users'' ?s) \<noteq> NoPruning" by code_simp
  moreover have "example_table ''users x'' [] [] \<in> set (k_tables (pr_catalog (pruneCatalog ?c ''users'' ?s)))" by code_simp
  ultimately obtain t where t: "t \<in> set (own_tables ?c)" "shown_of t (example_table ''users x'' [] [])"
      "scoreTable t (question_terms ''users'') > 0
        \<or> key_of t \<in> hops_from (fk_edges (own_tables ?c)) (key_of ` {u \<in> set (own_tables ?c). scoreTable u (question_terms ''users'') > 0}) 2
        \<or> (\<forall>u \<in> set (own_tables ?c). scoreTable u (question_terms ''users'') = 0)"
    using pruneCatalog_relevant by blast
  have own: "own_tables ?c = [example_table ''a b'' [] [], example_table ''users x'' [] []]" by code_simp
  have "scoreTable (example_table ''users x'' [] []) (question_terms ''users'') > 0" by code_simp
  with t(1,2) show ?thesis unfolding own by (auto simp: shown_of_def example_table_def)
qed

end
