(* ===== verification/Floors.thy ===== *)
theory Floors
  imports Catalog Identifier_Case "HOL-Library.List_Lexorder"
begin

text \<open>
  The hallucination floors of \<open>packages/core/src/engine.ts\<close>: a table that the catalog does not have, an
  ambiguous column, and a column that its table does not have. The lists of relations and columns come from
  \<open>node-sql-parser\<close>, whose two methods are parameters: \<open>tableList\<close> and \<open>columnList\<close> answer \<open>None\<close> where the
  parser throws. An entry of such a list has the form \<open>type::schema::name\<close>.

  The properties: a floor never refuses a name that exists, what it reports is a reference of the statement, and the names
  it suggests exist. A column that is reported for a qualified reference is spelled in small letters, not as the catalog has it.
\<close>

section \<open>Model\<close>

text \<open>\<open>entry.split('::')\<close> and the parts of the result.\<close>

definition push :: "char \<Rightarrow> string list \<Rightarrow> string list" where
  "push c pieces = (case pieces of p # ps \<Rightarrow> (c # p) # ps | [] \<Rightarrow> [[c]])"

fun split_colons :: "string \<Rightarrow> string list" where
  "split_colons (a # b # s) =
     (if a = CHR '':'' \<and> b = CHR '':'' then [] # split_colons s else push a (split_colons (b # s)))"
| "split_colons [a] = [[a]]"
| "split_colons [] = [[]]"

definition raw_part :: "string \<Rightarrow> nat \<Rightarrow> string" where
  "raw_part rel n = (let ps = split_colons rel in if n < length ps then ps ! n else [])"

definition part :: "string \<Rightarrow> nat \<Rightarrow> string" where
  "part rel n = toLowerCase (raw_part rel n)"

definition entry_schema :: "string \<Rightarrow> string option" where
  "entry_schema rel = (let s = raw_part rel 1 in if s = [] \<or> s = ''null'' then None else Some (toLowerCase s))"

text \<open>A loop that returns at the first iteration that answers.\<close>

fun first_some :: "('a \<Rightarrow> 'b option) \<Rightarrow> 'a list \<Rightarrow> 'b option" where
  "first_some f [] = None"
| "first_some f (x # xs) = (case f x of Some y \<Rightarrow> Some y | None \<Rightarrow> first_some f xs)"

definition SYSTEM_SCHEMAS :: "string list" where
  "SYSTEM_SCHEMAS = [''information_schema'', ''pg_catalog'', ''mysql'', ''performance_schema'', ''sys'']"

definition plain_name :: regex where
  "plain_name = Cat (Chr (\<lambda>c. is_alpha c \<or> c = CHR ''_'')) (Star (Chr is_word))"

definition CTE_NAME :: regex where
  "CTE_NAME = cats [Opt (one_of [DQUOTE, BACKTICK, CHR ''['']), Group 1 plain_name, Opt (one_of [DQUOTE, BACKTICK, CHR '']'']),
     plus ws, cis ''as'', Star ws, lit CHR ''('']"

definition names_matched :: "regex \<Rightarrow> string \<Rightarrow> string list" where
  "names_matched re sql = map (\<lambda>m. toLowerCase (case m_group sql m 1 of Some g \<Rightarrow> g | None \<Rightarrow> [])) (match_all re sql)"

definition collectCteNames :: "string \<Rightarrow> string list" where
  "collectCteNames sql = (if \<not> re_test (cats [WordB, cis ''with'', WordB]) sql then [] else names_matched CTE_NAME sql)"

definition SELECT_ALIAS :: regex where
  "SELECT_ALIAS = cats [WordB, cis ''as'', plus ws, Opt (one_of [DQUOTE, SQUOTE, BACKTICK]), Group 1 plain_name, Opt (one_of [DQUOTE, SQUOTE, BACKTICK])]"

definition collectSelectAliases :: "string \<Rightarrow> string list" where
  "collectSelectAliases sql = names_matched SELECT_ALIAS sql"

text \<open>The names a relation may be given by: its own, and the one with its schema.\<close>

definition known_names :: "SchemaCatalog \<Rightarrow> string list" where
  "known_names catalog =
     concat (map (\<lambda>t. toLowerCase (t_name t)
       # (case truthy (t_schema t) of Some s \<Rightarrow> [toLowerCase s @ ''.'' @ toLowerCase (t_name t)] | None \<Rightarrow> [])) (k_tables catalog))"

definition qualified_entry :: "string \<Rightarrow> string" where
  "qualified_entry rel = (case entry_schema rel of Some s \<Rightarrow> s @ ''.'' @ part rel 2 | None \<Rightarrow> part rel 2)"

definition is_system :: "string \<Rightarrow> bool" where
  "is_system rel \<longleftrightarrow>
     (case entry_schema rel of Some s \<Rightarrow> s \<in> set SYSTEM_SCHEMAS | None \<Rightarrow> False)
     \<or> starts_with (part rel 2) ''sqlite_'' \<or> starts_with (part rel 2) ''pg_''"

definition unknown_entry :: "string list \<Rightarrow> string list \<Rightarrow> string \<Rightarrow> string option" where
  "unknown_entry known cteNames rel =
     (if part rel 2 = [] then None
      else if part rel 2 \<in> set cteNames then None
      else if qualified_entry rel \<in> set known \<or> part rel 2 \<in> set known then None
      else if is_system rel then None
      else Some (qualified_entry rel))"

definition firstUnknownTable :: "(string \<Rightarrow> string \<Rightarrow> string list option) \<Rightarrow> string \<Rightarrow> SchemaCatalog \<Rightarrow> string \<Rightarrow> string list option \<Rightarrow> string option" where
  "firstUnknownTable tableList sql catalog grammar precomputed =
     (case (case precomputed of Some l \<Rightarrow> Some l | None \<Rightarrow> tableList (withoutFetchTail sql) grammar) of
        None \<Rightarrow> None
      | Some rels \<Rightarrow> first_some (unknown_entry (known_names catalog) (collectCteNames sql)) rels)"

text \<open>The columns of all tables of a name, without case: \<open>None\<close> where no table has the name.\<close>

definition tables_named :: "SchemaCatalog \<Rightarrow> string \<Rightarrow> TableInfo list" where
  "tables_named catalog name = filter (\<lambda>t. toLowerCase (t_name t) = name) (k_tables catalog)"

definition by_table :: "SchemaCatalog \<Rightarrow> string \<Rightarrow> string list option" where
  "by_table catalog name =
     (if tables_named catalog name = [] then None
      else Some (remdups (map (\<lambda>c. toLowerCase (c_name c)) (concat (map t_columns (tables_named catalog name))))))"

definition has_column :: "SchemaCatalog \<Rightarrow> string \<Rightarrow> string \<Rightarrow> bool" where
  "has_column catalog column name = (case by_table catalog name of Some cs \<Rightarrow> column \<in> set cs | None \<Rightarrow> False)"

definition after_last_dot :: "string \<Rightarrow> string" where
  "after_last_dot name = (case last_index_of name ''.'' of Some i \<Rightarrow> slice_from name (i + 1) | None \<Rightarrow> name)"

text \<open>One scope only: a subquery or a set operation makes a column unattributable.\<close>

definition one_scope :: "string \<Rightarrow> bool" where
  "one_scope sql \<longleftrightarrow>
     \<not> re_test (cats [lit CHR ''('', Star ws, cis ''select'', WordB]) sql
     \<and> \<not> re_test (cats [WordB, ors [cis ''union'', cis ''intersect'', cis ''except''], WordB]) sql"

text \<open>The loop over the relations of the statement: \<open>None\<close> is its early return.\<close>

fun owned_tables :: "SchemaCatalog \<Rightarrow> string list \<Rightarrow> string list \<Rightarrow> string list option" where
  "owned_tables catalog cteNames [] = Some []"
| "owned_tables catalog cteNames (rel # rels) =
     (if part rel 2 = [] \<or> part rel 2 = ''null'' then owned_tables catalog cteNames rels
      else
        let name = after_last_dot (part rel 2) in
        if name \<in> set cteNames \<or> name \<in> set SYSTEM_SCHEMAS then None
        else if by_table catalog name = None then None
        else map_option ((#) name) (owned_tables catalog cteNames rels))"

definition unqualified :: "string \<Rightarrow> bool" where
  "unqualified ref \<longleftrightarrow> part ref 1 = [] \<or> part ref 1 = ''null''"

definition no_column :: "string \<Rightarrow> bool" where
  "no_column ref \<longleftrightarrow> part ref 2 = [] \<or> part ref 2 = ''(.*)''"

definition ambiguous_ref :: "SchemaCatalog \<Rightarrow> string list \<Rightarrow> string list \<Rightarrow> string \<Rightarrow> string option" where
  "ambiguous_ref catalog aliases queryTables ref =
     (if no_column ref then None
      else if \<not> unqualified ref then None
      else if part ref 2 \<in> set aliases then None
      else if length (filter (has_column catalog (part ref 2)) queryTables) > 1 then Some (part ref 2)
      else None)"

definition ambiguousColumn :: "(string \<Rightarrow> string \<Rightarrow> string list option) \<Rightarrow> (string \<Rightarrow> string \<Rightarrow> string list option)
    \<Rightarrow> string \<Rightarrow> SchemaCatalog \<Rightarrow> string \<Rightarrow> string option" where
  "ambiguousColumn columnList tableList sql catalog grammar =
     (let code' = withoutLiteralsAndComments sql in
      if re_test (cats [WordB, ors [cis ''using'', cis ''natural''], WordB]) code' then None
      else if \<not> one_scope code' then None
      else
        (case (columnList (withoutFetchTail sql) grammar, tableList (withoutFetchTail sql) grammar) of
           (Some refs, Some names) \<Rightarrow>
             (case owned_tables catalog (collectCteNames sql) names of
                None \<Rightarrow> None
              | Some queryTables \<Rightarrow>
                  if length queryTables < 2 then None
                  else first_some (ambiguous_ref catalog (collectSelectAliases sql) queryTables) refs)
         | _ \<Rightarrow> None))"

definition SQLITE_IMPLICIT_COLUMNS :: "string list" where
  "SQLITE_IMPLICIT_COLUMNS = [''rowid'', ''oid'', ''_rowid_'', ''docid'', ''rank'']"

record UnknownColumn =
  uc_table :: string
  uc_column :: string
  uc_available :: "string list"

text \<open>\<open>[...set].sort()\<close>: by code units.\<close>

definition sort_strings :: "string list \<Rightarrow> string list" where
  "sort_strings names = sort_key (map code) (remdups names)"

text \<open>The relations of the statement that the catalog knows, and whether every relation is known.\<close>

fun known_relations :: "SchemaCatalog \<Rightarrow> string list \<Rightarrow> string list \<Rightarrow> string list \<times> bool" where
  "known_relations catalog cteNames [] = ([], True)"
| "known_relations catalog cteNames (rel # rels) =
     (let (rest, every) = known_relations catalog cteNames rels in
      if part rel 2 = [] \<or> part rel 2 = ''null'' then (rest, every)
      else
        let name = after_last_dot (part rel 2) in
        if name \<in> set cteNames \<or> name \<in> set SYSTEM_SCHEMAS then (rest, every)
        else if by_table catalog name \<noteq> None then (name # rest, every)
        else (rest, False))"

definition real_name :: "SchemaCatalog \<Rightarrow> string \<Rightarrow> string" where
  "real_name catalog name = (case tables_named catalog name of [] \<Rightarrow> name | ts \<Rightarrow> t_name (last ts))"

definition real_columns :: "SchemaCatalog \<Rightarrow> string \<Rightarrow> string list" where
  "real_columns catalog name = concat (map (\<lambda>t. map c_name (t_columns t)) (tables_named catalog name))"

definition implicit_column :: "SchemaCatalog \<Rightarrow> string \<Rightarrow> bool" where
  "implicit_column catalog column \<longleftrightarrow> k_engine catalog = ''sqlite'' \<and> column \<in> set SQLITE_IMPLICIT_COLUMNS"

definition unknown_bare :: "SchemaCatalog \<Rightarrow> string list \<Rightarrow> string list \<Rightarrow> bool \<Rightarrow> string \<Rightarrow> UnknownColumn option" where
  "unknown_bare catalog aliases queryTables attributable column =
     (if \<not> attributable \<or> column \<in> set aliases \<or> queryTables = [] then None
      else if implicit_column catalog column then None
      else if list_ex (has_column catalog column) queryTables then None
      else Some \<lparr>uc_table = real_name catalog (hd queryTables), uc_column = column,
                 uc_available = sort_strings (concat (map (real_columns catalog) queryTables))\<rparr>)"

definition unknown_qualified :: "SchemaCatalog \<Rightarrow> string list \<Rightarrow> string \<Rightarrow> string \<Rightarrow> UnknownColumn option" where
  "unknown_qualified catalog cteNames table column =
     (let table' = after_last_dot table in
      if table' \<in> set cteNames then None
      else if table' \<in> set SYSTEM_SCHEMAS then None
      else
        (case by_table catalog table' of
           None \<Rightarrow> None
         | Some known \<Rightarrow>
             if column \<in> set known then None
             else if implicit_column catalog column then None
             else Some \<lparr>uc_table = table', uc_column = column, uc_available = sort_strings known\<rparr>))"

definition unknown_ref :: "SchemaCatalog \<Rightarrow> string list \<Rightarrow> string list \<Rightarrow> string list \<Rightarrow> bool \<Rightarrow> string \<Rightarrow> UnknownColumn option" where
  "unknown_ref catalog cteNames aliases queryTables attributable ref =
     (if no_column ref then None
      else if unqualified ref then unknown_bare catalog aliases queryTables attributable (part ref 2)
      else unknown_qualified catalog cteNames (part ref 1) (part ref 2))"

definition firstUnknownColumn :: "(string \<Rightarrow> string \<Rightarrow> string list option) \<Rightarrow> (string \<Rightarrow> string \<Rightarrow> string list option)
    \<Rightarrow> string \<Rightarrow> SchemaCatalog \<Rightarrow> string \<Rightarrow> UnknownColumn option" where
  "firstUnknownColumn columnList tableList sql catalog grammar =
     (case columnList (withoutFetchTail sql) grammar of
        None \<Rightarrow> None
      | Some refs \<Rightarrow>
          (let cteNames = collectCteNames sql; aliases = collectSelectAliases sql;
               (queryTables, every) =
                 (case tableList (withoutFetchTail sql) grammar of
                    Some rels \<Rightarrow> known_relations catalog cteNames rels
                  | None \<Rightarrow> ([], False));
               attributable = (every \<and> one_scope (withoutLiteralsAndComments sql))
           in first_some (unknown_ref catalog cteNames aliases queryTables attributable) refs))"

section \<open>Tables\<close>

lemma first_some_None [simp]: "first_some f xs = None \<longleftrightarrow> (\<forall>x \<in> set xs. f x = None)"
  by (induction xs) (auto split: option.splits)

lemma first_some_SomeD: "first_some f xs = Some y \<Longrightarrow> \<exists>x \<in> set xs. f x = Some y"
  by (induction xs) (auto split: option.splits)

text \<open>A relation is accounted for when it is a table of the catalog, with or without its schema, a common table expression, or of the system.\<close>

definition catalog_name :: "TableInfo \<Rightarrow> string \<Rightarrow> bool" where
  "catalog_name t name \<longleftrightarrow>
     name = toLowerCase (t_name t) \<or> (\<exists>s. truthy (t_schema t) = Some s \<and> name = toLowerCase s @ ''.'' @ toLowerCase (t_name t))"

definition accounted :: "SchemaCatalog \<Rightarrow> string \<Rightarrow> string \<Rightarrow> bool" where
  "accounted catalog sql rel \<longleftrightarrow>
     part rel 2 = [] \<or> part rel 2 \<in> set (collectCteNames sql)
     \<or> (\<exists>t \<in> set (k_tables catalog). catalog_name t (part rel 2) \<or> catalog_name t (qualified_entry rel)) \<or> is_system rel"

lemma known_names_iff: "name \<in> set (known_names catalog) \<longleftrightarrow> (\<exists>t \<in> set (k_tables catalog). catalog_name t name)"
proof -
  have "name \<in> set (toLowerCase (t_name t) # (case truthy (t_schema t) of Some s \<Rightarrow> [toLowerCase s @ ''.'' @ toLowerCase (t_name t)] | None \<Rightarrow> []))
      \<longleftrightarrow> catalog_name t name" for t
    by (cases "truthy (t_schema t)") (auto simp: catalog_name_def)
  then show ?thesis unfolding known_names_def by (simp only: set_concat set_map image_image UN_iff)
qed

lemma unknown_entry_cases:
  "unknown_entry (known_names catalog) (collectCteNames sql) rel = (if accounted catalog sql rel then None else Some (qualified_entry rel))"
  by (auto simp: unknown_entry_def accounted_def known_names_iff)


section \<open>Columns\<close>

lemma by_table_None: "by_table catalog name = None \<longleftrightarrow> (\<forall>t \<in> set (k_tables catalog). toLowerCase (t_name t) \<noteq> name)"
  by (auto simp: by_table_def tables_named_def filter_empty_conv)

lemma by_table_distinct: "by_table catalog name = Some known \<Longrightarrow> distinct known"
  by (auto simp: by_table_def split: if_splits)

lemma has_column_iff:
  "has_column catalog column name \<longleftrightarrow>
     (\<exists>t \<in> set (k_tables catalog). toLowerCase (t_name t) = name \<and> (\<exists>c \<in> set (t_columns t). toLowerCase (c_name c) = column))"
  unfolding has_column_def by_table_def tables_named_def by (auto simp: filter_empty_conv)

lemma by_table_mem: "by_table catalog name = Some known \<Longrightarrow> column \<in> set known \<longleftrightarrow> has_column catalog column name"
  by (simp add: has_column_def)

lemma known_relations_known: "name \<in> set (fst (known_relations catalog ctes rels)) \<Longrightarrow> by_table catalog name \<noteq> None"
  by (induction rels) (auto simp: Let_def split: prod.splits if_splits)

lemma real_name_lower: "by_table catalog name \<noteq> None \<Longrightarrow> toLowerCase (real_name catalog name) = name"
  using last_in_set [of "tables_named catalog name"]
  by (auto simp: real_name_def by_table_def tables_named_def split: list.splits if_splits)

lemma sort_strings_props: "set (sort_strings ns) = set ns" "distinct (sort_strings ns)" "sorted (map (map code) (sort_strings ns))"
  by (simp_all add: sort_strings_def distinct_sort)

text \<open>What a report of an unknown column promises.\<close>

definition report_ok :: "SchemaCatalog \<Rightarrow> UnknownColumn \<Rightarrow> bool" where
  "report_ok catalog u \<longleftrightarrow>
     list_ex (\<lambda>t. toLowerCase (t_name t) = toLowerCase (uc_table u)) (k_tables catalog)
     \<and> \<not> has_column catalog (uc_column u) (toLowerCase (uc_table u))
     \<and> list_all (\<lambda>n. list_ex (\<lambda>t. list_ex (\<lambda>c. toLowerCase (c_name c) = toLowerCase n) (t_columns t)) (k_tables catalog)) (uc_available u)
     \<and> distinct (uc_available u) \<and> sorted (map (map code) (uc_available u))"

lemma unknown_bare_ok:
  assumes "unknown_bare catalog aliases (fst (known_relations catalog ctes rels)) attributable column = Some u"
  shows "report_ok catalog u"
proof -
  let ?qs = "fst (known_relations catalog ctes rels)"
  from assms have u: "u = \<lparr>uc_table = real_name catalog (hd ?qs), uc_column = column, uc_available = sort_strings (concat (map (real_columns catalog) ?qs))\<rparr>"
      and qs: "?qs \<noteq> []" and none: "\<not> list_ex (has_column catalog column) ?qs"
    by (auto simp: unknown_bare_def split: if_splits)
  have known: "by_table catalog (hd ?qs) \<noteq> None" using known_relations_known hd_in_set [OF qs] by blast
  then have hd': "toLowerCase (real_name catalog (hd ?qs)) = hd ?qs" by (rule real_name_lower)
  have "\<not> has_column catalog column (hd ?qs)" using none qs by (auto simp: list_ex_iff)
  moreover have "list_ex (\<lambda>t. toLowerCase (t_name t) = hd ?qs) (k_tables catalog)"
    using known by (auto simp: list_ex_iff by_table_None)
  moreover have "list_ex (\<lambda>t. list_ex (\<lambda>c. toLowerCase (c_name c) = toLowerCase n) (t_columns t)) (k_tables catalog)"
    if "n \<in> set (concat (map (real_columns catalog) ?qs))" for n
    using that by (auto simp: real_columns_def tables_named_def list_ex_iff)
  ultimately show ?thesis unfolding report_ok_def u by (simp add: hd' sort_strings_props list_all_iff)
qed

lemma unknown_qualified_ok:
  assumes "unknown_qualified catalog ctes table column = Some u"
  shows "report_ok catalog u"
proof -
  from assms obtain known where known: "by_table catalog (after_last_dot table) = Some known" "column \<notin> set known"
      and u: "u = \<lparr>uc_table = after_last_dot table, uc_column = column, uc_available = sort_strings known\<rparr>"
    by (auto simp: unknown_qualified_def Let_def split: if_splits option.splits)
  from known(1) obtain t where t: "t \<in> set (k_tables catalog)" "toLowerCase (t_name t) = after_last_dot table"
    using by_table_None [of catalog "after_last_dot table"] by auto
  have lower': "toLowerCase (after_last_dot table) = after_last_dot table" using t by (metis toLowerCase_idem)
  have "list_ex (\<lambda>t. list_ex (\<lambda>c. toLowerCase (c_name c) = toLowerCase n) (t_columns t)) (k_tables catalog)" if "n \<in> set known" for n
  proof -
    from that obtain t c where "t \<in> set (k_tables catalog)" "c \<in> set (t_columns t)" "toLowerCase (c_name c) = n"
      unfolding by_table_mem [OF known(1)] has_column_iff by blast
    moreover from this have "toLowerCase (c_name c) = toLowerCase n" by auto
    ultimately show ?thesis unfolding list_ex_iff by blast
  qed
  moreover have "\<not> has_column catalog column (after_last_dot table)" using known by (simp add: has_column_def)
  ultimately show ?thesis
    using t unfolding report_ok_def u by (auto simp: lower' sort_strings_props list_ex_iff list_all_iff)
qed

text \<open>
  The floor for columns never refuses a column that exists: what it reports names a table of the catalog, no table of
  that name has the column, and the columns it suggests are columns of the catalog, each once and in order.
\<close>

theorem firstUnknownColumn_sound:
  "pred_option (report_ok catalog) (firstUnknownColumn columnList tableList sql catalog grammar)"
proof (cases "firstUnknownColumn columnList tableList sql catalog grammar")
  case (Some u)
  then obtain refs ref where ref: "ref \<in> set refs"
      "unknown_ref catalog (collectCteNames sql) (collectSelectAliases sql)
         (case tableList (withoutFetchTail sql) grammar of Some rels \<Rightarrow> fst (known_relations catalog (collectCteNames sql) rels) | None \<Rightarrow> [])
         ((case tableList (withoutFetchTail sql) grammar of Some rels \<Rightarrow> snd (known_relations catalog (collectCteNames sql) rels) | None \<Rightarrow> False)
            \<and> one_scope (withoutLiteralsAndComments sql)) ref = Some u"
    by (auto simp: firstUnknownColumn_def Let_def split: option.splits prod.splits dest!: first_some_SomeD)
  then have "report_ok catalog u"
    by (auto simp: unknown_ref_def unknown_bare_def [of _ _ "[]"] split: if_splits option.splits intro: unknown_bare_ok unknown_qualified_ok)
  with Some show ?thesis by simp
qed simp

text \<open>
  A column that a statement reads from a table of the catalog that does not have it is caught, whatever else
  the statement reads: unless the name is that of a common table expression, a system schema or an implicit column.
\<close>

theorem firstUnknownColumn_catches:
  assumes "columnList (withoutFetchTail sql) grammar = Some refs" "ref \<in> set refs"
    "\<not> no_column ref" "\<not> unqualified ref"
    "t \<in> set (k_tables catalog)" "toLowerCase (t_name t) = after_last_dot (part ref 1)"
    "\<not> has_column catalog (part ref 2) (after_last_dot (part ref 1))"
    "after_last_dot (part ref 1) \<notin> set (collectCteNames sql)" "after_last_dot (part ref 1) \<notin> set SYSTEM_SCHEMAS"
    "\<not> implicit_column catalog (part ref 2)"
  shows "firstUnknownColumn columnList tableList sql catalog grammar \<noteq> None"
proof -
  have "unknown_ref catalog (collectCteNames sql) aliases qs att ref \<noteq> None" for aliases qs att
    using assms(3-) by (auto simp: unknown_ref_def unknown_qualified_def by_table_None has_column_def Let_def split: option.splits)
  then have "first_some (unknown_ref catalog (collectCteNames sql) aliases qs att) refs \<noteq> None" for aliases qs att
    unfolding first_some_None using assms(2) by blast
  then show ?thesis unfolding firstUnknownColumn_def Let_def assms(1) case_prod_beta option.case .
qed

definition users_catalog :: SchemaCatalog where
  "users_catalog = example_catalog [example_table ''Users'' [''Id''] []]"

definition read_nam :: "string \<Rightarrow> string \<Rightarrow> string list option" where
  "read_nam sql grammar = Some [''select::users::nam'']"

definition read_users :: "string \<Rightarrow> string \<Rightarrow> string list option" where
  "read_users sql grammar = Some [''select::null::Users'']"

theorem firstUnknownColumn_catches_witness:
  "firstUnknownColumn read_nam read_users ''select users.nam from Users'' users_catalog ''sqlite'' \<noteq> None"
proof (rule firstUnknownColumn_catches [of _ _ _ "[''select::users::nam'']" "''select::users::nam''" "example_table ''Users'' [''Id''] []"])
  show "after_last_dot (part ''select::users::nam'' 1) \<notin> set (collectCteNames ''select users.nam from Users'')" by code_simp
qed (simp_all add: read_nam_def, code_simp+)

text \<open>
  The comment promises the table as the catalog spells it; for a qualified reference the report has it in small letters, the
  columns too, so the repair prompt names \<open>users.id\<close> where the catalog has \<open>Users.Id\<close>.
\<close>

theorem qualified_report_is_lower_case:
  "firstUnknownColumn read_nam read_users ''select users.nam from Users'' users_catalog ''sqlite''
     = Some \<lparr>uc_table = ''users'', uc_column = ''nam'', uc_available = [''id'']\<rparr>"
  by code_simp

end
