(* ===== verification/Transition_System.thy ===== *)
theory Transition_System
  imports Main
begin

text \<open>
  Reachable states of a step relation, for the components whose operations interleave: what an invariant has to show, and
  what holds along a run once it is monotone along a step.
\<close>

locale transition_system =
  fixes init :: "'s" and step :: "'s \<Rightarrow> 's \<Rightarrow> bool"
begin

definition reach :: "'s \<Rightarrow> bool" where
  "reach s \<longleftrightarrow> step\<^sup>*\<^sup>* init s"

lemma reach_init [simp, intro]: "reach init"
  by (simp add: reach_def)

lemma reach_step: "reach s \<Longrightarrow> step s t \<Longrightarrow> reach t"
  unfolding reach_def by (rule rtranclp.rtrancl_into_rtrancl)

lemma reach_run: "reach s \<Longrightarrow> step\<^sup>*\<^sup>* s t \<Longrightarrow> reach t"
  unfolding reach_def by (rule rtranclp_trans)

lemma invariant:
  assumes "reach s" "P init" "\<And>s t. reach s \<Longrightarrow> P s \<Longrightarrow> step s t \<Longrightarrow> P t"
  shows "P s"
  using assms(1) unfolding reach_def
  by (induction rule: rtranclp_induct) (use assms(2,3) in \<open>auto simp: reach_def\<close>)

lemma monotone_run:
  fixes f :: "'s \<Rightarrow> 'a :: preorder"
  assumes "step\<^sup>*\<^sup>* s t" "reach s" "\<And>s t. reach s \<Longrightarrow> step s t \<Longrightarrow> f s \<le> f t"
  shows "f s \<le> f t"
  using assms(1)
proof (induction rule: rtranclp_induct)
  case (step t u)
  then show ?case using assms(3) [of t u] reach_run [OF assms(2)] order_trans by blast
qed simp

end

end
