(* ===== verification/Catalog_Cache.thy ===== *)
theory Catalog_Cache
  imports Catalog Transition_System
begin

text \<open>
  The connections and the catalog cache of \<open>createAskSql\<close> in \<open>packages/core/src/engine.ts\<close>: \<open>ensureConnected\<close>,
  \<open>getCatalog\<close>, \<open>stripSampledValues\<close> and \<open>mayRefreshForStaleness\<close>. The functions are asynchronous and interleave at their
  awaits, so each is cut into the pieces that run without interruption: entering \<open>ensureConnected\<close>, the end of a \<open>connect\<close>,
  entering \<open>getCatalog\<close> once connected, and the end of an \<open>introspect\<close>. A step relation lets these pieces run in any order.
  A promise is a number; the clock and the answers of the connectors are arguments of the steps, about which nothing is assumed.

  The properties hold in every reachable state: a read that began before a refresh never overwrites what the refresh
  cached, at most one read of a connection may still write the cache and it is the one that callers join, a connection is opened
  at most once at a time, and no sampled cell value is served unless the host allowed it.
\<close>

section \<open>Model\<close>

definition CATALOG_TTL_MS :: int where "CATALOG_TTL_MS = 300000"
definition WARNED_CATALOG_TTL_MS :: int where "WARNED_CATALOG_TTL_MS = 30000"
definition STALE_REFRESH_COOLDOWN_MS :: int where "STALE_REFRESH_COOLDOWN_MS = 30000"

record cache_entry =
  ce_catalog :: SchemaCatalog
  ce_at :: int
  ce_ttl :: int

text \<open>A read in progress: its connection and the generation it captured when it began.\<close>

record catalog_read =
  rd_conn :: string
  rd_generation :: nat

record engine_state =
  connected :: "string list"
  connecting :: "string list"
  catalogCache :: "string \<rightharpoonup> cache_entry"
  inflight :: "string \<rightharpoonup> nat"
  catalogGeneration :: "string \<rightharpoonup> nat"
  staleRefreshAt :: "string \<rightharpoonup> int"
  reads :: "nat \<rightharpoonup> catalog_read"
  next_promise :: nat

definition createAskSql_state :: engine_state where
  "createAskSql_state = \<lparr>connected = [], connecting = [], catalogCache = Map.empty, inflight = Map.empty, catalogGeneration = Map.empty,
     staleRefreshAt = Map.empty, reads = Map.empty, next_promise = 0\<rparr>"

definition drop_samples :: "TableInfo \<Rightarrow> TableInfo" where
  "drop_samples t = t\<lparr>t_columns := map (\<lambda>c. c\<lparr>c_sampledValues := None\<rparr>) (t_columns t)\<rparr>"

definition has_samples :: "ColumnInfo \<Rightarrow> bool" where
  "has_samples c = (case c_sampledValues c of Some vs \<Rightarrow> vs \<noteq> [] | None \<Rightarrow> False)"

definition stripSampledValues :: "SchemaCatalog \<Rightarrow> bool \<Rightarrow> SchemaCatalog" where
  "stripSampledValues catalog allowed =
     (if allowed then catalog
      else if \<not> list_ex (\<lambda>t. list_ex has_samples (t_columns t)) (k_tables catalog) then catalog
      else catalog\<lparr>k_tables := map drop_samples (k_tables catalog)\<rparr>)"

text \<open>\<open>ensureConnected\<close>: what a caller finds on entering, and the end of the \<open>connect\<close> it shares.\<close>

datatype connect_outcome = AlreadyConnected | SharesConnect | StartsConnect

definition ensureConnected :: "engine_state \<Rightarrow> string \<Rightarrow> connect_outcome \<times> engine_state" where
  "ensureConnected st conn =
     (if conn \<in> set (connected st) then (AlreadyConnected, st)
      else if conn \<in> set (connecting st) then (SharesConnect, st)
      else (StartsConnect, st\<lparr>connecting := conn # connecting st\<rparr>))"

definition connect_done :: "engine_state \<Rightarrow> string \<Rightarrow> thrown option \<Rightarrow> AskSqlError option \<times> engine_state" where
  "connect_done st conn failure =
     (let st' = st\<lparr>connecting := filter (\<lambda>c. c \<noteq> conn) (connecting st)\<rparr> in
      case failure of
        None \<Rightarrow> (None, st'\<lparr>connected := conn # connected st\<rparr>)
      | Some err \<Rightarrow> (Some (AskSqlError_from err DBUnreachable), st'))"

definition mayRefreshForStaleness :: "engine_state \<Rightarrow> string \<Rightarrow> int \<Rightarrow> bool \<times> engine_state" where
  "mayRefreshForStaleness st conn now =
     (let last' = (case staleRefreshAt st conn of Some t \<Rightarrow> t | None \<Rightarrow> 0) in
      if now - last' < STALE_REFRESH_COOLDOWN_MS then (False, st)
      else (True, st\<lparr>staleRefreshAt := (staleRefreshAt st)(conn \<mapsto> now)\<rparr>))"

text \<open>\<open>getCatalog\<close> once connected: the cached catalog, the promise of a read in progress, or that of a new read.\<close>

datatype catalog_outcome = Served SchemaCatalog | Joins nat | Starts nat

definition generation_of :: "engine_state \<Rightarrow> string \<Rightarrow> nat" where
  "generation_of st conn = (case catalogGeneration st conn of Some g \<Rightarrow> g | None \<Rightarrow> 0)"

definition start_read :: "engine_state \<Rightarrow> string \<Rightarrow> bool \<Rightarrow> catalog_outcome \<times> engine_state" where
  "start_read st conn refresh =
     (let generation = (if refresh then generation_of st conn + 1 else generation_of st conn); p = next_promise st in
      (Starts p, st\<lparr>catalogGeneration := (if refresh then (catalogGeneration st)(conn \<mapsto> generation) else catalogGeneration st),
                    inflight := (inflight st)(conn \<mapsto> p),
                    reads := (reads st)(p \<mapsto> \<lparr>rd_conn = conn, rd_generation = generation\<rparr>),
                    next_promise := p + 1\<rparr>))"

definition getCatalog :: "engine_state \<Rightarrow> string \<Rightarrow> bool \<Rightarrow> int \<Rightarrow> catalog_outcome \<times> engine_state" where
  "getCatalog st conn refresh now =
     (case (if refresh then None else catalogCache st conn) of
        Some entry' \<Rightarrow>
          (if now - ce_at entry' < ce_ttl entry' then (Served (ce_catalog entry'), st)
           else (case inflight st conn of Some p \<Rightarrow> (Joins p, st) | None \<Rightarrow> start_read st conn refresh))
      | None \<Rightarrow>
          (case (if refresh then None else inflight st conn) of
             Some p \<Rightarrow> (Joins p, st)
           | None \<Rightarrow> start_read st conn refresh))"

text \<open>The end of a read, with what \<open>introspect\<close> answered: what its promise settles to, and the cache.\<close>

definition unreadable :: "SchemaCatalog \<Rightarrow> AskSqlError" where
  "unreadable catalog = new_AskSqlError DBQueryError
     \<lparr>o_userMessage = Some ''Could not read this database's schema. Check the connection's permissions, then try again.'',
      o_detail = Some (''introspection returned no tables with warnings: '' @ take 500 (join ''; '' (k_warnings catalog))),
      o_retryable = Some True\<rparr>"

definition settle :: "bool \<Rightarrow> thrown + SchemaCatalog \<Rightarrow> thrown + SchemaCatalog" where
  "settle allowed answer =
     (case answer of
        Inl err \<Rightarrow> Inl err
      | Inr raw \<Rightarrow>
          (let catalog = stripSampledValues raw allowed in
           if k_tables catalog = [] \<and> k_warnings catalog \<noteq> [] then Inl (ThrownAskSql (unreadable catalog)) else Inr catalog))"

definition ttl_of :: "SchemaCatalog \<Rightarrow> int" where
  "ttl_of catalog = (if k_warnings catalog \<noteq> [] then WARNED_CATALOG_TTL_MS else CATALOG_TTL_MS)"

definition release :: "engine_state \<Rightarrow> nat \<Rightarrow> catalog_read \<Rightarrow> engine_state" where
  "release st p r =
     st\<lparr>reads := (reads st)(p := None),
        inflight := (if inflight st (rd_conn r) = Some p then (inflight st)(rd_conn r := None) else inflight st)\<rparr>"

definition read_done :: "bool \<Rightarrow> engine_state \<Rightarrow> nat \<Rightarrow> catalog_read \<Rightarrow> thrown + SchemaCatalog \<Rightarrow> int \<Rightarrow> (thrown + SchemaCatalog) \<times> engine_state" where
  "read_done allowed st p r answer now =
     (case settle allowed answer of
        Inl err \<Rightarrow> (Inl err, release st p r)
      | Inr catalog \<Rightarrow>
          (Inr catalog,
           release
             (if generation_of st (rd_conn r) = rd_generation r
              then st\<lparr>catalogCache := (catalogCache st)(rd_conn r \<mapsto> \<lparr>ce_catalog = catalog, ce_at = now, ce_ttl = ttl_of catalog\<rparr>)\<rparr>
              else st) p r))"

section \<open>Steps\<close>

text \<open>The pieces of all callers, in any order: whoever waits for a connection or a read is not part of the state.\<close>

inductive engine_step :: "bool \<Rightarrow> engine_state \<Rightarrow> engine_state \<Rightarrow> bool" for allowed where
  connect_begins: "engine_step allowed st (snd (ensureConnected st conn))"
| connect_ends: "conn \<in> set (connecting st) \<Longrightarrow> engine_step allowed st (snd (connect_done st conn failure))"
| looks_stale: "engine_step allowed st (snd (mayRefreshForStaleness st conn now))"
| catalog_asked: "conn \<in> set (connected st) \<Longrightarrow> engine_step allowed st (snd (getCatalog st conn refresh now))"
| read_ends: "reads st p = Some r \<Longrightarrow> engine_step allowed st (snd (read_done allowed st p r answer now))"

interpretation eng: transition_system createAskSql_state "engine_step allowed" for allowed .

lemmas engine_defs = ensureConnected_def connect_done_def mayRefreshForStaleness_def getCatalog_def start_read_def read_done_def release_def Let_def

lemma getCatalog_cases:
  obtains (served) e where "getCatalog st conn refresh now = (Served (ce_catalog e), st)" "catalogCache st conn = Some e" "now - ce_at e < ce_ttl e" "\<not> refresh"
  | (joins) p where "getCatalog st conn refresh now = (Joins p, st)" "inflight st conn = Some p" "\<not> refresh"
  | (starts) "getCatalog st conn refresh now = start_read st conn refresh" "refresh \<or> inflight st conn = None"
proof (cases "\<not> refresh \<and> (\<exists>e. catalogCache st conn = Some e \<and> now - ce_at e < ce_ttl e)")
  case True
  then show ?thesis using served by (auto simp: getCatalog_def)
next
  case False
  show ?thesis
  proof (cases "refresh \<or> inflight st conn = None")
    case True
    with False show ?thesis by (intro starts) (auto simp: getCatalog_def split: option.splits)
  next
    case busy: False
    then obtain p where "inflight st conn = Some p" by auto
    with False busy show ?thesis by (intro joins [of p]) (auto simp: getCatalog_def split: option.splits)
  qed
qed

lemma start_read_sel [simp]:
  "connected (snd (start_read st conn refresh)) = connected st"
  "connecting (snd (start_read st conn refresh)) = connecting st"
  "catalogCache (snd (start_read st conn refresh)) = catalogCache st"
  "staleRefreshAt (snd (start_read st conn refresh)) = staleRefreshAt st"
  "inflight (snd (start_read st conn refresh)) = (inflight st)(conn \<mapsto> next_promise st)"
  "reads (snd (start_read st conn refresh)) =
     (reads st)(next_promise st \<mapsto> \<lparr>rd_conn = conn, rd_generation = generation_of st conn + (if refresh then 1 else 0)\<rparr>)"
  "next_promise (snd (start_read st conn refresh)) = next_promise st + 1"
  "generation_of (snd (start_read st conn refresh)) c = generation_of st c + (if refresh \<and> c = conn then 1 else 0)"
  by (auto simp: start_read_def Let_def generation_of_def)

lemma read_done_sel [simp]:
  "connected (snd (read_done allowed st p r answer now)) = connected st"
  "connecting (snd (read_done allowed st p r answer now)) = connecting st"
  "staleRefreshAt (snd (read_done allowed st p r answer now)) = staleRefreshAt st"
  "reads (snd (read_done allowed st p r answer now)) = (reads st)(p := None)"
  "inflight (snd (read_done allowed st p r answer now)) =
     (if inflight st (rd_conn r) = Some p then (inflight st)(rd_conn r := None) else inflight st)"
  "next_promise (snd (read_done allowed st p r answer now)) = next_promise st"
  "generation_of (snd (read_done allowed st p r answer now)) c = generation_of st c"
  by (auto simp: read_done_def release_def generation_of_def split: sum.splits)

lemma read_done_cache:
  "catalogCache (snd (read_done allowed st p r answer now)) =
     (case settle allowed answer of
        Inr catalog \<Rightarrow> if generation_of st (rd_conn r) = rd_generation r
                         then (catalogCache st)(rd_conn r \<mapsto> \<lparr>ce_catalog = catalog, ce_at = now, ce_ttl = ttl_of catalog\<rparr>)
                         else catalogCache st
      | Inl _ \<Rightarrow> catalogCache st)"
  by (auto simp: read_done_def release_def split: sum.splits)

lemma other_steps_sel [simp]:
  "generation_of (snd (ensureConnected st conn)) c = generation_of st c"
  "inflight (snd (ensureConnected st conn)) = inflight st"
  "reads (snd (ensureConnected st conn)) = reads st"
  "next_promise (snd (ensureConnected st conn)) = next_promise st"
  "catalogCache (snd (ensureConnected st conn)) = catalogCache st"
  "generation_of (snd (connect_done st conn failure)) c = generation_of st c"
  "inflight (snd (connect_done st conn failure)) = inflight st"
  "reads (snd (connect_done st conn failure)) = reads st"
  "next_promise (snd (connect_done st conn failure)) = next_promise st"
  "catalogCache (snd (connect_done st conn failure)) = catalogCache st"
  "generation_of (snd (mayRefreshForStaleness st conn now)) c = generation_of st c"
  "inflight (snd (mayRefreshForStaleness st conn now)) = inflight st"
  "reads (snd (mayRefreshForStaleness st conn now)) = reads st"
  "next_promise (snd (mayRefreshForStaleness st conn now)) = next_promise st"
  "catalogCache (snd (mayRefreshForStaleness st conn now)) = catalogCache st"
  "connected (snd (mayRefreshForStaleness st conn now)) = connected st"
  "connecting (snd (mayRefreshForStaleness st conn now)) = connecting st"
  by (auto simp: ensureConnected_def connect_done_def mayRefreshForStaleness_def generation_of_def Let_def split: option.splits)

text \<open>Every step, as far as connections, reads and the cache are concerned.\<close>

lemma engine_step_cases:
  assumes "engine_step allowed st st'"
  obtains (quiet) "catalogCache st' = catalogCache st" "inflight st' = inflight st" "reads st' = reads st" "next_promise st' = next_promise st"
      "generation_of st' = generation_of st"
  | (starts) conn refresh where "conn \<in> set (connected st)" "st' = snd (start_read st conn refresh)" "refresh \<or> inflight st conn = None"
  | (ends) p r answer now where "reads st p = Some r" "st' = snd (read_done allowed st p r answer now)"
  using assms
proof cases
  case (catalog_asked conn refresh now)
  show ?thesis
    by (cases rule: getCatalog_cases [of st conn refresh now]) (use catalog_asked quiet starts in auto)
qed (use quiet ends in \<open>auto simp: fun_eq_iff\<close>)

section \<open>Invariants\<close>

text \<open>
  Promises are fresh, no read is ahead of its connection's generation, and the reads of the current generation are exactly the
  ones in flight.
\<close>

definition read_ok :: "engine_state \<Rightarrow> nat \<Rightarrow> catalog_read \<Rightarrow> bool" where
  "read_ok st p r \<longleftrightarrow>
     p < next_promise st \<and> rd_generation r \<le> generation_of st (rd_conn r)
     \<and> (rd_generation r = generation_of st (rd_conn r) \<longleftrightarrow> inflight st (rd_conn r) = Some p)"

definition reads_ok :: "engine_state \<Rightarrow> bool" where
  "reads_ok st \<longleftrightarrow>
     (\<forall>p r. reads st p = Some r \<longrightarrow> read_ok st p r)
     \<and> (\<forall>conn p. inflight st conn = Some p \<longrightarrow> (\<exists>r. reads st p = Some r \<and> rd_conn r = conn))"

lemma reads_okD: "reads_ok st \<Longrightarrow> reads st p = Some r \<Longrightarrow> read_ok st p r"
  by (simp add: reads_ok_def)

lemma inflight_okD: "reads_ok st \<Longrightarrow> inflight st conn = Some p \<Longrightarrow> \<exists>r. reads st p = Some r \<and> rd_conn r = conn"
  unfolding reads_ok_def by blast

lemma reads_ok_start:
  assumes ok: "reads_ok st" and free: "refresh \<or> inflight st conn = None"
  shows "reads_ok (snd (start_read st conn refresh))"
proof -
  let ?st' = "snd (start_read st conn refresh)"
  have fresh: "reads st (next_promise st) = None"
    using reads_okD [OF ok, of "next_promise st"] by (cases "reads st (next_promise st)") (auto simp: read_ok_def)
  have "read_ok ?st' p r" if "reads ?st' p = Some r" for p r
  proof (cases "p = next_promise st")
    case True
    with that show ?thesis by (auto simp: read_ok_def)
  next
    case False
    then have "read_ok st p r" using that reads_okD [OF ok] by simp
    with free False show ?thesis by (auto simp: read_ok_def)
  qed
  moreover have "\<exists>r. reads ?st' p = Some r \<and> rd_conn r = c" if "inflight ?st' c = Some p" for c p
  proof (cases "c = conn")
    case False
    with that have "inflight st c = Some p" by simp
    from inflight_okD [OF ok this] fresh show ?thesis by auto
  qed (use that in simp)
  ultimately show ?thesis unfolding reads_ok_def by blast
qed

lemma reads_ok_end:
  assumes ok: "reads_ok st" and p: "reads st p = Some r"
  shows "reads_ok (snd (read_done allowed st p r answer now))"
proof -
  let ?st' = "snd (read_done allowed st p r answer now)"
  have "read_ok ?st' q s" if "reads ?st' q = Some s" for q s
  proof -
    have "q \<noteq> p" "reads st q = Some s" using that by (auto split: if_splits)
    then show ?thesis using reads_okD [OF ok, of q s] by (auto simp: read_ok_def)
  qed
  moreover have "\<exists>s. reads ?st' q = Some s \<and> rd_conn s = c" if "inflight ?st' c = Some q" for c q
  proof -
    have "inflight st c = Some q" and other: "c = rd_conn r \<longrightarrow> q \<noteq> p" using that by (auto split: if_splits)
    then obtain s where "reads st q = Some s" "rd_conn s = c" using inflight_okD [OF ok] by blast
    then show ?thesis using other p by auto
  qed
  ultimately show ?thesis unfolding reads_ok_def by blast
qed

lemma reads_ok_reach: "eng.reach allowed st \<Longrightarrow> reads_ok st"
proof (rule eng.invariant [where P = reads_ok])
  show "reads_ok createAskSql_state" by (simp add: reads_ok_def createAskSql_state_def)
  show "reads_ok st'" if "reads_ok st" "engine_step allowed st st'" for st st'
    using that(2)
  proof (cases rule: engine_step_cases)
    case quiet
    with that(1) show ?thesis by (simp add: reads_ok_def read_ok_def)
  next
    case (starts conn refresh)
    with reads_ok_start [OF that(1)] show ?thesis by simp
  next
    case (ends p r answer now)
    with reads_ok_end [OF that(1)] show ?thesis by simp
  qed
qed

lemma generation_mono: "engine_step allowed st st' \<Longrightarrow> generation_of st c \<le> generation_of st' c"
  by (erule engine_step_cases) simp_all

text \<open>What is cached: the answer of a read, stripped unless allowed, readable, with the lifetime its warnings give it.\<close>

definition shows_no_cells :: "SchemaCatalog \<Rightarrow> bool" where
  "shows_no_cells catalog \<longleftrightarrow> \<not> list_ex (\<lambda>t. list_ex has_samples (t_columns t)) (k_tables catalog)"

lemma stripSampledValues_strips: "shows_no_cells (stripSampledValues catalog False)"
  by (auto simp: shows_no_cells_def stripSampledValues_def drop_samples_def has_samples_def list_ex_iff)

definition usable :: "bool \<Rightarrow> SchemaCatalog \<Rightarrow> bool" where
  "usable allowed catalog \<longleftrightarrow> (allowed \<or> shows_no_cells catalog) \<and> (k_tables catalog \<noteq> [] \<or> k_warnings catalog = [])"

lemma settle_usable: "settle allowed answer = Inr catalog \<Longrightarrow> usable allowed catalog"
  using stripSampledValues_strips by (cases allowed) (auto simp: settle_def usable_def Let_def split: sum.splits if_splits)

definition cache_ok :: "bool \<Rightarrow> engine_state \<Rightarrow> bool" where
  "cache_ok allowed st \<longleftrightarrow>
     (\<forall>conn e. catalogCache st conn = Some e \<longrightarrow> usable allowed (ce_catalog e) \<and> ce_ttl e = ttl_of (ce_catalog e))"

lemma cache_ok_reach: "eng.reach allowed st \<Longrightarrow> cache_ok allowed st"
proof (rule eng.invariant [where P = "cache_ok allowed"])
  show "cache_ok allowed createAskSql_state" by (simp add: cache_ok_def createAskSql_state_def)
  show "cache_ok allowed st'" if "cache_ok allowed st" "engine_step allowed st st'" for st st'
    using that(2)
  proof (cases rule: engine_step_cases)
    case (ends p r answer now)
    with that(1) show ?thesis
      by (auto simp: cache_ok_def read_done_cache settle_usable split: sum.splits if_splits)
  qed (use that(1) in \<open>auto simp: cache_ok_def\<close>)
qed

text \<open>An example: a connection is opened and its catalog asked for; the read is in progress, then it ends.\<close>

definition opened :: engine_state where
  "opened = snd (connect_done (snd (ensureConnected createAskSql_state ''db'')) ''db'' None)"

definition asking :: engine_state where
  "asking = snd (getCatalog opened ''db'' False 0)"

definition answered :: engine_state where
  "answered = snd (read_done False asking 0 \<lparr>rd_conn = ''db'', rd_generation = 0\<rparr> (Inr (example_catalog [example_table ''t'' [''c''] []])) 5)"

lemma opened_reach: "eng.reach allowed opened"
  unfolding opened_def
  by (rule eng.reach_step [OF eng.reach_step [OF eng.reach_init engine_step.connect_begins]], rule engine_step.connect_ends) code_simp

lemma asking_reach: "eng.reach allowed asking"
  unfolding asking_def by (rule eng.reach_step [OF opened_reach], rule engine_step.catalog_asked) code_simp

lemma asking_read: "reads asking 0 = Some \<lparr>rd_conn = ''db'', rd_generation = 0\<rparr>"
  by code_simp

lemma answered_reach: "eng.reach False answered"
  unfolding answered_def by (rule eng.reach_step [OF asking_reach], rule engine_step.read_ends) (rule asking_read)

section \<open>Properties\<close>

text \<open>
  C34: a read that began before a refresh never reinstates what it read: whatever happens after the refresh, when such a read
  ends the cache stays as it is.
\<close>

theorem refresh_outdates_older_reads:
  assumes "eng.reach allowed st" "reads st p = Some r"
    "(engine_step allowed)\<^sup>*\<^sup>* (snd (getCatalog st (rd_conn r) True now)) st'"
    "rd_conn r \<in> set (connected st)"
  shows "catalogCache (snd (read_done allowed st' p r answer now')) = catalogCache st'"
proof -
  let ?st1 = "snd (getCatalog st (rd_conn r) True now)"
  have "rd_generation r \<le> generation_of st (rd_conn r)"
    using reads_okD [OF reads_ok_reach [OF assms(1)] assms(2)] by (simp add: read_ok_def)
  also have "\<dots> < generation_of ?st1 (rd_conn r)" by (simp add: getCatalog_def)
  also have "\<dots> \<le> generation_of st' (rd_conn r)"
  proof (rule eng.monotone_run [OF assms(3)])
    show "eng.reach allowed ?st1" using eng.reach_step [OF assms(1)] engine_step.catalog_asked [OF assms(4)] by blast
  qed (rule generation_mono)
  finally show ?thesis by (auto simp: read_done_cache split: sum.splits)
qed

theorem refresh_outdates_older_reads_witness:
  "catalogCache (snd (read_done False (snd (getCatalog asking ''db'' True 1)) 0 \<lparr>rd_conn = ''db'', rd_generation = 0\<rparr>
     (Inr (example_catalog [])) 2)) ''db'' = None"
proof -
  have "catalogCache (snd (getCatalog asking ''db'' True 1)) ''db'' = None" by code_simp
  moreover have "''db'' \<in> set (connected asking)" by code_simp
  ultimately show ?thesis
    using refresh_outdates_older_reads [OF asking_reach [of False] asking_read, of 1 "snd (getCatalog asking ''db'' True 1)"] by simp
qed

text \<open>
  C35: reads are shared: of the reads of a connection in progress at most one may still write the cache, it is the one that
  a caller joins, and a caller never joins a read that has ended.
\<close>

theorem catalog_reads_shared:
  assumes "eng.reach allowed st"
  shows "((\<exists>r. reads st p = Some r \<and> rd_conn r = conn \<and> rd_generation r = generation_of st conn) \<longleftrightarrow> inflight st conn = Some p)
    \<and> (fst (getCatalog st conn refresh now) = Joins p \<longrightarrow> reads st p \<noteq> None)"
proof -
  note ok = reads_ok_reach [OF assms]
  have "(\<exists>r. reads st p = Some r \<and> rd_conn r = conn \<and> rd_generation r = generation_of st conn) \<longleftrightarrow> inflight st conn = Some p" (is "?l \<longleftrightarrow> ?r")
  proof
    assume ?l
    then show ?r using reads_okD [OF ok] by (auto simp: read_ok_def)
  next
    assume ?r
    from inflight_okD [OF ok this] obtain r where r: "reads st p = Some r" "rd_conn r = conn" by blast
    with \<open>?r\<close> reads_okD [OF ok r(1)] show ?l by (auto simp: read_ok_def)
  qed
  moreover have "reads st p \<noteq> None" if "fst (getCatalog st conn refresh now) = Joins p"
    by (cases rule: getCatalog_cases [of st conn refresh now]) (use that in \<open>auto simp: start_read_def Let_def dest: inflight_okD [OF ok]\<close>)
  ultimately show ?thesis by blast
qed

theorem catalog_reads_shared_witness: "inflight asking ''db'' = Some 0 \<and> fst (getCatalog asking ''db'' False 3) = Joins 0"
  using catalog_reads_shared [OF asking_reach [of False], of 0 "''db''" False 3] asking_read
  by (auto simp: generation_of_def getCatalog_def asking_def opened_def ensureConnected_def connect_done_def createAskSql_state_def start_read_def Let_def)

text \<open>
  A connection is opened at most once at a time, and never again once it is open.
\<close>

theorem connects_once:
  assumes "eng.reach allowed st"
  shows "distinct (connecting st @ connected st)"
  using assms
proof (rule eng.invariant)
  show "distinct (connecting createAskSql_state @ connected createAskSql_state)" by (simp add: createAskSql_state_def)
  show "distinct (connecting st' @ connected st')" if "distinct (connecting st @ connected st)" "engine_step allowed st st'" for st st'
    using that(2)
  proof cases
    case (connect_begins conn)
    with that(1) show ?thesis by (auto simp: ensureConnected_def)
  next
    case (connect_ends conn failure)
    with that(1) show ?thesis by (cases failure) (auto simp: connect_done_def)
  next
    case (catalog_asked conn refresh now)
    then show ?thesis by (cases rule: getCatalog_cases [of st conn refresh now]) (use that(1) in auto)
  qed (use that(1) in auto)
qed

theorem connects_once_witness: "distinct (connecting opened @ connected opened) \<and> ''db'' \<in> set (connected opened)"
proof -
  have "''db'' \<in> set (connected opened)" by code_simp
  with connects_once [OF opened_reach] show ?thesis by blast
qed

text \<open>
  What a caller is served from the cache is fresh and private: the read that cached it ended less than five minutes ago, half a
  minute if it came with warnings; it is not the empty catalog of a failed introspection; and unless the host allowed
  data in prompts no column in it carries a sampled cell value.
\<close>

theorem served_catalog_is_fresh:
  assumes "eng.reach allowed st" "getCatalog st conn refresh now = (Served catalog, st')"
  shows "st' = st \<and> \<not> refresh \<and> usable allowed catalog
    \<and> (\<exists>e. catalogCache st conn = Some e \<and> ce_catalog e = catalog \<and> now - ce_at e < (if k_warnings catalog \<noteq> [] then 30000 else 300000))"
proof (cases rule: getCatalog_cases [of st conn refresh now])
  case (served e)
  with cache_ok_reach [OF assms(1)] assms(2) show ?thesis
    by (auto simp: cache_ok_def ttl_of_def CATALOG_TTL_MS_def WARNED_CATALOG_TTL_MS_def)
qed (use assms(2) in \<open>auto simp: start_read_def Let_def\<close>)

theorem served_catalog_is_fresh_witness:
  "usable False (example_catalog [example_table ''t'' [''c''] []])"
proof -
  have "getCatalog answered ''db'' False 9 = (Served (example_catalog [example_table ''t'' [''c''] []]), answered)"
    by (cases rule: getCatalog_cases [of answered "''db''" False 9])
      (auto simp: answered_def asking_def opened_def ensureConnected_def connect_done_def createAskSql_state_def getCatalog_def start_read_def
        read_done_def release_def settle_def stripSampledValues_def generation_of_def ttl_of_def CATALOG_TTL_MS_def
        example_catalog_def example_table_def example_column_def has_samples_def Let_def)
  from served_catalog_is_fresh [OF answered_reach this] show ?thesis by blast
qed

text \<open>
  At most one re-read for staleness in half a minute: after one was granted, none is granted for that connection
  until the clock has moved on by the cooldown.
\<close>

theorem stale_refresh_cools_down:
  assumes "mayRefreshForStaleness st conn now = (True, st')" "now' < now + 30000"
  shows "mayRefreshForStaleness st' conn now' = (False, st')"
  using assms by (auto simp: mayRefreshForStaleness_def STALE_REFRESH_COOLDOWN_MS_def Let_def split: if_splits)

theorem stale_refresh_cools_down_witness:
  "\<exists>st'. mayRefreshForStaleness opened ''db'' 40000 = (True, st') \<and> mayRefreshForStaleness st' ''db'' 69999 = (False, st')"
proof -
  have "fst (mayRefreshForStaleness opened ''db'' 40000)" by code_simp
  then obtain st' where st': "mayRefreshForStaleness opened ''db'' 40000 = (True, st')" by (metis prod.collapse)
  with stale_refresh_cools_down [OF this, of 69999] show ?thesis by auto
qed

end
