(* ===== verification/Scope.thy ===== *)
theory Scope
  imports JS_Regex Prompts
begin

text \<open>
  \<open>packages/core/src/scope.ts\<close>: what AskSQL answers at all. The regular expressions are translated symbol by
  symbol; characters above U+00FF are not in the model's alphabet, so the alternative apostrophe U+2019 and the test for scripts
  without word spacing have no counterpart here. The scope
  tests route a question before any model call; the engine's model uses them as they are.
\<close>

section \<open>Model\<close>

text \<open>The letters of \<open>\p{Lu}\<close> and \<open>\p{Ll}\<close> up to U+00FF.\<close>

definition is_capital :: "char \<Rightarrow> bool" where
  "is_capital c \<longleftrightarrow> is_upper c \<or> (192 \<le> code c \<and> code c \<le> 222 \<and> code c \<noteq> 215)"

definition is_small :: "char \<Rightarrow> bool" where
  "is_small c \<longleftrightarrow> is_lower c \<or> code c = 181 \<or> (223 \<le> code c \<and> code c \<noteq> 247)"

record SchemaAnswer =
  sa_answer :: string
  sa_tables :: "string list"
  sa_grounded :: bool
  sa_unknownReferences :: "string list"
  sa_isSchemaChange :: bool
  sa_proposedSql :: "string option"

definition OFF_TOPIC_MAX_REPLY_LENGTH :: nat where "OFF_TOPIC_MAX_REPLY_LENGTH = 120"

definition SENTINEL_BODY :: regex where
  "SENTINEL_BODY =
     cats [lits ''OUT'', one_of ''_-'', lits ''OF'', one_of ''_-'', lits ''SCOPE'']"

definition SENTINEL_SPACED :: regex where
  "SENTINEL_SPACED =
     cats [lits ''OUT'', ws, lits ''OF'', ws, lits ''SCOPE'']"

definition SENTINEL_BODY_CI :: regex where
  "SENTINEL_BODY_CI =
     cats [cis ''OUT'', one_of ''_-'', cis ''OF'', one_of ''_-'', cis ''SCOPE'']"

definition non_word :: regex where "non_word = Chr (\<lambda>c. \<not> is_word c)"

definition OFF_TOPIC_RE :: regex where
  "OFF_TOPIC_RE = cats [Group 1 (ors [Bol, non_word]), ors [SENTINEL_BODY, SENTINEL_SPACED], Group 2 (ors [non_word, Eol])]"

definition OPENS_OFF_TOPIC :: regex where
  "OPENS_OFF_TOPIC = cats [Bol, upto_times 3 non_word, ors [SENTINEL_BODY, SENTINEL_SPACED], WordB]"

definition OPENS_OFF_TOPIC_CI :: regex where
  "OPENS_OFF_TOPIC_CI = cats [Bol, upto_times 3 non_word, SENTINEL_BODY_CI, WordB]"

definition ONLY_OFF_TOPIC :: regex where
  "ONLY_OFF_TOPIC = cats [Bol, Star non_word, SENTINEL_BODY_CI, Star non_word, Eol]"

definition isOffTopic :: "string \<Rightarrow> bool" where
  "isOffTopic answer =
     (let trimmed = trim answer in
      if re_test OPENS_OFF_TOPIC trimmed then True
      else if re_test OPENS_OFF_TOPIC_CI trimmed then True
      else if length trimmed > OFF_TOPIC_MAX_REPLY_LENGTH then False
      else if re_test OFF_TOPIC_RE trimmed then True
      else re_test ONLY_OFF_TOPIC trimmed)"

definition OFF_TOPIC_CI_RE :: regex where
  "OFF_TOPIC_CI_RE = cats [Group 1 (ors [Bol, non_word]), SENTINEL_BODY_CI, Group 2 (ors [non_word, Eol])]"

definition BLANKS :: regex where
  "BLANKS = cats [exactly 2 (one_of [SPACE, CHR 0x09]), Star (one_of [SPACE, CHR 0x09])]"

definition stripSentinel :: "string \<Rightarrow> string" where
  "stripSentinel answer =
     (let stripped = replace_all OFF_TOPIC_CI_RE (replace_all OFF_TOPIC_RE answer (\<lambda>_. '' '')) (\<lambda>_. '' '') in
      if stripped = answer then answer
      else trim (replace_all BLANKS stripped (\<lambda>_. '' '')))"

definition MODEL_REFUSAL_RE :: regex where
  "MODEL_REFUSAL_RE =
     cats [WordB, Group 1 (ors [cats [cis ''i can'', ors [cis ''no'', one_of [SQUOTE]], cis ''t''], cis ''i cannot'', cis ''i am unable'',
     cats [cis ''i'', one_of [SQUOTE], cis ''m unable''], cats [cis ''i'', one_of [SQUOTE], cis ''m sorry''], cis ''as an ai'']), WordB]"

definition PROSE_REFUSAL_MAX_LENGTH :: nat where "PROSE_REFUSAL_MAX_LENGTH = 400"

definition isProseRefusal :: "string \<Rightarrow> bool \<Rightarrow> bool" where
  "isProseRefusal answer mentionsSchema =
     (if mentionsSchema then False
      else length (trim answer) \<le> PROSE_REFUSAL_MAX_LENGTH \<and> re_test MODEL_REFUSAL_RE (trim answer))"

text \<open>\<open>split(/\s+/).filter(Boolean)\<close>: the runs of characters that are no spaces.\<close>

fun space_words :: "string \<Rightarrow> string \<Rightarrow> string list" where
  "space_words w [] = (if w = [] then [] else [w])"
| "space_words w (c # cs) =
     (if is_space c then (if w = [] then space_words [] cs else w # space_words [] cs)
      else space_words (w @ [c]) cs)"

definition isDegenerateAnswer :: "string \<Rightarrow> bool" where
  "isDegenerateAnswer answer =
     (let trimmed = trim answer in
      if length trimmed \<ge> 60 then False
      else length (space_words [] trimmed) < 4 \<or> \<not> re_test (exactly 3 (Chr is_small)) trimmed)"

definition STRONG_VOCABULARY_RE :: regex where
  "STRONG_VOCABULARY_RE =
     cats [WordB, Group 1 (ors [cis ''database'', cis ''databases'', cis ''db'', cis ''dbs'', cis ''dbms'', cis ''rdbms'', cis ''table'', cis ''tables'',
     cis ''column'', cis ''columns'', cis ''schema'', cis ''schemas'', cis ''catalog'', cis ''sql'', cis ''query'', cis ''queries'', cis ''statement'',
     cis ''statements'', cis ''subquery'', cis ''cte'', cis ''select'', cis ''insert'', cis ''update'', cis ''delete'', cis ''drop'', cis ''alter'',
     cis ''truncate'', cis ''merge'', cis ''upsert'', cis ''join'', cis ''joins'', cis ''inner join'', cis ''outer join'', cis ''group by'',
     cis ''order by'', cis ''having'', cis ''where clause'', cis ''window function'', cis ''aggregate'', cis ''aggregation'', cis ''pipeline'',
     cis ''indexes'', cis ''indices'', cis ''primary key'', cis ''foreign key'', cis ''unique'', cis ''constraint'', cis ''constraints'', cis ''trigger'',
     cis ''triggers'', cis ''materialized view'', cis ''procedure'', cis ''procedures'', cis ''routine'', cis ''routines'', cis ''sequence'',
     cis ''sequences'', cis ''partition'', cis ''partitions'', cis ''partitioning'', cis ''shard'', cis ''sharding'', cis ''replica'',
     cis ''replication'', cis ''tablespace'', cis ''cursor'', cis ''transaction'', cis ''transactions'', cis ''commit'', cis ''rollback'',
     cis ''isolation'', cis ''deadlock'', cis ''vacuum'', cis ''cardinality'', cis ''selectivity'', cis ''explain'', cis ''query plan'',
     cis ''execution plan'', cats [cis ''normali'', Chr (\<lambda>c. lower c = CHR ''s'' \<or> lower c = CHR ''z''), Star (Chr is_word)],
     cats [cis ''denormali'', Chr (\<lambda>c. lower c = CHR ''s'' \<or> lower c = CHR ''z''), Star (Chr is_word)], cis ''migration'', cis ''migrations'',
     cis ''migrate'', cis ''autoincrement'', cis ''datatype'', cis ''data type'', cis ''varchar'', cis ''integer'', cis ''bigint'', cis ''numeric'',
     cis ''decimal'', cis ''boolean'', cis ''timestamp'', cis ''datetime'', cis ''blob'', cis ''clob'', cis ''jsonb'', cis ''uuid'', cis ''nullable'',
     cis ''erd'', cis ''bson'', cis ''objectid'', cis ''collection'', cis ''collections'', cis ''document'', cis ''documents'', cis ''postgres'',
     cis ''postgresql'', cis ''pgsql'', cis ''mysql'', cis ''mariadb'', cis ''oracle'', cis ''plsql'', cis ''sqlite'', cis ''duckdb'', cis ''mongo'',
     cis ''mongodb'', cis ''redis'', cis ''mssql'', cis ''sql server'', cis ''sqlserver'', cis ''snowflake'', cis ''bigquery'', cis ''redshift'',
     cis ''clickhouse'', cis ''cockroach'', cis ''timescale'', cis ''supabase'', cis ''planetscale'', cis ''nosql'', cis ''olap'', cis ''oltp'',
     cis ''orm'', cis ''etl'', cis ''elt'', cis ''warehouse'', cats [cis ''data'', Opt (lit CHR '' ''), cis ''lake''], cis ''dataset'',
     cis ''read replica'']), WordB]"

definition WEAK_IN_CONTEXT_RE :: regex where
  "WEAK_IN_CONTEXT_RE =
     ors [cats [WordB, ors [cis ''primary'', cis ''foreign'', cis ''unique'', cis ''composite'', cis ''surrogate'', cis ''natural'', cis ''candidate'',
     cis ''partition''], plus ws, cis ''key'', Opt (cis ''s''), WordB], cats [WordB, cis ''key'', Opt (cis ''s''), plus ws, ors [cis ''constraint'',
     cis ''violation'', cis ''column''], WordB], cats [WordB, ors [cis ''create'', cis ''drop'', cis ''add'', cis ''rebuild'', cis ''missing'',
     cis ''unused'', cis ''covering'', cis ''clustered'', cis ''partial'', cis ''composite''], plus ws, cis ''index'', Opt (cis ''es''), WordB],
     cats [WordB, cis ''index'', Opt (ors [cis ''es'', cis ''ing'']), plus ws, ors [cis ''on'', cis ''for'', cis ''scan'', cis ''seek'', cis ''usage'',
     cis ''strategy''], WordB], cats [WordB, cis ''data'', plus ws, ors [cis ''type'', cis ''types'', cis ''model'', cis ''modelling'', cis ''modeling'',
     cis ''warehouse'', cis ''lake'', cis ''set'', cis ''sets'', cis ''base'', cis ''integrity'', cis ''quality''], WordB], cats [WordB, ors [cis ''row'',
     cis ''rows'', cis ''record'', cis ''records'', cis ''field'', cis ''fields''], plus ws, ors [cis ''in'', cis ''from'', cis ''of'', cis ''per'',
     cis ''with'', cis ''where'', cis ''count'', cis ''returned''], WordB], cats [WordB, ors [cis ''how many'', cis ''number of'', cis ''count of'',
     cis ''total''], plus ws, ors [cis ''rows'', cis ''records'', cis ''fields'', cis ''columns''], WordB], cats [WordB, ors [cats [cis ''materiali'',
     Chr (\<lambda>c. lower c = CHR ''s'' \<or> lower c = CHR ''z''), cis ''ed''], cis ''create'', cis ''drop'', cis ''define''], plus ws, cis ''view'',
     Opt (cis ''s''), WordB], cats [WordB, cis ''view'', Opt (cis ''s''), plus ws, ors [cis ''definition'', cis ''named'', cis ''on''], WordB],
     cats [WordB, cis ''null'', Opt (cis ''s''), plus ws, ors [cats [cis ''value'', Opt (cis ''s'')], cis ''constraint''], WordB], cats [WordB,
     ors [cis ''is'', cis ''not''], plus ws, cis ''null'', WordB], cats [WordB, cis ''statistics'', plus ws, ors [cis ''on'', cis ''for''], plus ws,
     Opt (ors [cats [cis ''the'', plus ws], cats [cis ''this'', plus ws], cats [cis ''a'', plus ws]]), ors [cis ''table'', cis ''tables'', cis ''column'',
     cis ''columns'', cis ''index'', cis ''indexes'', cis ''query'', cis ''queries'', cis ''database'', cis ''db'', cis ''schema''], WordB], cats [WordB,
     ors [cis ''grant'', cis ''revoke''], plus ws, ors [cis ''role'', cis ''privilege'']], cats [WordB, cis ''role'', Opt (cis ''s''), plus ws,
     ors [cats [cis ''privilege'', Opt (cis ''s'')], cats [cis ''permission'', Opt (cis ''s'')], cats [cis ''grant'', Opt (cis ''s'')]], WordB],
     cats [WordB, cis ''lock'', Opt (ors [cis ''s'', cis ''ing'']), plus ws, ors [cis ''contention'', cis ''timeout'', cis ''wait'', cis ''table'',
     cis ''escalation''], WordB], cats [WordB, cis ''cluster'', Opt (cis ''ed''), plus ws, ors [cis ''index'', cis ''key'', cis ''by''], WordB],
     cats [WordB, cis ''function'', Opt (cis ''s''), plus ws, ors [cis ''in'', cis ''on''], plus ws, ors [cis ''postgres'', cis ''postgresql'',
     cis ''mysql'', cis ''oracle'', cis ''sqlite'', cis ''duckdb'', cis ''mongo'', cis ''sql''], WordB], cats [WordB, cis ''stored'', plus ws,
     ors [cis ''function'', cis ''procedure''], Opt (cis ''s''), WordB], cats [WordB, cis ''relationship'', Opt (cis ''s''), plus ws, cis ''between'',
     WordB], cats [WordB, ors [cis ''entity'', cis ''entities''], plus ws, ors [cis ''relationship'', cis ''model''], WordB], cats [WordB, cis ''backup'',
     plus ws, ors [cis ''and'', cis ''the'', cis ''my'', cis ''this''], plus ws, ors [cis ''restore'', cis ''database'', cis ''db'', cis ''data''],
     WordB], cats [WordB, cis ''dump'', plus ws, cis ''the'', plus ws, ors [cis ''database'', cis ''db'', cis ''table'', cis ''schema''], WordB]]"

definition looksDatabaseRelated :: "string \<Rightarrow> bool" where
  "looksDatabaseRelated question \<longleftrightarrow> re_test STRONG_VOCABULARY_RE question \<or> re_test WEAK_IN_CONTEXT_RE question"

definition UNBOUND_PRONOUN_RE :: regex where
  "UNBOUND_PRONOUN_RE =
     cats [WordB, Group 1 (ors [cis ''he'', cis ''him'', cis ''his'', cis ''she'', cis ''her'', cis ''hers'']), WordB]"

definition danglingReference :: "string \<Rightarrow> bool \<Rightarrow> string option" where
  "danglingReference question hasContext =
     (if hasContext then None
      else
        (case re_exec UNBOUND_PRONOUN_RE question 0 of
           None \<Rightarrow> None
         | Some m \<Rightarrow>
             (if re_test (Cat ws (Chr is_capital)) (slice question 0 (m_index m)) then None
              else map_option toLowerCase (m_group question m 1))))"

definition PROMPT_INJECTION_RE :: regex where
  "PROMPT_INJECTION_RE =
     ors [cats [WordB, ors [cis ''ignore'', cis ''disregard'', cis ''forget'', cis ''override'', cis ''discard''], plus ws, Star (cats [ors [cis ''all'',
     cis ''any'', cis ''the'', cis ''your'', cis ''our'', cis ''my'', cis ''these'', cis ''those''], plus ws]), Opt (cats [ors [cis ''previous'',
     cis ''prior'', cis ''earlier'', cis ''above'', cis ''preceding'', cis ''system'', cis ''initial'', cis ''original''], plus ws]),
     ors [cats [cis ''instruction'', Opt (cis ''s'')], cats [cis ''prompt'', Opt (cis ''s'')], cats [cis ''rule'', Opt (cis ''s'')]], WordB,
     NegLook (cats [plus ws, ors [cis ''table'', cis ''collection'', cis ''column'', cis ''field'', cis ''view'', cis ''list'', cis ''entry'',
     cis ''entries'', cis ''row'', cis ''rows'']])], cats [WordB, ors [cis ''print'', cis ''reveal'', cis ''show'', cis ''repeat'', cis ''output'',
     cis ''tell'', cis ''give''], plus ws, Opt (cats [cis ''me'', plus ws]), ors [cats [cis ''your'', plus ws, Opt (cats [ors [cis ''previous'',
     cis ''prior'', cis ''earlier'', cis ''above'', cis ''preceding'', cis ''system'', cis ''initial'', cis ''original''], plus ws]), ors [cis ''prompt'',
     cis ''instructions'']], cats [cis ''the'', plus ws, ors [cis ''system'', cis ''initial'', cis ''original''], plus ws, ors [cis ''prompt'',
     cis ''instructions'']]], WordB, NegLook (cats [plus ws, ors [cis ''table'', cis ''collection'', cis ''column'', cis ''field'', cis ''view'',
     cis ''list'', cis ''entry'', cis ''entries'', cis ''row'', cis ''rows'']])], cats [WordB, cis ''what'', plus ws, ors [cis ''is'', cis ''are'',
     cis ''were''], plus ws, cis ''your'', plus ws, Opt (cats [cis ''system'', plus ws]), ors [cis ''prompt'', cis ''instructions'', cis ''rules''],
     WordB], cats [WordB, cis ''your'', plus ws, cis ''new'', plus ws, ors [cats [cis ''instruction'', Opt (cis ''s'')], cats [cis ''prompt'',
     Opt (cis ''s'')], cats [cis ''rule'', Opt (cis ''s'')]], WordB], cats [WordB, Opt (cats [cis ''from'', plus ws, cis ''now'', plus ws, cis ''on'',
     Opt (lit CHR '',''), plus ws]), cis ''you'', plus ws, cis ''are'', plus ws, cis ''now'', plus ws, ors [cis ''a'', cis ''an'', cats [cis ''no'',
     plus ws, cis ''longer'']], WordB], cats [WordB, cis ''from'', plus ws, cis ''now'', plus ws, cis ''on'', Opt (lit CHR '',''), plus ws, cis ''you'',
     plus ws, ors [cis ''are'', cis ''will'', cis ''must''], WordB], cats [WordB, cis ''pretend'', plus ws, ors [cats [cis ''to'', plus ws, cis ''be''],
     cats [cis ''you'', plus ws, cis ''are'']], WordB], cats [WordB, cis ''act'', plus ws, cis ''as'', plus ws, ors [cis ''if'', cis ''though''], plus ws,
     cis ''you'', WordB]]"

definition isPromptInjection :: "string \<Rightarrow> bool" where
  "isPromptInjection question = re_test PROMPT_INJECTION_RE question"

definition CAPABILITY_RE :: regex where
  "CAPABILITY_RE =
     ors [cats [WordB, ors [cis ''what can you do'', cis ''what do you do'', cis ''what are you'', cis ''who are you'', cis ''how do you work''], WordB],
     cats [WordB, cis ''what is asksql'', WordB], cats [WordB, ors [cis ''is asksql'', cis ''are you'', cats [cis ''is '', ors [cis ''this'',
     cis ''it'']]], lit CHR '' '', ors [cis ''safe'', cats [cis ''read'', Opt (one_of ''- ''), cis ''only'']], WordB], cats [WordB, ors [cis ''can'',
     cis ''could'', cis ''will'', cis ''would'', cis ''do'', cis ''does'', cis ''are you able to'', cis ''is it able to''], plus ws,
     Opt (ors [cats [cis ''you'', plus ws], cats [cis ''it'', plus ws], cats [cis ''asksql'', plus ws]]), Opt (cats [cis ''ever'', plus ws]),
     ors [cis ''delete'', cis ''drop'', cis ''update'', cis ''insert'', cis ''modify'', cis ''change'', cis ''write'', cis ''edit'', cis ''alter'',
     cis ''remove''], plus ws, Opt (cats [cis ''to'', plus ws]), Opt (ors [cats [cis ''my'', plus ws], cats [cis ''the'', plus ws], cats [cis ''any'',
     plus ws], cats [cis ''our'', plus ws]]), ors [cis ''data'', cis ''database'', cis ''db'', cats [cis ''record'', Opt (cis ''s'')], cats [cis ''row'',
     Opt (cis ''s'')], cats [cis ''table'', Opt (cis ''s'')], cis ''schema'', cis ''anything'', cis ''something'', cis ''things'', cis ''it'',
     cis ''this'', cis ''that''], Opt (cats [plus ws, ors [cats [cis ''table'', Opt (cis ''s'')], cats [cis ''record'', Opt (cis ''s'')],
     cats [cis ''row'', Opt (cis ''s'')], cis ''data'']]), Star (cats [plus ws, ors [cis ''please'', cis ''thanks'', cis ''thank you'', cis ''ever'',
     cis ''at all'', cis ''for me'', cis ''or not'', cis ''in any way'', cats [ors [cis ''from'', cis ''in'', cis ''on''], plus ws,
     Opt (ors [cats [cis ''the'', plus ws], cats [cis ''my'', plus ws], cats [cis ''our'', plus ws]]), ors [cis ''database'', cis ''db'', cis ''schema'',
     cats [cis ''table'', Opt (cis ''s'')]]]]]), Star ws, Star (one_of ''?.!''), Star ws, Eol], cats [WordB, ors [cis ''will'', cis ''does'', cis ''can'',
     cis ''could''], plus ws, ors [cis ''this'', cis ''that'', cis ''it'', cis ''asksql''], plus ws, Opt (cats [cis ''ever'', plus ws]),
     ors [cis ''change'', cis ''modify'', cis ''alter'', cis ''affect'', cis ''delete'', cis ''update'', cis ''write to'', cis ''touch''], plus ws,
     Opt (ors [cats [cis ''my'', plus ws], cats [cis ''the'', plus ws], cats [cis ''any'', plus ws], cats [cis ''our'', plus ws]]), ors [cis ''data'',
     cis ''database'', cis ''db'', cats [cis ''record'', Opt (cis ''s'')], cats [cis ''row'', Opt (cis ''s'')], cats [cis ''table'', Opt (cis ''s'')],
     cis ''schema'', cis ''anything'', cis ''something''], WordB], cats [WordB, cis ''is my data safe'', WordB], cats [WordB, ors [cis ''do'',
     cis ''does'', cis ''will''], plus ws, ors [cis ''you'', cis ''it'', cis ''asksql''], plus ws, ors [cis ''store'', cis ''keep'', cis ''save'',
     cis ''retain'', cis ''send'', cis ''share'', cis ''upload'', cis ''log''], plus ws, ors [cis ''my'', cis ''our'', cis ''the''], plus ws,
     ors [cis ''data'', cis ''queries'', cis ''questions'', cis ''schema'', cis ''results''], WordB], cats [WordB, cis ''where'', plus ws,
     ors [cis ''does'', cis ''do''], plus ws, ors [cis ''my'', cis ''our''], plus ws, ors [cis ''data'', cis ''queries''], plus ws, cis ''go'', WordB]]"

definition isCapabilityQuestion :: "string \<Rightarrow> bool" where
  "isCapabilityQuestion question = re_test CAPABILITY_RE question"

definition coded_answer :: "string \<Rightarrow> SchemaAnswer" where
  "coded_answer answer =
     \<lparr>sa_answer = answer, sa_tables = [], sa_grounded = True, sa_unknownReferences = [], sa_isSchemaChange = False, sa_proposedSql = None\<rparr>"

definition capabilityAnswer :: "string \<Rightarrow> SchemaAnswer" where
  "capabilityAnswer dialectLabel =
     coded_answer
       (''I turn your questions into read-only SQL for this '' @ dialectLabel @ '' database, show you the query for every answer, '' @
        ''and explain the result.'' @ [LF, LF] @
        ''I never change your data. Every statement is checked before it reaches the database and anything that is not a '' @
        ''read-only query is refused - that check is code, not a prompt, so it holds regardless of what the AI replies. '' @
        ''If you ask for an INSERT, UPDATE, DELETE or a schema change, I write the statement out for you to run yourself '' @
        ''and never run it.'' @ [LF, LF] @
        ''I can also answer questions about the database itself: what it holds, how the tables relate, what to index, and '' @
        ''how to improve the design.'')"

definition offTopicAnswer :: "string \<Rightarrow> SchemaAnswer" where
  "offTopicAnswer dialectLabel =
     coded_answer
       (''I only help with databases - this connection is '' @ dialectLabel @ ''. Ask me about its structure, '' @
        ''a query over your data, or database topics in general (modelling, indexing, performance) and I am happy to help.'')"

end
