(* ===== verification/Schema_Match.thy ===== *)
theory Schema_Match
  imports Scope Catalog
begin

text \<open>
  \<open>packages/core/src/schema-match.ts\<close>: telling questions about the structure, about advice and for writes from questions
  for data, the misspelled table name, and whether a question names anything in the catalog. The regular expressions are translated
  symbol by symbol.

  The properties: the edit distance computed row by row is the least number of insertions, deletions and replacements;
  the table that is suggested is a table of the catalog close to a word of the question, and none is closer.
\<close>

section \<open>Model: kinds of questions\<close>

definition METADATA_INTENT :: regex where
  "METADATA_INTENT =
     cats [WordB, Group 1 (ors [cis ''show'', cis ''list'', cis ''display'', cis ''describe'', cis ''enumerate'', cis ''count'', cis ''name'',
     cis ''get'', cis ''give'', cis ''tell'', cis ''see'', cis ''view'', cats [cis ''what'', Opt (ors [cats [lit SQUOTE, cis ''s''], cis '' is'',
     cis '' are''])], cis ''which'', cis ''how many'', cats [cis ''do '', ors [cis ''you'', cis ''we''], cis '' have''], cis ''are there'',
     cis ''exist'']), WordB]"

definition METADATA_OBJECT :: regex where
  "METADATA_OBJECT =
     cats [WordB, Group 1 (ors [cats [cis ''table'', Opt (cis ''s'')], cats [cis ''collection'', Opt (cis ''s'')], cats [cis ''column'', Opt (cis ''s'')],
     cats [cis ''field'', Opt (cis ''s'')], cats [cis ''schema'', Opt (cis ''s'')], cats [cis ''view'', Opt (cis ''s'')], cis ''indexes'',
     cis ''indices'', cats [cis ''relationship'', Opt (cis ''s'')], cats [cis ''foreign key'', Opt (cis ''s'')], cats [cis ''primary key'',
     Opt (cis ''s'')], cats [cis ''constraint'', Opt (cis ''s'')], cats [cis ''trigger'', Opt (cis ''s'')], cats [cis ''procedure'', Opt (cis ''s'')],
     cats [cis ''function'', Opt (cis ''s'')], cats [cis ''routine'', Opt (cis ''s'')], cats [cis ''sequence'', Opt (cis ''s'')], cats [cis ''partition'',
     Opt (cis ''s'')], cats [ors [cis ''database'', cis ''db'', cis ''data''], lit CHR '' '', ors [cis ''structure'', cis ''layout'', cis ''schema'']]]),
     WordB]"

definition ADVICE_INTENT :: regex where
  "ADVICE_INTENT =
     cats [WordB, Group 1 (ors [cats [cis ''improv'', Star (Chr is_word)], cats [cis ''optimi'',
     Chr (\<lambda>c. lower c = CHR ''s'' \<or> lower c = CHR ''z''), Star (Chr is_word)], cats [cis ''tun'', ors [cis ''e'', cis ''ing'']],
     cats [cis ''speed'', Opt (cats [Star ws, cis ''up''])], cats [cis ''normali'', Chr (\<lambda>c. lower c = CHR ''s'' \<or> lower c = CHR ''z''),
     Star (Chr is_word)], cats [cis ''denormali'', Chr (\<lambda>c. lower c = CHR ''s'' \<or> lower c = CHR ''z''), Star (Chr is_word)],
     cats [cis ''redesign'', Star (Chr is_word)], cats [cis ''refactor'', Star (Chr is_word)], cats [cis ''restructur'', Star (Chr is_word)],
     cats [NegBehind (cats [WordB, ors [cis ''the'', cis ''its'', cis ''all'', cis ''these'', cis ''those'', cis ''many'', cis ''few'', cis ''no'',
     cis ''some''], lit CHR '' '']), cis ''partition'', Star (Chr is_word)], cats [NegBehind (cats [WordB, ors [cis ''the'', cis ''its'', cis ''all'',
     cis ''these'', cis ''those'', cis ''many'', cis ''few'', cis ''no'', cis ''some''], lit CHR '' '']), cis ''shard'', Star (Chr is_word)],
     cats [cis ''archiv'', ors [cis ''e'', cis ''es'', cis ''ed'', cis ''ing'', cis ''al''], WordB, NegLook (cats [Star ws, ors [cis ''table'',
     cis ''log'', cis ''collection'', cis ''folder'']])], cats [cis ''rewrit'', Star (Chr is_word)], cats [cis ''review'', WordB, NegLook (cats [Star ws,
     ors [cis ''table'', cis ''collection'', cis ''log'', cis ''queue'']])], cats [cis ''audit'', WordB, NegLook (cats [Star ws, ors [cis ''log'',
     cis ''table'', cis ''trail'', cis ''history'']])], cats [cis ''help'', Opt (ors [cis ''s'', cis ''ing'']), WordB, NegLook (cats [plus ws, cis ''me'',
     WordB])], cis ''critique'', cats [cis ''suggest'', Star (Chr is_word)], cats [cis ''recommend'', Star (Chr is_word)], cis ''advice'', cis ''advise'',
     cats [cis ''feedback'', WordB, NegLook (cats [Star ws, ors [cis ''table'', cis ''collection'', cis ''form'', cis ''data'', cis ''survey'']])],
     cats [cis ''thought'', Opt (cis ''s'')], cis ''opinion'', cats [cis ''best'', Opt (cats [plus ws, plus (Chr is_word)]), plus ws, ors [cis ''way'',
     cis ''practice'', cis ''practices'', cis ''approach'', cis ''option'', cis ''design'', cis ''choice'', cis ''strategy'', cis ''structure'',
     cis ''format'', cis ''type'', cis ''index'', cis ''indexes'', cis ''schema''], WordB], cats [cis ''better'', WordB], cis ''faster'', cis ''quicker'',
     cats [ors [cis ''this'', cis ''it'', cis ''that'', cis ''everything'', cats [ors [cis ''the'', cis ''my'', cis ''our'', cis ''these''], plus ws,
     Opt (cats [plus (Chr is_word), plus ws]), ors [cats [cis ''quer'', ors [cis ''y'', cis ''ies'']], cis ''report'', cis ''dashboard'', cis ''page'',
     cats [cis ''join'', Opt (cis ''s'')], cats [cis ''view'', Opt (cis ''s'')], cats [cis ''index'', Opt (cis ''e''), Opt (cis ''s'')],
     cats [cis ''table'', Opt (cis ''s'')], cis ''schema'', cis ''database'', cis ''thing'']]], Opt (cats [plus ws, ors [cis ''on'', cis ''in'',
     cis ''for'', cis ''between'', cis ''against'', cis ''over'', cis ''with'', cis ''from''], WordB,
     upto_lazy 24 (Chr (\<lambda>c. is_word c \<or> is_space c))]), plus ws, ors [cis ''is'', cis ''are'', cis ''was'', cis ''were'', cats [cis ''run'',
     Opt (cis ''s'')], cis ''running'', cats [cis ''feel'', Opt (cis ''s'')], cats [cis ''seem'', Opt (cis ''s'')]], plus ws, Opt (ors [cis ''so '',
     cis ''very '', cis ''really '', cis ''too '']), cis ''slow'', Star (Chr is_word)], cis ''forever'', cats [cis ''bad'', WordB], cats [cis ''poor'',
     WordB], cis ''terrible'', cis ''killing'', cats [cis ''worth '', ors [cis ''it'', cis ''doing'', cis ''the''], WordB], cats [cis ''reduc'',
     Star (Chr is_word)], cis ''wrong with'', cats [cis ''should '', ors [cis ''i'', cis ''there'', cis ''this'', cis ''it'']], cis ''i should'',
     cats [cis ''do you '', ors [cis ''think'', cis ''see'']], cis ''do i need'', cis ''what needs'', cats [Opt (cis ''what ''), cis ''would you '',
     ors [cis ''change'', cis ''do'', cis ''suggest'', cis ''recommend'', cats [cis ''normali'',
     Chr (\<lambda>c. lower c = CHR ''s'' \<or> lower c = CHR ''z''), cis ''e''], cats [cis ''denormali'',
     Chr (\<lambda>c. lower c = CHR ''s'' \<or> lower c = CHR ''z''), cis ''e''], cis ''add'', cis ''drop'', cis ''split'', cis ''merge'', cis ''index'',
     cis ''partition'']], cats [cis ''relate'', Chr (\<lambda>c. lower c = CHR ''s'' \<or> lower c = CHR ''d''), WordB], cats [cis ''grow'',
     Star (Chr is_word)], cats [cis ''scal'', ors [cis ''e'', cis ''es'', cis ''ing'', cis ''ability''], WordB], cats [cis ''model'',
     ors [cats [Opt (cis ''l''), cis ''ed''], cats [Opt (cis ''l''), cis ''ing'']], WordB], cats [cis ''need'', Opt (cis ''s''), lit CHR '' '',
     Opt (cis ''to be ''), ors [cats [cis ''update'', Opt (cis ''d'')], cats [cis ''change'', Opt (cis ''d'')], cats [cis ''fixe'', Opt (cis ''d'')],
     cats [cis ''adde'', Opt (cis ''d'')]]], cats [cis ''problem'', Opt (cis ''s'')], cats [cis ''issue'', Opt (cis ''s''), lit CHR '' '',
     ors [cis ''with'', cis ''in'', cis ''around''], WordB], cats [cis ''mistake'', Opt (cis ''s'')], cats [cis ''redundant'', Look (cats [plus ws,
     ors [cats [cis ''index'', Opt (cis ''es'')], cis ''indices'', cats [cis ''column'', Opt (cis ''s'')], cats [cis ''table'', Opt (cis ''s'')],
     cats [cis ''join'', Opt (cis ''s'')], cats [cis ''constraint'', Opt (cis ''s'')], cats [cis ''key'', Opt (cis ''s'')], cis ''data''], WordB])],
     cats [cis ''unused'', plus ws, ors [cats [cis ''index'', Opt (cis ''es'')], cis ''indices'', cis ''column'', cis ''columns'', cis ''table'',
     cis ''tables'', cats [cis ''constraint'', Opt (cis ''s'')], cats [cis ''key'', Opt (cis ''s'')], cats [cis ''field'', Opt (cis ''s'')]], WordB],
     cats [cis ''unnecessary'', Look (cats [plus ws, ors [cats [cis ''index'', Opt (cis ''es'')], cis ''indices'', cats [cis ''column'', Opt (cis ''s'')],
     cats [cis ''table'', Opt (cis ''s'')], cats [cis ''join'', Opt (cis ''s'')], cats [cis ''constraint'', Opt (cis ''s'')], cats [cis ''key'',
     Opt (cis ''s'')]], WordB])], cats [ors [cis ''missing'', cis ''duplicate''], Star (Chr is_word), upto_times 20 (none_of ''.?!''), WordB,
     ors [cats [cis ''index'', Opt (cis ''es'')], cis ''indices'', cats [cis ''constraint'', Opt (cis ''s'')], cats [cis ''key'', Opt (cis ''s'')],
     cats [cis ''relationship'', Opt (cis ''s'')]]], cis ''too many'', cis ''too few'', cats [cis ''make'', Opt (Chr (\<lambda>c. lower c = CHR ''s'')),
     cis '' sense''], cis ''properly'', cis ''correctly'', cis ''the right way'', cats [cis ''is '', ors [cis ''this'', cis ''it'', cis ''that'',
     cis ''my'', cis ''our''], upto_times 24 (none_of ''.?!''), WordB, cis ''ok'', Opt (cis ''ay''), WordB], cis ''sensible'', cis ''reasonable'',
     cats [cis ''why '', ors [cis ''is'', cis ''are'', cis ''am'', cis ''does'', cis ''do'', cis ''did'', cis ''would'']], cats [cis ''what does '',
     upto_times 30 (Chr (\<lambda>c. \<not> line_end c)), cis ''do'', WordB], cis ''explain'', cis ''break down'', cis ''convert'', cis ''translate'',
     cats [cis ''port'', WordB], cats [cis ''migrat'', Star (Chr is_word)], cis ''difference between'', cis ''when should'', cis ''pros and cons'',
     cats [cis ''document'', Opt (ors [cis ''s'', cis ''ing'']), plus ws, ors [cis ''the'', cis ''this'', cis ''my'', cis ''our''], WordB],
     cats [cis ''trade'', Opt (lit CHR ''-''), cis ''off'', Opt (cis ''s'')], cats [Opt (cis ''take a ''), cis ''look at'', plus ws, ors [cis ''my'',
     cis ''the'', cis ''this'', cis ''our''], plus ws, ors [cis ''schema'', cis ''database'', cis ''db'', cis ''design'', cats [cis ''data'',
     Opt (lit CHR '' ''), cis ''model'']], WordB], cis ''say about'']), WordB]"

definition ADVICE_OBJECT :: regex where
  "ADVICE_OBJECT =
     cats [WordB, Group 1 (ors [cats [cis ''table'', Opt (cis ''s'')], cats [cis ''collection'', Opt (cis ''s'')], cats [cis ''column'', Opt (cis ''s'')],
     cats [cis ''field'', Opt (cis ''s'')], cats [cis ''schema'', Opt (cis ''s'')], cats [cis ''view'', Opt (cis ''s'')], cats [cis ''index'',
     Opt (ors [cis ''es'', cis ''ing'', cis ''ed''])], cis ''indices'', cats [cis ''relationship'', Opt (cis ''s'')], cats [cis ''relation'',
     Opt (cis ''s'')], cats [cis ''foreign key'', Opt (cis ''s'')], cats [cis ''primary key'', Opt (cis ''s'')], cats [cis ''constraint'',
     Opt (cis ''s'')], cats [cis ''trigger'', Opt (cis ''s'')], cats [cis ''procedure'', Opt (cis ''s'')], cats [cis ''function'', Opt (cis ''s'')],
     cats [cis ''routine'', Opt (cis ''s'')], cats [cis ''sequence'', Opt (cis ''s'')], cats [cis ''join'', Opt (cis ''s'')], cats [cis ''partition'',
     Star (Chr is_word)], cats [cis ''shard'', Star (Chr is_word)], cats [cis ''embed'', Star (Chr is_word)], cats [cis ''document'', Opt (cis ''s'')],
     cats [cis ''model'', Opt (ors [cis ''s'', cats [Opt (cis ''l''), cis ''ed''], cats [Opt (cis ''l''), cis ''ing'']]), WordB], cats [cis ''quer'',
     ors [cis ''y'', cis ''ies'']], cis ''sql'', cis ''ddl'', cats [cis ''statement'', Opt (cis ''s'')], cis ''syntax'', cis ''performance'',
     cats [cis ''slow'', Star (Chr is_word)], cis ''latency'', cis ''throughput'', cats [cis ''row'', Opt (cis ''s'')], cats [cis ''duplicate'',
     Opt (cis ''s'')], cats [cis ''normali'', Chr (\<lambda>c. lower c = CHR ''s'' \<or> lower c = CHR ''z''), Star (Chr is_word)],
     cats [cis ''denormali'', Chr (\<lambda>c. lower c = CHR ''s'' \<or> lower c = CHR ''z''), Star (Chr is_word)], cats [cis ''database'',
     Opt (cis ''s'')], cats [cis ''db'', Opt (cis ''s'')], cis ''design'', cats [cis ''structure'', Opt (cis ''s'')], cats [cis ''report'',
     Opt (cis ''s'')], cats [cis ''dashboard'', Opt (cis ''s'')], cats [cis ''data'', Opt (lit CHR '' ''), cis ''model'', Star (Chr is_word)],
     cats [cis ''postgres'', Star (Chr is_word)], cis ''mysql'', cis ''mariadb'', cis ''sqlite'', cis ''oracle'', cats [cis ''mongo'',
     Star (Chr is_word)], cis ''duckdb'', cats [ors [cis ''database'', cis ''db'', cis ''data''], lit CHR '' '', ors [cis ''structure'', cis ''layout'',
     cis ''schema'', cis ''design'', cis ''model'']]]), WordB]"

definition SELF_CONTAINED_ADVICE :: regex where
  "SELF_CONTAINED_ADVICE =
     ors [cats [WordB, ors [cis ''unused'', cis ''redundant'', cis ''unnecessary''], plus ws, ors [cats [cis ''index'', Opt (cis ''es'')],
     cis ''indices'', cats [cis ''constraint'', Opt (cis ''s'')], cats [cis ''key'', Opt (cis ''s'')], cats [cis ''relationship'', Opt (cis ''s'')],
     cats [cis ''column'', Opt (cis ''s'')], cats [cis ''table'', Opt (cis ''s'')], cats [cis ''field'', Opt (cis ''s'')]], WordB], cats [WordB,
     ors [cis ''missing'', cis ''duplicate''], plus ws, ors [cats [cis ''index'', Opt (cis ''es'')], cis ''indices'', cats [cis ''constraint'',
     Opt (cis ''s'')], cats [cis ''foreign key'', Opt (cis ''s'')], cats [cis ''primary key'', Opt (cis ''s'')], cats [cis ''relationship'',
     Opt (cis ''s'')]], WordB], cats [WordB, cis ''best'', plus ws, ors [cats [cis ''practice'', Opt (cis ''s'')], cis ''approach'', cis ''design'',
     cis ''strategy''], WordB], cats [WordB, cis ''best'', plus ws, cis ''way'', plus ws, cis ''to'', plus ws, ors [cis ''store'', cis ''model'',
     cis ''structure'', cats [cis ''organi'', Chr (\<lambda>c. lower c = CHR ''s'' \<or> lower c = CHR ''z''), cis ''e''], cis ''handle'',
     cis ''represent'', cis ''index'', cis ''partition'', cis ''split'', cis ''name'', cis ''design'', cis ''track''], WordB], cats [WordB,
     ors [cis ''what'', cis ''which''], WordB, upto_times 30 (none_of ''.?!''), WordB, ors [cats [cis ''change'', Opt (cis ''s'')],
     cats [cis ''improvement'', Opt (cis ''s'')], cats [cis ''optimi'', Chr (\<lambda>c. lower c = CHR ''s'' \<or> lower c = CHR ''z''), cis ''ation'',
     Opt (cis ''s'')]], WordB, upto_times 25 (none_of ''.?!''), WordB, ors [cis ''needed'', cis ''required'', cis ''necessary'', cats [cis ''recommend'',
     Star (Chr is_word)], cats [cis ''suggest'', Star (Chr is_word)], cis ''apply''], WordB], cats [WordB, ors [cis ''what'', cis ''which''], plus ws,
     ors [cats [cis ''change'', Opt (cis ''s'')], cats [cis ''improvement'', Opt (cis ''s'')], cats [cis ''optimi'',
     Chr (\<lambda>c. lower c = CHR ''s'' \<or> lower c = CHR ''z''), cis ''ation'', Opt (cis ''s'')]], WordB, upto_times 20 (none_of ''.?!''), WordB,
     cis ''should'', WordB]]"

definition BARE_ADVICE :: regex where
  "BARE_ADVICE =
     cats [WordB, ors [cats [cis ''what '', ors [cis ''do'', cis ''should''], cis '' i do''], cis ''what now'', cats [cis ''how do i fix '',
     ors [cis ''this'', cis ''it'']], cats [cis ''any '', ors [cis ''ideas'', cis ''suggestions'']], cats [cis ''is it worth'', WordB],
     cats [ors [cis ''this'', cis ''it'', cis ''that''], lit CHR '' '', ors [cis ''is'', cis ''was'', cats [cis ''run'', Opt (cis ''s'')],
     cats [cis ''feel'', Opt (cis ''s'')], cats [cis ''seem'', Opt (cis ''s'')]], lit CHR '' '', Opt (ors [cis ''so '', cis ''very '', cis ''really '',
     cis ''too '']), cis ''slow''], cats [cis ''why '', ors [cis ''is'', cis ''are'', cis ''does'', cis ''do'', cis ''did''], WordB,
     upto_lazy 30 (Chr (\<lambda>c. is_word c \<or> is_space c)), WordB, ors [cats [cis ''grow'', Star (Chr is_word)], cats [cis ''so '',
     ors [cis ''big'', cis ''large'', cis ''slow'', cis ''fast'']]]]], WordB]"

definition matchSpans :: "regex \<Rightarrow> string \<Rightarrow> (nat \<times> nat) list" where
  "matchSpans re question = map (\<lambda>m. (m_index m, m_end m)) (match_all re question)"

text \<open>\<open>split(/\s+/).length\<close> on a trimmed text: an empty one still has one piece.\<close>

definition piece_count :: "string \<Rightarrow> nat" where
  "piece_count s = max 1 (length (space_words [] s))"

definition isSchemaAdviceQuestion :: "string \<Rightarrow> bool" where
  "isSchemaAdviceQuestion question =
     (if re_test BARE_ADVICE question \<or> re_test SELF_CONTAINED_ADVICE question then True
      else
        (let intents = matchSpans ADVICE_INTENT question in
         if intents = [] then False
         else if list_ex (\<lambda>(s, e). 3 \<le> piece_count (trim (slice question s e))) intents then True
         else list_ex (\<lambda>(os, oe). list_ex (\<lambda>(is, ie). oe \<le> is \<or> ie \<le> os) intents) (matchSpans ADVICE_OBJECT question)))"

definition OVERVIEW_INTENT :: regex where
  "OVERVIEW_INTENT =
     cats [WordB, Group 1 (ors [cis ''describe'', cis ''description'', cis ''detail'', cis ''details'', cis ''overview'', cats [cis ''summar'',
     Star (Chr is_word)], cis ''explain'', cis ''walk me through'', cis ''tell me about'', cis ''understand'', cis ''introduce'', cats [cis ''high'',
     one_of ''- '', cis ''level''], cis ''brief'', cats [cis ''contain'', Star (Chr is_word)], cats [cis ''what'', ors [cats [lit SQUOTE, cis ''s''],
     cis '' is''], cis '' in''], cats [cis ''what'', ors [cats [lit SQUOTE, cis ''s''], cis '' is''], lit CHR '' '', ors [cis ''this'', cis ''the'',
     cis ''your''], upto_times 24 (none_of ''.?!''), WordB, cis ''for'', WordB], cats [cis ''hold'', Star (Chr is_word)]]), WordB]"

definition OVERVIEW_OBJECT :: regex where
  "OVERVIEW_OBJECT =
     cats [WordB, Group 1 (ors [cats [cis ''schema'', Opt (cis ''s'')], cats [cis ''database'', Opt (cis ''s'')], cis ''db'', cats [cis ''data'',
     Opt (lit CHR '' ''), cis ''model'', Star (Chr is_word)], cis ''structure'', cis ''layout'', cats [ors [cats [cis ''file'', Opt (cis ''s'')],
     cats [cis ''spreadsheet'', Opt (cis ''s'')], cats [cis ''csv'', Opt (cis ''s'')], cats [cis ''workbook'', Opt (cis ''s'')]], NegLook (cats [plus ws,
     ors [cis ''table'', cis ''collection'']])]]), WordB]"

definition PRESCRIPTIVE_ADVICE :: regex where
  "PRESCRIPTIVE_ADVICE =
     cats [WordB, Group 1 (ors [cats [cis ''improv'', Star (Chr is_word)], cats [cis ''optimi'',
     Chr (\<lambda>c. lower c = CHR ''s'' \<or> lower c = CHR ''z''), Star (Chr is_word)], cats [cis ''tun'', ors [cis ''e'', cis ''ing'']],
     cats [cis ''speed'', Opt (cats [Star ws, cis ''up''])], cats [cis ''normali'', Chr (\<lambda>c. lower c = CHR ''s'' \<or> lower c = CHR ''z''),
     Star (Chr is_word)], cats [cis ''denormali'', Chr (\<lambda>c. lower c = CHR ''s'' \<or> lower c = CHR ''z''), Star (Chr is_word)],
     cats [cis ''redesign'', Star (Chr is_word)], cats [cis ''refactor'', Star (Chr is_word)], cats [cis ''restructur'', Star (Chr is_word)],
     cats [NegBehind (cats [WordB, ors [cis ''the'', cis ''its'', cis ''all'', cis ''these'', cis ''those'', cis ''many'', cis ''few'', cis ''no'',
     cis ''some''], lit CHR '' '']), cis ''partition'', Star (Chr is_word)], cats [NegBehind (cats [WordB, ors [cis ''the'', cis ''its'', cis ''all'',
     cis ''these'', cis ''those'', cis ''many'', cis ''few'', cis ''no'', cis ''some''], lit CHR '' '']), cis ''shard'', Star (Chr is_word)],
     cats [cis ''archiv'', ors [cis ''e'', cis ''es'', cis ''ed'', cis ''ing'', cis ''al''], WordB, NegLook (cats [Star ws, ors [cis ''table'',
     cis ''log'', cis ''collection'', cis ''folder'']])], cats [cis ''rewrit'', Star (Chr is_word)], cats [cis ''suggest'', Star (Chr is_word)],
     cats [cis ''recommend'', Star (Chr is_word)], cis ''advice'', cis ''advise'', cis ''should i'', cats [Opt (cis ''what ''), cis ''would you '',
     ors [cis ''change'', cis ''do'', cis ''suggest'', cis ''recommend'', cats [cis ''normali'',
     Chr (\<lambda>c. lower c = CHR ''s'' \<or> lower c = CHR ''z''), cis ''e''], cats [cis ''denormali'',
     Chr (\<lambda>c. lower c = CHR ''s'' \<or> lower c = CHR ''z''), cis ''e''], cis ''add'', cis ''drop'', cis ''split'', cis ''merge'', cis ''index'',
     cis ''partition'']], cis ''missing'', cats [cis ''add'', WordB], cats [cis ''better'', WordB], cats [cis ''best'', WordB], cats [cis ''reduc'',
     Star (Chr is_word)], cats [cis ''fix'', Star (Chr is_word)], cis ''what needs'']), WordB]"

definition isSchemaProposalQuestion :: "string \<Rightarrow> bool" where
  "isSchemaProposalQuestion question \<longleftrightarrow> isSchemaAdviceQuestion question \<and> re_test PRESCRIPTIVE_ADVICE question"

definition STRUCTURE_OF_TABLE :: regex where
  "STRUCTURE_OF_TABLE =
     cats [WordB, ors [cis ''structure'', cis ''layout''], plus ws, ors [cis ''of'', cis ''in'', cis ''for''], plus ws, Opt (ors [cis ''the '',
     cis ''this '', cis ''that '', cis ''our '', cis ''my '']), NegLook (ors [cats [cis ''database'', Opt (cis ''s''), WordB], cats [cis ''db'', WordB],
     cats [cis ''schema'', Opt (cis ''s''), WordB], cats [cis ''data'', Opt (lit CHR '' ''), cis ''model'']]), Chr is_word]"

definition WHOLE_DATABASE :: regex where
  "WHOLE_DATABASE =
     cats [WordB, ors [cats [cis ''schema'', Opt (cis ''s'')], cats [cis ''database'', Opt (cis ''s'')], cis ''db'', cats [cis ''data'',
     Opt (lit CHR '' ''), cis ''model'']], WordB]"

definition isDatabaseOverviewQuestion :: "string \<Rightarrow> bool" where
  "isDatabaseOverviewQuestion question =
     (if re_test STRUCTURE_OF_TABLE question \<and> \<not> re_test WHOLE_DATABASE question then False
      else re_test OVERVIEW_INTENT question \<and> re_test OVERVIEW_OBJECT question)"

definition isMetadataQuestion :: "string \<Rightarrow> bool" where
  "isMetadataQuestion question \<longleftrightarrow>
     re_test METADATA_INTENT question \<and> re_test METADATA_OBJECT question
     \<and> \<not> isSchemaAdviceQuestion question \<and> \<not> isDatabaseOverviewQuestion question"

definition RELATIONSHIP_QUESTION :: regex where
  "RELATIONSHIP_QUESTION =
     cats [Bol, Star ws, Opt (cats [ors [cis ''so'', cis ''and'', cis ''ok'', cis ''okay''], plus ws]), ors [cats [cis ''how'', plus ws, ors [cis ''do'',
     cis ''does'', cis ''are'', cis ''is''], WordB, NegLook (cats [plus ws, cis ''i'', WordB]), upto_times 60 (none_of ''.?!''), WordB,
     ors [cats [cis ''relate'', Opt (Chr (\<lambda>c. lower c = CHR ''s'' \<or> lower c = CHR ''d''))], cats [cis ''connect'', Opt (ors [cis ''ed'',
     cis ''s''])], cats [cis ''link'', Opt (ors [cis ''ed'', cis ''s''])], cis ''associated'', cats [cis ''tie'', Opt (cis ''d''), plus ws,
     cis ''together''], cats [cis ''map'', plus ws, cis ''to'']], WordB], cats [cis ''what'', Opt (ors [cats [lit SQUOTE, cis ''s''], cats [plus ws,
     cis ''is''], cats [plus ws, cis ''are'']]), plus ws, cis ''the'', plus ws, ors [cats [cis ''relationship'', Opt (cis ''s'')], cis ''link'',
     cis ''connection'', cis ''association''], plus ws, cis ''between'', WordB, NegLook (cats [Star (none_of ''.?!''), dig])]]]"

definition isRelationshipQuestion :: "string \<Rightarrow> bool" where
  "isRelationshipQuestion question = re_test RELATIONSHIP_QUESTION question"

definition WRITE_REQUEST :: regex where
  "WRITE_REQUEST =
     ors [cats [Bol, Star ws, Star (ors [cats [ors [cis ''please'', cis ''now'', cis ''ok'', cis ''okay'', cis ''so''], plus ws], cats [ors [cis ''can'',
     cis ''could'', cis ''would'', cis ''will''], plus ws, ors [cis ''you'', cis ''we''], plus ws], cats [cis ''i'', plus ws, ors [cis ''want'',
     cis ''need''], plus ws, Opt (cats [cis ''you'', plus ws]), cis ''to'', plus ws], cats [cis ''go ahead and'', plus ws], cats [cis ''let'',
     Opt (lit SQUOTE), cis ''s'', plus ws]]), ors [cats [ors [cis ''delete'', cis ''truncate'', cis ''erase'', cis ''purge'', cis ''wipe'', cis ''nuke'',
     cats [cis ''remove'', NegLook (cats [plus ws, cis ''duplicate'', Opt (cis ''s''), WordB])]], WordB], cats [ors [cats [cis ''drop'',
     NegLook (cats [plus ws, ors [cats [cis ''row'', Opt (cis ''s'')], cats [cis ''record'', Opt (cis ''s'')], cats [cis ''duplicate'', Opt (cis ''s'')],
     cats [cis ''null'', Opt (cis ''s'')]], WordB])], cis ''insert'', cis ''update'', cis ''alter'', cis ''rename'', cis ''clear'', cis ''empty'',
     cis ''flush''], WordB, upto_times 60 (none_of ''.?!''), WordB, ors [cis ''table'', cis ''column'', cis ''row'', cis ''rows'', cis ''record'',
     cis ''records'', cis ''from'', cis ''into'', cis ''set'', cis ''every'', cis ''all'', cis ''the'', cis ''this'', cis ''my'', cis ''our'', cis ''to'',
     cis ''by'', cis ''with''], WordB], cats [ors [cis ''add'', cis ''create''], WordB, upto_times 60 (none_of ''.?!''), WordB, ors [cis ''column'',
     cis ''table'', cis ''index'', cis ''constraint'', cis ''view'', cis ''field'', cis ''foreign key'', cis ''primary key''], WordB,
     NegLook (cats [plus ws, ors [cis ''with'', cis ''showing'', cis ''for'', cis ''of'', cis ''that'', cis ''containing'', cis ''listing'', cis ''per'',
     cis ''by'', cis ''which''], WordB])]]], cats [WordB, ors [cis ''write'', cis ''create'', cis ''give'', cis ''show'', cis ''generate'',
     cis ''produce'', cis ''draft'', cis ''compose'', cis ''need'', cis ''want'', cats [cis ''how '', ors [cis ''do'', cis ''can'', cis ''would''],
     cis '' i'']], WordB, upto_times 60 (none_of ''.?!''), WordB, ors [cis ''statement'', cis ''query'', cis ''sql'', cis ''ddl'', cis ''command'',
     cis ''script'', cis ''migration''], WordB, upto_times 60 (none_of ''.?!''), WordB, ors [cis ''insert'', cis ''inserts'', cis ''inserting'',
     cis ''update'', cis ''updates'', cis ''updating'', cis ''delete'', cis ''deletes'', cis ''deleting'', cis ''drop'', cats [cis ''drops'',
     NegLook (cats [plus ws, ors [cats [cis ''row'', Opt (cis ''s'')], cats [cis ''record'', Opt (cis ''s'')], cats [cis ''duplicate'', Opt (cis ''s'')],
     cats [cis ''null'', Opt (cis ''s'')]], WordB])], cis ''dropping'', cis ''truncate'', cis ''truncates'', cis ''truncating'', cis ''alter'',
     cis ''alters'', cis ''altering'', cis ''remove'', cats [cis ''removes'', NegLook (cats [plus ws, cis ''duplicate'', Opt (cis ''s''), WordB])],
     cis ''removing'', cis ''rename'', cis ''renames'', cis ''renaming'', cats [cis ''wipe'', Opt (cis ''s'')], cis ''wiping'', cats [cis ''purge'',
     Opt (cis ''s'')], cis ''purging'', cats [cis ''erase'', Opt (cis ''s'')], cis ''erasing'', cats [cis ''clear'', Opt (cis ''s'')], cis ''clearing'',
     cis ''empties'', cis ''emptying'', cats [cis ''flushe'', Opt (cis ''s'')], cis ''flushing'', cats [cis ''add'', WordB,
     upto_times 24 (none_of ''.?!''), WordB, ors [cis ''column'', cis ''index'', cis ''constraint'', cis ''table'', cis ''field'', cis ''foreign key'']]],
     WordB], cats [WordB, ors [cis ''write'', cis ''create'', cis ''give'', cis ''show'', cis ''generate'', cis ''produce'', cis ''draft'',
     cis ''compose'', cis ''need'', cis ''want''], WordB, upto_times 30 (none_of ''.?!''), WordB, ors [cis ''insert'', cis ''update'', cis ''delete'',
     cis ''drop'', cis ''truncate'', cis ''alter'', cis ''rename'', cis ''merge'', cis ''upsert''], plus ws, ors [cis ''statement'', cis ''query'',
     cis ''sql'', cis ''ddl'', cis ''command'', cis ''script'', cis ''migration''], WordB], cats [WordB, ors [cis ''write'', cis ''create'', cis ''give'',
     cis ''show'', cis ''generate'', cis ''produce'', cis ''draft'', cis ''compose'', cis ''need'', cis ''want''], WordB, upto_times 20 (none_of ''.?!''),
     WordB, ors [cis ''insert'', cis ''update'', cis ''delete'', cis ''drop'', cis ''truncate'', cis ''alter'', cis ''merge'', cis ''upsert''], WordB,
     plus ws, ors [cis ''that'', cis ''to'', cis ''which'', cis ''for'', cis ''removing'', cis ''adding'', cis ''setting''], WordB], cats [WordB,
     ors [cis ''statement'', cis ''query'', cis ''sql'', cis ''ddl'', cis ''command'', cis ''script'', cis ''migration''], WordB,
     upto_times 40 (none_of ''.?!''), WordB, ors [cis ''that'', cis ''to'', cis ''which''], WordB, upto_times 40 (none_of ''.?!''), WordB,
     ors [cis ''insert'', cis ''inserts'', cis ''update'', cis ''updates'', cis ''delete'', cis ''deletes'', cis ''drop'', cats [cis ''drops'',
     NegLook (cats [plus ws, ors [cats [cis ''row'', Opt (cis ''s'')], cats [cis ''record'', Opt (cis ''s'')], cats [cis ''duplicate'', Opt (cis ''s'')],
     cats [cis ''null'', Opt (cis ''s'')]], WordB])], cis ''truncate'', cis ''truncates'', cis ''alter'', cis ''alters'', cis ''remove'',
     cats [cis ''removes'', NegLook (cats [plus ws, cis ''duplicate'', Opt (cis ''s''), WordB])], cis ''rename'', cis ''renames'', cats [cis ''wipe'',
     Opt (cis ''s'')], cats [cis ''purge'', Opt (cis ''s'')], cats [cis ''erase'', Opt (cis ''s'')], cats [cis ''clear'', Opt (cis ''s'')],
     cis ''empties'', cats [cis ''flushe'', Opt (cis ''s'')], cats [cis ''add'', WordB, upto_times 24 (none_of ''.?!''), WordB, ors [cis ''column'',
     cis ''index'', cis ''constraint'', cis ''table'', cis ''field'', cis ''foreign key'']]], WordB]]"

definition isWriteRequest :: "string \<Rightarrow> bool" where
  "isWriteRequest question \<longleftrightarrow> re_test WRITE_REQUEST question \<and> \<not> isCapabilityQuestion question"

definition RERUN_PREVIOUS :: regex where
  "RERUN_PREVIOUS =
     cats [Bol, Star ws, Star (ors [cats [ors [cis ''please'', cis ''now'', cis ''ok'', cis ''okay'', cis ''yes''], plus ws], cats [ors [cis ''can'',
     cis ''could'', cis ''would'', cis ''will''], plus ws, ors [cis ''you'', cis ''we''], plus ws]]), Opt (cats [cis ''re'', Opt (lit CHR ''-'')]),
     ors [cis ''run'', cis ''execute'', cats [cis ''show'', Opt (cats [plus ws, cis ''me''])], cats [cis ''give'', Opt (cats [plus ws, cis ''me''])],
     cis ''display''], WordB, upto_times 40 (none_of ''.?!''), WordB, ors [cis ''this'', cis ''that'', cats [cis ''the'', plus ws, ors [cis ''previous'',
     cis ''last'', cis ''above'', cis ''same'', cis ''first'', cis ''second'', cis ''aggregation'', cis ''aggregate'']]], WordB,
     upto_times 40 (none_of ''.?!''), Eol]"

definition isRerunPreviousRequest :: "string \<Rightarrow> bool" where
  "isRerunPreviousRequest question = re_test RERUN_PREVIOUS question"

definition catalogQueryHint :: "string \<Rightarrow> string" where
  "catalogQueryHint engine =
     (if engine = ''sqlite'' then ''SELECT name, type FROM sqlite_master WHERE type IN ('table','view')''
      else if engine = ''mysql'' then ''SELECT table_name, table_type FROM information_schema.tables WHERE table_schema = DATABASE()''
      else if engine = ''oracle'' then ''SELECT table_name FROM all_tables''
      else ''SELECT table_name, table_type FROM information_schema.tables WHERE table_schema NOT IN ('pg_catalog','information_schema')'')"

section \<open>Model: names\<close>

text \<open>
  The table of \<open>levenshtein\<close>, row by row: \<open>dp_row c prev j b left\<close> is the rest of a row for the character \<open>c\<close>, given the rest of the
  row above from column \<open>j\<close> on (its head is the entry above and to the left) and the entry to the left.
\<close>

fun dp_row :: "char \<Rightarrow> nat list \<Rightarrow> string \<Rightarrow> nat \<Rightarrow> nat list" where
  "dp_row c (diag # up # prev) (d # b) left =
     (let e = (if c = d then diag else 1 + min diag (min up left)) in e # dp_row c (up # prev) b e)"
| "dp_row c prev b left = []"

fun dp_rows :: "string \<Rightarrow> string \<Rightarrow> nat \<Rightarrow> nat list \<Rightarrow> nat list" where
  "dp_rows b [] i row = row"
| "dp_rows b (c # a) i row = dp_rows b a (i + 1) ((i + 1) # dp_row c row b (i + 1))"

definition levenshtein :: "string \<Rightarrow> string \<Rightarrow> nat" where
  "levenshtein a b = last (dp_rows b a 0 [0..<length b + 1])"

definition QUESTION_WORD :: regex where
  "QUESTION_WORD = cats [Chr (\<lambda>c. is_lower c), cats [exactly 2 (Chr (\<lambda>c. is_lower c \<or> is_digit c \<or> c = CHR ''_'')), Star (Chr (\<lambda>c. is_lower c \<or> is_digit c \<or> c = CHR ''_''))]]"

definition all_matches :: "regex \<Rightarrow> string \<Rightarrow> string list" where
  "all_matches re s = map (m_whole s) (match_all re s)"

definition closer :: "string \<Rightarrow> (string \<times> nat) option \<Rightarrow> TableInfo \<Rightarrow> (string \<times> nat) option" where
  "closer word best t =
     (let name = toLowerCase (t_name t) in
      if name = word then best
      else
        let threshold = max 1 (min (length word) (length name) div 4); distance = levenshtein word name in
        if distance \<le> threshold \<and> (case best of None \<Rightarrow> True | Some (_, d) \<Rightarrow> distance < d) then Some (t_name t, distance) else best)"

definition question_words :: "string \<Rightarrow> string list" where
  "question_words question = foldl (\<lambda>ws w. add_new w ws) [] (all_matches QUESTION_WORD (toLowerCase question))"

definition closestTableName :: "string \<Rightarrow> SchemaCatalog \<Rightarrow> string option" where
  "closestTableName question catalog =
     map_option fst (foldl (\<lambda>best word. foldl (closer word) best (k_tables catalog)) None (question_words question))"

definition QUESTION_NOISE :: "string list" where
  "QUESTION_NOISE =
     [''what'', ''which'', ''how'', ''many'', ''show'', ''me'', ''all'', ''the'', ''a'', ''an'', ''is'', ''are'', ''was'', ''were'', ''do'', ''does'',
     ''did'', ''have'', ''has'', ''list'', ''of'', ''in'', ''on'', ''for'', ''per'', ''each'', ''every'', ''there'', ''their'', ''it'', ''its'', ''to'',
     ''from'', ''by'', ''and'', ''or'', ''not'', ''no'', ''with'', ''that'', ''this'', ''these'', ''those'', ''give'', ''tell'', ''find'', ''get'',
     ''top'', ''most'', ''least'', ''largest'', ''biggest'', ''highest'', ''lowest'', ''average'', ''total'', ''sum'', ''count'', ''number'', ''rows'',
     ''records'', ''value'', ''values'', ''who'', ''whom'', ''whose'', ''when'', ''where'', ''why'', ''can'', ''could'', ''would'', ''should'', ''us'',
     ''we'', ''our'', ''you'', ''your'', ''my'', ''long'', ''longest'', ''shortest'', ''never'', ''ever'', ''any'', ''some'', ''more'', ''than'',
     ''less'', ''over'', ''under'', ''between'', ''about'', ''into'', ''out'', ''up'', ''down'', ''after'', ''before'', ''during'', ''year'', ''years'',
     ''month'', ''months'', ''day'', ''days'', ''week'', ''weeks'', ''time'', ''date'', ''dates'', ''spent'', ''using'', ''called'', ''new'', ''old'',
     ''good'', ''best'', ''worst'', ''same'', ''different'', ''table'', ''tables'', ''column'', ''columns'', ''database'']"

definition singularOfWord :: "string \<Rightarrow> string" where
  "singularOfWord w =
     (if ends_with w ''ies'' then drop_last 3 w @ ''y''
      else if ends_with w ''s'' \<and> \<not> ends_with w ''ss'' then drop_last 1 w
      else w)"

definition NAME_WORD :: regex where
  "NAME_WORD = cats [Chr (\<lambda>c. is_lower c \<or> c = CHR ''_''), Star (Chr is_word)]"

definition known_words :: "SchemaCatalog \<Rightarrow> string list" where
  "known_words catalog =
     concat (map (\<lambda>t. [toLowerCase (t_name t), singularOfWord (toLowerCase (t_name t))]
       @ concat (map (\<lambda>c. [toLowerCase (c_name c), singularOfWord (toLowerCase (c_name c))]) (t_columns t))) (k_tables catalog))"

definition names_known :: "string list \<Rightarrow> string \<Rightarrow> bool" where
  "names_known known w \<longleftrightarrow>
     w \<in> set known \<or> singularOfWord w \<in> set known
     \<or> list_ex (\<lambda>k. length k > 3 \<and> (str_includes k w \<or> str_includes w k)) known"

definition namesSomethingInCatalog :: "string \<Rightarrow> SchemaCatalog \<Rightarrow> bool" where
  "namesSomethingInCatalog question catalog =
     (let known = known_words catalog in
      if known = [] then True
      else list_ex (names_known known) (filter (\<lambda>w. length w > 2 \<and> w \<notin> set QUESTION_NOISE) (all_matches NAME_WORD (toLowerCase question))))"

section \<open>Edit distance\<close>

text \<open>One edit anywhere in a text: a character is replaced, removed or put in.\<close>

inductive edit :: "string \<Rightarrow> string \<Rightarrow> bool" where
  replaced: "edit (x @ [c] @ y) (x @ [d] @ y)"
| removed: "edit (x @ [c] @ y) (x @ y)"
| put_in: "edit (x @ y) (x @ [d] @ y)"

text \<open>An alignment of two texts from the left, with its cost.\<close>

inductive aligned :: "nat \<Rightarrow> string \<Rightarrow> string \<Rightarrow> bool" where
  al_Nil: "aligned 0 [] []"
| al_keep: "aligned n a b \<Longrightarrow> aligned n (c # a) (c # b)"
| al_subst: "aligned n a b \<Longrightarrow> aligned (Suc n) (c # a) (d # b)"
| al_del: "aligned n a b \<Longrightarrow> aligned (Suc n) (c # a) b"
| al_ins: "aligned n a b \<Longrightarrow> aligned (Suc n) a (d # b)"

lemma aligned_refl: "aligned 0 a a"
  by (induction a) (auto intro: aligned.intros)

lemma edit_Cons: "edit a b \<Longrightarrow> edit (c # a) (c # b)"
  by (induction rule: edit.induct) (metis append_Cons edit.intros)+

lemma edits_Cons: "(edit ^^ n) a b \<Longrightarrow> (edit ^^ n) (c # a) (c # b)"
  by (induction n arbitrary: b) (auto intro: edit_Cons)

lemma aligned_edits: "aligned n a b \<Longrightarrow> (edit ^^ n) a b"
proof (induction rule: aligned.induct)
  case (al_subst n a b c d)
  have "edit (c # b) (d # b)" using edit.replaced [of "[]"] by simp
  with edits_Cons [OF al_subst.IH, of c] show ?case by auto
next
  case (al_del n a b c)
  have "edit (c # a) a" using edit.removed [of "[]" c a] by simp
  then show ?case using relpowp_Suc_I2 [of edit "c # a" a n b] al_del.IH by blast
next
  case (al_ins n a b d)
  have "edit b (d # b)" using edit.put_in [of "[]" b d] by simp
  with al_ins.IH show ?case by auto
qed (auto intro: edits_Cons)

definition within_cost :: "nat \<Rightarrow> string \<Rightarrow> string \<Rightarrow> bool" where
  "within_cost n a b \<longleftrightarrow> (\<exists>m \<le> n. aligned m a b)"

lemma within_of: "aligned n a b \<Longrightarrow> within_cost n a b"
  by (auto simp: within_cost_def)

lemma within_mono: "within_cost n a b \<Longrightarrow> n \<le> m \<Longrightarrow> within_cost m a b"
  unfolding within_cost_def using le_trans by blast

lemma within_Suc: "aligned n a b \<Longrightarrow> within_cost (Suc n) a b"
  using within_mono [OF within_of] by simp

lemma within_intros:
  "within_cost n a b \<Longrightarrow> within_cost n (c # a) (c # b)"
  "within_cost n a b \<Longrightarrow> within_cost (Suc n) (c # a) (d # b)"
  "within_cost n a b \<Longrightarrow> within_cost (Suc n) (c # a) b"
  "within_cost n a b \<Longrightarrow> within_cost (Suc n) a (d # b)"
  unfolding within_cost_def
  by (metis aligned.al_keep, metis aligned.al_subst Suc_le_mono, metis aligned.al_del Suc_le_mono, metis aligned.al_ins Suc_le_mono)

lemma within_more:
  "aligned n a b \<Longrightarrow> within_cost (Suc n) (c # a) (d # b)"
  "aligned n a b \<Longrightarrow> within_cost (Suc n) (c # a) b"
  "aligned n a b \<Longrightarrow> within_cost (Suc n) a (d # b)"
  by (auto intro: within_of aligned.intros)

lemma aligned_front:
  assumes "aligned n a (u @ y)" "length u \<le> 1" "length v \<le> 1"
  shows "within_cost (Suc n) a (v @ y)"
proof -
  have drop': "within_cost (Suc n) a y \<and> within_cost (Suc n) a (d # y)" if "aligned n a (c # y)" for c d
    using that
  proof (induction n a "c # y" rule: aligned.induct)
    case (al_del n a e)
    then show ?case by (auto intro: within_intros)
  next
    case (al_ins n a)
    then show ?case by (auto intro: within_mono [OF within_more(3)] within_mono [OF within_of])
  qed (auto intro: within_more within_mono [OF within_more(2)] within_mono [OF within_more(1)])
  show ?thesis
  proof (cases u)
    case Nil
    with assms show ?thesis by (cases v) (auto intro: within_Suc within_more)
  next
    case (Cons c u')
    with assms have "aligned n a (c # y)" by simp
    from drop' [OF this] assms(3) show ?thesis by (cases v) auto
  qed
qed

lemma aligned_inside:
  assumes "length u \<le> 1" "length v \<le> 1"
  shows "aligned n a b \<Longrightarrow> b = x @ u @ y \<Longrightarrow> within_cost (Suc n) a (x @ v @ y)"
proof (induction arbitrary: x rule: aligned.induct)
  case al_Nil
  then show ?case using assms(2) by (cases v) (auto intro: within_Suc within_more aligned.intros)
next
  case (al_keep n a b e)
  show ?case
  proof (cases x)
    case Nil
    with al_keep.prems aligned.al_keep [OF al_keep.hyps] show ?thesis using aligned_front [OF _ assms] by (metis append_Nil)
  next
    case (Cons f x')
    with al_keep.prems al_keep.IH [of x'] show ?thesis using within_intros(1) by simp
  qed
next
  case (al_subst n a b e f)
  show ?case
  proof (cases x)
    case Nil
    with al_subst.prems aligned.al_subst [OF al_subst.hyps] show ?thesis using aligned_front [OF _ assms] by (metis append_Nil)
  next
    case (Cons g x')
    with al_subst.prems al_subst.IH [of x'] show ?thesis using within_intros(2) by simp
  qed
next
  case (al_del n a b e)
  then show ?case by (auto intro: within_intros)
next
  case (al_ins n a b f)
  show ?case
  proof (cases x)
    case Nil
    with al_ins.prems aligned.al_ins [OF al_ins.hyps] show ?thesis using aligned_front [OF _ assms] by (metis append_Nil)
  next
    case (Cons g x')
    with al_ins.prems al_ins.IH [of x'] show ?thesis using within_intros(4) by simp
  qed
qed

lemma aligned_edit:
  assumes "aligned n a b" "edit b b'"
  shows "within_cost (Suc n) a b'"
  using assms(2)
proof cases
  case (replaced x c y d)
  then show ?thesis using aligned_inside [of "[c]" "[d]" n a b x y] assms(1) by simp
next
  case (removed x c y)
  then show ?thesis using aligned_inside [of "[c]" "[]" n a b x y] assms(1) by simp
next
  case (put_in x y d)
  then show ?thesis using aligned_inside [of "[]" "[d]" n a b x y] assms(1) by simp
qed

lemma edits_aligned: "(edit ^^ n) a b \<Longrightarrow> within_cost n a b"
proof (induction n arbitrary: b)
  case 0
  then show ?case using aligned_refl by (auto intro: within_of)
next
  case (Suc n)
  then obtain b' where b': "(edit ^^ n) a b'" "edit b' b" by auto
  from Suc.IH [OF b'(1)] obtain m where "m \<le> n" "aligned m a b'" by (auto simp: within_cost_def)
  with aligned_edit [OF _ b'(2)] show ?case using within_mono by (meson Suc_le_mono)
qed

text \<open>The recursive distance, on the reversed texts, and that it is the least cost.\<close>

fun lev :: "string \<Rightarrow> string \<Rightarrow> nat" where
  "lev [] b = length b"
| "lev (c # a) [] = length (c # a)"
| "lev (c # a) (d # b) = (if c = d then lev a b else 1 + min (lev a b) (min (lev a (d # b)) (lev (c # a) b)))"

lemma aligned_ends: "aligned (length b) [] b" "aligned (length a) a []"
  by (induction b, auto intro: aligned.intros) (induction a, auto intro: aligned.intros)

lemma lev_aligned: "aligned (lev a b) a b"
proof (induction a b rule: lev.induct)
  case (1 b)
  then show ?case using aligned_ends(1) by simp
next
  case (2 c a)
  then show ?case using aligned_ends(2) [of "c # a"] by simp
next
  case (3 c a d b)
  then show ?case by (auto simp: min_def intro: aligned.intros)
qed

lemma lev_least_aligned: "aligned n a b \<Longrightarrow> lev a b \<le> n"
proof (induction a b arbitrary: n rule: lev.induct)
  case (1 b)
  have "aligned n a b \<Longrightarrow> a = [] \<Longrightarrow> length b \<le> n" for n a b by (induction rule: aligned.induct) auto
  with 1 show ?case by simp
next
  case (2 c a)
  have "aligned n a b \<Longrightarrow> b = [] \<Longrightarrow> length a \<le> n" for n a b by (induction rule: aligned.induct) auto
  with 2 show ?case by fastforce
next
  case (3 c a d b)
  have left: "within_cost (Suc n) a b" if "aligned n (c # a) b" for n c a b
    using that
  proof (induction n "c # a" b rule: aligned.induct)
    case (al_ins n b d)
    then show ?case by (auto intro: within_intros)
  qed (auto intro: within_more within_mono [OF within_more(3)] within_mono [OF within_of])
  have right: "within_cost (Suc n) a b" if "aligned n a (d # b)" for n d a b
    using aligned_front [of n a "[d]" b "[]"] that by simp
  show ?case
  proof (cases "c = d")
    case True
    have "within_cost n a b" using 3(5)
      by (cases rule: aligned.cases) (use left right in \<open>auto intro: within_of within_Suc\<close>)
    with True 3(1) show ?thesis by (auto simp: within_cost_def intro: le_trans)
  next
    case False
    from 3(5) show ?thesis
    proof (cases rule: aligned.cases)
      case (al_subst n')
      with False 3(2) show ?thesis by fastforce
    next
      case (al_del n')
      with False 3(3) show ?thesis by fastforce
    next
      case (al_ins n')
      with False 3(4) show ?thesis by fastforce
    qed (use False in simp)
  qed
qed

text \<open>A row of the table holds the distances of one prefix to all prefixes; \<open>p\<close> and \<open>pre\<close> are prefixes in reverse.\<close>

fun lev_row :: "string \<Rightarrow> string \<Rightarrow> string \<Rightarrow> nat list" where
  "lev_row p pre [] = [lev p pre]"
| "lev_row p pre (d # b) = lev p pre # lev_row p (d # pre) b"

lemma lev_row_Cons: "lev_row p pre b = lev p pre # tl (lev_row p pre b)"
  by (cases b) simp_all

lemma lev_Nil2 [simp]: "lev p [] = length p"
  by (cases p) simp_all

lemma dp_row_lev: "dp_row c (lev_row p pre b) b (lev (c # p) pre) = tl (lev_row (c # p) pre b)"
proof (induction b arbitrary: pre)
  case (Cons d b)
  obtain rest where rest: "lev_row p (d # pre) b = lev p (d # pre) # rest" using lev_row_Cons by blast
  have "dp_row c (lev_row p pre (d # b)) (d # b) (lev (c # p) pre)
      = lev (c # p) (d # pre) # dp_row c (lev_row p (d # pre) b) b (lev (c # p) (d # pre))"
    by (simp add: rest Let_def)
  also have "\<dots> = lev_row (c # p) (d # pre) b"
    unfolding Cons.IH by (rule lev_row_Cons [symmetric])
  finally show ?case by simp
qed simp

lemma dp_rows_lev: "dp_rows b a (length p) (lev_row p [] b) = lev_row (rev a @ p) [] b"
proof (induction a arbitrary: p)
  case (Cons c a)
  have "Suc (length p) # dp_row c (lev_row p [] b) b (Suc (length p)) = lev_row (c # p) [] b"
    using dp_row_lev [of c p "[]" b] lev_row_Cons [of "c # p" "[]" b] by simp
  with Cons.IH [of "c # p"] show ?case by simp
qed simp

lemma last_lev_row: "last (lev_row p pre b) = lev p (rev b @ pre)"
  by (induction b arbitrary: pre) (simp, metis append.assoc append_Cons append_Nil last_ConsR lev_row.simps(2) lev_row_Cons list.distinct(1) rev.simps(2))

lemma lev_row_Nil: "lev_row [] pre b = [length pre..<length pre + length b + 1]"
  by (induction b arbitrary: pre) (simp_all add: upt_rec)

lemma levenshtein_lev: "levenshtein a b = lev (rev a) (rev b)"
  using dp_rows_lev [of b a "[]"] lev_row_Nil [of "[]" b] by (simp add: levenshtein_def last_lev_row)

lemma edit_rev: "edit a b \<Longrightarrow> edit (rev a) (rev b)"
proof (induction rule: edit.induct)
  case (replaced x c y d)
  show ?case using edit.replaced [of "rev y" c "rev x" d] by simp
next
  case (removed x c y)
  show ?case using edit.removed [of "rev y" c "rev x"] by simp
next
  case (put_in x y d)
  show ?case using edit.put_in [of "rev y" "rev x" d] by simp
qed

lemma edits_rev: "(edit ^^ n) a b \<Longrightarrow> (edit ^^ n) (rev a) (rev b)"
  by (induction n arbitrary: b) (auto intro: edit_rev)

lemma levenshtein_attained: "(edit ^^ levenshtein a b) a b"
  using edits_rev [OF aligned_edits [OF lev_aligned [of "rev a" "rev b"]]] by (simp add: levenshtein_lev)

lemma levenshtein_minimal: "(edit ^^ n) a b \<Longrightarrow> levenshtein a b \<le> n"
  using edits_aligned [OF edits_rev, of n a b] lev_least_aligned le_trans unfolding within_cost_def levenshtein_lev by blast

text \<open>
  C39: the table computed row by row gives the edit distance: the two texts are that many edits apart, and fewer do not do.
\<close>

theorem levenshtein_least_edits:
  "(edit ^^ levenshtein a b) a b \<and> levenshtein a b = (LEAST n. (edit ^^ n) a b)"
  using levenshtein_attained levenshtein_minimal by (metis Least_equality)

section \<open>The closest table\<close>

text \<open>A table is near a word when it is not the word itself and within a quarter of the shorter of the two, at least one.\<close>

definition near :: "string \<Rightarrow> TableInfo \<Rightarrow> bool" where
  "near word t \<longleftrightarrow> toLowerCase (t_name t) \<noteq> word
     \<and> levenshtein word (toLowerCase (t_name t)) \<le> max 1 (min (length word) (length (toLowerCase (t_name t))) div 4)"

definition best_ok :: "(string \<times> TableInfo) list \<Rightarrow> (string \<times> nat) option \<Rightarrow> bool" where
  "best_ok ps best \<longleftrightarrow>
     (case best of
        None \<Rightarrow> \<not> list_ex (\<lambda>(w, t). near w t) ps
      | Some (name, d) \<Rightarrow>
          list_ex (\<lambda>(w, t). near w t \<and> t_name t = name \<and> levenshtein w (toLowerCase (t_name t)) = d) ps
          \<and> list_all (\<lambda>(w, t). near w t \<longrightarrow> d \<le> levenshtein w (toLowerCase (t_name t))) ps)"

lemma closer_near:
  "closer w best t =
     (if near w t \<and> (case best of None \<Rightarrow> True | Some (_, d) \<Rightarrow> levenshtein w (toLowerCase (t_name t)) < d)
      then Some (t_name t, levenshtein w (toLowerCase (t_name t))) else best)"
  by (simp add: closer_def near_def Let_def)

lemma closer_ok:
  assumes "best_ok ps best"
  shows "best_ok (ps @ [(w, t)]) (closer w best t)"
proof (cases best)
  case None
  with assms show ?thesis by (auto simp: closer_near best_ok_def list_all_iff list_ex_iff)
next
  case (Some nd)
  obtain name d where nd: "nd = (name, d)" by (cases nd)
  show ?thesis
  proof (cases "near w t \<and> levenshtein w (toLowerCase (t_name t)) < d")
    case True
    with assms Some nd show ?thesis
      by (simp add: closer_near best_ok_def) (auto simp: list_all_iff)
  next
    case False
    with assms Some nd show ?thesis
      by (simp add: closer_near best_ok_def) (auto simp: list_all_iff)
  qed
qed

lemma closer_all: "best_ok ps best \<Longrightarrow> best_ok (ps @ map (Pair w) ts) (foldl (closer w) best ts)"
proof (induction ts arbitrary: ps best)
  case (Cons t ts)
  from Cons.IH [OF closer_ok [OF Cons.prems]] show ?case by simp
qed simp

lemma closest_ok:
  "best_ok ps best \<Longrightarrow>
     best_ok (ps @ concat (map (\<lambda>w. map (Pair w) ts) wds)) (foldl (\<lambda>best w. foldl (closer w) best ts) best wds)"
proof (induction wds arbitrary: ps best)
  case (Cons w wds)
  from Cons.IH [OF closer_all [OF Cons.prems]] show ?case by simp
qed simp

text \<open>
  A suggested table is a table of the catalog that is near a word of the question, and no table is nearer to any word;
  if none is suggested, no table is near any word.
\<close>

theorem closestTableName_nearest:
  "case closestTableName question catalog of
     None \<Rightarrow> list_all (\<lambda>w. \<not> list_ex (near w) (k_tables catalog)) (question_words question)
   | Some name \<Rightarrow>
       list_ex (\<lambda>w. list_ex (\<lambda>t. near w t \<and> t_name t = name
         \<and> list_all (\<lambda>w'. list_all (\<lambda>t'. levenshtein w (toLowerCase (t_name t)) \<le> levenshtein w' (toLowerCase (t_name t')))
             (filter (near w') (k_tables catalog))) (question_words question)) (k_tables catalog)) (question_words question)"
proof -
  let ?best = "foldl (\<lambda>best w. foldl (closer w) best (k_tables catalog)) None (question_words question)"
  have "best_ok [] None" by (simp add: best_ok_def)
  from closest_ok [OF this, of "k_tables catalog" "question_words question"]
  have "best_ok (concat (map (\<lambda>w. map (Pair w) (k_tables catalog)) (question_words question))) ?best" by simp
  then show ?thesis
    unfolding closestTableName_def best_ok_def
    by (cases ?best) (auto simp: list_all_iff list_ex_iff split: prod.splits)
qed

end
