(* ===== verification/Catalog_Answers.thy ===== *)
theory Catalog_Answers
  imports Catalog
begin

text \<open>
  \<open>packages/core/src/catalog-answers.ts\<close>: the structure questions that are answered with a statement written
  here instead of by a model. A table's name in a regular expression is escaped by the source, so it matches itself without case.

  The properties: the row counts are one branch per table of the catalog that has rows of its own, in order; in each the
  label is one string literal that reads back as the name, and the relation is one quoted identifier, or two, that read back as
  the schema and the table.
\<close>

section \<open>Model\<close>

record CatalogQuery =
  cq_sql :: string
  cq_explanation :: string

definition EVERY_TABLE :: regex where
  "EVERY_TABLE =
     cats [WordB, Group 1 (ors [cis ''each'', cis ''every'', cis ''per'', cis ''all'']), plus ws, Opt (cats [cis ''the'', plus ws]), cis ''table'',
     Opt (cis ''s''), WordB]"

definition ROWS :: regex where
  "ROWS =
     cats [WordB, Group 1 (ors [cats [cis ''row'', Opt (cis ''s'')], cats [cis ''record'', Opt (cis ''s'')]]), WordB]"

definition MOST_ROWS :: regex where
  "MOST_ROWS =
     ors [cats [WordB, Group 1 (ors [cis ''most'', cis ''largest'', cis ''biggest'', cis ''highest'']), WordB, upto_times 24 (none_of ''.?!''), WordB,
     Group 2 (ors [cats [cis ''row'', Opt (cis ''s'')], cats [cis ''record'', Opt (cis ''s'')]]), WordB], cats [WordB, Group 3 (ors [cats [cis ''row'',
     Opt (cis ''s'')], cats [cis ''record'', Opt (cis ''s'')]]), WordB, upto_times 24 (none_of ''.?!''), WordB, Group 4 (ors [cis ''most'',
     cis ''largest'', cis ''biggest'']), WordB]]"

definition NEGATED :: regex where
  "NEGATED =
     cats [WordB, Group 1 (ors [cis ''without'', cis ''no'', cis ''missing'', cats [cis ''lack'', Opt (ors [cis ''ing'', cis ''s''])], cats [cis ''do'',
     Opt (cis ''es''), Star ws, cis ''n'', Opt (Chr (\<lambda>c. lower c = CHR ''o'' \<or> lower c = SQUOTE)), cis ''t have''], cis ''have no'']), WordB]"

definition TABLES :: regex where
  "TABLES =
     cats [WordB, cis ''table'', Opt (cis ''s''), WordB]"

definition PRIMARY_KEY :: regex where
  "PRIMARY_KEY =
     ors [cats [WordB, cis ''primary'', plus ws, cis ''key'', Opt (cis ''s''), WordB], cats [WordB, cis ''pk'', WordB]]"

definition TABLE_SUBJECT :: regex where
  "TABLE_SUBJECT =
     cats [WordB, ors [cis ''which'', cis ''what'', cis ''list'', cis ''show'', cis ''find'', cis ''any''], WordB, upto_times 24 (none_of ''.?!''), WordB,
     cis ''table'', Opt (cis ''s''), WordB]"

definition ROW_SUBJECT :: regex where
  "ROW_SUBJECT =
     cats [WordB, ors [cats [cis ''row'', Opt (cis ''s'')], cats [cis ''record'', Opt (cis ''s'')]], WordB]"

definition NAMED_TABLE :: regex where
  "NAMED_TABLE =
     cats [WordB, ors [cis ''the'', cis ''this'', cis ''that'', cis ''a'', cis ''an'', cis ''our'', cis ''my''], plus ws,
     plus (Chr (\<lambda>c. is_word c \<or> c \<in> set [DQUOTE, BACKTICK, CHR '']''])), plus ws, cis ''table'', Opt (cis ''s''), WordB]"

definition ROW_CONDITION :: regex where
  "ROW_CONDITION =
     cats [WordB, ors [cis ''where'', cats [cis ''that '', ors [cis ''are'', cis ''have'']], cis ''with a'', cis ''having''], WordB]"

definition named_re :: "TableInfo \<Rightarrow> regex" where
  "named_re t = cats [WordB, cis (t_name t), WordB]"

definition qualified_label :: "TableInfo \<Rightarrow> string" where
  "qualified_label t = (case truthy (t_schema t) of Some s \<Rightarrow> s @ ''.'' @ t_name t | None \<Rightarrow> t_name t)"

definition countableTables :: "SchemaCatalog \<Rightarrow> TableInfo list" where
  "countableTables catalog = filter (\<lambda>t. t_kind t = Table \<and> truthy (t_partitionOf t) = None) (k_tables catalog)"

definition quoteFor :: "string \<Rightarrow> DialectInfo \<Rightarrow> string" where
  "quoteFor name dialect = [d_quoteChar dialect] @ double_quotes (d_quoteChar dialect) name @ [d_quoteChar dialect]"

definition string_literal :: "string \<Rightarrow> string" where
  "string_literal s = [SQUOTE] @ double_quotes SQUOTE s @ [SQUOTE]"

definition tablesWithoutPrimaryKey :: "string \<Rightarrow> string list \<Rightarrow> string option" where
  "tablesWithoutPrimaryKey engine schemas =
     (let inList = (if schemas \<noteq> [] then join '', '' (map string_literal schemas) else ''current_schema()'') in
      if engine = ''postgres'' then Some
       (''SELECT t.table_name'' @ [LF] @
        ''FROM information_schema.tables t'' @ [LF] @
        ''WHERE t.table_schema IN ('' @ inList @ '')'' @ [LF] @
        ''  AND t.table_type = 'BASE TABLE'' @ [SQUOTE] @ [LF] @
        ''  AND NOT EXISTS ('' @ [LF] @
        ''    SELECT 1 FROM information_schema.table_constraints c'' @ [LF] @
        ''    WHERE c.table_schema = t.table_schema'' @ [LF] @
        ''      AND c.table_name = t.table_name'' @ [LF] @
        ''      AND c.constraint_type = 'PRIMARY KEY'' @ [SQUOTE] @ [LF] @
        ''  )'' @ [LF] @
        ''ORDER BY t.table_name'')
      else if engine = ''mysql'' then Some
       (''SELECT t.TABLE_NAME'' @ [LF] @
        ''FROM information_schema.TABLES t'' @ [LF] @
        ''WHERE t.TABLE_SCHEMA = DATABASE()'' @ [LF] @
        ''  AND t.TABLE_TYPE = 'BASE TABLE'' @ [SQUOTE] @ [LF] @
        ''  AND NOT EXISTS ('' @ [LF] @
        ''    SELECT 1 FROM information_schema.TABLE_CONSTRAINTS c'' @ [LF] @
        ''    WHERE c.TABLE_SCHEMA = t.TABLE_SCHEMA'' @ [LF] @
        ''      AND c.TABLE_NAME = t.TABLE_NAME'' @ [LF] @
        ''      AND c.CONSTRAINT_TYPE = 'PRIMARY KEY'' @ [SQUOTE] @ [LF] @
        ''  )'' @ [LF] @
        ''ORDER BY t.TABLE_NAME'')
      else if engine = ''oracle'' then Some
       (''SELECT t.table_name'' @ [LF] @
        ''FROM user_tables t'' @ [LF] @
        ''WHERE NOT EXISTS ('' @ [LF] @
        ''  SELECT 1 FROM user_constraints c'' @ [LF] @
        ''  WHERE c.table_name = t.table_name AND c.constraint_type = 'P'' @ [SQUOTE] @ [LF] @
        '')'' @ [LF] @
        ''ORDER BY t.table_name'')
      else if engine = ''sqlite'' then Some
       (''SELECT m.name'' @ [LF] @
        ''FROM sqlite_master m'' @ [LF] @
        ''WHERE m.type = 'table'' @ [SQUOTE] @ [LF] @
        ''  AND m.name NOT LIKE 'sqlite_%'' @ [SQUOTE] @ [LF] @
        ''  AND NOT EXISTS (SELECT 1 FROM pragma_table_info(m.name) p WHERE p.pk > 0)'' @ [LF] @
        ''ORDER BY m.name'')
      else None)"

definition catalog_schemas :: "SchemaCatalog \<Rightarrow> string list" where
  "catalog_schemas catalog =
     foldl (\<lambda>ss t. case truthy (t_schema t) of Some s \<Rightarrow> add_new s ss | None \<Rightarrow> ss) [] (k_tables catalog)"

definition count_source :: "DialectInfo \<Rightarrow> TableInfo \<Rightarrow> string" where
  "count_source dialect t =
     (case truthy (t_schema t) of
        Some s \<Rightarrow> quoteFor s dialect @ ''.'' @ quoteFor (t_name t) dialect
      | None \<Rightarrow> quoteFor (t_name t) dialect)"

definition count_branch :: "DialectInfo \<Rightarrow> TableInfo \<Rightarrow> string" where
  "count_branch dialect t =
     ''SELECT '' @ string_literal (qualified_label t) @ '' AS table_name, COUNT(*) AS row_count FROM '' @ count_source dialect t"

definition count_query :: "DialectInfo \<Rightarrow> TableInfo list \<Rightarrow> CatalogQuery" where
  "count_query dialect tables =
     \<lparr>cq_sql = ''SELECT * FROM ('' @ [LF] @ join ([LF] @ ''UNION ALL'' @ [LF]) (map (count_branch dialect) tables) @ [LF]
                @ '') counts ORDER BY row_count DESC'',
      cq_explanation = ''Counts the rows in each of the '' @ show_nat (length tables) @ '' tables, largest first.''\<rparr>"

definition asks_row_counts :: "string \<Rightarrow> SchemaCatalog \<Rightarrow> bool" where
  "asks_row_counts q catalog \<longleftrightarrow>
     \<not> (re_test NAMED_TABLE q \<or> list_ex (\<lambda>t. re_test (named_re t) q) (k_tables catalog))
     \<and> \<not> (re_test NEGATED q \<or> re_test ROW_CONDITION q)
     \<and> (re_test EVERY_TABLE q \<and> re_test ROWS q \<or> re_test MOST_ROWS q)"

definition asks_missing_keys :: "string \<Rightarrow> bool" where
  "asks_missing_keys q \<longleftrightarrow> re_test NEGATED q \<and> re_test PRIMARY_KEY q \<and> re_test TABLE_SUBJECT q \<and> \<not> re_test ROW_SUBJECT q"

definition catalogQueryFor :: "string \<Rightarrow> SchemaCatalog \<Rightarrow> DialectInfo \<Rightarrow> CatalogQuery option" where
  "catalogQueryFor question catalog dialect =
     (let q = trim question in
      if \<not> re_test TABLES q then None
      else
        (case (if asks_missing_keys q then tablesWithoutPrimaryKey (d_engine dialect) (catalog_schemas catalog) else None) of
           Some sql \<Rightarrow> Some \<lparr>cq_sql = sql, cq_explanation = ''Lists tables with no primary key, read from the database catalog.''\<rparr>
         | None \<Rightarrow>
             if \<not> asks_row_counts q catalog then None
             else if countableTables catalog = [] then None
             else Some (count_query dialect (countableTables catalog))))"

section \<open>Reading the names back\<close>

text \<open>
  At index \<open>i\<close> of \<open>src\<close> a lexer that ends a quoted token at an undoubled quote finds one that ends in front of \<open>j\<close> and stands for
  \<open>name\<close>.
\<close>

definition reads_as :: "char \<Rightarrow> string \<Rightarrow> nat \<Rightarrow> string \<Rightarrow> nat \<Rightarrow> bool" where
  "reads_as q src i name j \<longleftrightarrow>
     char_at src i = Some q \<and> skip_lit esc_never q src (i + 1) = j \<and> undouble q (slice src (i + 1) (j - 1)) = name"

lemma reads_as_quoted:
  assumes "rest = [] \<or> hd rest \<noteq> q"
  shows "reads_as q (pre @ [q] @ double_quotes q name @ [q] @ rest) (length pre) name (length pre + length (double_quotes q name) + 2)"
proof -
  have "slice (pre @ [q] @ double_quotes q name @ [q] @ rest) (length pre + 1) (length pre + length (double_quotes q name) + 1) = double_quotes q name"
    by (simp add: slice_def)
  then show ?thesis
    using skip_double_quotes [OF assms, of "pre @ [q]" name] by (simp add: reads_as_def char_at_def nth_append)
qed

text \<open>
  A table name cannot break out of the count written for it: in each branch the label is one literal that stands for the
  name, and what follows \<open>FROM\<close> are the schema, a dot and the table, or the table alone, each one quoted identifier that
  stands for its name.
\<close>

theorem count_branch_reads_back:
  assumes "d_quoteChar dialect \<noteq> CHR ''.''"
  shows "reads_as SQUOTE (count_branch dialect t) 7 (qualified_label t) (7 + length (string_literal (qualified_label t)))
    \<and> (case truthy (t_schema t) of
         None \<Rightarrow> reads_as (d_quoteChar dialect) (count_source dialect t) 0 (t_name t) (length (count_source dialect t))
       | Some s \<Rightarrow>
           reads_as (d_quoteChar dialect) (count_source dialect t) 0 s (length (quoteFor s dialect))
           \<and> reads_as (d_quoteChar dialect) (count_source dialect t) (length (quoteFor s dialect) + 1) (t_name t) (length (count_source dialect t)))"
proof -
  let ?q = "d_quoteChar dialect"
  have label: "reads_as SQUOTE (count_branch dialect t) 7 (qualified_label t) (7 + length (string_literal (qualified_label t)))"
    using reads_as_quoted [of "'' AS table_name, COUNT(*) AS row_count FROM '' @ count_source dialect t" SQUOTE "''SELECT ''" "qualified_label t"]
    by (simp add: count_branch_def string_literal_def SQUOTE_def eval_nat_numeral)
  show ?thesis
  proof (cases "truthy (t_schema t)")
    case None
    with label show ?thesis
      using reads_as_quoted [of "[]" ?q "[]" "t_name t"] by (simp add: count_source_def quoteFor_def)
  next
    case (Some s)
    have "reads_as ?q (count_source dialect t) 0 s (length (quoteFor s dialect))"
      using reads_as_quoted [of "''.'' @ quoteFor (t_name t) dialect" ?q "[]" s] assms Some by (simp add: count_source_def quoteFor_def)
    moreover have "reads_as ?q (count_source dialect t) (length (quoteFor s dialect) + 1) (t_name t) (length (count_source dialect t))"
      using reads_as_quoted [of "[]" ?q "quoteFor s dialect @ ''.''" "t_name t"] Some by (simp add: count_source_def quoteFor_def)
    ultimately show ?thesis using label Some by simp
  qed
qed

definition quoted_table :: TableInfo where
  "quoted_table = (example_table [CHR ''a'', SQUOTE, DQUOTE] [] [])\<lparr>t_schema := Some ''s''\<rparr>"

theorem count_branch_reads_back_witness:
  "reads_as DQUOTE (count_source POSTGRES_DIALECT quoted_table) 0 ''s'' 3
   \<and> reads_as DQUOTE (count_source POSTGRES_DIALECT quoted_table) 4 [CHR ''a'', SQUOTE, DQUOTE] 10"
proof -
  have "d_quoteChar POSTGRES_DIALECT = DQUOTE" "DQUOTE \<noteq> CHR ''.''" by code_simp+
  moreover have "truthy (t_schema quoted_table) = Some ''s''" "t_name quoted_table = [CHR ''a'', SQUOTE, DQUOTE]" by code_simp+
  moreover have "length (quoteFor ''s'' POSTGRES_DIALECT) = 3" "length (count_source POSTGRES_DIALECT quoted_table) = 10" by code_simp+
  ultimately show ?thesis using count_branch_reads_back [of POSTGRES_DIALECT quoted_table] by simp
qed

text \<open>
  On MySQL a backslash escapes, which the label does not know: a table whose name ends in one has a label that does not end at
  its quote.
\<close>

lemma mysql_label_ends_late:
  "skip_lit esc_always SQUOTE (count_branch MYSQL_DIALECT (example_table [CHR ''a'', BSLASH] [] [])) 8
     \<noteq> 7 + length (string_literal (qualified_label (example_table [CHR ''a'', BSLASH] [] [])))"
  by code_simp

end
