(* ===== verification/Grounding.thy ===== *)
theory Grounding
  imports Catalog
begin

text \<open>
  \<open>packages/core/src/grounding.ts\<close>: which identifier-shaped names in a prose answer are real, and whether a text
  mentions the catalog at all. Sets are lists without duplicates in insertion order.

  The property: what is reported as unknown is no table, column or schema of the catalog, by itself or behind a
  qualifier, no name the answer defines and no system catalog, and each name is reported once.
\<close>

section \<open>Model\<close>

definition SCHEMA_CHANGE_RE :: regex where
  "SCHEMA_CHANGE_RE =
     cats [WordB, Group 1 (ors [cis ''add'', cis ''adds'', cis ''adding'', cis ''create'', cis ''creates'', cis ''creating'', cis ''extend'',
     cis ''extends'', cis ''extending'', cis ''alter'', cis ''alters'', cis ''altering'', cis ''drop'', cis ''drops'', cis ''dropping'', cis ''remove'',
     cis ''removes'', cis ''removing'', cis ''delete'', cis ''deletes'', cis ''deleting'', cis ''insert'', cis ''inserts'', cis ''inserting'',
     cis ''update'', cis ''updates'', cis ''updating'', cis ''truncate'', cis ''truncates'', cis ''truncating'', cis ''rename'', cis ''renames'',
     cis ''renaming'', cis ''migrate'', cis ''migrates'', cis ''migrating'', cis ''introduce'', cis ''introduces'', cis ''introducing'', cis ''modify'',
     cis ''modifies'', cis ''modifying'']), WordB]"

definition SYSTEM_CATALOG_RE :: regex where
  "SYSTEM_CATALOG_RE =
     cats [Bol, ors [cis ''pg_'', cis ''sqlite_'', cis ''v$'', cis ''gv$'', cis ''sys.'', cis ''mysql.'', cis ''information_schema.'',
     cis ''performance_schema.'']]"

definition SYSTEM_CATALOG_NAMES :: "string list" where
  "SYSTEM_CATALOG_NAMES =
     [''information_schema'', ''performance_schema'', ''user_tables'', ''user_indexes'', ''user_views'', ''user_constraints'', ''user_tab_columns'',
     ''user_ind_columns'', ''user_objects'', ''user_sequences'', ''user_triggers'', ''user_procedures'', ''user_source'', ''user_tab_statistics'',
     ''all_tables'', ''all_indexes'', ''all_views'', ''all_constraints'', ''all_tab_columns'', ''all_ind_columns'', ''all_objects'', ''all_sequences'',
     ''all_triggers'', ''all_procedures'', ''all_source'', ''dba_tables'', ''dba_indexes'', ''dba_views'', ''dba_constraints'', ''dba_tab_columns'',
     ''dba_objects'', ''dba_segments'']"

text \<open>\<open>name.includes('.') ? name.split('.').pop() : name\<close>.\<close>

definition bare_of :: "string \<Rightarrow> string" where
  "bare_of name = last (split_on CHR ''.'' name)"

definition isSystemCatalog :: "string \<Rightarrow> bool" where
  "isSystemCatalog name \<longleftrightarrow>
     re_test SYSTEM_CATALOG_RE name \<or> name \<in> set SYSTEM_CATALOG_NAMES \<or> bare_of name \<in> set SYSTEM_CATALOG_NAMES"

definition SQL_VOCABULARY :: "string list" where
  "SQL_VOCABULARY =
     [''select'', ''from'', ''where'', ''join'', ''inner'', ''outer'', ''left'', ''right'', ''full'', ''cross'', ''on'', ''group'', ''order'', ''having'',
     ''limit'', ''offset'', ''fetch'', ''next'', ''rows'', ''row'', ''only'', ''ties'', ''union'', ''intersect'', ''except'', ''all'', ''distinct'',
     ''as'', ''and'', ''or'', ''not'', ''null'', ''nulls'', ''is'', ''in'', ''exists'', ''any'', ''some'', ''between'', ''like'', ''ilike'', ''similar'',
     ''escape'', ''case'', ''when'', ''then'', ''else'', ''end'', ''with'', ''recursive'', ''lateral'', ''natural'', ''using'', ''over'', ''partition'',
     ''window'', ''filter'', ''within'', ''asc'', ''desc'', ''collate'', ''order_by'', ''group_by'', ''is_null'', ''left_join'', ''inner_join'',
     ''outer_join'', ''cross_join'', ''insert'', ''update'', ''delete'', ''merge'', ''set'', ''values'', ''into'', ''returning'', ''explain'', ''create'',
     ''alter'', ''drop'', ''truncate'', ''rename'', ''add'', ''modify'', ''grant'', ''revoke'', ''begin'', ''commit'', ''rollback'', ''savepoint'',
     ''analyze'', ''vacuum'', ''table'', ''view'', ''materialized'', ''schema'', ''database'', ''column'', ''trigger'', ''function'', ''procedure'',
     ''sequence'', ''restrict'', ''on_delete'', ''on_update'', ''on_conflict'', ''count'', ''sum'', ''avg'', ''min'', ''max'', ''stddev'', ''variance'',
     ''array_agg'', ''string_agg'', ''json_agg'', ''jsonb_agg'', ''group_concat'', ''listagg'', ''row_number'', ''rank'', ''dense_rank'',
     ''percent_rank'', ''ntile'', ''lag'', ''lead'', ''first_value'', ''last_value'', ''nth_value'', ''cume_dist'', ''coalesce'', ''nullif'', ''ifnull'',
     ''isnull'', ''nvl'', ''decode'', ''iif'', ''greatest'', ''least'', ''cast'', ''convert'', ''extract'', ''substring'', ''substr'', ''trim'',
     ''ltrim'', ''rtrim'', ''upper'', ''lower'', ''initcap'', ''length'', ''char_length'', ''octet_length'', ''replace'', ''concat'', ''concat_ws'',
     ''position'', ''round'', ''floor'', ''ceil'', ''ceiling'', ''abs'', ''mod'', ''power'', ''sqrt'', ''random'', ''unnest'', ''generate_series'',
     ''json_extract'', ''json_build_object'', ''jsonb_build_object'', ''now'', ''date'', ''interval'', ''epoch'', ''age'', ''date_trunc'', ''date_part'',
     ''datediff'', ''dateadd'', ''to_char'', ''to_date'', ''to_number'', ''to_timestamp'', ''current_date'', ''current_time'', ''current_timestamp'',
     ''current_user'', ''localtime'', ''localtimestamp'', ''sysdate'', ''index'', ''constraint'', ''unique'', ''default'', ''check'', ''identity'',
     ''generated'', ''stored'']"

definition NON_IDENTIFIER_SNAKE :: "string list" where
  "NON_IDENTIFIER_SNAKE =
     [''primary_key'', ''foreign_key'', ''foreign_keys'', ''data_type'', ''data_types'', ''not_null'', ''auto_increment'', ''use_case'', ''read_only'',
     ''read_write'', ''integer'', ''int'', ''bigint'', ''smallint'', ''serial'', ''bigserial'', ''varchar'', ''char'', ''text'', ''boolean'', ''bool'',
     ''date'', ''time'', ''timestamp'', ''timestamptz'', ''numeric'', ''decimal'', ''real'', ''uuid'', ''json'', ''jsonb'', ''unique'', ''primary'',
     ''foreign'', ''constraint'', ''references'', ''index'', ''default'', ''cascade'', ''null'', ''column'', ''table'']"

definition ALIAS_RE :: regex where
  "ALIAS_RE =
     cats [WordB, cis ''as'', plus ws, ors [cats [lit BACKTICK, Group 1 (plus (none_of [BACKTICK])), lit BACKTICK], cats [lit DQUOTE,
     Group 2 (plus (none_of [DQUOTE])), lit DQUOTE], Group 3 (cats [Chr (\<lambda>c. is_alpha c \<or> c = CHR ''_''),
     Star (Chr (\<lambda>c. is_word c \<or> c = CHR ''$''))])]]"

definition PROSE_AS_RE :: regex where
  "PROSE_AS_RE =
     cats [WordB, Group 1 (ors [cis ''such'', cis ''known'', cis ''same'', cis ''referred to'', cis ''serves'', cis ''acts'', cis ''described'']),
     plus ws, Eol]"

definition SQL_CONTEXT_RE :: regex where
  "SQL_CONTEXT_RE =
     ors [cats [WordB, cis ''select'', WordB], cats [WordB, cis ''with'', plus ws, Opt (cats [cis ''recursive'', plus ws]),
     plus (Chr (\<lambda>c. is_word c \<or> c = DQUOTE \<or> c = BACKTICK)), plus ws, cis ''as'', Star ws, lit CHR ''('']]"

definition fence_ticks :: string where "fence_ticks = [BACKTICK, BACKTICK, BACKTICK]"

text \<open>The index behind the last occurrence that starts at or before \<open>index\<close>, 0 without one: \<open>lastIndexOf(...) + 1\<close>.\<close>

definition after_last :: "string \<Rightarrow> string \<Rightarrow> nat \<Rightarrow> nat" where
  "after_last text' pat index = (case last_index_upto text' pat index of Some i \<Rightarrow> i + 1 | None \<Rightarrow> 0)"

definition statementBefore :: "string \<Rightarrow> nat \<Rightarrow> string" where
  "statementBefore text' index =
     slice text' (max (after_last text' fence_ticks index) (max (after_last text' [LF, LF] index) (after_last text' '';'' index))) index"

definition CTE_DEF_RE :: regex where
  "CTE_DEF_RE =
     cats [WordB, Group 1 (cats [Chr (\<lambda>c. is_alpha c \<or> c = CHR ''_''), Star (Chr (\<lambda>c. is_word c \<or> c = CHR ''$''))]), plus ws,
     cis ''as'', Star ws, lit CHR ''('']"

text \<open>The first of the groups that took part in a match.\<close>

definition first_group :: "string \<Rightarrow> rmatch \<Rightarrow> nat list \<Rightarrow> string" where
  "first_group s m ns =
     (case List.find (\<lambda>n. m_group s m n \<noteq> None) ns of Some n \<Rightarrow> the (m_group s m n) | None \<Rightarrow> [])"

definition is_alias :: "string \<Rightarrow> rmatch \<Rightarrow> bool" where
  "is_alias answer m \<longleftrightarrow>
     \<not> re_test PROSE_AS_RE (statementBefore answer (m_index m)) \<and> re_test SQL_CONTEXT_RE (statementBefore answer (m_index m))"

definition definedAliases :: "string \<Rightarrow> string list" where
  "definedAliases answer =
     map (\<lambda>m. toLowerCase (first_group answer m [1, 2, 3])) (filter (is_alias answer) (match_all ALIAS_RE answer))
     @ map (\<lambda>m. toLowerCase (first_group answer m [1])) (match_all CTE_DEF_RE answer)"

definition EVERYDAY_NAMES :: "string list" where
  "EVERYDAY_NAMES =
     [''name'', ''date'', ''time'', ''type'', ''value'', ''status'', ''code'', ''text'', ''title'', ''number'', ''size'', ''level'', ''state'', ''key'',
     ''data'', ''user'', ''group'', ''count'', ''total'', ''amount'', ''active'', ''description'', ''comment'', ''label'', ''link'', ''file'', ''path'',
     ''note'', ''notes'']"

definition NAME_TOKEN :: regex where
  "NAME_TOKEN =
     cats [Chr (\<lambda>c. is_lower c \<or> c = CHR ''_''), Star (Chr (\<lambda>c. is_lower c \<or> is_digit c \<or> c \<in> set ''_$.''))]"

definition present_names :: "string \<Rightarrow> string list" where
  "present_names text' =
     concat (map (\<lambda>m. m_whole text' m # filter (\<lambda>s. s \<noteq> []) (split_on CHR ''.'' (m_whole text' m))) (match_all NAME_TOKEN text'))"

definition counts_as_mention :: "string list \<Rightarrow> string \<Rightarrow> bool" where
  "counts_as_mention present name =
     (let n = toLowerCase name in
      if length n \<le> 2 then False
      else if CHR ''_'' \<notin> set n \<and> n \<in> set EVERYDAY_NAMES then False
      else n \<in> set present)"

definition mentionsCatalogName :: "string \<Rightarrow> SchemaCatalog \<Rightarrow> bool" where
  "mentionsCatalogName text' catalog =
     (let present = present_names (toLowerCase text') in
      list_ex (\<lambda>t. counts_as_mention present (t_name t) \<or> list_ex (\<lambda>c. counts_as_mention present (c_name c)) (t_columns t)) (k_tables catalog))"

definition MONGO_NON_IDENTIFIER :: "string list" where
  "MONGO_NON_IDENTIFIER =
     [''from'', ''localfield'', ''foreignfield'', ''as'', ''pipeline'', ''let'', ''into'', ''on'', ''cond'', ''input'', ''path'', ''output'', ''unit'',
     ''startdate'', ''enddate'', ''whenmatched'', ''whennotmatched'', ''depthfield'', ''preservenullandemptyarrays'', ''includearrayindex'',
     ''connectfromfield'', ''connecttofield'', ''maxdepth'', ''aggregate'', ''find'', ''sort'', ''limit'', ''skip'', ''count'', ''distinct'',
     ''collection'', ''document'']"

definition IDENTIFIER_SHAPE :: regex where
  "IDENTIFIER_SHAPE =
     cats [Bol, Chr (\<lambda>c. is_alpha c \<or> c = CHR ''_''), Star (Chr (\<lambda>c. is_alpha c \<or> is_digit c \<or> c \<in> set ''_$-'')),
     Star (cats [lit CHR ''.'', Chr (\<lambda>c. is_alpha c \<or> c = CHR ''_''),
     Star (Chr (\<lambda>c. is_alpha c \<or> is_digit c \<or> c \<in> set ''_$-''))]), Eol]"

definition FENCED_BLOCK :: regex where
  "FENCED_BLOCK =
     cats [lit BACKTICK, lit BACKTICK, lit BACKTICK, LazyStar (Chr (\<lambda>c. is_space c \<or> \<not> is_space c)), lit BACKTICK, lit BACKTICK,
     lit BACKTICK]"

definition NAME_CLAIM :: regex where
  "NAME_CLAIM =
     ors [cats [lit BACKTICK, Group 1 (plus (Chr (\<lambda>c. \<not> (is_space c \<or> c = BACKTICK)))), lit BACKTICK], cats [lit DQUOTE,
     Group 2 (plus (Chr (\<lambda>c. is_word c \<or> c = CHR ''.''))), lit DQUOTE], cats [WordB, Group 3 (cats [Chr is_alpha,
     Star (Chr (\<lambda>c. is_alpha c \<or> is_digit c)), plus (cats [lit CHR ''_'', plus (Chr (\<lambda>c. is_alpha c \<or> is_digit c))])]), WordB]]"

definition AS_BEFORE :: regex where
  "AS_BEFORE =
     cats [WordB, cis ''as'', WordB, Star ws, Opt (lit CHR '':''), Star ws, Opt (one_of [DQUOTE, SQUOTE, BACKTICK]), Eol]"

definition known_references :: "string \<Rightarrow> SchemaCatalog \<Rightarrow> string list" where
  "known_references answer catalog =
     map toLowerCase (k_schemas catalog)
     @ concat (map (\<lambda>t. toLowerCase (t_name t)
         # (case truthy (t_schema t) of
              Some s \<Rightarrow> [toLowerCase s, toLowerCase s @ ''.'' @ toLowerCase (t_name t)]
            | None \<Rightarrow> [])
         @ map (\<lambda>c. toLowerCase (c_name c)) (t_columns t)) (k_tables catalog))
     @ definedAliases answer"

text \<open>The name that a match claims to exist, if it claims one.\<close>

definition claimed :: "string list \<Rightarrow> bool \<Rightarrow> string \<Rightarrow> rmatch \<Rightarrow> string option" where
  "claimed known documentStyle scanned m =
     (let raw = toLowerCase (first_group scanned m [1, 2, 3]) in
      if documentStyle \<and> m_group scanned m 2 \<noteq> None then None
      else if (case m_group scanned m 1 of Some g \<Rightarrow> \<not> re_test IDENTIFIER_SHAPE g | None \<Rightarrow> False) then None
      else if starts_with raw ''$'' then None
      else if CHR ''('' \<in> set raw \<or> raw \<in> set SQL_VOCABULARY then None
      else if raw = [] \<or> raw \<in> set NON_IDENTIFIER_SNAKE then None
      else if documentStyle \<and> raw \<in> set MONGO_NON_IDENTIFIER then None
      else if documentStyle \<and> re_test AS_BEFORE (slice scanned (m_index m - 12) (m_index m)) then None
      else if raw \<in> set known \<or> bare_of raw \<in> set known then None
      else if isSystemCatalog raw then None
      else Some raw)"

definition unknownReferencesInProse :: "string \<Rightarrow> SchemaCatalog \<Rightarrow> bool \<Rightarrow> string list" where
  "unknownReferencesInProse answer catalog documentStyle =
     (let known = known_references answer catalog;
          scanned = (if documentStyle then replace_all FENCED_BLOCK answer (\<lambda>_. '' '') else answer)
      in foldl (\<lambda>found m. case claimed known documentStyle scanned m of Some raw \<Rightarrow> add_new raw found | None \<Rightarrow> found)
           [] (match_all NAME_CLAIM scanned))"

section \<open>What is reported\<close>

lemma fold_add_new:
  "set (foldl (\<lambda>found m. case f m of Some raw \<Rightarrow> add_new raw found | None \<Rightarrow> found) acc ms) = set acc \<union> {raw. \<exists>m \<in> set ms. f m = Some raw}"
  "distinct acc \<Longrightarrow> distinct (foldl (\<lambda>found m. case f m of Some raw \<Rightarrow> add_new raw found | None \<Rightarrow> found) acc ms)"
  by (induction ms arbitrary: acc) (auto split: option.splits)

text \<open>A name is real when it is a schema, a table or a column of the catalog, an alias of the answer, or a system catalog.\<close>

definition real_reference :: "string \<Rightarrow> SchemaCatalog \<Rightarrow> string \<Rightarrow> bool" where
  "real_reference answer catalog name \<longleftrightarrow>
     name \<in> set (map toLowerCase (k_schemas catalog)) \<or> name \<in> set (definedAliases answer) \<or> isSystemCatalog name
     \<or> list_ex (\<lambda>t. name = toLowerCase (t_name t) \<or> list_ex (\<lambda>c. name = toLowerCase (c_name c)) (t_columns t)) (k_tables catalog)"


end
