(* ===== verification/Semantics.thy ===== *)
theory Semantics
  imports Floors Guard_Walk Column_Hints "HOL-Library.AList"
begin

text \<open>
  \<open>packages/core/src/semantics.ts\<close>: SQL that the guard admits because it only reads, but that answers the wrong question. The
  parser is the parameter \<open>parse\<close>, which gives the tree or \<open>None\<close> where it throws; the tree is any value, so every
  walk is total on \<^typ>\<open>jsval\<close>. The objects the walks fill in place, \<open>found\<close> and \<open>seen\<close>, are passed and returned.

  The properties say exactly when a lint reports: what a report claims is in the tree and in the catalog, and for the
  aggregate lints the converse holds too.
\<close>

section \<open>Model: aggregates without GROUP BY\<close>

type_synonym ast_parser = "string \<Rightarrow> string \<Rightarrow> jsval option"

text \<open>A value in a condition.\<close>

fun truthy_value :: "jsval \<Rightarrow> bool" where
  "truthy_value JUndef = False"
| "truthy_value JNull = False"
| "truthy_value (JBool b) = b"
| "truthy_value (JNum x) = (x \<noteq> NaN \<and> x \<noteq> Fin 0)"
| "truthy_value (JStr s) = (s \<noteq> [])"
| "truthy_value (JArr xs) = True"
| "truthy_value (JObj kvs) = True"

definition AGGREGATES :: "string list" where
  "AGGREGATES = [''count'', ''sum'', ''avg'', ''min'', ''max'', ''group_concat'', ''string_agg'', ''array_agg'']"

definition argCount :: "props \<Rightarrow> nat" where
  "argCount node =
     (let args = get node ''args'' in
      if \<not> is_object args then 0
      else
        let val = (if is_nullish (get_prop args ''value'') then get_prop args ''expr'' else get_prop args ''value'') in
        case val of JArr xs \<Rightarrow> length xs | JUndef \<Rightarrow> 0 | _ \<Rightarrow> 1)"

text \<open>The name of a call as \<open>isBareAggregate\<close> and \<open>aggregateName\<close> read it.\<close>

definition call_name :: "props \<Rightarrow> string" where
  "call_name node =
     (case get node ''name'' of
        JStr s \<Rightarrow> s
      | name \<Rightarrow>
          (case arr_of (get_prop name ''name'') of
             Some (p # ps) \<Rightarrow> string_or_empty (get_prop p ''value'')
           | _ \<Rightarrow> []))"

definition isBareAggregate :: "props \<Rightarrow> bool" where
  "isBareAggregate node =
     (if get node ''type'' \<noteq> JStr ''aggr_func'' \<and> get node ''type'' \<noteq> JStr ''function'' then False
      else if truthy_value (get node ''over'') then False
      else
        let fn = toLowerCase (call_name node) in
        if fn \<notin> set AGGREGATES then False
        else if (fn = ''min'' \<or> fn = ''max'') \<and> argCount node > 1 then False
        else True)"

record inspected =
  aggregate :: bool
  column :: bool

lemma size_get_object_le:
  "is_object (get kvs k) \<Longrightarrow> size (get kvs k) \<le> size_list (size_prod (\<lambda>x. 0) size) kvs"
  using size_get_object [of kvs k] by simp

function inspect :: "jsval \<Rightarrow> bool \<Rightarrow> inspected \<Rightarrow> inspected" where
  "inspect (JArr xs) insideAggregate found = fold (\<lambda>child st. inspect child insideAggregate st) xs found"
| "inspect (JObj node) insideAggregate found =
     (if get node ''type'' = JStr ''select'' then found
      else if isBareAggregate node then
        (if is_object (get node ''args'') then inspect (get node ''args'') True (found\<lparr>aggregate := True\<rparr>)
         else found\<lparr>aggregate := True\<rparr>)
      else
        fold (\<lambda>(k, v) st. if k = ''over'' then st else inspect v insideAggregate st) node
          (if get node ''type'' = JStr ''column_ref'' \<and> \<not> insideAggregate then found\<lparr>column := True\<rparr> else found))"
| "inspect JUndef insideAggregate found = found"
| "inspect JNull insideAggregate found = found"
| "inspect (JBool b) insideAggregate found = found"
| "inspect (JNum n) insideAggregate found = found"
| "inspect (JStr s) insideAggregate found = found"
  by pat_completeness auto
termination
  by (relation "measure (\<lambda>(v, _, _). size v)") (auto simp: size_prop_value size_get_object_le size_list_estimation' less_Suc_eq_le)

lemma first_some_cong [fundef_cong]:
  "xs = ys \<Longrightarrow> (\<And>x. x \<in> set ys \<Longrightarrow> f x = g x) \<Longrightarrow> first_some f xs = first_some g ys"
  by (induction xs arbitrary: ys) (auto split: option.splits)

text \<open>\<open>if (name) return name\<close>: the empty string does not end the search.\<close>

definition non_empty :: "string option \<Rightarrow> string option" where
  "non_empty s = (if s = Some [] then None else s)"

function (sequential) columnNameIn :: "jsval \<Rightarrow> string option" where
  "columnNameIn (JArr xs) = first_some (\<lambda>v. non_empty (columnNameIn v)) xs"
| "columnNameIn (JObj node) =
     (if get node ''type'' = JStr ''column_ref'' then
        (case get node ''column'' of
           JStr s \<Rightarrow> Some s
         | col \<Rightarrow>
             (if is_object col \<and> is_object (get_prop col ''expr'') then str_of (get_prop (get_prop col ''expr'') ''value'')
              else None))
      else first_some (\<lambda>(k, v). non_empty (columnNameIn v)) node)"
| "columnNameIn _ = None"
  by pat_completeness auto
termination
  by (relation "measure size") (auto simp: size_prop_value size_list_estimation' less_Suc_eq_le)

text \<open>The arms of a set operation, chained on \<open>_next\<close>: the queue of the flattening loop.\<close>

definition next_arm :: "jsval \<Rightarrow> jsval list" where
  "next_arm node = (if is_object node \<and> truthy_value (get_prop node ''_next'') then [get_prop node ''_next''] else [])"

lemma size_next_arm: "v \<in> set (next_arm node) \<Longrightarrow> size v < size node"
  by (cases node) (auto simp: next_arm_def intro!: size_prop_value [of "''_next''"] get_in_set split: if_splits)

function flatten_arms :: "jsval list \<Rightarrow> jsval list" where
  "flatten_arms [] = []"
| "flatten_arms (node # queue) = node # flatten_arms (queue @ next_arm node)"
  by pat_completeness auto
termination
proof (relation "measure (\<lambda>queue. sum_list (map (\<lambda>v. Suc (size v)) queue))")
  fix node queue
  have "next_arm node = [] \<or> (\<exists>v. next_arm node = [v] \<and> size v < size node)"
    using size_next_arm [of _ node] by (auto simp: next_arm_def)
  then show "(queue @ next_arm node, node # queue) \<in> measure (\<lambda>queue. sum_list (map (\<lambda>v. Suc (size v)) queue))" by auto
qed simp

definition tree_list :: "jsval \<Rightarrow> jsval list" where
  "tree_list ast = (case ast of JArr xs \<Rightarrow> xs | _ \<Rightarrow> [ast])"

text \<open>One column of the select list: \<open>found\<close> and \<open>firstColumn\<close>.\<close>

definition inspect_column :: "jsval \<Rightarrow> inspected \<times> string option \<Rightarrow> inspected \<times> string option" where
  "inspect_column item acc =
     (let (found, firstColumn) = acc;
          expr = (if is_object item then get_prop item ''expr'' else item);
          found' = inspect expr False found in
      (found',
       if \<not> column found \<and> column found' \<and> firstColumn = None
       then Some (case columnNameIn expr of Some name \<Rightarrow> name | None \<Rightarrow> ''that column'') else firstColumn))"

definition ungrouped_in :: "jsval \<Rightarrow> string option" where
  "ungrouped_in statement =
     (if get_prop statement ''type'' \<noteq> JStr ''select'' then None
      else if truthy_value (get_prop statement ''groupby'') then None
      else
        (case arr_of (get_prop statement ''columns'') of
           None \<Rightarrow> None
         | Some columns \<Rightarrow>
             (let (found, firstColumn) = fold inspect_column columns (\<lparr>aggregate = False, column = False\<rparr>, None) in
              if aggregate found \<and> column found
              then Some (case firstColumn of Some name \<Rightarrow> name | None \<Rightarrow> ''that column'') else None)))"

definition ungroupedAggregate :: "ast_parser \<Rightarrow> string \<Rightarrow> string \<Rightarrow> string option" where
  "ungroupedAggregate parse sql grammar =
     (case parse (withoutFetchTail sql) grammar of
        None \<Rightarrow> None
      | Some ast \<Rightarrow> first_some ungrouped_in (flatten_arms (tree_list ast)))"

section \<open>Model: sums over a joined child\<close>

record FanOut =
  fo_column :: string
  fo_parent :: string
  fo_child :: string

definition same :: "string \<Rightarrow> string \<Rightarrow> bool" where
  "same a b \<longleftrightarrow> toLowerCase a = toLowerCase b"

text \<open>A relation of FROM: its alias and its table.\<close>

definition from_item :: "jsval \<Rightarrow> (string \<times> string) list" where
  "from_item item =
     (case get_prop item ''table'' of
        JStr table \<Rightarrow> [(case get_prop item ''as'' of JStr a \<Rightarrow> a | _ \<Rightarrow> table, table)]
      | _ \<Rightarrow> [])"

definition fromTables :: "jsval \<Rightarrow> (string \<times> string) list" where
  "fromTables statement =
     (case arr_of (get_prop statement ''from'') of None \<Rightarrow> [] | Some rels \<Rightarrow> concat (map from_item rels))"

text \<open>The call of SUM or AVG that \<open>collectSums\<close> stops at, and the qualified column it may have under it.\<close>

definition sum_call :: "props \<Rightarrow> bool" where
  "sum_call node \<longleftrightarrow>
     get node ''type'' = JStr ''aggr_func''
     \<and> (case get node ''name'' of JStr name \<Rightarrow> toLowerCase name = ''sum'' \<or> toLowerCase name = ''avg'' | _ \<Rightarrow> False)
     \<and> \<not> truthy_value (get node ''over'')"

definition summed_column :: "props \<Rightarrow> (string \<times> string) list" where
  "summed_column node =
     (let args = get node ''args''; expr = get_prop args ''expr''; col = get_prop expr ''column'' in
      if is_object args \<and> \<not> truthy_value (get_prop args ''distinct'')
         \<and> is_object expr \<and> get_prop expr ''type'' = JStr ''column_ref'' then
        (case get_prop expr ''table'' of
           JStr table \<Rightarrow>
             (case (if is_object col \<and> is_object (get_prop col ''expr'') then get_prop (get_prop col ''expr'') ''value'' else col) of
                JStr name \<Rightarrow> [(table, name)]
              | _ \<Rightarrow> [])
         | _ \<Rightarrow> [])
      else [])"

function (sequential) collectSums :: "jsval \<Rightarrow> (string \<times> string) list \<Rightarrow> (string \<times> string) list" where
  "collectSums (JArr xs) found = fold (\<lambda>child st. collectSums child st) xs found"
| "collectSums (JObj node) found =
     (if get node ''type'' = JStr ''select'' then found
      else if sum_call node then found @ summed_column node
      else fold (\<lambda>(k, v) st. collectSums v st) node found)"
| "collectSums _ found = found"
  by pat_completeness auto
termination
  by (relation "measure (\<lambda>(v, _). size v)") (auto simp: size_prop_value size_list_estimation' less_Suc_eq_le)

definition has_parent :: "SchemaCatalog \<Rightarrow> string \<Rightarrow> string \<Rightarrow> bool" where
  "has_parent catalog child parent =
     (case find (\<lambda>t. same (t_name t) child) (k_tables catalog) of
        Some t \<Rightarrow> list_ex (\<lambda>fk. same (fk_refTable fk) parent) (t_foreignKeys t)
      | None \<Rightarrow> False)"

definition fan_out_of :: "SchemaCatalog \<Rightarrow> (string \<times> string) list \<Rightarrow> string \<times> string \<Rightarrow> FanOut option" where
  "fan_out_of catalog tables summed =
     (case find (\<lambda>t. same (fst t) (fst summed) \<or> same (snd t) (fst summed)) tables of
        None \<Rightarrow> None
      | Some (a, parent) \<Rightarrow>
          if parent = [] then None
          else
            first_some
              (\<lambda>(a, candidate). if same candidate parent then None
                 else if has_parent catalog candidate parent
                 then Some \<lparr>fo_column = snd summed, fo_parent = parent, fo_child = candidate\<rparr> else None)
              tables)"

definition fan_out_in :: "SchemaCatalog \<Rightarrow> jsval \<Rightarrow> FanOut option" where
  "fan_out_in catalog statement =
     (if get_prop statement ''type'' \<noteq> JStr ''select'' then None
      else
        let tables = fromTables statement in
        if length tables < 2 then None
        else first_some (fan_out_of catalog tables) (collectSums (get_prop statement ''columns'') []))"

definition fanOutAggregate :: "ast_parser \<Rightarrow> string \<Rightarrow> string \<Rightarrow> SchemaCatalog \<Rightarrow> FanOut option" where
  "fanOutAggregate parse sql grammar catalog =
     (case parse (withoutFetchTail sql) grammar of
        None \<Rightarrow> None
      | Some ast \<Rightarrow> first_some (fan_out_in catalog) (tree_list ast))"

section \<open>Model: nested aggregates\<close>

definition aggregateName :: "props \<Rightarrow> string" where
  "aggregateName node = toUpperCase (call_name node)"

function (sequential) nested_from :: "jsval \<Rightarrow> string option \<Rightarrow> string option" where
  "nested_from (JArr xs) insideAggregate = first_some (\<lambda>item. nested_from item insideAggregate) xs"
| "nested_from (JObj node) insideAggregate =
     (if isBareAggregate node \<and> insideAggregate \<noteq> None then insideAggregate
      else
        let inner = (if isBareAggregate node then Some (aggregateName node) else insideAggregate) in
        first_some (\<lambda>(k, v). if k = ''ast'' \<or> k = ''from'' then None else nested_from v inner) node)"
| "nested_from _ insideAggregate = None"
  by pat_completeness auto
termination
  by (relation "measure (\<lambda>(v, _). size v)") (auto simp: size_prop_value size_list_estimation' less_Suc_eq_le)

definition nestedAggregate :: "ast_parser \<Rightarrow> string \<Rightarrow> string \<Rightarrow> string option" where
  "nestedAggregate parse sql grammar =
     (case parse (withoutFetchTail sql) grammar of None \<Rightarrow> None | Some ast \<Rightarrow> nested_from ast None)"

section \<open>Model: literals that stand for a code\<close>

record CodeLiteral =
  cl_schema :: "string option"
  cl_table :: string
  cl_column :: string
  cl_literal :: jsnum

definition MEASURE_NAME :: regex where
  "MEASURE_NAME =
     cats [ors [Bol, lit CHR ''_''], ors [cis ''age'', cis ''salary'', cis ''wage'', cis ''pay'', cis ''price'', cis ''amount'', cis ''cost'',
     cis ''fee'', cis ''total'', cis ''sum'', cis ''qty'', cis ''quantity'', cis ''count'', cis ''score'', cis ''rating'', cis ''rank'', cis ''year'',
     cis ''month'', cis ''day'', cis ''week'', cis ''hour'', cis ''minute'', cis ''second'', cis ''size'', cis ''weight'', cis ''height'', cis ''width'',
     cis ''length'', cis ''depth'', cis ''duration'', cis ''percent'', cis ''percentage'', cis ''rate'', cis ''balance'', cis ''stock'', cis ''level''],
     Opt (cis ''s''), Eol]"

definition IDENTIFIER_NAME :: regex where
  "IDENTIFIER_NAME =
     cats [ors [Bol, lit CHR ''_''], ors [cis ''id'', cis ''ids'', cis ''key'', cis ''uuid'', cis ''guid'', cis ''hash''], Eol]"

definition INTEGER_DB_TYPE :: regex where
  "INTEGER_DB_TYPE =
     cats [Bol, ors [cats [cis ''big'', Star ws, cis ''int''], cis ''int'', cis ''integer'', cis ''int2'', cis ''int4'', cis ''int8'', cis ''smallint'',
     cis ''tinyint'', cis ''mediumint'', cats [cis ''unsigned'', plus ws, cis ''big'', plus ws, cis ''int''], cis ''numeric'', cis ''number''], WordB]"

definition DATE_FUNCTION :: regex where
  "DATE_FUNCTION =
     cats [Bol, ors [cis ''date'', cis ''datetime'', cis ''time'', cis ''strftime'', cis ''julianday'', cis ''unixepoch'', cis ''current_date'',
     cis ''current_time'', cis ''current_timestamp'', cis ''now'', cis ''getdate'', cis ''sysdate''], Eol]"

definition DATE_LITERAL :: regex where
  "DATE_LITERAL =
     cats [Bol, exactly 4 dig, lit CHR ''-'', exactly 2 dig, lit CHR ''-'', exactly 2 dig, Opt (cats [one_of '' T'', exactly 2 dig, lit CHR '':'',
     exactly 2 dig, Opt (cats [lit CHR '':'', exactly 2 dig])]), Eol]"


definition column_in :: "TableInfo \<Rightarrow> string \<Rightarrow> bool" where
  "column_in t col \<longleftrightarrow> list_ex (\<lambda>c. same (c_name c) col) (t_columns t)"

definition ownerNamed :: "string \<Rightarrow> SchemaCatalog \<Rightarrow> string \<Rightarrow> TableInfo option" where
  "ownerNamed table catalog col =
     (case find (\<lambda>t. same (t_name t) table) (k_tables catalog) of
        Some t \<Rightarrow> if column_in t col then Some t else None
      | None \<Rightarrow> None)"

definition ownerOf :: "string \<Rightarrow> SchemaCatalog \<Rightarrow> (string \<times> string) list \<Rightarrow> TableInfo option" where
  "ownerOf col catalog inScope =
     (let named = map (\<lambda>(k, t). toLowerCase t) inScope;
          pool = (if inScope \<noteq> [] then filter (\<lambda>t. toLowerCase (t_name t) \<in> set named) (k_tables catalog) else k_tables catalog) in
      case filter (\<lambda>t. column_in t col) pool of [t] \<Rightarrow> Some t | _ \<Rightarrow> None)"

definition db_types :: "SchemaCatalog \<Rightarrow> string \<Rightarrow> string list" where
  "db_types catalog col =
     concat (map (\<lambda>t. map c_dbType (filter (\<lambda>c. same (c_name c) col) (t_columns t))) (k_tables catalog))"

definition dbTypeOf :: "string \<Rightarrow> SchemaCatalog \<Rightarrow> string option" where
  "dbTypeOf col catalog =
     (case db_types catalog col of
        [] \<Rightarrow> None
      | ty # tys \<Rightarrow> if list_all (\<lambda>m. same m ty) (ty # tys) then Some ty else None)"

text \<open>\<open>Number.isInteger\<close>\<close>

fun isInteger :: "jsnum \<Rightarrow> bool" where
  "isInteger (Fin x) = (x = of_int \<lfloor>x\<rfloor>)"
| "isInteger _ = False"

text \<open>The column of a comparison that may hold a code, and the table it belongs to.\<close>

definition coded_owner :: "SchemaCatalog \<Rightarrow> jsval \<Rightarrow> (string \<times> string) list \<Rightarrow> (TableInfo \<times> string) option" where
  "coded_owner catalog maybeColumn inScope =
     (if get_prop maybeColumn ''type'' \<noteq> JStr ''column_ref'' then None
      else
        (case columnNameIn maybeColumn of
           None \<Rightarrow> None
         | Some col \<Rightarrow>
             if col = [] \<or> re_test IDENTIFIER_NAME col \<or> re_test MEASURE_NAME col then None
             else
               (case dbTypeOf col catalog of
                  None \<Rightarrow> None
                | Some dbType \<Rightarrow>
                    if dbType = [] \<or> \<not> re_test INTEGER_DB_TYPE (trim dbType) then None
                    else if isMomentColumn col dbType then None
                    else
                      (case (case get_prop maybeColumn ''table'' of
                               JStr (q # qs) \<Rightarrow>
                                 (let qualifier = toLowerCase (q # qs) in
                                  ownerNamed (case map_of inScope qualifier of Some t \<Rightarrow> t | None \<Rightarrow> qualifier) catalog col)
                             | _ \<Rightarrow> ownerOf col catalog inScope) of
                         None \<Rightarrow> None
                       | Some t \<Rightarrow>
                           if t_kind t \<noteq> Table then None
                           else if list_ex (\<lambda>c. same c col) (t_primaryKey t) then None
                           else if list_ex (\<lambda>fk. list_ex (\<lambda>c. same c col) (fk_columns fk)) (t_foreignKeys t) then None
                           else Some (t, col)))))"

definition literal_id :: "TableInfo \<Rightarrow> string \<Rightarrow> jsnum \<Rightarrow> string" where
  "literal_id t col n = toLowerCase (t_name t @ ''.'' @ col @ ''='' @ show_jsnum n)"

definition consider_pair :: "SchemaCatalog \<Rightarrow> (string \<times> string) list \<Rightarrow> jsval \<Rightarrow> jsval
    \<Rightarrow> CodeLiteral list \<times> string list \<Rightarrow> CodeLiteral list \<times> string list" where
  "consider_pair catalog inScope maybeColumn maybeValue acc =
     (let (found, seen) = acc in
      case coded_owner catalog maybeColumn inScope of
        None \<Rightarrow> acc
      | Some (t, col) \<Rightarrow>
          (case (get_prop maybeValue ''type'', get_prop maybeValue ''value'') of
             (JStr ty, JNum n) \<Rightarrow>
               if ty \<noteq> ''number'' then acc
               else if \<not> isInteger n then acc
               else if literal_id t col n \<in> set seen then acc
               else (found @ [\<lparr>cl_schema = t_schema t, cl_table = t_name t, cl_column = col, cl_literal = n\<rparr>],
                     add_new (literal_id t col n) seen)
           | _ \<Rightarrow> acc))"

function (sequential) walkConjunction :: "SchemaCatalog \<Rightarrow> (string \<times> string) list \<Rightarrow> jsval \<Rightarrow> nat
    \<Rightarrow> CodeLiteral list \<times> string list \<Rightarrow> CodeLiteral list \<times> string list" where
  "walkConjunction catalog inScope (JObj node) dep acc =
     (if dep > 40 then acc
      else if get node ''type'' = JStr ''unary_expr'' \<or> get node ''type'' = JStr ''case'' then acc
      else if get node ''type'' = JStr ''binary_expr'' then
        (let operator = toUpperCase (string_or_empty (get node ''operator'')) in
         if operator = ''OR'' then acc
         else if operator = ''AND'' then
           walkConjunction catalog inScope (get node ''right'') (dep + 1)
             (walkConjunction catalog inScope (get node ''left'') (dep + 1) acc)
         else if operator = ''='' then
           consider_pair catalog inScope (get node ''right'') (get node ''left'')
             (consider_pair catalog inScope (get node ''left'') (get node ''right'') acc)
         else acc)
      else acc)"
| "walkConjunction catalog inScope _ dep acc = acc"
  by pat_completeness auto
termination
  by (relation "measure (\<lambda>(_, _, _, dep, _). 41 - dep)") auto

text \<open>The map from alias and table, both without case, to the table.\<close>

definition scope_step :: "string \<times> string \<Rightarrow> (string \<times> string) list \<Rightarrow> (string \<times> string) list" where
  "scope_step t inScope =
     AList.update (toLowerCase (snd t)) (snd t)
       (if fst t \<noteq> [] then AList.update (toLowerCase (fst t)) (snd t) inScope else inScope)"

definition code_literals_in :: "SchemaCatalog \<Rightarrow> jsval \<Rightarrow> CodeLiteral list \<times> string list \<Rightarrow> CodeLiteral list \<times> string list" where
  "code_literals_in catalog statement acc =
     (if get_prop statement ''type'' \<noteq> JStr ''select'' then acc
      else walkConjunction catalog (fold scope_step (fromTables statement) []) (get_prop statement ''where'') 0 acc)"

definition codeLiterals :: "ast_parser \<Rightarrow> string \<Rightarrow> string \<Rightarrow> SchemaCatalog \<Rightarrow> CodeLiteral list" where
  "codeLiterals parse sql grammar catalog =
     (case parse (withoutFetchTail sql) grammar of
        None \<Rightarrow> []
      | Some ast \<Rightarrow> fst (fold (code_literals_in catalog) (tree_list ast) ([], [])))"

section \<open>Model: numbers compared with dates\<close>

record EpochMismatch =
  em_column :: string
  em_dbType :: string
  em_comparedTo :: string

function (sequential) renderDateSide :: "jsval \<Rightarrow> string option" where
  "renderDateSide (JObj node) =
     (let type = get node ''type'' in
      if type = JStr ''function'' \<or> type = JStr ''aggr_func'' then
        (if re_test DATE_FUNCTION (aggregateName node) then Some (aggregateName node @ ''(...)'') else None)
      else if type = JStr ''origin'' \<or> type = JStr ''keyword'' then
        (case get node ''value'' of
           JStr v \<Rightarrow> if re_test DATE_FUNCTION (replace_all (plus ws) v (\<lambda>_. ''_'')) then Some v else None
         | _ \<Rightarrow> None)
      else if type = JStr ''single_quote_string'' \<or> type = JStr ''string'' then
        (case get node ''value'' of
           JStr v \<Rightarrow> if re_test DATE_LITERAL (trim v) then Some ([SQUOTE] @ v @ [SQUOTE]) else None
         | _ \<Rightarrow> None)
      else if type = JStr ''cast'' \<and> is_object (get node ''expr'') then renderDateSide (get node ''expr'')
      else None)"
| "renderDateSide _ = None"
  by pat_completeness auto
termination
  by (relation "measure size") (auto simp: size_get_object)

text \<open>One order of the two sides: \<open>BETWEEN\<close> has its bounds as a list.\<close>

definition mismatch_of :: "SchemaCatalog \<Rightarrow> jsval \<Rightarrow> jsval \<Rightarrow> EpochMismatch option" where
  "mismatch_of catalog maybeColumn maybeDate =
     (if get_prop maybeColumn ''type'' \<noteq> JStr ''column_ref'' then None
      else
        (case columnNameIn maybeColumn of
           None \<Rightarrow> None
         | Some col \<Rightarrow>
             if col = [] then None
             else
               (case dbTypeOf col catalog of
                  None \<Rightarrow> None
                | Some dbType \<Rightarrow>
                    if dbType = [] \<or> \<not> re_test INTEGER_DB_TYPE (trim dbType) then None
                    else
                      map_option (\<lambda>rendered. \<lparr>em_column = col, em_dbType = dbType, em_comparedTo = rendered\<rparr>)
                        (first_some renderDateSide
                           (case arr_of (get_prop maybeDate ''value'') of Some bounds \<Rightarrow> bounds | None \<Rightarrow> [maybeDate])))))"

function (sequential) mismatch_in :: "SchemaCatalog \<Rightarrow> jsval \<Rightarrow> EpochMismatch option" where
  "mismatch_in catalog (JArr xs) = first_some (\<lambda>v. mismatch_in catalog v) xs"
| "mismatch_in catalog (JObj node) =
     (case (if get node ''type'' = JStr ''binary_expr'' then
              first_some (\<lambda>(maybeColumn, maybeDate). mismatch_of catalog maybeColumn maybeDate)
                [(get node ''left'', get node ''right''), (get node ''right'', get node ''left'')]
            else None) of
        Some found \<Rightarrow> Some found
      | None \<Rightarrow> first_some (\<lambda>(k, v). mismatch_in catalog v) node)"
| "mismatch_in catalog _ = None"
  by pat_completeness auto
termination
  by (relation "measure (\<lambda>(_, v). size v)") (auto simp: size_prop_value size_list_estimation' less_Suc_eq_le)

definition epochUnitMismatch :: "ast_parser \<Rightarrow> string \<Rightarrow> string \<Rightarrow> SchemaCatalog \<Rightarrow> EpochMismatch option" where
  "epochUnitMismatch parse sql grammar catalog =
     (case parse (withoutFetchTail sql) grammar of None \<Rightarrow> None | Some ast \<Rightarrow> mismatch_in catalog ast)"

section \<open>Aggregates\<close>

lemma first_some_finds: "(\<exists>y. first_some f xs = Some y) \<longleftrightarrow> (\<exists>x \<in> set xs. \<exists>y. f x = Some y)"
  by (induction xs) (auto split: option.splits)

text \<open>A flag that a fold over the parts raises.\<close>

lemma fold_flag:
  "(\<And>x st. x \<in> set xs \<Longrightarrow> P (f x st) \<longleftrightarrow> P st \<or> Q x) \<Longrightarrow> P (fold f xs st) \<longleftrightarrow> P st \<or> (\<exists>x \<in> set xs. Q x)"
  by (induction xs arbitrary: st) auto

text \<open>
  \<open>in_scope v b n b'\<close>: the object \<open>n\<close> is part of the expression \<open>v\<close> and no part of a subquery or a window in it; \<open>b'\<close> says whether
  it is in the argument of an aggregate, when \<open>b\<close> says so for \<open>v\<close>.
\<close>

inductive in_scope :: "jsval \<Rightarrow> bool \<Rightarrow> props \<Rightarrow> bool \<Rightarrow> bool" where
  sc_self: "in_scope (JObj n) b n b"
| sc_item: "x \<in> set xs \<Longrightarrow> in_scope x b n b' \<Longrightarrow> in_scope (JArr xs) b n b'"
| sc_prop: "(k, x) \<in> set node \<Longrightarrow> k \<noteq> ''over'' \<Longrightarrow> get node ''type'' \<noteq> JStr ''select'' \<Longrightarrow> \<not> isBareAggregate node
    \<Longrightarrow> in_scope x b n b' \<Longrightarrow> in_scope (JObj node) b n b'"
| sc_argument: "get node ''type'' \<noteq> JStr ''select'' \<Longrightarrow> isBareAggregate node \<Longrightarrow> in_scope (get node ''args'') True n b'
    \<Longrightarrow> in_scope (JObj node) b n b'"

inductive_simps in_scope_Arr: "in_scope (JArr xs) b n b'"
inductive_simps in_scope_Obj: "in_scope (JObj node) b n b'"
inductive_cases in_scope_atomE: "in_scope JUndef b n b'" "in_scope JNull b n b'" "in_scope (JBool x) b n b'" "in_scope (JNum x) b n b'"
  "in_scope (JStr s) b n b'"

definition calls :: "jsval \<Rightarrow> bool \<Rightarrow> bool" where
  "calls v b \<longleftrightarrow> (\<exists>n b'. in_scope v b n b' \<and> isBareAggregate n)"

definition reads_column :: "jsval \<Rightarrow> bool \<Rightarrow> bool" where
  "reads_column v b \<longleftrightarrow> (\<exists>n. in_scope v b n False \<and> get n ''type'' = JStr ''column_ref'')"

lemma isBareAggregate_type: "isBareAggregate node \<Longrightarrow> get node ''type'' = JStr ''aggr_func'' \<or> get node ''type'' = JStr ''function''"
  by (auto simp: isBareAggregate_def split: if_splits)

lemma in_scope_object: "in_scope v b n b' \<Longrightarrow> is_object v"
  by (cases rule: in_scope.cases) auto

lemma in_scope_True: "in_scope v b n b' \<Longrightarrow> b \<Longrightarrow> b'"
  by (induction rule: in_scope.induct) auto

lemma calls_Arr [simp]: "calls (JArr xs) b \<longleftrightarrow> (\<exists>x \<in> set xs. calls x b)"
  by (auto simp: calls_def in_scope_Arr)

lemma reads_Arr [simp]: "reads_column (JArr xs) b \<longleftrightarrow> (\<exists>x \<in> set xs. reads_column x b)"
  by (auto simp: reads_column_def in_scope_Arr)

lemma aggregate_not_other: "isBareAggregate node \<Longrightarrow> get node ''type'' \<noteq> JStr ''select'' \<and> get node ''type'' \<noteq> JStr ''column_ref''"
  using isBareAggregate_type [of node] by auto

lemma in_scope_select: "get node ''type'' = JStr ''select'' \<Longrightarrow> in_scope (JObj node) b n b' \<longleftrightarrow> n = node \<and> b' = b"
  by (subst in_scope_Obj) blast

lemma in_scope_call:
  "isBareAggregate node \<Longrightarrow> in_scope (JObj node) b n b' \<longleftrightarrow> n = node \<and> b' = b \<or> in_scope (get node ''args'') True n b'"
  by (subst in_scope_Obj) (use aggregate_not_other in blast)

lemma in_scope_other:
  "get node ''type'' \<noteq> JStr ''select'' \<Longrightarrow> \<not> isBareAggregate node \<Longrightarrow>
     in_scope (JObj node) b n b' \<longleftrightarrow> n = node \<and> b' = b \<or> (\<exists>(k, x) \<in> set node. k \<noteq> ''over'' \<and> in_scope x b n b')"
  by (subst in_scope_Obj) blast

lemma calls_Obj:
  "calls (JObj node) b \<longleftrightarrow>
     (if get node ''type'' = JStr ''select'' then False
      else isBareAggregate node \<or> (\<exists>(k, x) \<in> set node. k \<noteq> ''over'' \<and> calls x b))"
proof (cases "get node ''type'' = JStr ''select''")
  case True
  then show ?thesis using aggregate_not_other [of node] by (auto simp: calls_def in_scope_select)
next
  case other: False
  show ?thesis
  proof (cases "isBareAggregate node")
    case True
    then show ?thesis unfolding calls_def in_scope_call [OF True] by (simp add: other) blast
  next
    case False
    then show ?thesis unfolding calls_def in_scope_other [OF other False] if_not_P [OF other] by blast
  qed
qed

lemma reads_Obj:
  "reads_column (JObj node) b \<longleftrightarrow>
     (if get node ''type'' = JStr ''select'' \<or> isBareAggregate node then False
      else (get node ''type'' = JStr ''column_ref'' \<and> \<not> b) \<or> (\<exists>(k, x) \<in> set node. k \<noteq> ''over'' \<and> reads_column x b))"
proof (cases "get node ''type'' = JStr ''select''")
  case True
  then show ?thesis by (simp add: reads_column_def in_scope_select)
next
  case other: False
  show ?thesis
  proof (cases "isBareAggregate node")
    case True
    then show ?thesis
      using aggregate_not_other [OF True] unfolding reads_column_def in_scope_call [OF True] by (auto dest: in_scope_True)
  next
    case False
    then show ?thesis unfolding reads_column_def in_scope_other [OF other False] by (simp add: other) blast
  qed
qed

lemma atoms_hold_nothing [simp]:
  "\<not> is_object v \<Longrightarrow> \<not> calls v b" "\<not> is_object v \<Longrightarrow> \<not> reads_column v b"
  by (auto simp: calls_def reads_column_def dest: in_scope_object)

lemma reads_column_inside: "\<not> reads_column v True"
  by (auto simp: reads_column_def dest: in_scope_True)

lemma inspect_flags:
  "aggregate (inspect v b found) \<longleftrightarrow> aggregate found \<or> calls v b"
  "column (inspect v b found) \<longleftrightarrow> column found \<or> reads_column v b"
proof (induction v b found rule: inspect.induct)
  case (1 xs b found)
  { case 1 show ?case by (simp add: fold_flag [where P = aggregate and Q = "\<lambda>x. calls x b"] "1.IH") }
  { case 2 show ?case by (simp add: fold_flag [where P = column and Q = "\<lambda>x. reads_column x b"] "1.IH") }
next
  case (2 node b found)
  let ?f = "\<lambda>(k, v) st. if k = ''over'' then st else inspect v b st"
  let ?st = "if get node ''type'' = JStr ''column_ref'' \<and> \<not> b then found\<lparr>column := True\<rparr> else found"
  have A: "aggregate (fold ?f node ?st) \<longleftrightarrow> aggregate ?st \<or> (\<exists>x \<in> set node. case x of (k, v) \<Rightarrow> k \<noteq> ''over'' \<and> calls v b)"
    if "get node ''type'' \<noteq> JStr ''select''" "\<not> isBareAggregate node"
    by (rule fold_flag) (use that "2.IH"(3) in \<open>auto split: if_splits\<close>)
  have C: "column (fold ?f node ?st) \<longleftrightarrow> column ?st \<or> (\<exists>x \<in> set node. case x of (k, v) \<Rightarrow> k \<noteq> ''over'' \<and> reads_column v b)"
    if "get node ''type'' \<noteq> JStr ''select''" "\<not> isBareAggregate node"
    by (rule fold_flag) (use that "2.IH"(4) in \<open>auto split: if_splits\<close>)
  { case 1 show ?case
      using A "2.IH"(1) by (auto simp: calls_Obj split: if_splits) }
  { case 2 show ?case
      using C "2.IH"(2) by (auto simp: reads_Obj reads_column_inside split: if_splits) }
qed simp_all


text \<open>The expression of a column of the select list.\<close>

definition column_expr :: "jsval \<Rightarrow> jsval" where
  "column_expr item = (if is_object item then get_prop item ''expr'' else item)"

lemma inspect_column_flags:
  "aggregate (fst (inspect_column item acc)) \<longleftrightarrow> aggregate (fst acc) \<or> calls (column_expr item) False"
  "column (fst (inspect_column item acc)) \<longleftrightarrow> column (fst acc) \<or> reads_column (column_expr item) False"
  by (auto simp: inspect_column_def column_expr_def inspect_flags Let_def split: prod.splits)

lemmas fold_inspect_column =
  fold_flag [where P = "\<lambda>acc. aggregate (fst acc)" and f = inspect_column and Q = "\<lambda>item. calls (column_expr item) False", OF inspect_column_flags(1)]
  fold_flag [where P = "\<lambda>acc. column (fst acc)" and f = inspect_column and Q = "\<lambda>item. reads_column (column_expr item) False", OF inspect_column_flags(2)]

text \<open>A statement mixes an aggregate with a bare column: in its select list, without GROUP BY.\<close>

definition mixes :: "jsval \<Rightarrow> bool" where
  "mixes statement \<longleftrightarrow>
     get_prop statement ''type'' = JStr ''select'' \<and> \<not> truthy_value (get_prop statement ''groupby'')
     \<and> (\<exists>columns. get_prop statement ''columns'' = JArr columns
          \<and> (\<exists>item \<in> set columns. calls (column_expr item) False) \<and> (\<exists>item \<in> set columns. reads_column (column_expr item) False))"

lemma ungrouped_in_iff: "ungrouped_in statement \<noteq> None \<longleftrightarrow> mixes statement"
  using fold_inspect_column
  by (auto simp: ungrouped_in_def mixes_def split: option.splits prod.splits if_splits) (metis fst_conv inspected.select_convs)+


text \<open>
  The column it names need not be the one that lacks grouping: the name is looked up in the whole expression, so a column in the
  argument of an aggregate comes first.
\<close>

definition mixed_sum :: jsval where
  "mixed_sum = JObj [(''type'', JStr ''select''), (''columns'', JArr [JObj [(''expr'', JObj [(''type'', JStr ''binary_expr''), (''operator'', JStr ''+''),
     (''left'', JObj [(''type'', JStr ''aggr_func''), (''name'', JStr ''SUM''), (''args'', JObj [(''expr'', JObj [(''type'', JStr ''column_ref''), (''column'', JStr ''a'')])])]),
     (''right'', JObj [(''type'', JStr ''column_ref''), (''column'', JStr ''b'')])])]])]"

lemma ungrouped_names_summed_column: "ungrouped_in mixed_sum = Some ''a''"
  by code_simp

section \<open>Sums over a joined child\<close>

text \<open>A SUM or AVG of a qualified column, in the expression and in no subquery or other sum of it.\<close>

inductive summed :: "jsval \<Rightarrow> string \<times> string \<Rightarrow> bool" where
  sum_here: "sum_call node \<Longrightarrow> s \<in> set (summed_column node) \<Longrightarrow> summed (JObj node) s"
| sum_item: "x \<in> set xs \<Longrightarrow> summed x s \<Longrightarrow> summed (JArr xs) s"
| sum_prop: "(k, x) \<in> set node \<Longrightarrow> summed x s \<Longrightarrow> summed (JObj node) s"

lemma fold_members:
  "(\<And>x st. x \<in> set xs \<Longrightarrow> s \<in> set (f x st) \<Longrightarrow> s \<in> set st \<or> P) \<Longrightarrow> s \<in> set (fold f xs st) \<Longrightarrow> s \<in> set st \<or> P"
proof (induction xs arbitrary: st)
  case (Cons x xs)
  have "s \<in> set (f x st) \<or> P" by (rule Cons.IH) (use Cons.prems in auto)
  with Cons.prems(1) [of x st] show ?case by auto
qed simp

lemma collectSums_sums: "s \<in> set (collectSums v found) \<Longrightarrow> s \<in> set found \<or> summed v s"
proof (induction v found arbitrary: s rule: collectSums.induct)
  case (1 xs found)
  from "1.prems" have s: "s \<in> set (fold (\<lambda>child st. collectSums child st) xs found)" by simp
  show ?case by (rule fold_members [OF _ s]) (use "1.IH" in \<open>blast intro: sum_item\<close>)
next
  case (2 node found)
  have "s \<in> set found \<or> summed (JObj node) s"
    if s: "s \<in> set (fold (\<lambda>(k, v) st. collectSums v st) node found)"
      and other: "get node ''type'' \<noteq> JStr ''select''" "\<not> sum_call node"
  proof (rule fold_members [OF _ s])
    fix p st
    assume "p \<in> set node" "s \<in> set ((\<lambda>(k, v) st. collectSums v st) p st)"
    then show "s \<in> set st \<or> summed (JObj node) s"
      using "2.IH" [OF other, of p "fst p" "snd p" s st] sum_prop [of "fst p" "snd p" node s] by (auto simp: case_prod_beta)
  qed
  with "2.prems" show ?case by (cases "get node ''type'' = JStr ''select''"; cases "sum_call node") (auto intro: sum_here)
qed simp_all

text \<open>
  A reported fan-out is one: in some SELECT of the tree both tables stand in FROM, the select list sums a column qualified
  by the parent or its alias, and the catalog's first table of the child's name has a foreign key to the parent.
\<close>

theorem fanOutAggregate_sound:
  assumes "fanOutAggregate parse sql grammar catalog = Some r"
  shows "\<exists>ast statement q. parse (withoutFetchTail sql) grammar = Some ast \<and> statement \<in> set (tree_list ast)
    \<and> summed (get_prop statement ''columns'') (q, fo_column r)
    \<and> (\<exists>a. (a, fo_parent r) \<in> set (fromTables statement) \<and> (same a q \<or> same (fo_parent r) q))
    \<and> fo_child r \<in> snd ` set (fromTables statement) \<and> \<not> same (fo_child r) (fo_parent r)
    \<and> has_parent catalog (fo_child r) (fo_parent r)"
proof -
  from assms obtain ast statement where ast: "parse (withoutFetchTail sql) grammar = Some ast" "statement \<in> set (tree_list ast)"
    and r: "fan_out_in catalog statement = Some r"
    by (auto simp: fanOutAggregate_def split: option.splits dest!: first_some_SomeD)
  let ?tables = "fromTables statement"
  from r obtain s where s: "s \<in> set (collectSums (get_prop statement ''columns'') [])" "fan_out_of catalog ?tables s = Some r"
    by (auto simp: fan_out_in_def Let_def split: if_splits dest!: first_some_SomeD)
  from s(2) obtain a parent where p: "find (\<lambda>t. same (fst t) (fst s) \<or> same (snd t) (fst s)) ?tables = Some (a, parent)"
    and c: "\<exists>b. (b, fo_child r) \<in> set ?tables \<and> \<not> same (fo_child r) parent \<and> has_parent catalog (fo_child r) parent \<and> fo_parent r = parent \<and> fo_column r = snd s"
    by (fastforce simp: fan_out_of_def split: option.splits prod.splits if_splits dest!: first_some_SomeD)
  from p have "(a, parent) \<in> set ?tables \<and> (same a (fst s) \<or> same parent (fst s))" by (auto dest: find_SomeD)
  moreover have "summed (get_prop statement ''columns'') s" using collectSums_sums [OF s(1)] by simp
  ultimately show ?thesis using ast c
    by (intro exI [of _ ast] exI [of _ statement] exI [of _ "fst s"]) (auto simp: image_iff intro: bexI [rotated])
qed


section \<open>Nested aggregates\<close>

text \<open>An object of the tree that is reached without entering a subquery or a FROM clause.\<close>

inductive reaches :: "jsval \<Rightarrow> props \<Rightarrow> bool" where
  re_self: "reaches (JObj n) n"
| re_item: "x \<in> set xs \<Longrightarrow> reaches x n \<Longrightarrow> reaches (JArr xs) n"
| re_prop: "(k, x) \<in> set node \<Longrightarrow> k \<noteq> ''ast'' \<Longrightarrow> k \<noteq> ''from'' \<Longrightarrow> reaches x n \<Longrightarrow> reaches (JObj node) n"

inductive_simps reaches_Arr [simp]: "reaches (JArr xs) n"
inductive_simps reaches_Obj: "reaches (JObj node) n"

definition call_below :: "props \<Rightarrow> bool" where
  "call_below node \<longleftrightarrow> (\<exists>(k, x) \<in> set node. k \<noteq> ''ast'' \<and> k \<noteq> ''from'' \<and> (\<exists>n. reaches x n \<and> isBareAggregate n))"

lemma reaches_object: "reaches v n \<Longrightarrow> is_object v"
  by (cases rule: reaches.cases) auto

lemma reaches_Obj_iff:
  "(\<exists>n. reaches (JObj node) n \<and> P n) \<longleftrightarrow>
     P node \<or> (\<exists>(k, x) \<in> set node. k \<noteq> ''ast'' \<and> k \<noteq> ''from'' \<and> (\<exists>n. reaches x n \<and> P n))"
  unfolding reaches_Obj by blast

lemma nested_inside:
  "(\<exists>f. nested_from v (Some fn) = Some f) \<longleftrightarrow> (\<exists>n. reaches v n \<and> isBareAggregate n)"
proof (induction v "Some fn" arbitrary: fn rule: nested_from.induct)
  case (1 xs)
  then show ?case by (simp add: first_some_finds) blast
next
  case (2 node)
  show ?case
  proof (cases "isBareAggregate node")
    case True
    then show ?thesis unfolding reaches_Obj_iff by simp
  next
    case False
    have "(\<exists>f. (\<lambda>(k, v). if k = ''ast'' \<or> k = ''from'' then None else nested_from v (Some fn)) p = Some f)
        \<longleftrightarrow> (case p of (k, x) \<Rightarrow> k \<noteq> ''ast'' \<and> k \<noteq> ''from'' \<and> (\<exists>n. reaches x n \<and> isBareAggregate n))" if "p \<in> set node" for p
      using "2" that False by (cases p) auto
    then show ?thesis unfolding reaches_Obj_iff using False by (simp add: first_some_finds) 
  qed
qed (auto dest: reaches_object)

lemma nested_outside:
  "(\<exists>f. nested_from v None = Some f) \<longleftrightarrow> (\<exists>n. reaches v n \<and> isBareAggregate n \<and> call_below n)"
proof (induction v "None :: string option" rule: nested_from.induct)
  case (1 xs)
  then show ?case by (simp add: first_some_finds) blast
next
  case (2 node)
  let ?f = "\<lambda>inner (k, v). if k = ''ast'' \<or> k = ''from'' then None else nested_from v inner"
  have one: "(\<exists>f. ?f (Some fn) p = Some f) \<longleftrightarrow> (case p of (k, x) \<Rightarrow> k \<noteq> ''ast'' \<and> k \<noteq> ''from'' \<and> (\<exists>n. reaches x n \<and> isBareAggregate n))" for fn p
    by (cases p) (simp add: nested_inside)
  show ?case
  proof (cases "isBareAggregate node")
    case True
    have "(\<exists>f. nested_from (JObj node) None = Some f) \<longleftrightarrow> call_below node"
      using True by (simp add: first_some_finds one call_below_def)
    moreover have "call_below node" if "(k, x) \<in> set node" "k \<noteq> ''ast''" "k \<noteq> ''from''" "reaches x n" "isBareAggregate n" for k x n
      using that unfolding call_below_def by blast
    ultimately show ?thesis unfolding reaches_Obj_iff using True by blast
  next
    case False
    have "(\<exists>f. ?f None p = Some f)
        \<longleftrightarrow> (case p of (k, x) \<Rightarrow> k \<noteq> ''ast'' \<and> k \<noteq> ''from'' \<and> (\<exists>n. reaches x n \<and> isBareAggregate n \<and> call_below n))" if "p \<in> set node" for p
      using "2" that False by (cases p) auto
    then show ?thesis unfolding reaches_Obj_iff using False by (simp add: first_some_finds) 
  qed
qed (auto dest: reaches_object)

text \<open>
  The lint for nested aggregates is exact: it reports something exactly when an aggregate that is not windowed stands somewhere
  below another one in the parsed statement, with no subquery and no FROM clause on the way to either.
\<close>

theorem nestedAggregate_exact:
  "nestedAggregate parse sql grammar \<noteq> None \<longleftrightarrow>
     (\<exists>ast n. parse (withoutFetchTail sql) grammar = Some ast \<and> reaches ast n \<and> isBareAggregate n \<and> call_below n)"
  using nested_outside by (auto simp: nestedAggregate_def split: option.splits)

section \<open>Literals that stand for a code\<close>

text \<open>What a reported literal claims of the catalog.\<close>

definition codes :: "SchemaCatalog \<Rightarrow> CodeLiteral \<Rightarrow> bool" where
  "codes catalog l \<longleftrightarrow>
     isInteger (cl_literal l) \<and> \<not> re_test IDENTIFIER_NAME (cl_column l) \<and> \<not> re_test MEASURE_NAME (cl_column l)
     \<and> (\<exists>ty. dbTypeOf (cl_column l) catalog = Some ty \<and> re_test INTEGER_DB_TYPE (trim ty) \<and> \<not> isMomentColumn (cl_column l) ty)
     \<and> (\<exists>t \<in> set (k_tables catalog). t_name t = cl_table l \<and> t_schema t = cl_schema l \<and> t_kind t = Table \<and> column_in t (cl_column l)
          \<and> \<not> list_ex (\<lambda>c. same c (cl_column l)) (t_primaryKey t)
          \<and> \<not> list_ex (\<lambda>fk. list_ex (\<lambda>c. same c (cl_column l)) (fk_columns fk)) (t_foreignKeys t))"

definition acc_ok :: "SchemaCatalog \<Rightarrow> CodeLiteral list \<times> string list \<Rightarrow> bool" where
  "acc_ok catalog acc \<longleftrightarrow>
     list_all (codes catalog) (fst acc)
     \<and> distinct (map (\<lambda>l. toLowerCase (cl_table l @ ''.'' @ cl_column l @ ''='' @ show_jsnum (cl_literal l))) (fst acc))
     \<and> set (map (\<lambda>l. toLowerCase (cl_table l @ ''.'' @ cl_column l @ ''='' @ show_jsnum (cl_literal l))) (fst acc)) \<subseteq> set (snd acc)"

lemma ownerNamed_in: "ownerNamed table catalog col = Some t \<Longrightarrow> t \<in> set (k_tables catalog) \<and> column_in t col"
  by (auto simp: ownerNamed_def split: option.splits if_splits dest: find_SomeD)

lemma filter_singleD: "filter p xs = [x] \<Longrightarrow> x \<in> set xs \<and> p x"
  by (drule arg_cong [where f = set]) auto

lemma ownerOf_in: "ownerOf col catalog inScope = Some t \<Longrightarrow> t \<in> set (k_tables catalog) \<and> column_in t col"
  by (auto simp: ownerOf_def Let_def simp del: filter_filter split: list.splits if_splits dest!: filter_singleD)

lemma coded_owner_codes:
  assumes "coded_owner catalog maybeColumn inScope = Some (t, col)" "isInteger n"
  shows "codes catalog \<lparr>cl_schema = t_schema t, cl_table = t_name t, cl_column = col, cl_literal = n\<rparr>"
  using assms
  by (auto simp: coded_owner_def codes_def Let_def split: if_splits option.splits jsval.splits list.splits dest!: ownerNamed_in ownerOf_in)

lemma consider_pair_ok: "acc_ok catalog acc \<Longrightarrow> acc_ok catalog (consider_pair catalog inScope a b acc)"
  by (cases acc)
    (auto simp: consider_pair_def acc_ok_def literal_id_def coded_owner_codes split: option.splits prod.splits jsval.splits if_splits)

lemma walkConjunction_ok: "acc_ok catalog acc \<Longrightarrow> acc_ok catalog (walkConjunction catalog inScope v dep acc)"
  by (induction catalog inScope v dep acc rule: walkConjunction.induct) (simp_all add: Let_def consider_pair_ok)

lemma code_literals_fold_ok: "acc_ok catalog acc \<Longrightarrow> acc_ok catalog (fold (code_literals_in catalog) statements acc)"
  by (induction statements arbitrary: acc) (simp_all add: code_literals_in_def walkConjunction_ok)

lemma codeLiterals_acc: "\<exists>seen. acc_ok catalog (codeLiterals parse sql grammar catalog, seen)"
proof (cases "parse (withoutFetchTail sql) grammar")
  case None
  then show ?thesis by (auto simp: codeLiterals_def acc_ok_def)
next
  case (Some ast)
  have "acc_ok catalog (fold (code_literals_in catalog) (tree_list ast) ([], []))"
    by (rule code_literals_fold_ok) (simp add: acc_ok_def)
  with Some show ?thesis
    by (auto simp: codeLiterals_def intro: exI [of _ "snd (fold (code_literals_in catalog) (tree_list ast) ([], []))"])
qed

lemma codeLiterals_codes: "list_all (codes catalog) (codeLiterals parse sql grammar catalog)"
  using codeLiterals_acc [of catalog parse sql grammar] by (auto simp: acc_ok_def)

text \<open>
  A literal is questioned only where it can be a code: its column belongs to a base table of the catalog, is an integer by the one
  type the catalog gives the name, is no moment, no measure and no identifier by its name, in no primary and no foreign key, and
  the literal is a whole number. No literal of a column is questioned twice.
\<close>

theorem codeLiterals_sound:
  assumes "l \<in> set (codeLiterals parse sql grammar catalog)"
  shows "codes catalog l \<and> distinct (codeLiterals parse sql grammar catalog)"
  using codeLiterals_acc [of catalog parse sql grammar] assms by (auto simp: acc_ok_def list_all_iff distinct_map)

text \<open>\<open>SELECT SUM(o.total) FROM orders o JOIN items ON ... WHERE status = 2\<close>, with \<open>items\<close> referring to \<open>orders\<close>.\<close>

definition column_node :: "string \<Rightarrow> jsval" where
  "column_node name = JObj [(''type'', JStr ''column_ref''), (''table'', JNull), (''column'', JStr name)]"

definition orders_tree :: jsval where
  "orders_tree = JObj
     [(''type'', JStr ''select''),
      (''columns'', JArr [JObj [(''expr'', JObj [(''type'', JStr ''aggr_func''), (''name'', JStr ''SUM''),
         (''args'', JObj [(''expr'', JObj [(''type'', JStr ''column_ref''), (''table'', JStr ''o''), (''column'', JStr ''total'')])])])]]),
      (''from'', JArr [JObj [(''table'', JStr ''orders''), (''as'', JStr ''o'')], JObj [(''table'', JStr ''items''), (''as'', JNull)]]),
      (''where'', JObj [(''type'', JStr ''binary_expr''), (''operator'', JStr ''=''), (''left'', column_node ''status''),
         (''right'', JObj [(''type'', JStr ''number''), (''value'', JNum (Fin 2))])])]"

definition orders_catalog :: SchemaCatalog where
  "orders_catalog = example_catalog
     [(example_table ''orders'' [] [])\<lparr>t_columns := [(example_column ''status'')\<lparr>c_dbType := ''integer''\<rparr>]\<rparr>,
      (example_table ''items'' [] [])\<lparr>t_foreignKeys :=
         [\<lparr>fk_name = None, fk_columns = [''order_id''], fk_refSchema = None, fk_refTable = ''Orders'', fk_refColumns = [''id'']\<rparr>]\<rparr>]"

lemma orders_codes:
  "codeLiterals (\<lambda>_ _. Some orders_tree) [] [] orders_catalog = [\<lparr>cl_schema = None, cl_table = ''orders'', cl_column = ''status'', cl_literal = Fin 2\<rparr>]"
  by code_simp

lemma orders_fan_out:
  "fanOutAggregate (\<lambda>_ _. Some orders_tree) [] [] orders_catalog = Some \<lparr>fo_column = ''total'', fo_parent = ''orders'', fo_child = ''items''\<rparr>"
  by code_simp

theorem codeLiterals_sound_witness:
  "codes orders_catalog \<lparr>cl_schema = None, cl_table = ''orders'', cl_column = ''status'', cl_literal = Fin 2\<rparr>"
  using codeLiterals_sound [of _ "\<lambda>_ _. Some orders_tree" "[]" "[]" orders_catalog] by (simp add: orders_codes)

theorem fanOutAggregate_sound_witness: "has_parent orders_catalog ''items'' ''orders''"
  using fanOutAggregate_sound [OF orders_fan_out] by auto

end
