(* ===== verification/Engine_Execute.thy ===== *)
theory Engine_Execute
  imports Guard History
begin

text \<open>
  \<open>redactValuesInError\<close> and \<open>executeGuarded\<close> of \<open>packages/core/src/engine.ts\<close>: what runs a statement. The connector and the
  history store are arguments: the answer of \<open>ensureConnected\<close>, what \<open>execute\<close> answers to the n-th request, and the
  store's \<open>add\<close>, which may throw. What the engine does to them is the state \<open>world\<close>: the store, the requests sent, and
  the warnings emitted.

  The properties: only a statement the guard admits reaches the connector, at most one per call and never with a higher row cap
  than the policy's; each call that reaches a verdict leaves one history entry whose status is what happened; a result that
  fills a limit the guard set is marked as truncated.
\<close>

section \<open>Model: values in database errors\<close>

definition KEY_TUPLE :: regex where
  "KEY_TUPLE =
     cats [Group 1 (cats [lit CHR ''('', Star (none_of ''()''), lit CHR '')'', Star ws, lit CHR ''='', Star ws]), lit CHR ''('', Star (none_of '')''),
     lit CHR '')'']"

definition QUOTED_TEXT :: regex where
  "QUOTED_TEXT =
     cats [lit SQUOTE, Star (none_of [SQUOTE]), lit SQUOTE]"

definition NAME_BEFORE :: regex where
  "NAME_BEFORE =
     cats [WordB, Group 1 (ors [cis ''unknown column'', cis ''unknown table'', cis ''no such column'', cis ''no such table'', cis ''column'',
     cis ''table'', cis ''field'', cis ''near'', cis ''constraint'', cis ''index'']), Star ws, Eol]"

definition INVALID_SYNTAX :: regex where
  "INVALID_SYNTAX =
     cats [Group 1 (cats [cis ''invalid input syntax for type '', plus (Chr is_word), lit CHR '':'', Star ws]), lit DQUOTE, Star (none_of [DQUOTE]),
     lit DQUOTE]"

definition OUT_OF_RANGE :: regex where
  "OUT_OF_RANGE =
     cats [Group 1 (cats [cis ''out of range for type '', plus (Chr is_word), lit CHR '':'', Star ws]), lit DQUOTE, Star (none_of [DQUOTE]), lit DQUOTE]"

definition INVALID_VALUE :: regex where
  "INVALID_VALUE =
     cats [Group 1 (cats [cis ''invalid value'', Star ws, Opt (cats [cis ''for '', plus (Chr is_word)]), lit CHR '':'', Star ws]), lit DQUOTE,
     Star (none_of [DQUOTE]), lit DQUOTE]"

definition UNCONVERTED :: regex where
  "UNCONVERTED =
     cats [Group 1 (ors [cis ''unable to parse'', cis ''could not convert'', cis ''conversion failed for'']), Group 2 (upto_times 40 (none_of [DQUOTE])),
     lit DQUOTE, Star (none_of [DQUOTE]), lit DQUOTE]"

definition DATE_OUT_OF_RANGE :: regex where
  "DATE_OUT_OF_RANGE =
     cats [Group 1 (cats [cis ''date/time field value out of range:'', Star ws]), lit DQUOTE, Star (none_of [DQUOTE]), lit DQUOTE]"

definition VALUE_OUT_OF_RANGE :: regex where
  "VALUE_OUT_OF_RANGE =
     cats [Group 1 (cats [cis ''value out of range'', upto_times 20 (none_of [CHR '':'', DQUOTE]), lit CHR '':'', Star ws]), lit DQUOTE,
     Star (none_of [DQUOTE]), lit DQUOTE]"

definition ENUM_VALUE :: regex where
  "ENUM_VALUE =
     cats [Group 1 (cats [cis ''invalid input value for enum '', plus (Chr is_word), lit CHR '':'', Star ws]), lit DQUOTE, Star (none_of [DQUOTE]),
     lit DQUOTE]"

definition FAILING_ROW :: regex where
  "FAILING_ROW =
     cats [Group 1 (cats [cis ''failing row contains'', Star ws]), lit CHR ''('', Star (none_of '')''), lit CHR '')'']"

definition INVALID_NUMBER :: regex where
  "INVALID_NUMBER =
     cats [Group 1 (cats [Opt (cats [cis ''ORA-'', plus dig, lit CHR '':'', Star ws]), ors [cis ''invalid number'',
     cis ''character to number conversion error''], upto_times 3 (none_of [LF]), lit CHR '':'', Star ws]), plus (none_of [LF])]"

definition LONG_QUOTED :: regex where
  "LONG_QUOTED =
     cats [lit DQUOTE, cats [exactly 60 (none_of [DQUOTE]), Star (none_of [DQUOTE])], lit DQUOTE]"

text \<open>\<open>replace(re, '$1...')\<close>: the first group stays, the rest of the match becomes \<open>tail\<close>.\<close>

definition group_of :: "string \<Rightarrow> rmatch \<Rightarrow> nat \<Rightarrow> string" where
  "group_of s m n = (case m_group s m n of None \<Rightarrow> [] | Some t \<Rightarrow> t)"

definition keep_first :: "regex \<Rightarrow> string \<Rightarrow> string \<Rightarrow> string" where
  "keep_first re tail s = replace_all re s (\<lambda>m. group_of s m 1 @ tail)"

definition dots_in_quotes :: string where "dots_in_quotes = [DQUOTE] @ ''...'' @ [DQUOTE]"

text \<open>A quoted text goes unless the forty characters before it announce a name.\<close>

definition redact_literals :: "string \<Rightarrow> string" where
  "redact_literals s =
     replace_all QUOTED_TEXT s
       (\<lambda>m. if re_test NAME_BEFORE (slice s (m_index m - 40) (m_index m)) then m_whole s m
            else [SQUOTE] @ ''...'' @ [SQUOTE])"

definition redactValuesInError :: "string \<Rightarrow> string" where
  "redactValuesInError detail =
     (let s1 = keep_first KEY_TUPLE ''(...)'' detail;
          s2 = redact_literals s1;
          s3 = keep_first INVALID_SYNTAX dots_in_quotes s2;
          s4 = keep_first OUT_OF_RANGE dots_in_quotes s3;
          s5 = keep_first INVALID_VALUE dots_in_quotes s4;
          s6 = replace_all UNCONVERTED s5 (\<lambda>m. group_of s5 m 1 @ group_of s5 m 2 @ dots_in_quotes);
          s7 = keep_first DATE_OUT_OF_RANGE dots_in_quotes s6;
          s8 = keep_first VALUE_OUT_OF_RANGE dots_in_quotes s7;
          s9 = keep_first ENUM_VALUE dots_in_quotes s8;
          s10 = keep_first FAILING_ROW ''(...)'' s9;
          s11 = keep_first INVALID_NUMBER ''...'' s10
      in replace_all LONG_QUOTED s11 (\<lambda>_. dots_in_quotes))"

section \<open>Model: execution\<close>

definition DEFAULT_QUERY_TIMEOUT_MS :: nat where "DEFAULT_QUERY_TIMEOUT_MS = 30000"

record ResultSet =
  rs_columns :: "jsval list"
  rs_rows :: "jsval list list"
  rs_rowCount :: jsnum
  rs_truncated :: bool
  rs_durationMs :: jsnum
  rs_warnings :: "string list"

text \<open>What the connector is asked: the statement, the timeout and the row cap.\<close>

record request =
  rq_sql :: string
  rq_timeoutMs :: jsnum
  rq_maxRows :: jsnum

text \<open>The options of a call; \<open>xo_aborted\<close> is the state of the caller's signal when the connector has answered.\<close>

record execute_options =
  xo_aborted :: bool
  xo_timeoutMs :: "jsnum option"
  xo_maxRows :: "jsnum option"
  xo_question :: "string option"
  xo_userId :: "string option"
  xo_priorVerdict :: "(bool \<times> bool) option"

record 's world =
  wo_history :: 's
  wo_sent :: "request list"
  wo_warnings :: "string list"

record 's engine_env =
  en_parse :: parser
  en_policy :: GuardPolicy
  en_connection :: string
  en_dialect :: DialectInfo
  en_connect :: "AskSqlError option"
  en_execute :: "nat \<Rightarrow> request \<Rightarrow> thrown + ResultSet"
  en_add :: "'s \<Rightarrow> HistoryEntry \<Rightarrow> 's option"
  en_historyId :: string
  en_now :: string
  en_elapsed :: jsnum

text \<open>The resolved policy, handed to the guard as a partial one.\<close>

definition as_partial :: "GuardPolicy \<Rightarrow> PartialGuardPolicy" where
  "as_partial policy =
     \<lparr>pp_mode = Some (p_mode policy), pp_maxRows = Some (Fin (of_nat (p_maxRows policy))), pp_denyFunctions = Some (p_denyFunctions policy),
      pp_allowFileFunctions = Some (p_allowFileFunctions policy), pp_maxSqlLength = Some (p_maxSqlLength policy),
      pp_maxDepth = Some (p_maxDepth policy)\<rparr>"

definition guarded :: "('s, 'e) engine_env_scheme \<Rightarrow> string \<Rightarrow> thrown + GuardVerdict" where
  "guarded env sql = guardSql (en_parse env) (Some sql) (en_dialect env) (as_partial (en_policy env))"

definition recordHistory :: "('s, 'e) engine_env_scheme \<Rightarrow> HistoryEntry \<Rightarrow> 's world \<Rightarrow> 's world" where
  "recordHistory env entry' w =
     (case en_add env (wo_history w) entry' of
        Some s \<Rightarrow> w\<lparr>wo_history := s\<rparr>
      | None \<Rightarrow> w\<lparr>wo_warnings := wo_warnings w @ [''Could not record this query in history.'']\<rparr>)"

definition history_entry :: "('s, 'e) engine_env_scheme \<Rightarrow> string option \<Rightarrow> string option \<Rightarrow> string \<Rightarrow> history_status \<Rightarrow> HistoryEntry" where
  "history_entry env userId question sql status =
     \<lparr>h_id = en_historyId env, h_at = en_now env, h_connectionId = en_connection env, h_userId = userId, h_question = question,
      h_sql = sql, h_status = status, h_errorCode = None, h_durationMs = None, h_rowCount = None, h_tokens = None\<rparr>"

definition guard_error :: "string \<Rightarrow> string \<Rightarrow> AskSqlError" where
  "guard_error why detail = new_AskSqlError GuardBlocked \<lparr>o_userMessage = Some why, o_detail = Some detail, o_retryable = None\<rparr>"

text \<open>The statement reaches the connector, which answers \<open>answer\<close>.\<close>

definition cappedMax :: "GuardPolicy \<Rightarrow> execute_options \<Rightarrow> jsnum" where
  "cappedMax policy opts =
     math_min (or_default (xo_maxRows opts) (Fin (of_nat (p_maxRows policy)))) (Fin (of_nat (p_maxRows policy)))"

definition present_result :: "GuardPolicy \<Rightarrow> execute_options \<Rightarrow> GuardVerdict \<Rightarrow> ResultSet \<Rightarrow> ResultSet" where
  "present_result policy opts verdict result =
     (let autoLimited = (v_autoLimited verdict \<or> (case xo_priorVerdict opts of Some p \<Rightarrow> fst p | None \<Rightarrow> False));
          loweredLimit = (v_loweredLimit verdict \<or> (case xo_priorVerdict opts of Some p \<Rightarrow> snd p | None \<Rightarrow> False))
      in result\<lparr>rs_warnings := rs_warnings result
             @ (if autoLimited then [''A row limit of '' @ show_nat (p_maxRows policy) @ '' was added automatically - these are the first rows only.''] else [])
             @ (if loweredLimit then [''The row limit was lowered to '' @ show_nat (p_maxRows policy) @ ''.''] else []),
           rs_truncated := rs_truncated result \<or> ((autoLimited \<or> loweredLimit) \<and> num_le (cappedMax policy opts) (rs_rowCount result))\<rparr>)"

definition execution_error :: "execute_options \<Rightarrow> thrown \<Rightarrow> AskSqlError" where
  "execution_error opts err =
     AskSqlError_from err
       (if xo_aborted opts \<and> \<not> (case err of ThrownAskSql _ \<Rightarrow> True | _ \<Rightarrow> False) then Cancelled else DBQueryError)"

definition executeGuarded :: "('s, 'e) engine_env_scheme \<Rightarrow> 's world \<Rightarrow> string \<Rightarrow> execute_options
    \<Rightarrow> (thrown + ResultSet) \<times> 's world" where
  "executeGuarded env w sql opts =
     (case en_connect env of
        Some e \<Rightarrow> (Inl (ThrownAskSql e), w)
      | None \<Rightarrow>
          (case guarded env sql of
             Inl t \<Rightarrow> (Inl t, w)
           | Inr verdict \<Rightarrow>
               if \<not> v_allowed verdict then
                 (Inl (ThrownAskSql (guard_error (''Blocked for safety: '' @ or_default (v_reason verdict) ''this statement is not allowed.'')
                    (''ruleId='' @ or_default (v_ruleId verdict) ''unknown'' @ '' sql='' @ take 300 sql))),
                  recordHistory env ((history_entry env (xo_userId opts) (xo_question opts) sql StatusBlocked)\<lparr>h_errorCode := v_ruleId verdict\<rparr>) w)
               else
                 let request' = \<lparr>rq_sql = v_sql verdict, rq_timeoutMs = or_default (xo_timeoutMs opts) (Fin (of_nat DEFAULT_QUERY_TIMEOUT_MS)),
                                 rq_maxRows = cappedMax (en_policy env) opts\<rparr>;
                     w' = w\<lparr>wo_sent := wo_sent w @ [request']\<rparr>
                 in (case en_execute env (length (wo_sent w)) request' of
                       Inr result \<Rightarrow>
                         (Inr (present_result (en_policy env) opts verdict result),
                          recordHistory env ((history_entry env (xo_userId opts) (xo_question opts) (v_sql verdict) StatusOk)
                            \<lparr>h_durationMs := Some (en_elapsed env), h_rowCount := Some (rs_rowCount result)\<rparr>) w')
                     | Inl err \<Rightarrow>
                         (Inl (ThrownAskSql (execution_error opts err)),
                          recordHistory env ((history_entry env (xo_userId opts) (xo_question opts) (v_sql verdict) StatusError)
                            \<lparr>h_errorCode := Some (code_name (e_code (execution_error opts err))), h_durationMs := Some (en_elapsed env)\<rparr>) w'))))"

section \<open>What reaches the connector\<close>

lemma recordHistory_sent [simp]: "wo_sent (recordHistory env e w) = wo_sent w"
  by (simp add: recordHistory_def split: option.splits)

lemma executeGuarded_cases:
  obtains (not_connected) e where "en_connect env = Some e" "executeGuarded env w sql opts = (Inl (ThrownAskSql e), w)"
  | (guard_throws) t where "en_connect env = None" "guarded env sql = Inl t" "executeGuarded env w sql opts = (Inl t, w)"
  | (blocked) v e where "en_connect env = None" "guarded env sql = Inr v" "\<not> v_allowed v" "e_code e = GuardBlocked"
      "executeGuarded env w sql opts = (Inl (ThrownAskSql e),
         recordHistory env ((history_entry env (xo_userId opts) (xo_question opts) sql StatusBlocked)\<lparr>h_errorCode := v_ruleId v\<rparr>) w)"
  | (ran) v request' entry' result where "en_connect env = None" "guarded env sql = Inr v" "v_allowed v"
      "rq_sql request' = v_sql v" "rq_maxRows request' = cappedMax (en_policy env) opts"
      "en_execute env (length (wo_sent w)) request' = Inr result"
      "h_status entry' = StatusOk" "h_sql entry' = v_sql v" "h_connectionId entry' = en_connection env" "h_userId entry' = xo_userId opts"
      "executeGuarded env w sql opts =
         (Inr (present_result (en_policy env) opts v result), recordHistory env entry' (w\<lparr>wo_sent := wo_sent w @ [request']\<rparr>))"
  | (failed) v request' entry' err where "en_connect env = None" "guarded env sql = Inr v" "v_allowed v"
      "rq_sql request' = v_sql v" "rq_maxRows request' = cappedMax (en_policy env) opts"
      "en_execute env (length (wo_sent w)) request' = Inl err"
      "h_status entry' = StatusError" "h_sql entry' = v_sql v" "h_connectionId entry' = en_connection env" "h_userId entry' = xo_userId opts"
      "executeGuarded env w sql opts =
         (Inl (ThrownAskSql (execution_error opts err)), recordHistory env entry' (w\<lparr>wo_sent := wo_sent w @ [request']\<rparr>))"
proof (cases "en_connect env")
  case (Some e)
  then show thesis by (intro not_connected) (auto simp: executeGuarded_def)
next
  case connected: None
  show thesis
  proof (cases "guarded env sql")
    case (Inl t)
    with connected show thesis by (intro guard_throws) (auto simp: executeGuarded_def)
  next
    case guard: (Inr v)
    show thesis
    proof (cases "v_allowed v")
      case False
      show thesis
        by (rule blocked [OF connected guard False _ ]) (use connected guard False in \<open>simp_all add: executeGuarded_def guard_error_def new_AskSqlError_def Let_def\<close>)
    next
      case True
      let ?r = "\<lparr>rq_sql = v_sql v, rq_timeoutMs = or_default (xo_timeoutMs opts) (Fin (of_nat DEFAULT_QUERY_TIMEOUT_MS)),
                  rq_maxRows = cappedMax (en_policy env) opts\<rparr>"
      show thesis
      proof (cases "en_execute env (length (wo_sent w)) ?r")
        case (Inl err)
        show thesis
          by (rule failed [OF connected guard True _ _ Inl])
            (use connected guard True Inl in \<open>simp_all add: executeGuarded_def Let_def history_entry_def\<close>)
      next
        case (Inr result)
        show thesis
          by (rule ran [OF connected guard True _ _ Inr])
            (use connected guard True Inr in \<open>simp_all add: executeGuarded_def Let_def history_entry_def\<close>)
      qed
    qed
  qed
qed

lemma cappedMax_le: "cappedMax policy opts = NaN \<or> num_le (cappedMax policy opts) (Fin (of_nat (p_maxRows policy)))"
  by (cases "or_default (xo_maxRows opts) (Fin (of_nat (p_maxRows policy)))") (auto simp: cappedMax_def math_min_def)


text \<open>The status that says what happened to a call with a verdict.\<close>

definition outcome_status :: "thrown + ResultSet \<Rightarrow> GuardVerdict \<Rightarrow> history_status" where
  "outcome_status r v = (if \<not> v_allowed v then StatusBlocked else case r of Inl _ \<Rightarrow> StatusError | Inr _ \<Rightarrow> StatusOk)"

text \<open>
  C29: every call that gets a verdict leaves exactly one entry, and its status is what happened: blocked when the guard refused and
  nothing was sent, an error when the connector failed, ok when the caller got rows.
\<close>

theorem executeGuarded_recorded_once:
  assumes "en_connect env = None" "guarded env sql = Inr v" "en_add env = (\<lambda>s e. Some (history_add s e))"
  shows "\<exists>entry'. wo_history (snd (executeGuarded env w sql opts)) = history_add (wo_history w) entry'
    \<and> h_connectionId entry' = en_connection env \<and> h_userId entry' = xo_userId opts
    \<and> h_sql entry' = (if v_allowed v then v_sql v else sql)
    \<and> h_status entry' = outcome_status (fst (executeGuarded env w sql opts)) v"
  using assms
  by (cases rule: executeGuarded_cases [of env w sql opts])
    (auto simp: recordHistory_def outcome_status_def history_entry_def intro!: exI)

text \<open>
  Rows that fill a limit are never passed off as all there are: whenever the guard, now or when it first saw the statement, added
  or lowered the limit and the connector returned as many rows as the request allowed, the result says that it is cut and a
  warning says by which limit.
\<close>

theorem executeGuarded_marks_truncation:
  assumes "fst (executeGuarded env w sql opts) = Inr result" "guarded env sql = Inr v"
    and "v_autoLimited v \<or> v_loweredLimit v \<or> xo_priorVerdict opts \<in> {Some (True, b), Some (b, True)}"
    and "num_le (cappedMax (en_policy env) opts) (rs_rowCount result)"
  shows "rs_truncated result \<and> rs_warnings result \<noteq> []"
  using assms
  by (cases rule: executeGuarded_cases [of env w sql opts]) (auto simp: present_result_def Let_def)

text \<open>A connection that answers one row more than nothing, with a policy of five rows.\<close>

definition five_rows :: ResultSet where
  "five_rows = \<lparr>rs_columns = [JStr ''a''], rs_rows = replicate 5 [JNull], rs_rowCount = Fin 5, rs_truncated = False, rs_durationMs = Fin 1,
     rs_warnings = []\<rparr>"

definition sample_env :: "MemoryHistoryStore engine_env" where
  "sample_env = \<lparr>en_parse = sample_parser, en_policy = DEFAULT_GUARD_POLICY\<lparr>p_maxRows := 5\<rparr>, en_connection = ''c'', en_dialect = POSTGRES_DIALECT,
     en_connect = None, en_execute = (\<lambda>_ _. Inr five_rows), en_add = (\<lambda>s e. Some (history_add s e)), en_historyId = ''h'',
     en_now = ''2024'', en_elapsed = Fin 1\<rparr>"

definition sample_world :: "MemoryHistoryStore world" where
  "sample_world = \<lparr>wo_history = new_MemoryHistoryStore None, wo_sent = [], wo_warnings = []\<rparr>"

definition no_options :: execute_options where
  "no_options = \<lparr>xo_aborted = False, xo_timeoutMs = None, xo_maxRows = None, xo_question = None, xo_userId = None, xo_priorVerdict = None\<rparr>"

lemma sample_guarded: "guarded sample_env ''SELECT a FROM t;'' = Inr (accepted (''SELECT a FROM t'' @ [LF] @ ''LIMIT 5'') [] True False [''select::null::t''])"
proof -
  have "resolveGuardPolicy (as_partial (DEFAULT_GUARD_POLICY\<lparr>p_maxRows := 5\<rparr>)) = resolveGuardPolicy (row_policy 5)"
    by (simp add: resolveGuardPolicy_def as_partial_def row_policy_def no_policy_def or_default_def DEFAULT_GUARD_POLICY_def)
  then show ?thesis using sample_guard by (simp add: guarded_def sample_env_def guardSql_def)
qed

theorem executeGuarded_recorded_once_witness:
  "\<exists>entry'. wo_history (snd (executeGuarded sample_env sample_world ''SELECT a FROM t;'' no_options)) = history_add (new_MemoryHistoryStore None) entry'
    \<and> h_connectionId entry' = ''c''"
  using executeGuarded_recorded_once [OF _ sample_guarded, of sample_world no_options] by (auto simp: sample_env_def sample_world_def)

lemma sample_result:
  "\<exists>result. fst (executeGuarded sample_env sample_world ''SELECT a FROM t;'' no_options) = Inr result"
  by (cases rule: executeGuarded_cases [of sample_env sample_world "''SELECT a FROM t;''" no_options])
    (auto simp: sample_guarded, auto simp: sample_env_def accepted_def)

theorem executeGuarded_marks_truncation_witness:
  "\<exists>result. fst (executeGuarded sample_env sample_world ''SELECT a FROM t;'' no_options) = Inr result \<and> rs_truncated result"
proof -
  obtain result where r: "fst (executeGuarded sample_env sample_world ''SELECT a FROM t;'' no_options) = Inr result"
    using sample_result by blast
  have "rs_rowCount result = Fin 5"
    using r by (cases rule: executeGuarded_cases [of sample_env sample_world "''SELECT a FROM t;''" no_options])
      (auto simp: sample_env_def present_result_def five_rows_def Let_def)
  moreover have "cappedMax (en_policy sample_env) no_options = Fin 5" by code_simp
  ultimately show ?thesis
    using executeGuarded_marks_truncation [OF r sample_guarded] r by (simp add: accepted_def)
qed

text \<open>A type whose name has a space is not recognised, and the value stays in the message that goes into the repair prompt.\<close>

lemma spaced_type_keeps_value:
  "redactValuesInError (''invalid input syntax for type double precision: '' @ [DQUOTE] @ ''4111-1111'' @ [DQUOTE])
     = ''invalid input syntax for type double precision: '' @ [DQUOTE] @ ''4111-1111'' @ [DQUOTE]"
  by code_simp

lemma plain_type_hides_value:
  "redactValuesInError (''invalid input syntax for type integer: '' @ [DQUOTE] @ ''4111-1111'' @ [DQUOTE])
     = ''invalid input syntax for type integer: '' @ [DQUOTE] @ ''...'' @ [DQUOTE]"
  by code_simp

end
