(* ===== verification/Engine_Ask.thy ===== *)
theory Engine_Ask
  imports Engine_Execute Extract Identifier_Case Floors Semantics Catalog_Answers Schema_Match Scope Prompts
begin

text \<open>
  \<open>askImpl\<close> of \<open>packages/core/src/engine.ts\<close>: a question becomes a checked statement. What lies outside is an argument of the
  environment: the answer of the model to its n-th call, what \<open>getCatalog\<close> gives (its caching is \<open>Catalog_Cache\<close>), the connector,
  the parser, and the few-shot examples that were retrieved. Each turn of the loop is \<open>ask_pass\<close>, which throws, returns, or asks
  to go round again with a changed state; \<open>ask_loop\<close> is the loop. Stage and token events are not part of the model, warnings are.

  The properties: the loop ends after at most six calls of the model; what it returns is admitted by the guard and refers to no
  table or column that the floors find missing; a question off the path costs no call.
\<close>

section \<open>Model: the environment and the state\<close>

definition MAX_REPAIRS :: nat where "MAX_REPAIRS = 2"
definition MAX_QUESTION_LENGTH :: nat where "MAX_QUESTION_LENGTH = 10000"
definition CODE_MAX_DISTINCT :: nat where "CODE_MAX_DISTINCT = 25"
definition CODE_MAX_PROBES :: nat where "CODE_MAX_PROBES = 2"
definition CODE_PROBE_TIMEOUT_MS :: nat where "CODE_PROBE_TIMEOUT_MS = 1200"

definition LITERAL_STRING_ANSWER_RE :: regex where
  "LITERAL_STRING_ANSWER_RE =
     cats [Bol, cis ''select'', plus ws, lit SQUOTE, Star (ors [none_of [SQUOTE], cats [lit SQUOTE, lit SQUOTE]]), lit SQUOTE, Star ws,
     Opt (cats [cis ''as'', plus ws, plus (Chr is_word)]), Star ws, Opt (cats [cis ''limit'', plus ws, plus dig]), Star ws, Opt (lit CHR '';''), Star ws,
     Eol]"

definition IMPOSSIBLE_WORD :: regex where
  "IMPOSSIBLE_WORD =
     cis ''IMPOSSIBLE''"

definition WITHIN_GROUP :: regex where
  "WITHIN_GROUP =
     cats [WordB, cis ''within'', plus ws, cis ''group'', WordB]"

record model_reply =
  mr_text :: string
  mr_inputTokens :: "jsnum option"
  mr_outputTokens :: "jsnum option"

record 's ask_env = "'s engine_env" +
  ak_columnList :: "string \<Rightarrow> string \<Rightarrow> string list option"
  ak_tableList :: "string \<Rightarrow> string \<Rightarrow> string list option"
  ak_engine :: string
  ak_database :: string
  ak_pruner :: PrunerSettings
  ak_prompts :: "PromptSettings option"
  ak_glossary :: "GlossaryEntry list"
  ak_allowDataInPrompt :: bool
  ak_ellipsis :: char
  ak_model :: "nat \<Rightarrow> string \<Rightarrow> string \<Rightarrow> thrown + model_reply"
  ak_getCatalog :: "bool \<Rightarrow> thrown + SchemaCatalog"
  ak_mayRefresh :: bool
  ak_fewShots :: "turn list"

record ask_options =
  ao_context :: "turn list"
  ao_userId :: "string option"
  ao_aborted :: bool

text \<open>What stays the same in the loop.\<close>

record ask_context =
  ac_question :: string
  ac_options :: ask_options
  ac_catalog :: SchemaCatalog
  ac_names :: "string list"
  ac_tables :: "string list"
  ac_system :: string

record ask_state =
  as_attempt :: nat
  as_prompt :: string
  as_schemaText :: string
  as_shown :: nat
  as_lastSql :: string
  as_everyReplyEmpty :: bool
  as_notes :: "string list"
  as_contextShrunk :: bool
  as_triedMetadata :: bool
  as_triedFuzzy :: bool
  as_input :: jsnum
  as_output :: jsnum
  as_calls :: nat

text \<open>The result; \<open>ar_schemaText\<close> is what its \<open>run\<close> captures besides.\<close>

record AskResult =
  ar_sql :: string
  ar_explanation :: string
  ar_guard :: GuardVerdict
  ar_connectionId :: string
  ar_usage :: "jsnum \<times> jsnum"
  ar_repairs :: nat
  ar_schemaText :: string

datatype 's pass =
    Again ask_state "'s world"
  | Throws thrown "'s world"
  | Returns AskResult "'s world"

definition warn :: "string \<Rightarrow> 's world \<Rightarrow> 's world" where
  "warn message w = w\<lparr>wo_warnings := wo_warnings w @ [message]\<rparr>"

definition ask_error :: "ErrorCode \<Rightarrow> string option \<Rightarrow> string \<Rightarrow> bool option \<Rightarrow> thrown" where
  "ask_error code' userMessage detail retryable =
     ThrownAskSql (new_AskSqlError code' \<lparr>o_userMessage = userMessage, o_detail = Some detail, o_retryable = retryable\<rparr>)"

definition hasUsableContext :: "turn list \<Rightarrow> bool" where
  "hasUsableContext context' \<longleftrightarrow> list_ex (\<lambda>t. trim (tu_sql t) \<noteq> []) context'"

definition ast_of :: "('s, 'e) ask_env_scheme \<Rightarrow> ast_parser" where
  "ast_of env sql grammar = map_option fst (en_parse env sql grammar)"

section \<open>Model: questions off the path\<close>

text \<open>What is declined before any model call, in the order of the tests.\<close>

definition off_path :: "string \<Rightarrow> thrown option" where
  "off_path q =
     (if isCapabilityQuestion q then
        Some (ask_error LLMBadOutput (Some (''That is a question about AskSQL itself rather than the data.''))
          (''capability question routed to the prose path'') (Some False))
      else if isPromptInjection q then
        Some (ask_error LLMRefusal (Some (''I only answer questions about the data in this database.''))
          (''prompt-injection attempt declined'') (Some False))
      else if isWriteRequest q then
        Some (ask_error LLMBadOutput (Some (''That asks for a statement that changes data. AskSQL is read-only, so it is written out for you to run yourself.''))
          (''write request routed to the proposal path'') (Some False))
      else if isSchemaAdviceQuestion q \<or> isDatabaseOverviewQuestion q \<or> isRelationshipQuestion q then
        Some (ask_error LLMBadOutput (Some (''That asks about the schema itself rather than the data in it, so there is no query to run.''))
          (''schema-advice question routed to the prose path'') (Some False))
      else None)"

definition invalid_question :: "string \<Rightarrow> AskSqlError option" where
  "invalid_question q =
     (if q = [] then Some (new_AskSqlError InvalidInput \<lparr>o_userMessage = None, o_detail = None, o_retryable = None\<rparr>)
      else if length q > MAX_QUESTION_LENGTH then
        Some (new_AskSqlError InvalidInput
          \<lparr>o_userMessage = Some (''The question is too long. Keep it under 10,000 characters.''),
           o_detail = Some (''question length '' @ show_nat (length q)), o_retryable = None\<rparr>)
      else None)"

section \<open>Model: names to quote\<close>

definition all_names :: "SchemaCatalog \<Rightarrow> string list" where
  "all_names catalog = concat (map (\<lambda>t. t_name t # map c_name (t_columns t)) (k_tables catalog))"

definition spellings :: "SchemaCatalog \<Rightarrow> string \<Rightarrow> string list" where
  "spellings catalog name = remdups (filter (\<lambda>n. toLowerCase n = toLowerCase name) (all_names catalog))"

definition quotable_names :: "SchemaCatalog \<Rightarrow> string \<Rightarrow> string list" where
  "quotable_names catalog engine = filter (\<lambda>n. needsQuoting n engine \<and> length (spellings catalog n) = 1) (all_names catalog)"

definition quotable_tables :: "SchemaCatalog \<Rightarrow> string \<Rightarrow> string list" where
  "quotable_tables catalog engine = filter (\<lambda>n. n \<in> set (quotable_names catalog engine)) (map t_name (k_tables catalog))"

text \<open>The verdict on the statement with its names and aliases quoted, with its names quoted, or as the model wrote it.\<close>

definition try_guard :: "('s, 'e) engine_env_scheme \<Rightarrow> string option \<Rightarrow> thrown + GuardVerdict option" where
  "try_guard env sql = (case truthy sql of None \<Rightarrow> Inr None | Some s \<Rightarrow> map_sum id Some (guarded env s))"

definition admitted :: "GuardVerdict option \<Rightarrow> bool" where
  "admitted v = (case v of None \<Rightarrow> False | Some v \<Rightarrow> v_allowed v)"

definition choose_verdict :: "('s, 'e) ask_env_scheme \<Rightarrow> ask_context \<Rightarrow> string \<Rightarrow> thrown + GuardVerdict" where
  "choose_verdict env cx sql =
     (let quotedNames = quoteCatalogIdentifiers sql (ac_names cx) (d_quoteChar (en_dialect env)) (ac_tables cx);
          withAliases = quoteReservedAliases (or_default quotedNames sql) (d_quoteChar (en_dialect env)) (ak_engine env);
          normalised = (case withAliases of Some s \<Rightarrow> Some s | None \<Rightarrow> quotedNames)
      in case try_guard env normalised of
           Inl t \<Rightarrow> Inl t
         | Inr normalisedVerdict \<Rightarrow>
             if admitted normalisedVerdict then Inr (the normalisedVerdict)
             else
               (case try_guard env (if quotedNames \<noteq> normalised then quotedNames else None) of
                  Inl t \<Rightarrow> Inl t
                | Inr namesOnlyVerdict \<Rightarrow>
                    if admitted namesOnlyVerdict then Inr (the namesOnlyVerdict) else guarded env sql))"

section \<open>Model: repair prompts\<close>

definition repair_prompt :: "('s, 'e) ask_env_scheme \<Rightarrow> ask_context \<Rightarrow> ask_state \<Rightarrow> bool \<Rightarrow> string \<Rightarrow> string \<Rightarrow> string" where
  "repair_prompt env cx st allowImpossible failedSql failure =
     buildRepairUser \<lparr>ri_question = ac_question cx, ri_failedSql = failedSql, ri_failure = failure, ri_schemaText = as_schemaText st,
       ri_dialect = en_dialect env, ri_allowImpossible = allowImpossible\<rparr>"

text \<open>\<open>continue\<close> with a new prompt: it uses up an attempt, or gives it back.\<close>

definition next_attempt :: "string \<Rightarrow> ask_state \<Rightarrow> ask_state" where
  "next_attempt prompt st = st\<lparr>as_attempt := as_attempt st + 1, as_prompt := prompt\<rparr>"

definition same_attempt :: "string \<Rightarrow> ask_state \<Rightarrow> ask_state" where
  "same_attempt prompt st = st\<lparr>as_prompt := prompt\<rparr>"

text \<open>The context was too long: a tighter schema, without the few-shot examples, once.\<close>

definition tighter_settings :: "('s, 'e) ask_env_scheme \<Rightarrow> ask_state \<Rightarrow> PrunerSettings" where
  "tighter_settings env st =
     \<lparr>ps_maxTables = Some (max 5 (as_shown st div 2)),
      ps_maxSchemaTokens = Some (max 1000 ((case ps_maxSchemaTokens (ak_pruner env) of Some n \<Rightarrow> n | None \<Rightarrow> 6000) div 2))\<rparr>"

definition shrink :: "('s, 'e) ask_env_scheme \<Rightarrow> ask_context \<Rightarrow> ask_state \<Rightarrow> ask_state" where
  "shrink env cx st =
     (let tighter = pruneCatalog (ac_catalog cx) (ac_question cx) (tighter_settings env st) in
      st\<lparr>as_contextShrunk := True, as_shown := length (k_tables (pr_catalog tighter)), as_schemaText := pr_schemaText tighter,
         as_prompt := buildSqlUser
           \<lparr>si_question = ac_question cx, si_schemaText = pr_schemaText tighter, si_dialect = en_dialect env,
            si_maxRows = p_maxRows (en_policy env), si_context = ao_context (ac_options cx), si_fewShots = [], si_glossary = ak_glossary env,
            si_rerunPrevious = False, si_database = ak_database env, si_schemas = k_schemas (ac_catalog cx), si_catalogHint = []\<rparr>\<rparr>)"

section \<open>Model: a reply without a statement\<close>

definition no_sql :: "('s, 'e) ask_env_scheme \<Rightarrow> ask_context \<Rightarrow> ask_state \<Rightarrow> string \<Rightarrow> 's world \<Rightarrow> 's pass" where
  "no_sql env cx st text' w =
     (case truthy (extractImpossible (ak_ellipsis env) text') of
        Some impossible \<Rightarrow>
          (if isMetadataQuestion (ac_question cx) \<and> \<not> as_triedMetadata st then
             Again (same_attempt
               (repair_prompt env cx st False (as_lastSql st)
                 (''That question is about database structure. Answer it with a read-only query, using this as a starting point: '' @ catalogQueryHint (d_engine (en_dialect env))))
               (st\<lparr>as_triedMetadata := True\<rparr>)) w
           else
             (case (if as_triedFuzzy st then None else truthy (closestTableName (ac_question cx) (ac_catalog cx))) of
                Some near' \<Rightarrow>
                  Again (same_attempt
                    (repair_prompt env cx st False (as_lastSql st)
                      (''There is no exact match, but a '' @ [DQUOTE] @ near' @ [DQUOTE] @ '' table exists. If the question meant that table, answer using it.''))
                    (st\<lparr>as_triedFuzzy := True\<rparr>)) w
              | None \<Rightarrow>
                  Throws (ask_error LLMBadOutput (Some (''I wasn't able to build a query for that one: '' @ impossible)) (''model returned IMPOSSIBLE sentinel'') (Some False)) w))
      | None \<Rightarrow>
          (if as_attempt st \<ge> MAX_REPAIRS then
             Throws
               (if as_everyReplyEmpty st then
                  ask_error LLMUnavailable (Some (''The AI model returned an empty response. Check the model name is right and that your account can use it.''))
                    (''model returned nothing on all '' @ show_nat (as_attempt st + 1) @ '' attempts'') None
                else
                  ask_error (if re_test MODEL_REFUSAL_RE text' then LLMRefusal else LLMBadOutput) None
                    (''no SQL extracted after '' @ show_nat (as_attempt st + 1) @ '' attempts; raw preview: '' @ take 200 text') None) w
           else
             Again (next_attempt
               (repair_prompt env cx st False (as_lastSql st)
                 (''The response contained no SQL statement. Reply with one SELECT in a '' @ [BACKTICK, BACKTICK, BACKTICK] @ ''sql fence.'')) st) w))"

section \<open>Model: a statement the guard refuses\<close>

definition rejection :: "('s, 'e) ask_env_scheme \<Rightarrow> string \<Rightarrow> GuardVerdict \<Rightarrow> string" where
  "rejection env sql verdict =
     (let reason' = (case v_reason verdict of Some r \<Rightarrow> r | None \<Rightarrow> or_default (v_ruleId verdict) (''not allowed''));
          orderedSetHint = (if re_test WITHIN_GROUP (withoutLiteralsAndComments sql)
            then '' The safety validator cannot read WITHIN GROUP here. Answer without it: return the rows themselves rather than concatenating them into one value.''
            else []);
          quoteHint = (if hasUnterminatedLiteral sql (d_quoteChar (en_dialect env) = BACKTICK)
            then '' A text value contains an apostrophe that is not escaped: write it doubled, as 'O'' @ [SQUOTE, SQUOTE] @ ''Brien'.''
            else [])
      in ''The SQL validator rejected it: '' @ reason' @ ''.'' @ quoteHint @ orderedSetHint @ '' Produce a single read-only SELECT.'')"

definition rejected :: "('s, 'e) ask_env_scheme \<Rightarrow> ask_context \<Rightarrow> ask_state \<Rightarrow> string \<Rightarrow> GuardVerdict \<Rightarrow> 's world \<Rightarrow> 's pass" where
  "rejected env cx st sql verdict w =
     (if as_attempt st \<ge> MAX_REPAIRS then
        Throws (ThrownAskSql (guard_error (''Blocked for safety: '' @ or_default (v_reason verdict) ''the generated statement is not allowed.'')
            (''ruleId='' @ or_default (v_ruleId verdict) ''unknown'' @ '' after '' @ show_nat (as_attempt st + 1) @ '' attempts'')))
          (recordHistory env ((history_entry env (ao_userId (ac_options cx)) (Some (ac_question cx)) sql StatusBlocked)
             \<lparr>h_errorCode := v_ruleId verdict\<rparr>) w)
      else Again (next_attempt (repair_prompt env cx st False sql (rejection env sql verdict)) st) w)"

text \<open>A SELECT of a constant that reads no table is no answer.\<close>

definition dodges :: "GuardVerdict \<Rightarrow> bool" where
  "dodges verdict \<longleftrightarrow>
     (case v_tables verdict of None \<Rightarrow> True | Some ts \<Rightarrow> ts = [])
     \<and> (re_test IMPOSSIBLE_WORD (v_sql verdict) \<or> re_test LITERAL_STRING_ANSWER_RE (trim (v_sql verdict)))"

section \<open>Model: a table the catalog does not have\<close>

definition unknown_table_pass :: "('s, 'e) ask_env_scheme \<Rightarrow> ask_context \<Rightarrow> ask_state \<Rightarrow> string \<Rightarrow> string \<Rightarrow> 's world \<Rightarrow> 's pass" where
  "unknown_table_pass env cx st sql unknownTable w =
     (let closest = truthy (closestTableName unknownTable (ac_catalog cx)) in
      if as_attempt st \<ge> MAX_REPAIRS then
        let names = map qualified_label (k_tables (ac_catalog cx));
            suggestion = (case closest of Some c \<Rightarrow> '' Did you mean '' @ c @ ''?'' | None \<Rightarrow> [])
        in Throws (ask_error LLMBadOutput
             (Some (''The AI kept referring to a table called '' @ [DQUOTE] @ unknownTable @ [DQUOTE] @ '', which this database does not have, '' @
        ''so nothing was run.'' @ suggestion @ '' Available: '' @ join '', '' (take 12 names) @ (if length names > 12 then '', ...'' else []) @ ''.''))
             (''unknown table '' @ unknownTable @ '' after '' @ show_nat (as_attempt st + 1) @ '' attempts'') (Some False)) w
      else
        Again (next_attempt
          (repair_prompt env cx st True sql
            (''Table '' @ [DQUOTE] @ unknownTable @ [DQUOTE] @ '' does not exist in the schema.'' @ (case closest of Some c \<Rightarrow> '' Did you mean '' @ [DQUOTE] @ c @ [DQUOTE] @ ''?'' | None \<Rightarrow> []) @ '' '' @
             ''Use only tables from the <schema> block.'')) st) w)"

section \<open>Model: the semantic floors\<close>

text \<open>The first floor that objects, as the failure the model is told.\<close>

definition ambiguous_failure :: "string \<Rightarrow> string" where
  "ambiguous_failure name =
     [DQUOTE] @ name @ [DQUOTE] @ '' exists on more than one of the joined tables, so on its own it is ambiguous. '' @
        ''Qualify it with the table or alias it belongs to.''"

definition grouping_failure :: "string \<Rightarrow> string" where
  "grouping_failure name =
     ''The query selects '' @ [DQUOTE] @ name @ [DQUOTE] @ '' alongside an aggregate but has no GROUP BY, so it does not answer the question. '' @
        ''Either group by '' @ [DQUOTE] @ name @ [DQUOTE] @ '', or drop it and aggregate over the whole table - whichever the question asks for.''"

definition nested_failure :: "string \<Rightarrow> string" where
  "nested_failure fn =
     fn @ ''() contains another aggregate, which no SQL engine allows. '' @
        ''Aggregate once over the rows, or aggregate the inner result in a subquery or CTE and then aggregate that.''"

definition fan_out_failure :: "FanOut \<Rightarrow> string" where
  "fan_out_failure f =
     ''The query sums '' @ [DQUOTE] @ fo_parent f @ ''.'' @ fo_column f @ [DQUOTE] @ '' while joined to '' @ [DQUOTE] @ fo_child f @ [DQUOTE] @ '', which has many rows per '' @
        [DQUOTE] @ fo_parent f @ [DQUOTE] @ '' row, so each value is counted once per '' @ [DQUOTE] @ fo_child f @ [DQUOTE] @ '' row and the total is too high. '' @
        ''Aggregate '' @ [DQUOTE] @ fo_child f @ [DQUOTE] @ '' in a separate subquery or CTE and join the result, or drop the join if the question does not need it.''"

definition epoch_failure :: "EpochMismatch \<Rightarrow> string" where
  "epoch_failure e =
     [DQUOTE] @ em_column e @ [DQUOTE] @ '' is '' @ em_dbType e @ '', so it holds a number, not a date, and comparing it with '' @
        em_comparedTo e @ '' does not select the rows intended: against text nothing matches, and against '' @
        ''epoch seconds a column of milliseconds matches everything. Compare it in its own units - build the '' @
        ''bound as a number, for example (strftime('%s','now') - 7*86400) * 1000 for milliseconds - or convert '' @
        ''the column with the matching divisor before comparing.''"

definition fan_out_note :: "FanOut \<Rightarrow> string" where
  "fan_out_note f =
     ''This sums '' @ [DQUOTE] @ fo_parent f @ ''.'' @ fo_column f @ [DQUOTE] @ '' across a join to '' @ [DQUOTE] @ fo_child f @ [DQUOTE] @ '', which has many rows per '' @
        [DQUOTE] @ fo_parent f @ [DQUOTE] @ '' row, so the total is counted more than once and is too high.''"

definition epoch_note :: "EpochMismatch \<Rightarrow> string" where
  "epoch_note e =
     ''This compares '' @ [DQUOTE] @ em_column e @ [DQUOTE] @ '', which is '' @ em_dbType e @ '', against '' @ em_comparedTo e @ ''. A number and a '' @
        ''date are not the same kind of value, so the rows selected are not the rows the question asked for.''"

definition semantic_failure :: "('s, 'e) ask_env_scheme \<Rightarrow> SchemaCatalog \<Rightarrow> string \<Rightarrow> string option" where
  "semantic_failure env catalog sql =
     (let grammar = d_grammar (en_dialect env) in
      first_some id
        [map_option ambiguous_failure (truthy (ambiguousColumn (ak_columnList env) (ak_tableList env) sql catalog grammar)),
         map_option grouping_failure (truthy (ungroupedAggregate (ast_of env) sql grammar)),
         map_option nested_failure (truthy (nestedAggregate (ast_of env) sql grammar)),
         map_option fan_out_failure (fanOutAggregate (ast_of env) sql grammar catalog),
         map_option epoch_failure (epochUnitMismatch (ast_of env) sql grammar catalog)])"

text \<open>Out of attempts, two of the floors leave a note instead.\<close>

definition semantic_notes :: "('s, 'e) ask_env_scheme \<Rightarrow> SchemaCatalog \<Rightarrow> string \<Rightarrow> string list" where
  "semantic_notes env catalog sql =
     (let grammar = d_grammar (en_dialect env) in
      (case fanOutAggregate (ast_of env) sql grammar catalog of Some f \<Rightarrow> [fan_out_note f] | None \<Rightarrow> [])
      @ (case epochUnitMismatch (ast_of env) sql grammar catalog of Some e \<Rightarrow> [epoch_note e] | None \<Rightarrow> []))"

section \<open>Model: a column its table does not have\<close>

definition column_owners :: "SchemaCatalog \<Rightarrow> UnknownColumn \<Rightarrow> string list" where
  "column_owners catalog u =
     map t_name (filter (\<lambda>t. toLowerCase (t_name t) \<noteq> toLowerCase (uc_table u)
         \<and> list_ex (\<lambda>c. toLowerCase (c_name c) = toLowerCase (uc_column u)) (t_columns t)) (k_tables catalog))"

definition edges_for :: "SchemaCatalog \<Rightarrow> UnknownColumn \<Rightarrow> string \<Rightarrow> string list" where
  "edges_for catalog u owner =
     filter (\<lambda>e. str_includes (toLowerCase e) (toLowerCase (uc_table u) @ ''.'') \<and> str_includes (toLowerCase e) (toLowerCase owner @ ''.''))
       (joinGraph catalog)"

definition where_it_lives :: "SchemaCatalog \<Rightarrow> UnknownColumn \<Rightarrow> string" where
  "where_it_lives catalog u =
     (let owners = column_owners catalog u in
      case truthy (List.find (\<lambda>o'. edges_for catalog u o' \<noteq> []) owners) of
        Some reachable \<Rightarrow>
          '' '' @ uc_column u @ '' is a column of '' @ reachable @ ''. Reach it with: '' @ hd (edges_for catalog u reachable) @ ''.''
      | None \<Rightarrow>
          (case owners of [] \<Rightarrow> [] | o' # _ \<Rightarrow> '' '' @ uc_column u @ '' is a column of '' @ o' @ ''.''))"

definition unknown_column_pass :: "('s, 'e) ask_env_scheme \<Rightarrow> ask_context \<Rightarrow> ask_state \<Rightarrow> string \<Rightarrow> UnknownColumn \<Rightarrow> 's world \<Rightarrow> 's pass" where
  "unknown_column_pass env cx st sql u w =
     (if as_attempt st \<ge> MAX_REPAIRS then
        Throws (ask_error LLMBadOutput
          (Some (''The AI kept using a '' @ [DQUOTE] @ uc_column u @ [DQUOTE] @ '' column on '' @ uc_table u @ '', which does not exist, '' @
        ''so nothing was run. '' @ uc_table u @ '' has: '' @ join '', '' (take 12 (uc_available u)) @ (if length (uc_available u) > 12 then '', ...'' else []) @ ''. '' @
             ''Try naming the column you mean - or use a larger model, which is usually the real fix.''))
          (''unknown column '' @ uc_table u @ ''.'' @ uc_column u @ '' after '' @ show_nat (as_attempt st + 1) @ '' attempts'') (Some False)) w
      else
        let lives = where_it_lives (ac_catalog cx) u in
        Again (next_attempt
          (repair_prompt env cx st True sql
            (''Column '' @ [DQUOTE] @ uc_column u @ [DQUOTE] @ '' does not exist on table '' @ [DQUOTE] @ uc_table u @ [DQUOTE] @ ''. '' @
        ''Its real columns are: '' @ join '', '' (uc_available u) @ ''.'' @ lives @ '' '' @
             ''Use only columns shown in the <schema> block.'')) st) w)"

section \<open>Model: values of a coded column\<close>

text \<open>\<open>Number(text)\<close>\<close>

definition radix_value :: "int \<Rightarrow> string \<Rightarrow> jsnum" where
  "radix_value base ds =
     (if ds = [] \<or> \<not> list_all (\<lambda>c. case hex_digit c of Some d \<Rightarrow> int d < base | None \<Rightarrow> False) ds then NaN
      else read_double (of_int (foldl (\<lambda>acc c. base * acc + int (the (hex_digit c))) 0 ds)))"

definition decimal_value :: "string \<Rightarrow> rat option" where
  "decimal_value s =
     (let whole = takeWhile is_digit s; rest = dropWhile is_digit s;
          frac = (case rest of c # cs \<Rightarrow> if c = CHR ''.'' then takeWhile is_digit cs else [] | [] \<Rightarrow> []);
          rest' = (case rest of c # cs \<Rightarrow> if c = CHR ''.'' then dropWhile is_digit cs else rest | [] \<Rightarrow> [])
      in if whole = [] \<and> frac = [] then None
         else (case json_exp_part rest' of
                 Some (e, []) \<Rightarrow> Some (scale 10 (of_int (digits_int 0 (whole @ frac))) (e - int (length frac)))
               | _ \<Rightarrow> None))"

definition signed_value :: "bool \<Rightarrow> string \<Rightarrow> jsnum" where
  "signed_value negative s =
     (if s = ''Infinity'' then (if negative then NegInf else PosInf)
      else (case decimal_value s of None \<Rightarrow> NaN | Some x \<Rightarrow> read_double (if negative then - x else x)))"

definition to_number :: "string \<Rightarrow> jsnum" where
  "to_number text' =
     (let s = trim text' in
      case s of
        [] \<Rightarrow> Fin 0
      | c # cs \<Rightarrow>
          if toLowerCase (take 2 s) = ''0x'' then radix_value 16 (drop 2 s)
          else if toLowerCase (take 2 s) = ''0o'' then radix_value 8 (drop 2 s)
          else if toLowerCase (take 2 s) = ''0b'' then radix_value 2 (drop 2 s)
          else if c = CHR ''-'' then signed_value True cs
          else if c = CHR ''+'' then signed_value False cs
          else signed_value False s)"

definition probe_sql :: "DialectInfo \<Rightarrow> CodeLiteral \<Rightarrow> string" where
  "probe_sql dialect l =
     (let relation = (case truthy (cl_schema l) of Some s \<Rightarrow> quoteFor s dialect @ ''.'' | None \<Rightarrow> []) @ quoteFor (cl_table l) dialect;
          select' = ''SELECT DISTINCT '' @ quoteFor (cl_column l) dialect @ '' AS v FROM '' @ relation;
          cap = show_nat (CODE_MAX_DISTINCT + 1)
      in if d_limitStyle dialect = FetchStyle then select' @ '' FETCH FIRST '' @ cap @ '' ROWS ONLY'' else select' @ '' LIMIT '' @ cap)"

definition cell_text :: "jsval list \<Rightarrow> string" where
  "cell_text row = (case row of [] \<Rightarrow> [] | v # _ \<Rightarrow> string_or_empty v)"

definition codeValuesOf :: "('s, 'e) ask_env_scheme \<Rightarrow> CodeLiteral \<Rightarrow> 's world \<Rightarrow> string list option \<times> 's world" where
  "codeValuesOf env l w =
     (let request' = \<lparr>rq_sql = probe_sql (en_dialect env) l, rq_timeoutMs = Fin (of_nat CODE_PROBE_TIMEOUT_MS),
                     rq_maxRows = Fin (of_nat (CODE_MAX_DISTINCT + 1))\<rparr>
      in (case en_execute env (length (wo_sent w)) request' of
            Inl err \<Rightarrow> None
          | Inr probe \<Rightarrow>
              if rs_rows probe = [] \<or> length (rs_rows probe) > CODE_MAX_DISTINCT then None
              else Some (filter (\<lambda>v. v \<noteq> []) (map cell_text (rs_rows probe))),
          w\<lparr>wo_sent := wo_sent w @ [request']\<rparr>))"

text \<open>The first candidate of each column, for at most two columns.\<close>

definition code_key :: "CodeLiteral \<Rightarrow> string" where
  "code_key l = toLowerCase (or_default (cl_schema l) [] @ ''.'' @ cl_table l @ ''.'' @ cl_column l)"

fun first_per_column :: "string list \<Rightarrow> CodeLiteral list \<Rightarrow> CodeLiteral list" where
  "first_per_column seen [] = []"
| "first_per_column seen (l # ls) =
     (if code_key l \<in> set seen then first_per_column seen ls else l # first_per_column (code_key l # seen) ls)"

record impossible_code =
  ic_column :: string
  ic_literal :: jsnum
  ic_values :: "string list"

fun probe_codes :: "('s, 'e) ask_env_scheme \<Rightarrow> CodeLiteral list \<Rightarrow> 's world \<Rightarrow> impossible_code option \<times> 's world" where
  "probe_codes env [] w = (None, w)"
| "probe_codes env (l # ls) w =
     (case codeValuesOf env l w of
        (None, w') \<Rightarrow> probe_codes env ls w'
      | (Some values, w') \<Rightarrow>
          if list_ex (\<lambda>v. v = show_jsnum (cl_literal l) \<or> to_number v = cl_literal l) values then probe_codes env ls w'
          else (Some \<lparr>ic_column = cl_table l @ ''.'' @ cl_column l, ic_literal = cl_literal l, ic_values = values\<rparr>, w'))"

definition code_failure :: "impossible_code \<Rightarrow> string" where
  "code_failure i =
     ''No row has '' @ ic_column i @ '' = '' @ show_jsnum (ic_literal i) @ ''. The values it actually holds are: '' @
        join '', '' (map sanitizeValue (ic_values i)) @ ''. Pick from those, and if none of them answers the question, '' @
        ''say so rather than choosing one.''"

definition code_note :: "impossible_code \<Rightarrow> string" where
  "code_note i =
     ''No row has '' @ ic_column i @ '' = '' @ show_jsnum (ic_literal i) @ '', so this returns nothing for that '' @
        ''reason rather than because nothing matched the question. If it is a status or type code, '' @
        ''what each value means is defined in the application, not the database.''"

section \<open>Model: the loop\<close>

definition dangling_notes :: "ask_context \<Rightarrow> string list" where
  "dangling_notes cx =
     (case truthy (danglingReference (ac_question cx) (hasUsableContext (ao_context (ac_options cx)))) of
        None \<Rightarrow> []
      | Some dangling \<Rightarrow>
          [[DQUOTE] @ dangling @ [DQUOTE] @ '' does not refer to anything earlier in this conversation, so the query below '' @
           ''picked a subject on its own. Name who you mean and ask again if that is wrong.''])"

definition answer_with :: "('s, 'e) ask_env_scheme \<Rightarrow> ask_context \<Rightarrow> ask_state \<Rightarrow> string \<Rightarrow> GuardVerdict \<Rightarrow> 's world \<Rightarrow> 's pass" where
  "answer_with env cx st explanation verdict w =
     (let notes = as_notes st @ dangling_notes cx in
      Returns
        \<lparr>ar_sql = v_sql verdict, ar_explanation = explanation,
         ar_guard = (if notes \<noteq> [] then verdict\<lparr>v_warnings := v_warnings verdict @ notes\<rparr> else verdict),
         ar_connectionId = en_connection env, ar_usage = (as_input st, as_output st), ar_repairs = as_attempt st,
         ar_schemaText = as_schemaText st\<rparr>
        (fold warn notes w))"

text \<open>The floors that follow the semantic ones: columns, then coded values.\<close>

definition last_floors :: "('s, 'e) ask_env_scheme \<Rightarrow> ask_context \<Rightarrow> ask_state \<Rightarrow> Extraction \<Rightarrow> GuardVerdict \<Rightarrow> 's world \<Rightarrow> 's pass" where
  "last_floors env cx st x verdict w =
     (case firstUnknownColumn (ak_columnList env) (ak_tableList env) (v_sql verdict) (ac_catalog cx) (d_grammar (en_dialect env)) of
        Some u \<Rightarrow> unknown_column_pass env cx st (v_sql verdict) u w
      | None \<Rightarrow>
          (case probe_codes env
                  (take CODE_MAX_PROBES (first_per_column []
                    (codeLiterals (ast_of env) (v_sql verdict) (d_grammar (en_dialect env)) (ac_catalog cx)))) w of
             (None, w') \<Rightarrow> answer_with env cx st (x_explanation x) verdict w'
           | (Some i, w') \<Rightarrow>
               if as_attempt st < MAX_REPAIRS \<and> ak_allowDataInPrompt env then
                 Again (next_attempt (repair_prompt env cx st True (v_sql verdict) (code_failure i)) st) w'
               else answer_with env cx (st\<lparr>as_notes := as_notes st @ [code_note i]\<rparr>) (x_explanation x) verdict w'))"

definition floors :: "('s, 'e) ask_env_scheme \<Rightarrow> ask_context \<Rightarrow> ask_state \<Rightarrow> Extraction \<Rightarrow> GuardVerdict \<Rightarrow> 's world \<Rightarrow> 's pass" where
  "floors env cx st x verdict w =
     (case firstUnknownTable (ak_tableList env) (v_sql verdict) (ac_catalog cx) (d_grammar (en_dialect env)) (v_tables verdict) of
        Some unknownTable \<Rightarrow> unknown_table_pass env cx st (v_sql verdict) unknownTable w
      | None \<Rightarrow>
          (if as_attempt st < MAX_REPAIRS then
             (case semantic_failure env (ac_catalog cx) (v_sql verdict) of
                Some failure \<Rightarrow> Again (next_attempt (repair_prompt env cx st False (v_sql verdict) failure) st) w
              | None \<Rightarrow> last_floors env cx st x verdict w)
           else
             last_floors env cx (st\<lparr>as_notes := as_notes st @ semantic_notes env (ac_catalog cx) (v_sql verdict)\<rparr>) x verdict w))"

definition checked :: "('s, 'e) ask_env_scheme \<Rightarrow> ask_context \<Rightarrow> ask_state \<Rightarrow> Extraction \<Rightarrow> 's world \<Rightarrow> 's pass" where
  "checked env cx st x w =
     (case choose_verdict env cx (x_sql x) of
        Inl t \<Rightarrow> Throws t w
      | Inr verdict \<Rightarrow>
          (if \<not> v_allowed verdict then rejected env cx st (x_sql x) verdict w
           else if dodges verdict then
             Throws (ask_error LLMBadOutput (Some (''That question doesn't seem to match any table in this database.''))
               (''literal-only SELECT with no table reference'') (Some False)) w
           else floors env cx st x verdict w))"

definition is_overflow :: "thrown \<Rightarrow> bool" where
  "is_overflow err = (case err of ThrownAskSql e \<Rightarrow> e_code e = LLMContextOverflow | _ \<Rightarrow> False)"

definition heard :: "model_reply \<Rightarrow> ask_state \<Rightarrow> ask_state" where
  "heard r st =
     st\<lparr>as_calls := as_calls st + 1, as_input := num_add (as_input st) (or_default (mr_inputTokens r) (Fin 0)),
        as_output := num_add (as_output st) (or_default (mr_outputTokens r) (Fin 0)),
        as_everyReplyEmpty := as_everyReplyEmpty st \<and> trim (mr_text r) = []\<rparr>"

definition ask_pass :: "('s, 'e) ask_env_scheme \<Rightarrow> ask_context \<Rightarrow> ask_state \<Rightarrow> 's world \<Rightarrow> 's pass" where
  "ask_pass env cx st w =
     (case ak_model env (as_calls st) (ac_system cx) (as_prompt st) of
        Inl err \<Rightarrow>
          (if is_overflow err \<and> \<not> as_contextShrunk st then Again (shrink env cx (st\<lparr>as_calls := as_calls st + 1\<rparr>)) w
           else Throws err w)
      | Inr r \<Rightarrow>
          (case extractSql (mr_text r) of
             None \<Rightarrow> no_sql env cx (heard r st) (mr_text r) w
           | Some x \<Rightarrow> checked env cx ((heard r st)\<lparr>as_lastSql := x_sql x\<rparr>) x w))"

text \<open>
  What may still be used up: the attempts left, the one shrinking of the schema and the two rephrasings. Every round that goes on
  uses up some of it, so the loop ends.
\<close>

definition budget :: "ask_state \<Rightarrow> nat" where
  "budget st = (MAX_REPAIRS - as_attempt st) + of_bool (\<not> as_contextShrunk st) + of_bool (\<not> as_triedMetadata st) + of_bool (\<not> as_triedFuzzy st)"

lemma heard_sel [simp]:
  "as_attempt (heard r st) = as_attempt st" "as_contextShrunk (heard r st) = as_contextShrunk st"
  "as_triedMetadata (heard r st) = as_triedMetadata st" "as_triedFuzzy (heard r st) = as_triedFuzzy st"
  "as_calls (heard r st) = as_calls st + 1"
  by (simp_all add: heard_def)

text \<open>How a round that goes on changes the state.\<close>

definition goes_on :: "ask_state \<Rightarrow> ask_state \<Rightarrow> bool" where
  "goes_on st st' \<longleftrightarrow>
     as_attempt st' = as_attempt st + 1 \<and> as_attempt st < MAX_REPAIRS \<and> as_contextShrunk st' = as_contextShrunk st
       \<and> as_triedMetadata st' = as_triedMetadata st \<and> as_triedFuzzy st' = as_triedFuzzy st
     \<or> as_attempt st' = as_attempt st \<and> \<not> as_contextShrunk st \<and> as_contextShrunk st'
       \<and> as_triedMetadata st' = as_triedMetadata st \<and> as_triedFuzzy st' = as_triedFuzzy st
     \<or> as_attempt st' = as_attempt st \<and> \<not> as_triedMetadata st \<and> as_triedMetadata st'
       \<and> as_contextShrunk st' = as_contextShrunk st \<and> as_triedFuzzy st' = as_triedFuzzy st
     \<or> as_attempt st' = as_attempt st \<and> \<not> as_triedFuzzy st \<and> as_triedFuzzy st'
       \<and> as_contextShrunk st' = as_contextShrunk st \<and> as_triedMetadata st' = as_triedMetadata st"

lemma goes_on_update [simp]:
  "goes_on (st\<lparr>as_notes := n\<rparr>) st' \<longleftrightarrow> goes_on st st'"
  "goes_on (st\<lparr>as_lastSql := s\<rparr>) st' \<longleftrightarrow> goes_on st st'"
  "goes_on (st\<lparr>as_calls := k\<rparr>) st' \<longleftrightarrow> goes_on st st'"
  "goes_on (heard r st) st' \<longleftrightarrow> goes_on st st'"
  by (simp_all add: goes_on_def)

lemma goes_on_next: "as_attempt st < MAX_REPAIRS \<Longrightarrow> goes_on st (next_attempt prompt st) \<and> as_calls (next_attempt prompt st) = as_calls st"
  by (simp add: goes_on_def next_attempt_def)

lemma goes_on_same:
  "\<not> as_triedMetadata st \<Longrightarrow> goes_on st (same_attempt prompt (st\<lparr>as_triedMetadata := True\<rparr>))"
  "\<not> as_triedFuzzy st \<Longrightarrow> goes_on st (same_attempt prompt (st\<lparr>as_triedFuzzy := True\<rparr>))"
  "as_calls (same_attempt prompt (st\<lparr>as_triedMetadata := True\<rparr>)) = as_calls st"
  "as_calls (same_attempt prompt (st\<lparr>as_triedFuzzy := True\<rparr>)) = as_calls st"
  by (simp_all add: goes_on_def same_attempt_def)

lemma no_sql_goes_on: "no_sql env cx st text' w = Again st' w' \<Longrightarrow> goes_on st st' \<and> as_calls st' = as_calls st"
  by (simp add: no_sql_def goes_on_next split: option.splits if_splits) (auto simp: goes_on_next goes_on_same)

lemma unknown_column_goes_on: "unknown_column_pass env cx st sql u w = Again st' w' \<Longrightarrow> goes_on st st' \<and> as_calls st' = as_calls st"
  by (auto simp: unknown_column_pass_def Let_def goes_on_next split: if_splits)

lemma last_floors_goes_on: "last_floors env cx st x v w = Again st' w' \<Longrightarrow> goes_on st st' \<and> as_calls st' = as_calls st"
  by (auto simp: last_floors_def answer_with_def Let_def goes_on_next dest: unknown_column_goes_on
      split: option.splits if_splits prod.splits)

lemma unknown_table_goes_on: "unknown_table_pass env cx st sql t w = Again st' w' \<Longrightarrow> goes_on st st' \<and> as_calls st' = as_calls st"
  by (auto simp: unknown_table_pass_def Let_def goes_on_next split: if_splits)

lemma floors_goes_on: "floors env cx st x v w = Again st' w' \<Longrightarrow> goes_on st st' \<and> as_calls st' = as_calls st"
  using unknown_table_goes_on last_floors_goes_on
  by (fastforce simp: floors_def goes_on_next split: option.splits if_splits)

lemma rejected_goes_on: "rejected env cx st sql v w = Again st' w' \<Longrightarrow> goes_on st st' \<and> as_calls st' = as_calls st"
  by (auto simp: rejected_def goes_on_next split: if_splits)

lemma checked_goes_on: "checked env cx st x w = Again st' w' \<Longrightarrow> goes_on st st' \<and> as_calls st' = as_calls st"
  by (auto simp: checked_def dest: rejected_goes_on floors_goes_on split: sum.splits if_splits)

lemma shrink_goes_on: "\<not> as_contextShrunk st \<Longrightarrow> goes_on st (shrink env cx st) \<and> as_calls (shrink env cx st) = as_calls st"
  by (simp add: shrink_def goes_on_def Let_def)

lemma ask_pass_goes_on:
  assumes "ask_pass env cx st w = Again st' w'"
  shows "goes_on st st' \<and> as_calls st' = as_calls st + 1"
proof (cases "ak_model env (as_calls st) (ac_system cx) (as_prompt st)")
  case (Inl err)
  with assms shrink_goes_on [of "st\<lparr>as_calls := as_calls st + 1\<rparr>" env cx] show ?thesis
    by (auto simp: ask_pass_def split: if_splits)
next
  case (Inr r)
  with assms show ?thesis
    by (auto simp: ask_pass_def dest: no_sql_goes_on checked_goes_on split: option.splits)
qed

lemma goes_on_budget: "goes_on st st' \<Longrightarrow> budget st' < budget st"
  by (auto simp: goes_on_def budget_def)

text \<open>The loop, with the number of calls of the model it made.\<close>

function ask_loop :: "('s, 'e) ask_env_scheme \<Rightarrow> ask_context \<Rightarrow> ask_state \<Rightarrow> 's world \<Rightarrow> (thrown + AskResult) \<times> 's world \<times> nat" where
  "ask_loop env cx st w =
     (case ask_pass env cx st w of
        Throws t w' \<Rightarrow> (Inl t, w', as_calls st + 1)
      | Returns r w' \<Rightarrow> (Inr r, w', as_calls st + 1)
      | Again st' w' \<Rightarrow> ask_loop env cx st' w')"
  by pat_completeness auto
termination
  by (relation "measure (\<lambda>(env, cx, st, w). budget st)") (auto dest!: ask_pass_goes_on goes_on_budget)

declare ask_loop.simps [simp del]

section \<open>Model: the question\<close>

definition connectorById :: "(string \<times> 'c) list \<Rightarrow> string option \<Rightarrow> AskSqlError + 'c" where
  "connectorById connectors connectionId =
     (case (case truthy connectionId of Some i \<Rightarrow> List.find (\<lambda>c. fst c = i) connectors
                                      | None \<Rightarrow> (case connectors of c # _ \<Rightarrow> Some c | [] \<Rightarrow> None)) of
        Some c \<Rightarrow> Inr (snd c)
      | None \<Rightarrow> Inl (new_AskSqlError InvalidInput
          \<lparr>o_userMessage = Some (''Unknown database connection.''), o_detail = Some (''unknown connectionId: '' @ or_default connectionId ''(none)''), o_retryable = None\<rparr>))"

definition fresh_catalog :: "('s, 'e) ask_env_scheme \<Rightarrow> string \<Rightarrow> SchemaCatalog \<Rightarrow> SchemaCatalog" where
  "fresh_catalog env q catalog =
     (if \<not> namesSomethingInCatalog q catalog \<and> ak_mayRefresh env
      then (case ak_getCatalog env True of Inr fresh \<Rightarrow> fresh | Inl _ \<Rightarrow> catalog) else catalog)"

definition first_prompt :: "('s, 'e) ask_env_scheme \<Rightarrow> string \<Rightarrow> ask_options \<Rightarrow> SchemaCatalog \<Rightarrow> string \<Rightarrow> string" where
  "first_prompt env q opts catalog schemaText =
     buildSqlUser
       \<lparr>si_question = q, si_schemaText = schemaText, si_dialect = en_dialect env, si_maxRows = p_maxRows (en_policy env),
        si_context = ao_context opts, si_fewShots = ak_fewShots env, si_glossary = ak_glossary env,
        si_rerunPrevious = isRerunPreviousRequest q, si_database = ak_database env, si_schemas = k_schemas catalog,
        si_catalogHint = (if isMetadataQuestion q then catalogQueryHint (d_engine (en_dialect env)) else [])\<rparr>"

definition narrowed_warning :: "PruneResult \<Rightarrow> string" where
  "narrowed_warning pruned =
     (let shown = length (k_tables (pr_catalog pruned)) in
      ''Schema narrowed to the '' @ show_nat shown @ '' tables most relevant to this question; '' @
        show_nat (pr_dropped pruned) @ '' of '' @ show_nat (shown + pr_dropped pruned) @ '' were not sent to the model. '' @
        ''If the answer missed a table, name it in the question or raise the schema token budget.'')"

text \<open>A structure question whose statement the engine writes itself, when the guard admits it.\<close>

definition written_answer :: "('s, 'e) ask_env_scheme \<Rightarrow> string \<Rightarrow> SchemaCatalog \<Rightarrow> thrown + AskResult option" where
  "written_answer env q catalog =
     (case catalogQueryFor q catalog (en_dialect env) of
        None \<Rightarrow> Inr None
      | Some written \<Rightarrow>
          (case guarded env (cq_sql written) of
             Inl t \<Rightarrow> Inl t
           | Inr verdict \<Rightarrow>
               Inr (if v_allowed verdict
                    then Some \<lparr>ar_sql = v_sql verdict, ar_explanation = cq_explanation written, ar_guard = verdict,
                               ar_connectionId = en_connection env, ar_usage = (Fin 0, Fin 0), ar_repairs = 0, ar_schemaText = []\<rparr>
                    else None)))"

definition loop_from :: "('s, 'e) ask_env_scheme \<Rightarrow> string \<Rightarrow> ask_options \<Rightarrow> SchemaCatalog \<Rightarrow> 's world \<Rightarrow> (thrown + AskResult) \<times> 's world \<times> nat" where
  "loop_from env q opts catalog w =
     (let pruned = pruneCatalog catalog q (ak_pruner env) in
      ask_loop env
        \<lparr>ac_question = q, ac_options = opts, ac_catalog = catalog, ac_names = quotable_names catalog (ak_engine env),
         ac_tables = quotable_tables catalog (ak_engine env), ac_system = buildSqlSystem (en_dialect env) (p_maxRows (en_policy env)) (ak_prompts env)\<rparr>
        \<lparr>as_attempt = 0, as_prompt = first_prompt env q opts catalog (pr_schemaText pruned), as_schemaText = pr_schemaText pruned,
         as_shown = length (k_tables (pr_catalog pruned)), as_lastSql = [], as_everyReplyEmpty = True, as_notes = [],
         as_contextShrunk = False, as_triedMetadata = False, as_triedFuzzy = False, as_input = Fin 0, as_output = Fin 0, as_calls = 0\<rparr>
        (if pr_dropped pruned > 0 then warn (narrowed_warning pruned) w else w))"

definition ask_connection :: "('s, 'e) ask_env_scheme \<Rightarrow> string \<Rightarrow> ask_options \<Rightarrow> 's world \<Rightarrow> (thrown + AskResult) \<times> 's world \<times> nat" where
  "ask_connection env q opts w =
     (case ak_getCatalog env False of
        Inl t \<Rightarrow> (Inl t, w, 0)
      | Inr catalog0 \<Rightarrow>
          (let catalog = fresh_catalog env q catalog0 in
           case written_answer env q catalog of
             Inl t \<Rightarrow> (Inl t, w, 0)
           | Inr (Some r) \<Rightarrow> (Inr r, w, 0)
           | Inr None \<Rightarrow> loop_from env q opts catalog w))"

definition askImpl :: "(string \<times> 's ask_env) list \<Rightarrow> string option \<Rightarrow> string option \<Rightarrow> ask_options \<Rightarrow> 's world
    \<Rightarrow> (thrown + AskResult) \<times> 's world \<times> nat" where
  "askImpl connectors question connectionId opts w =
     (let q = trim (or_default question []) in
      case invalid_question q of
        Some e \<Rightarrow> (Inl (ThrownAskSql e), w, 0)
      | None \<Rightarrow>
          (case off_path q of
             Some t \<Rightarrow> (Inl t, w, 0)
           | None \<Rightarrow>
               (case connectorById connectors connectionId of
                  Inl e \<Rightarrow> (Inl (ThrownAskSql e), w, 0)
                | Inr env \<Rightarrow> ask_connection env q opts w)))"

section \<open>How often the model is called\<close>

lemma ask_loop_calls: "snd (snd (ask_loop env cx st w)) \<le> as_calls st + 1 + budget st"
proof (induction env cx st w rule: ask_loop.induct)
  case (1 env cx st w)
  show ?case
  proof (cases "ask_pass env cx st w")
    case (Again st' w')
    with "1.IH" [OF Again] ask_pass_goes_on [OF Again] show ?thesis
      using goes_on_budget [of st st'] by (subst ask_loop.simps) simp
  qed (subst ask_loop.simps, simp)+
qed

lemma fresh_catalog_read: "ak_getCatalog env False = Inr catalog \<Longrightarrow> \<exists>refresh. ak_getCatalog env refresh = Inr (fresh_catalog env q catalog)"
  by (auto simp: fresh_catalog_def split: sum.splits)

lemma ask_connection_cases:
  obtains (thrown) t where "ask_connection env q opts w = (Inl t, w, 0)"
  | (written) r where "ask_connection env q opts w = (Inr r, w, 0)" "\<exists>catalog. written_answer env q catalog = Inr (Some r)"
  | (looped) catalog refresh where "ask_connection env q opts w = loop_from env q opts catalog w" "ak_getCatalog env refresh = Inr catalog"
proof (cases "ak_getCatalog env False")
  case (Inl t)
  then show thesis by (intro thrown) (simp add: ask_connection_def)
next
  case c: (Inr catalog0)
  let ?catalog = "fresh_catalog env q catalog0"
  show thesis
  proof (cases "written_answer env q ?catalog")
    case (Inl t)
    with c show thesis by (intro thrown) (simp add: ask_connection_def)
  next
    case a: (Inr answer)
    show thesis
    proof (cases answer)
      case None
      obtain refresh where "ak_getCatalog env refresh = Inr ?catalog" using fresh_catalog_read [OF c] by blast
      then show thesis by (intro looped [of ?catalog]) (use c a None in \<open>simp_all add: ask_connection_def\<close>)
    next
      case (Some r)
      show thesis by (rule written [of r]) (use c a Some in \<open>auto simp: ask_connection_def\<close>)
    qed
  qed
qed

lemma askImpl_cases:
  obtains (thrown) t where "askImpl connectors question connectionId opts w = (Inl t, w, 0)"
  | (asked) env q where "connectorById connectors connectionId = Inr env" "q = trim (or_default question [])" "off_path q = None"
      "askImpl connectors question connectionId opts w = ask_connection env q opts w"
proof (cases "invalid_question (trim (or_default question []))")
  case (Some e)
  then show thesis by (intro thrown) (simp add: askImpl_def)
next
  case valid: None
  show thesis
  proof (cases "off_path (trim (or_default question []))")
    case (Some t)
    with valid show thesis by (intro thrown) (simp add: askImpl_def)
  next
    case on: None
    show thesis
    proof (cases "connectorById connectors connectionId")
      case (Inl e)
      with valid on show thesis by (intro thrown) (simp add: askImpl_def)
    next
      case (Inr env)
      show thesis by (rule asked [OF Inr refl on]) (use valid on Inr in \<open>simp add: askImpl_def\<close>)
    qed
  qed
qed

lemma loop_from_calls: "snd (snd (loop_from env q opts catalog w)) \<le> 6"
  unfolding loop_from_def Let_def
  by (rule order_trans [OF ask_loop_calls]) (simp add: budget_def MAX_REPAIRS_def)

text \<open>
  C7: a question always ends: the loop terminates whatever the model, the parser and the connector answer, after at most six calls of the
  model - the first, two repairs, one retry with a smaller schema, and one rephrasing each for a structure question and a
  misspelled table.
\<close>

theorem askImpl_calls_bounded: "snd (snd (askImpl connectors question connectionId opts w)) \<le> 6"
proof (cases rule: askImpl_cases [of connectors question connectionId opts w])
  case (asked env q)
  then show ?thesis
    using loop_from_calls by (cases rule: ask_connection_cases [of env q opts w]) auto
qed simp

section \<open>What is returned\<close>

text \<open>The checks a returned statement has passed.\<close>

definition passes_floors :: "('s, 'e) ask_env_scheme \<Rightarrow> SchemaCatalog \<Rightarrow> GuardVerdict \<Rightarrow> bool" where
  "passes_floors env catalog v \<longleftrightarrow>
     firstUnknownTable (ak_tableList env) (v_sql v) catalog (d_grammar (en_dialect env)) (v_tables v) = None
     \<and> firstUnknownColumn (ak_columnList env) (ak_tableList env) (v_sql v) catalog (d_grammar (en_dialect env)) = None
     \<and> \<not> dodges v"

definition checked_result :: "('s, 'e) ask_env_scheme \<Rightarrow> SchemaCatalog \<Rightarrow> AskResult \<Rightarrow> bool" where
  "checked_result env catalog r \<longleftrightarrow>
     (\<exists>sql v. guarded env sql = Inr v \<and> v_allowed v \<and> ar_sql r = v_sql v \<and> passes_floors env catalog v)"

lemma try_guard_admitted: "try_guard env sql = Inr v \<Longrightarrow> admitted v \<Longrightarrow> \<exists>s. guarded env s = Inr (the v) \<and> v_allowed (the v)"
  by (auto simp: try_guard_def admitted_def map_sum_def split: option.splits sum.splits)

lemma choose_verdict_guarded: "choose_verdict env cx sql = Inr v \<Longrightarrow> \<exists>s. guarded env s = Inr v"
  by (auto simp: choose_verdict_def Let_def split: sum.splits if_splits dest!: try_guard_admitted) 

lemma no_sql_returns: "no_sql env cx st text' w \<noteq> Returns r w'"
  by (simp add: no_sql_def split: option.splits if_splits)

lemma last_floors_returns:
  "last_floors env cx st x v w = Returns r w' \<Longrightarrow>
     firstUnknownColumn (ak_columnList env) (ak_tableList env) (v_sql v) (ac_catalog cx) (d_grammar (en_dialect env)) = None
     \<and> ar_sql r = v_sql v \<and> ar_repairs r = as_attempt st"
  by (auto simp: last_floors_def answer_with_def unknown_column_pass_def Let_def split: option.splits prod.splits if_splits)

lemma floors_returns:
  "floors env cx st x v w = Returns r w' \<Longrightarrow>
     firstUnknownTable (ak_tableList env) (v_sql v) (ac_catalog cx) (d_grammar (en_dialect env)) (v_tables v) = None
     \<and> firstUnknownColumn (ak_columnList env) (ak_tableList env) (v_sql v) (ac_catalog cx) (d_grammar (en_dialect env)) = None
     \<and> ar_sql r = v_sql v \<and> ar_repairs r = as_attempt st"
  by (auto simp: floors_def unknown_table_pass_def Let_def split: option.splits if_splits dest!: last_floors_returns)

lemma checked_returns: "checked env cx st x w = Returns r w' \<Longrightarrow> checked_result env (ac_catalog cx) r \<and> ar_repairs r = as_attempt st"
  by (auto simp: checked_def rejected_def checked_result_def passes_floors_def split: sum.splits if_splits dest!: floors_returns choose_verdict_guarded)

lemma ask_pass_returns: "ask_pass env cx st w = Returns r w' \<Longrightarrow> checked_result env (ac_catalog cx) r \<and> ar_repairs r = as_attempt st"
  by (auto simp: ask_pass_def no_sql_returns split: sum.splits option.splits if_splits dest!: checked_returns)

lemma goes_on_attempt: "goes_on st st' \<Longrightarrow> as_attempt st \<le> MAX_REPAIRS \<Longrightarrow> as_attempt st' \<le> MAX_REPAIRS"
  by (auto simp: goes_on_def)

lemma ask_loop_returns:
  "as_attempt st \<le> MAX_REPAIRS \<Longrightarrow> fst (ask_loop env cx st w) = Inr r \<Longrightarrow> checked_result env (ac_catalog cx) r \<and> ar_repairs r \<le> MAX_REPAIRS"
proof (induction env cx st w rule: ask_loop.induct)
  case (1 env cx st w)
  show ?case
  proof (cases "ask_pass env cx st w")
    case (Again st' w')
    have "as_attempt st' \<le> MAX_REPAIRS" using ask_pass_goes_on [OF Again] "1.prems"(1) goes_on_attempt by blast
    moreover have "fst (ask_loop env cx st' w') = Inr r" using "1.prems"(2) Again by (simp add: ask_loop.simps [of env cx st w])
    ultimately show ?thesis by (rule "1.IH" [OF Again])
  next
    case (Throws t w')
    then show ?thesis using "1.prems"(2) by (simp add: ask_loop.simps [of env cx st w])
  next
    case (Returns r' w')
    then show ?thesis using "1.prems" ask_pass_returns [OF Returns] by (simp add: ask_loop.simps [of env cx st w])
  qed
qed

lemma written_answer_SomeD:
  assumes "written_answer env q catalog = Inr (Some r)"
  shows "\<exists>x v. catalogQueryFor q catalog (en_dialect env) = Some x \<and> guarded env (cq_sql x) = Inr v \<and> v_allowed v \<and> ar_sql r = v_sql v"
proof (cases "catalogQueryFor q catalog (en_dialect env)")
  case (Some x)
  with assms show ?thesis by (cases "guarded env (cq_sql x)") (auto simp: written_answer_def split: if_splits)
qed (use assms in \<open>simp add: written_answer_def\<close>)

text \<open>
  C4: what a question returns has been checked: the statement is what an allowing verdict of the guard holds, and unless the engine wrote it
  itself, without any call of the model, the table floor and the column floor find nothing in it that the catalog lacks, it is no constant
  posing as an answer, and at most two repairs were spent on it.
\<close>

theorem askImpl_returns_checked:
  assumes "askImpl connectors question connectionId opts w = (Inr r, w', n)"
  shows "\<exists>env. connectorById connectors connectionId = Inr env
    \<and> (\<exists>sql v. guarded env sql = Inr v \<and> v_allowed v \<and> ar_sql r = v_sql v
         \<and> (n = 0 \<and> (\<exists>q catalog written. catalogQueryFor q catalog (en_dialect env) = Some written \<and> sql = cq_sql written)
            \<or> ar_repairs r \<le> MAX_REPAIRS \<and> (\<exists>refresh catalog. ak_getCatalog env refresh = Inr catalog \<and> passes_floors env catalog v)))"
proof (cases rule: askImpl_cases [of connectors question connectionId opts w])
  case (thrown t)
  with assms show ?thesis by simp
next
  case (asked env q)
  show ?thesis
  proof (cases rule: ask_connection_cases [of env q opts w])
    case (thrown t)
    with assms asked show ?thesis by simp
  next
    case (written r')
    then obtain catalog x v where "catalogQueryFor q catalog (en_dialect env) = Some x" "guarded env (cq_sql x) = Inr v"
      "v_allowed v" "ar_sql r' = v_sql v" using written_answer_SomeD by blast
    moreover have "r' = r" "n = 0" using assms asked written(1) by simp_all
    ultimately show ?thesis using asked(1) by blast
  next
    case (looped catalog refresh)
    then have "fst (loop_from env q opts catalog w) = Inr r" using assms asked by simp
    then have "checked_result env catalog r \<and> ar_repairs r \<le> MAX_REPAIRS"
      unfolding loop_from_def Let_def by (auto dest!: ask_loop_returns [rotated])
    with asked(1) looped(2) show ?thesis unfolding checked_result_def by blast
  qed
qed


section \<open>What reaches the connector while a question is answered\<close>

definition probe_request :: "('s, 'e) ask_env_scheme \<Rightarrow> CodeLiteral \<Rightarrow> request" where
  "probe_request env l =
     \<lparr>rq_sql = probe_sql (en_dialect env) l, rq_timeoutMs = Fin (of_nat CODE_PROBE_TIMEOUT_MS), rq_maxRows = Fin (of_nat (CODE_MAX_DISTINCT + 1))\<rparr>"

text \<open>From \<open>w\<close> to \<open>w'\<close> nothing is sent but at most \<open>k\<close> probes of coded columns.\<close>

definition probes_only :: "('s, 'e) ask_env_scheme \<Rightarrow> SchemaCatalog \<Rightarrow> nat \<Rightarrow> 's world \<Rightarrow> 's world \<Rightarrow> bool" where
  "probes_only env catalog k w w' \<longleftrightarrow>
     (\<exists>ls. wo_sent w' = wo_sent w @ map (probe_request env) ls \<and> list_all (codes catalog) ls \<and> length ls \<le> k)"

lemma probes_only_refl: "wo_sent w' = wo_sent w \<Longrightarrow> probes_only env catalog k w w'"
  by (auto simp: probes_only_def intro: exI [of _ "[]"])

lemma probes_only_trans: "probes_only env catalog j u v \<Longrightarrow> probes_only env catalog k v w \<Longrightarrow> probes_only env catalog (j + k) u w"
  unfolding probes_only_def by (elim exE) (rule exI [of _ "_ @ _"], force)

lemma probes_only_sent: "probes_only env catalog k w w' \<Longrightarrow> wo_sent w'' = wo_sent w' \<Longrightarrow> probes_only env catalog k w w''"
  by (simp add: probes_only_def)

lemma codeValuesOf_sent: "wo_sent (snd (codeValuesOf env l w)) = wo_sent w @ [probe_request env l]"
  by (simp add: codeValuesOf_def probe_request_def Let_def)

lemma probe_codes_sent: "list_all (codes catalog) ls \<Longrightarrow> probes_only env catalog (length ls) w (snd (probe_codes env ls w))"
proof (induction ls arbitrary: w)
  case (Cons l ls)
  have one: "probes_only env catalog 1 w (snd (codeValuesOf env l w))"
    using Cons.prems by (auto simp: probes_only_def codeValuesOf_sent intro!: exI [of _ "[l]"])
  have more: "probes_only env catalog (1 + length ls) w (snd (probe_codes env ls (snd (codeValuesOf env l w))))"
    using Cons by (intro probes_only_trans [OF one]) simp
  have stop: "probes_only env catalog (1 + length ls) w (snd (codeValuesOf env l w))"
    using probes_only_trans [OF one probes_only_refl [OF refl]] .
  show ?case
    using more stop by (cases "codeValuesOf env l w") (auto split: option.splits)
qed (simp add: probes_only_refl)

lemma first_per_column_subset: "set (first_per_column seen ls) \<subseteq> set ls"
  by (induction ls arbitrary: seen) auto

lemma probed_codes:
  "list_all (codes catalog) (take CODE_MAX_PROBES (first_per_column [] (codeLiterals parse sql grammar catalog)))"
  using codeLiterals_codes [of catalog parse sql grammar] first_per_column_subset [of "[]"]
  by (auto simp: list_all_iff dest!: in_set_takeD)

lemma probes_step:
  "probe_codes env (take CODE_MAX_PROBES (first_per_column [] (codeLiterals parse sql grammar catalog))) w = (i, w') \<Longrightarrow>
     probes_only env catalog 2 w w'"
  using probe_codes_sent [OF probed_codes, of env catalog parse sql grammar w]
  by (auto simp: probes_only_def CODE_MAX_PROBES_def intro: order_trans)

lemma warn_sent [simp]: "wo_sent (warn m w) = wo_sent w"
  by (simp add: warn_def)

lemma fold_warn_sent [simp]: "wo_sent (fold warn ms w) = wo_sent w"
  by (induction ms arbitrary: w) simp_all

lemma probes_only_warn [simp]:
  "probes_only env catalog k w (warn m w') = probes_only env catalog k w w'"
  "probes_only env catalog k w (fold warn ms w') = probes_only env catalog k w w'"
  by (simp_all add: probes_only_def)

fun pass_world :: "'s pass \<Rightarrow> 's world" where
  "pass_world (Again st w) = w"
| "pass_world (Throws t w) = w"
| "pass_world (Returns r w) = w"

lemma same_world_passes:
  "pass_world (no_sql env cx st text' w) = w"
  "pass_world (unknown_column_pass env cx st sql u w) = w"
  "pass_world (unknown_table_pass env cx st sql t w) = w"
  by (simp_all add: no_sql_def unknown_column_pass_def unknown_table_pass_def Let_def split: option.splits)

lemma last_floors_sent: "probes_only env (ac_catalog cx) 2 w (pass_world (last_floors env cx st x v w))"
  by (auto simp: last_floors_def answer_with_def Let_def same_world_passes probes_only_refl
      split: option.splits prod.splits dest!: probes_step)

lemma floors_sent: "probes_only env (ac_catalog cx) 2 w (pass_world (floors env cx st x v w))"
  by (simp add: floors_def same_world_passes probes_only_refl last_floors_sent split: option.splits)

lemma ask_pass_sent: "probes_only env (ac_catalog cx) 2 w (pass_world (ask_pass env cx st w))"
  by (simp add: ask_pass_def checked_def rejected_def same_world_passes probes_only_refl floors_sent split: option.splits sum.splits)

lemma ask_loop_sent: "probes_only env (ac_catalog cx) (2 * (budget st + 1)) w (fst (snd (ask_loop env cx st w)))"
proof (induction env cx st w rule: ask_loop.induct)
  case (1 env cx st w)
  note pass = ask_pass_sent [of env cx w st]
  show ?case
  proof (cases "ask_pass env cx st w")
    case (Again st' w')
    have "2 * (budget st' + 1) \<le> 2 * budget st"
      using goes_on_budget [OF conjunct1 [OF ask_pass_goes_on [OF Again]]] by simp
    then have "probes_only env (ac_catalog cx) (2 * budget st) w' (fst (snd (ask_loop env cx st' w')))"
      using "1.IH" [OF Again] by (auto simp: probes_only_def intro: order_trans)
    then show ?thesis
      using probes_only_trans [of env "ac_catalog cx" 2 w w'] pass Again by (simp add: ask_loop.simps [of env cx st w])
  next
    case (Throws t w')
    then show ?thesis using pass by (auto simp: ask_loop.simps [of env cx st w] probes_only_def intro: order_trans)
  next
    case (Returns r w')
    then show ?thesis using pass by (auto simp: ask_loop.simps [of env cx st w] probes_only_def intro: order_trans)
  qed
qed

lemma loop_from_sent: "probes_only env catalog 12 w (fst (snd (loop_from env q opts catalog w)))"
proof -
  have loop: "probes_only env catalog 12 w (fst (snd (ask_loop env cx st w0)))"
    if "ac_catalog cx = catalog" "budget st \<le> 5" "wo_sent w0 = wo_sent w" for cx st w0
    using ask_loop_sent [of env cx st w0] that by (auto simp: probes_only_def intro: order_trans)
  show ?thesis unfolding loop_from_def Let_def by (rule loop) (simp_all add: budget_def MAX_REPAIRS_def)
qed

text \<open>
  C15: answering a question runs none of the statements the model writes: all that the connector is sent are at most twelve probes of the distinct
  values of columns of the catalog that the coded-value lint names, built by the engine and capped at 26 rows each.
\<close>

theorem askImpl_sends_only_probes:
  "case connectorById connectors connectionId of
     Inl e \<Rightarrow> fst (snd (askImpl connectors question connectionId opts w)) = w
   | Inr env \<Rightarrow> fst (snd (askImpl connectors question connectionId opts w)) = w
       \<or> (\<exists>refresh catalog. ak_getCatalog env refresh = Inr catalog
            \<and> probes_only env catalog 12 w (fst (snd (askImpl connectors question connectionId opts w))))"
proof (cases rule: askImpl_cases [of connectors question connectionId opts w])
  case (thrown t)
  then show ?thesis by (auto split: sum.splits)
next
  case (asked env q)
  show ?thesis
  proof (cases rule: ask_connection_cases [of env q opts w])
    case (looped catalog refresh)
    then show ?thesis using asked loop_from_sent [of env catalog w q opts] by auto
  qed (use asked in simp_all)
qed

section \<open>A question answered\<close>

definition orders_env :: "MemoryHistoryStore ask_env" where
  "orders_env =
     \<lparr>en_parse = sample_parser, en_policy = DEFAULT_GUARD_POLICY, en_connection = ''c'', en_dialect = SQLITE_DIALECT, en_connect = None,
      en_execute = (\<lambda>_ _. Inr five_rows), en_add = (\<lambda>s e. Some (history_add s e)), en_historyId = ''h'', en_now = ''2024'', en_elapsed = Fin 1,
      ak_columnList = (\<lambda>_ _. Some [''select::null::a'']), ak_tableList = (\<lambda>_ _. Some [''select::null::t'']), ak_engine = ''sqlite'', ak_database = [],
      ak_pruner = \<lparr>ps_maxTables = None, ps_maxSchemaTokens = None\<rparr>, ak_prompts = None, ak_glossary = [], ak_allowDataInPrompt = False,
      ak_ellipsis = CHR ''.'', ak_model = (\<lambda>_ _ _. Inr \<lparr>mr_text = ''SELECT a FROM t'', mr_inputTokens = None, mr_outputTokens = None\<rparr>),
      ak_getCatalog = (\<lambda>_. Inr (example_catalog [example_table ''t'' [''a''] [], example_table ''T'' [''A''] []])), ak_mayRefresh = False, ak_fewShots = []\<rparr>"

definition no_ask_options :: ask_options where
  "no_ask_options = \<lparr>ao_context = [], ao_userId = None, ao_aborted = False\<rparr>"

definition two_spellings :: SchemaCatalog where "two_spellings = example_catalog [example_table ''t'' [''a''] [], example_table ''T'' [''A''] []]"

definition first_verdict :: GuardVerdict where
  "first_verdict = accepted (''SELECT a FROM t'' @ [LF] @ ''LIMIT 1000'') [] True False [''select::null::t'']"

lemma orders_env_simps:
  "en_parse orders_env = sample_parser" "en_policy orders_env = DEFAULT_GUARD_POLICY" "en_dialect orders_env = SQLITE_DIALECT"
  "ak_engine orders_env = ''sqlite''" "ak_columnList orders_env = (\<lambda>_ _. Some [''select::null::a''])"
  "ak_tableList orders_env = (\<lambda>_ _. Some [''select::null::t''])" "ak_getCatalog orders_env = (\<lambda>_. Inr two_spellings)" "\<not> ak_mayRefresh orders_env"
  "ak_model orders_env = (\<lambda>_ _ _. Inr \<lparr>mr_text = ''SELECT a FROM t'', mr_inputTokens = None, mr_outputTokens = None\<rparr>)"
  by (simp_all add: orders_env_def two_spellings_def)

lemma orders_ast: "ast_of orders_env = (\<lambda>_ _. Some sample_select)"
  by (intro ext) (simp add: ast_of_def orders_env_simps sample_parser_def)

lemma routed: "off_path ''t'' = None"
proof -
  have "\<not> isCapabilityQuestion ''t''" "\<not> isPromptInjection ''t''" "\<not> isWriteRequest ''t''" "\<not> isSchemaAdviceQuestion ''t''"
    "\<not> isDatabaseOverviewQuestion ''t''" "\<not> isRelationshipQuestion ''t''" by code_simp+
  then show ?thesis by (simp add: off_path_def)
qed

lemma not_written: "catalogQueryFor ''t'' two_spellings SQLITE_DIALECT = None" by code_simp

lemma replied: "extractSql ''SELECT a FROM t'' = Some \<lparr>x_sql = ''SELECT a FROM t'', x_explanation = [], x_source = Whole\<rparr>" by code_simp

lemma orders_guarded: "guarded orders_env ''SELECT a FROM t'' = Inr first_verdict"
proof -
  have "resolveGuardPolicy (as_partial DEFAULT_GUARD_POLICY) = Inr DEFAULT_GUARD_POLICY" by code_simp
  moreover have "guard_checked sample_parser DEFAULT_GUARD_POLICY SQLITE_DIALECT ''SELECT a FROM t'' = Inr first_verdict" by code_simp
  ultimately show ?thesis by (simp only: guarded_def guardSql_def orders_env_simps or_default_def sum.case option.case)
qed

lemma no_aliases:
  "if_changed (rewrite_loop (quoted_span ''SELECT a FROM t'' (d_quoteChar SQLITE_DIALECT))
     (\<lambda>chunk _. replace_marking RESERVED_ALIAS chunk (fix_alias ws' (d_quoteChar SQLITE_DIALECT) chunk)) ''SELECT a FROM t'' 0 0) = None"
  by code_simp

lemma orders_verdict: "ac_names cx = [] \<Longrightarrow> choose_verdict orders_env cx ''SELECT a FROM t'' = Inr first_verdict"
proof -
  assume "ac_names cx = []"
  moreover have "quoteReservedAliases ''SELECT a FROM t'' (d_quoteChar SQLITE_DIALECT) engine = None" for engine
    unfolding quoteReservedAliases_def by (rule no_aliases)
  ultimately show ?thesis
    by (simp add: choose_verdict_def quoteCatalogIdentifiers_def or_default_def try_guard_def truthy_def admitted_def orders_guarded orders_env_simps)
qed

lemma orders_floors:
  "v_allowed first_verdict" "\<not> dodges first_verdict"
  "firstUnknownTable (\<lambda>_ _. Some [''select::null::t'']) (v_sql first_verdict) two_spellings (d_grammar SQLITE_DIALECT) (v_tables first_verdict) = None"
  "firstUnknownColumn (\<lambda>_ _. Some [''select::null::a'']) (\<lambda>_ _. Some [''select::null::t'']) (v_sql first_verdict) two_spellings (d_grammar SQLITE_DIALECT) = None"
  by code_simp+

lemma orders_lints:
  "ambiguousColumn (\<lambda>_ _. Some [''select::null::a'']) (\<lambda>_ _. Some [''select::null::t'']) (v_sql first_verdict) two_spellings (d_grammar SQLITE_DIALECT) = None"
  "ungroupedAggregate (\<lambda>_ _. Some sample_select) (v_sql first_verdict) (d_grammar SQLITE_DIALECT) = None"
  "nestedAggregate (\<lambda>_ _. Some sample_select) (v_sql first_verdict) (d_grammar SQLITE_DIALECT) = None"
  "fanOutAggregate (\<lambda>_ _. Some sample_select) (v_sql first_verdict) (d_grammar SQLITE_DIALECT) two_spellings = None"
  "epochUnitMismatch (\<lambda>_ _. Some sample_select) (v_sql first_verdict) (d_grammar SQLITE_DIALECT) two_spellings = None"
  "codeLiterals (\<lambda>_ _. Some sample_select) (v_sql first_verdict) (d_grammar SQLITE_DIALECT) two_spellings = []"
  by code_simp+

lemma orders_pass:
  assumes "ac_catalog cx = two_spellings" "ac_names cx = []" "as_attempt st = 0"
  shows "\<exists>r w'. ask_pass orders_env cx st w = Returns r w'"
proof -
  have lints: "semantic_failure orders_env two_spellings (v_sql first_verdict) = None"
    unfolding semantic_failure_def Let_def orders_env_simps orders_ast orders_lints by (simp add: truthy_def)
  show ?thesis
    using assms
    by (simp add: ask_pass_def orders_env_simps orders_ast replied checked_def orders_verdict orders_floors floors_def lints last_floors_def orders_lints answer_with_def
        MAX_REPAIRS_def)
qed

lemma both_spelled: "\<forall>n \<in> set (all_names two_spellings). length (spellings two_spellings n) = 2" by code_simp

lemma no_quotable: "quotable_names two_spellings ''sqlite'' = []"
  using both_spelled by (auto simp: quotable_names_def filter_empty_conv)

lemma ask_loop_ends: "ask_pass env cx st w = Returns r w' \<Longrightarrow> \<exists>n. ask_loop env cx st w = (Inr r, w', n)"
  by (subst ask_loop.simps) simp

lemma orders_looped: "\<exists>r w' n. loop_from orders_env q opts two_spellings w = (Inr r, w', n)"
proof -
  have "\<exists>r w' n. ask_loop orders_env cx st w = (Inr r, w', n)" if "ac_catalog cx = two_spellings" "ac_names cx = []" "as_attempt st = 0" for cx st w
    using orders_pass [OF that, of w] ask_loop_ends by blast
  then show ?thesis by (simp add: loop_from_def Let_def no_quotable orders_env_simps)
qed

theorem askImpl_returns_checked_witness:
  "\<exists>r w' n. askImpl [(''c'', orders_env)] (Some ''t'') None no_ask_options sample_world = (Inr r, w', n)
     \<and> (\<exists>sql v. guarded orders_env sql = Inr v \<and> v_allowed v \<and> ar_sql r = v_sql v)"
proof -
  obtain r w' n where ask: "askImpl [(''c'', orders_env)] (Some ''t'') None no_ask_options sample_world = (Inr r, w', n)"
  proof -
    have "trim ''t'' = ''t''" "invalid_question ''t'' = None" by code_simp+
    then have "askImpl [(''c'', orders_env)] (Some ''t'') None no_ask_options sample_world = ask_connection orders_env ''t'' no_ask_options sample_world"
      by (simp add: askImpl_def or_default_def routed connectorById_def truthy_def)
    also have "\<dots> = loop_from orders_env ''t'' no_ask_options two_spellings sample_world"
      using not_written by (simp add: ask_connection_def fresh_catalog_def written_answer_def orders_env_simps)
    finally have ask: "askImpl [(''c'', orders_env)] (Some ''t'') None no_ask_options sample_world = \<dots>" .
    have "\<exists>r w' n. loop_from orders_env ''t'' no_ask_options two_spellings sample_world = (Inr r, w', n)"
      by (rule orders_looped)
    with ask that show thesis by auto
  qed
  with askImpl_returns_checked [OF ask] show ?thesis by (auto simp: connectorById_def truthy_def)
qed

end
