(* ===== verification/Engine_Run.thy ===== *)
theory Engine_Run
  imports Engine_Ask Grounding
begin

text \<open>
  The rest of the engine of \<open>packages/core/src/engine.ts\<close>: the checks of \<open>createAskSql\<close>, the \<open>run\<close> of an answer with the repair it
  suggests, \<open>suggestFix\<close>, \<open>explain\<close>, \<open>explainSchema\<close> and \<open>recordFeedback\<close>. The environment is that of \<open>Engine_Ask\<close>: the model
  answers its n-th call, counted over the life of the engine, so every operation is given the number of calls made before it.

  The properties: a suggested repair is what an allowing verdict of the guard holds and is never run; an answer about the schema
  costs at most three calls, offers only a statement that the guard and the floors pass, and marks every statement that writes.
\<close>

section \<open>Model: the configuration\<close>

text \<open>A connector as the host hands it over; an identifier or a name that is no string is \<open>None\<close>.\<close>

record connector_config =
  cf_id :: "string option"
  cf_name :: "string option"
  cf_dialect :: "DialectInfo option"

definition config_error :: "string \<Rightarrow> string \<Rightarrow> AskSqlError" where
  "config_error detail userMessage =
     new_AskSqlError ConfigError \<lparr>o_userMessage = Some userMessage, o_detail = Some detail, o_retryable = None\<rparr>"

definition blank_text :: "string option \<Rightarrow> bool" where
  "blank_text t = (case t of None \<Rightarrow> True | Some s \<Rightarrow> trim s = [])"

definition connector_error :: "string list \<Rightarrow> connector_config \<Rightarrow> AskSqlError option" where
  "connector_error ids c =
     (let i = or_default (cf_id c) [] in
      if blank_text (cf_id c) then
        Some (config_error (''a connector has an empty id'') (''AskSQL is misconfigured: a database connection is missing an id.''))
      else if blank_text (cf_name c) then
        Some (config_error (''connector '' @ [DQUOTE] @ i @ [DQUOTE] @ '' has an empty name'') (''AskSQL is misconfigured: a database connection is missing a name.''))
      else if i \<in> set ids then
        Some (config_error (''duplicate connector id: '' @ i) (''AskSQL is misconfigured: two connections share the same id.''))
      else if cf_dialect c = None then
        Some (config_error (''connector '' @ [DQUOTE] @ i @ [DQUOTE] @ '' has no dialect; a MongoDB connection belongs to createMongoAskSql'')
          (''AskSQL is misconfigured: this connection type cannot answer SQL questions.''))
      else None)"

fun connectors_error :: "string list \<Rightarrow> connector_config list \<Rightarrow> AskSqlError option" where
  "connectors_error ids [] = None"
| "connectors_error ids (c # cs) =
     (case connector_error ids c of Some e \<Rightarrow> Some e | None \<Rightarrow> connectors_error (or_default (cf_id c) [] # ids) cs)"

text \<open>What \<open>createAskSql\<close> throws, or the policy of the engine.\<close>

definition createAskSql :: "connector_config list \<Rightarrow> bool \<Rightarrow> PartialGuardPolicy \<Rightarrow> AskSqlError + GuardPolicy" where
  "createAskSql connectors has_model policy =
     (if connectors = [] then
        Inl (config_error (''AskSqlConfig.connectors() must contain at least one connector'') (''AskSQL is misconfigured: no database connections are defined.''))
      else if \<not> has_model then
        Inl (config_error (''AskSqlConfig.model is required'') (''AskSQL is misconfigured: no AI model is defined.''))
      else (case connectors_error [] connectors of Some e \<Rightarrow> Inl e | None \<Rightarrow> resolveGuardPolicy policy))"

section \<open>Model: running an answer\<close>

definition error_text :: "AskSqlError \<Rightarrow> string" where
  "error_text e = or_default (e_detail e) (e_userMessage e)"

text \<open>A wrong-cased table is repaired from the catalog alone; \<open>Inl\<close> is an error the guard throws.\<close>

definition caseFixFor :: "('s, 'e) ask_env_scheme \<Rightarrow> SchemaCatalog \<Rightarrow> string \<Rightarrow> string \<Rightarrow> thrown + string option" where
  "caseFixFor env catalog sql message =
     (if \<not> looksLikeUnknownTable message then Inr None
      else (case truthy (correctTableCase sql (map t_name (k_tables catalog)) (d_quoteChar (en_dialect env)) (foldingFor (ak_engine env))) of
              None \<Rightarrow> Inr None
            | Some fixed \<Rightarrow>
                (case guarded env fixed of
                   Inl t \<Rightarrow> Inl t
                 | Inr v \<Rightarrow> Inr (if v_allowed v then Some (v_sql v) else None))))"

definition db_repair_prompt :: "('s, 'e) ask_env_scheme \<Rightarrow> string \<Rightarrow> string \<Rightarrow> string \<Rightarrow> string \<Rightarrow> string" where
  "db_repair_prompt env q sql schemaText message =
     buildRepairUser \<lparr>ri_question = q, ri_failedSql = sql, ri_failure = ''The database rejected it: '' @ redactValuesInError message,
       ri_schemaText = schemaText, ri_dialect = en_dialect env, ri_allowImpossible = False\<rparr>"

text \<open>The model is asked once for a correction, which counts if the guard allows it and it is another statement.\<close>

definition corrected_by_model :: "('s, 'e) ask_env_scheme \<Rightarrow> nat \<Rightarrow> string \<Rightarrow> string \<Rightarrow> GuardVerdict option" where
  "corrected_by_model env n prompt sql =
     (case ak_model env n (buildSqlSystem (en_dialect env) (p_maxRows (en_policy env)) (ak_prompts env)) prompt of
        Inl _ \<Rightarrow> None
      | Inr r \<Rightarrow>
          (case extractSql (mr_text r) of
             None \<Rightarrow> None
           | Some x \<Rightarrow>
               (case guarded env (x_sql x) of
                  Inl _ \<Rightarrow> None
                | Inr v \<Rightarrow> if v_allowed v \<and> v_sql v \<noteq> sql then Some v else None)))"

definition tryRepairAfterDbError :: "('s, 'e) ask_env_scheme \<Rightarrow> string \<Rightarrow> string \<Rightarrow> string \<Rightarrow> nat \<Rightarrow> AskSqlError \<Rightarrow> string option" where
  "tryRepairAfterDbError env q sql schemaText n dbErr =
     map_option v_sql (corrected_by_model env n (db_repair_prompt env q sql schemaText (error_text dbErr)) sql)"

text \<open>What is attached to the error of a run; a repair is not asked for after a cancel.\<close>

definition suggestion_for :: "('s, 'e) ask_env_scheme \<Rightarrow> string \<Rightarrow> SchemaCatalog \<Rightarrow> AskResult \<Rightarrow> bool \<Rightarrow> nat \<Rightarrow> thrown \<Rightarrow> thrown + string option" where
  "suggestion_for env q catalog answer cancelled n err =
     (case err of
        ThrownAskSql e \<Rightarrow>
          if e_code e = DBQueryError \<and> \<not> cancelled
          then (case caseFixFor env catalog (ar_sql answer) (error_text e) of
                  Inl t \<Rightarrow> Inl t
                | Inr (Some s) \<Rightarrow> Inr (truthy (Some s))
                | Inr None \<Rightarrow> Inr (truthy (tryRepairAfterDbError env q (ar_sql answer) (ar_schemaText answer) n e)))
          else Inr None
      | _ \<Rightarrow> Inr None)"

definition run_options :: "string \<Rightarrow> ask_options \<Rightarrow> (bool \<times> bool) option \<Rightarrow> execute_options \<Rightarrow> execute_options" where
  "run_options q opts prior xo = xo\<lparr>xo_question := Some q, xo_userId := ao_userId opts, xo_priorVerdict := prior\<rparr>"

text \<open>\<open>run\<close> of an answer of the model: the rows, or the error with the repair suggested for it.\<close>

definition run_answer :: "('s, 'e) ask_env_scheme \<Rightarrow> string \<Rightarrow> ask_options \<Rightarrow> SchemaCatalog \<Rightarrow> AskResult \<Rightarrow> execute_options \<Rightarrow> nat \<Rightarrow> 's world
    \<Rightarrow> ((thrown \<times> string option) + ResultSet) \<times> 's world" where
  "run_answer env q opts catalog answer xo n w =
     (case executeGuarded env w (ar_sql answer)
             (run_options q opts (Some (v_autoLimited (ar_guard answer), v_loweredLimit (ar_guard answer))) xo) of
        (Inr result, w') \<Rightarrow> (Inr result, w')
      | (Inl err, w') \<Rightarrow>
          (case suggestion_for env q catalog answer (xo_aborted xo \<or> ao_aborted opts) n err of
             Inl t \<Rightarrow> (Inl (t, None), w')
           | Inr suggestion \<Rightarrow> (Inl (err, suggestion), w')))"

text \<open>\<open>run\<close> of a statement the engine wrote itself.\<close>

definition run_written :: "('s, 'e) ask_env_scheme \<Rightarrow> string \<Rightarrow> ask_options \<Rightarrow> AskResult \<Rightarrow> execute_options \<Rightarrow> 's world
    \<Rightarrow> (thrown + ResultSet) \<times> 's world" where
  "run_written env q opts answer xo w = executeGuarded env w (ar_sql answer) (run_options q opts None xo)"

section \<open>Model: suggesting a fix\<close>

record fix_options =
  fo_connectionId :: "string option"
  fo_question :: "string option"
  fo_errorDetail :: "string option"

text \<open>The fix of the model has to pass the floors as well.\<close>

definition floored :: "('s, 'e) ask_env_scheme \<Rightarrow> SchemaCatalog \<Rightarrow> GuardVerdict \<Rightarrow> bool" where
  "floored env catalog v \<longleftrightarrow>
     firstUnknownTable (ak_tableList env) (v_sql v) catalog (d_grammar (en_dialect env)) (v_tables v) = None
     \<and> firstUnknownColumn (ak_columnList env) (ak_tableList env) (v_sql v) catalog (d_grammar (en_dialect env)) = None"

definition fix_with_catalog :: "('s, 'e) ask_env_scheme \<Rightarrow> SchemaCatalog \<Rightarrow> string \<Rightarrow> string \<Rightarrow> string option \<Rightarrow> nat \<Rightarrow> string option \<times> nat" where
  "fix_with_catalog env catalog bad question errorDetail n =
     (case caseFixFor env catalog bad (or_default errorDetail []) of
        Inl _ \<Rightarrow> (None, 0)
      | Inr (Some s) \<Rightarrow> (Some s, 0)
      | Inr None \<Rightarrow>
          (let schemaText = pr_schemaText (pruneCatalog catalog question (ak_pruner env));
               prompt = db_repair_prompt env question bad schemaText (or_default errorDetail ''the query failed to run'')
           in (case corrected_by_model env n prompt bad of
                 None \<Rightarrow> (None, 1)
               | Some v \<Rightarrow> (if floored env catalog v then Some (v_sql v) else None, 1))))"

definition suggestFix :: "(string \<times> 's ask_env) list \<Rightarrow> string option \<Rightarrow> fix_options \<Rightarrow> nat \<Rightarrow> AskSqlError + string option \<times> nat" where
  "suggestFix connectors failedSql opts n =
     (case connectorById connectors (fo_connectionId opts) of
        Inl e \<Rightarrow> Inl e
      | Inr env \<Rightarrow>
          (let bad = trim (or_default failedSql []); question = trim (or_default (fo_question opts) []) in
           Inr (if bad = [] \<or> question = [] then (None, 0)
                else (case ak_getCatalog env False of
                        Inl _ \<Rightarrow> (None, 0)
                      | Inr catalog \<Rightarrow> fix_with_catalog env catalog bad question (fo_errorDetail opts) n))))"

section \<open>Model: explaining a statement\<close>

definition explain_prompt :: "('s, 'e) ask_env_scheme \<Rightarrow> string \<Rightarrow> string" where
  "explain_prompt env s =
     buildExplainUser s (case ak_getCatalog env False of Inl _ \<Rightarrow> [] | Inr catalog \<Rightarrow> pr_schemaText (pruneCatalog catalog s (ak_pruner env)))"

text \<open>The text, and the prompts that were sent to the model.\<close>

definition explain :: "(string \<times> 's ask_env) list \<Rightarrow> string option \<Rightarrow> string option \<Rightarrow> nat \<Rightarrow> (thrown + string) \<times> string list" where
  "explain connectors sql connectionId n =
     (case connectorById connectors connectionId of
        Inl e \<Rightarrow> (Inl (ThrownAskSql e), [])
      | Inr env \<Rightarrow>
          (let s = trim (or_default sql []) in
           if s = [] then
             (Inl (ThrownAskSql (new_AskSqlError InvalidInput
               \<lparr>o_userMessage = Some (''INVALID_INPUT''), o_detail = None, o_retryable = None\<rparr>)), [])
           else (case guarded env s of
                   Inl t \<Rightarrow> (Inl t, [])
                 | Inr verdict \<Rightarrow>
                     if \<not> v_allowed verdict then
                       (Inl (ask_error GuardBlocked (Some (''Only a read-only SQL query can be explained.''))
                          (''explain blocked: '' @ or_default (v_reason verdict) ''not a read-only statement'') None), [])
                     else (case ak_model env n (buildExplainSystem (en_dialect env)) (explain_prompt env s) of
                             Inl t \<Rightarrow> (Inl t, [explain_prompt env s])
                           | Inr r \<Rightarrow> (Inr (trim (mr_text r)), [explain_prompt env s])))))"

section \<open>Model: explaining the schema\<close>

definition WRITE_SHAPES :: regex where
  "WRITE_SHAPES =
     Group 1 (ors [cats [cis ''insert'', plus ws, cis ''into'', ws], cats [cis ''update'', plus ws,
     plus (Chr (\<lambda>c. is_word c \<or> c \<in> set [CHR ''.'', DQUOTE, BACKTICK])), Opt (cats [plus ws, Opt (cats [cis ''as'', plus ws]),
     plus (Chr (\<lambda>c. is_word c \<or> c = DQUOTE \<or> c = BACKTICK))]), plus ws, cis ''set'', ws], cats [cis ''delete'', plus ws,
     ors [cats [cis ''from'', ws], cats [plus (Chr (\<lambda>c. is_word c \<or> c \<in> set [CHR ''.'', DQUOTE, BACKTICK])), plus ws, cis ''from'', ws]]],
     cats [cis ''merge'', plus ws, cis ''into'', ws], cats [cis ''replace'', plus ws, cis ''into'', ws], cats [cis ''upsert'', plus ws, cis ''into'', ws],
     cats [cis ''alter'', plus ws, ors [cis ''table'', cis ''schema'', cis ''view'', cis ''index'', cis ''sequence'', cis ''database''], ws],
     cats [cis ''create'', plus ws, Opt (cats [cis ''or'', plus ws, cis ''replace'', plus ws]), ors [cis ''table'', cis ''index'', cats [cis ''unique'',
     plus ws, cis ''index''], cis ''view'', cats [cis ''materialized'', plus ws, cis ''view''], cis ''schema'', cis ''trigger'', cis ''function'',
     cis ''procedure'', cis ''sequence'', cis ''database'', cis ''role'', cis ''user'', cis ''type'', cis ''extension'', cis ''domain'', cis ''policy''],
     ws], cats [cis ''drop'', plus ws, ors [cis ''table'', cis ''index'', cis ''view'', cats [cis ''materialized'', plus ws, cis ''view''],
     cis ''schema'', cis ''trigger'', cis ''function'', cis ''procedure'', cis ''sequence'', cis ''database'', cis ''role'', cis ''user'', cis ''type'',
     cis ''extension'', cis ''domain'', cis ''policy''], ws], cats [cis ''comment'', plus ws, cis ''on'', plus ws, ors [cis ''table'', cis ''column''],
     ws], cats [cis ''truncate'', plus ws, Opt (cats [cis ''table'', plus ws]), plus (Chr (\<lambda>c. is_word c \<or> c \<in> set [CHR ''.'', DQUOTE,
     BACKTICK])), Star ws, lit CHR '';''], cats [cis ''grant'', plus ws, plus (Chr (\<lambda>c. is_word c \<or> c = CHR '','')),
     Star (cats [plus (one_of [CHR '' '', CHR 0x09]), plus (Chr (\<lambda>c. is_word c \<or> c = CHR '',''))]), plus ws, cis ''on'', plus ws,
     plus (Chr (\<lambda>c. is_word c \<or> c \<in> set [CHR ''.'', DQUOTE, BACKTICK])), plus ws, cis ''to'', ws], cats [cis ''revoke'', plus ws,
     plus (Chr (\<lambda>c. is_word c \<or> c = CHR '','')), Star (cats [plus (one_of [CHR '' '', CHR 0x09]),
     plus (Chr (\<lambda>c. is_word c \<or> c = CHR '',''))]), plus ws, cis ''on'', plus ws,
     plus (Chr (\<lambda>c. is_word c \<or> c \<in> set [CHR ''.'', DQUOTE, BACKTICK])), plus ws, cis ''from'', ws]])"

definition PROPOSED_WRITE_RE :: regex where
  "PROPOSED_WRITE_RE =
     cats [MBol, Star ws, Opt (cats [lit BACKTICK, lit BACKTICK, lit BACKTICK, Star (Chr is_word), Star ws]), WRITE_SHAPES]"

definition WRITE_IN_QUESTION_RE :: regex where "WRITE_IN_QUESTION_RE = WRITE_SHAPES"

definition BROAD_SCHEMA_RE :: regex where
  "BROAD_SCHEMA_RE =
     ors [cats [WordB, ors [cis ''relat'', cis ''overview'', cis ''summar'', cis ''structur'', cis ''entit'', cis ''connect'', cis ''erd'',
     cis ''diagram''], Star (Chr is_word)], cats [cis ''how many table'', Opt (cis ''s'')], cats [cis ''all '', Opt (cis ''the ''), cis ''table'',
     Opt (cis ''s'')], cats [cis ''whole '', ors [cis ''schema'', cis ''database'']], cats [cis ''about '', ors [cis ''this'', cis ''the'', cis ''my''],
     lit CHR '' '', ors [cis ''database'', cis ''schema'', cis ''db'']], cats [cis ''what'', upto_times 20 (Chr (\<lambda>c. \<not> line_end c)),
     ors [cis ''database'', cis ''schema'', cis ''db''], lit CHR '' '', ors [cis ''is'', cis ''for'', cis ''about'', cis ''do'']]]"

definition BROAD_MAX_TABLES :: nat where "BROAD_MAX_TABLES = 120"
definition BROAD_MAX_EDGES :: nat where "BROAD_MAX_EDGES = 200"

definition READ_ONLY :: regex where
  "READ_ONLY = cis ''read-only''"

definition kind_text :: "table_kind \<Rightarrow> string" where
  "kind_text k = (case k of Table \<Rightarrow> ''table'' | View \<Rightarrow> ''view'' | MaterializedView \<Rightarrow> ''materialized_view'')"

definition plain_qualified :: "TableInfo \<Rightarrow> string" where
  "plain_qualified t = (case truthy (t_schema t) of Some s \<Rightarrow> s @ ''.'' | None \<Rightarrow> []) @ t_name t"

definition table_summary :: "TableInfo \<Rightarrow> string" where
  "table_summary t =
     plain_qualified t @ '' ('' @ kind_text (t_kind t) @ '', '' @ show_nat (length (t_columns t)) @ '' cols''
     @ (if t_primaryKey t \<noteq> [] then '', pk '' @ join '','' (t_primaryKey t) else []) @ '')''"

definition broad_text :: "SchemaCatalog \<Rightarrow> string" where
  "broad_text catalog =
     (let listed = take BROAD_MAX_TABLES (k_tables catalog); omitted = length (k_tables catalog) - length listed in
      ''This database has exactly '' @ show_nat (length (k_tables catalog)) @ '' tables/views.''
      @ (if omitted > 0
         then '' The '' @ show_nat (length listed) @ '' listed below are a sample; '' @ show_nat omitted @
           '' more are not shown, so describe the database in general terms and say the list is partial.''
         else '' Full list:'')
      @ [LF] @ join [LF] (map table_summary listed))"

text \<open>What the prompts of one schema question share.\<close>

record schema_question =
  sc_question :: string
  sc_catalog :: SchemaCatalog
  sc_text :: string
  sc_edges :: "string list"
  sc_tables :: "string list"
  sc_isSchemaChange :: bool
  sc_proposesWrite :: bool
  sc_context :: "turn list"

definition schema_question_of :: "('s, 'e) ask_env_scheme \<Rightarrow> SchemaCatalog \<Rightarrow> string \<Rightarrow> turn list \<Rightarrow> schema_question" where
  "schema_question_of env catalog q context' =
     (let pruned = pruneCatalog catalog q (ak_pruner env);
          broad = re_test BROAD_SCHEMA_RE q;
          shown = (if broad then take BROAD_MAX_TABLES (k_tables catalog) else k_tables (pr_catalog pruned))
      in \<lparr>sc_question = q, sc_catalog = catalog,
          sc_text = (if broad then broad_text catalog else pr_schemaText pruned),
          sc_edges = (if broad then take BROAD_MAX_EDGES (joinGraph catalog) else joinGraph (pr_catalog pruned)),
          sc_tables = map plain_qualified shown,
          sc_isSchemaChange = (re_test SCHEMA_CHANGE_RE q \<or> isSchemaProposalQuestion q),
          sc_proposesWrite = isWriteRequest q, sc_context = context'\<rparr>)"

definition schema_system :: "('s, 'e) ask_env_scheme \<Rightarrow> schema_question \<Rightarrow> bool \<Rightarrow> string" where
  "schema_system env sq allowOutOfScope =
     buildSchemaAnswerSystem (en_dialect env) (sc_isSchemaChange sq \<or> sc_proposesWrite sq) allowOutOfScope"

definition schema_call :: "('s, 'e) ask_env_scheme \<Rightarrow> nat \<Rightarrow> string \<Rightarrow> string \<Rightarrow> thrown + string" where
  "schema_call env n system prompt = map_sum id (\<lambda>r. trim (mr_text r)) (ak_model env n system prompt)"

definition about_this_database :: "schema_question \<Rightarrow> bool" where
  "about_this_database sq \<longleftrightarrow>
     looksDatabaseRelated (sc_question sq) \<or> sc_isSchemaChange sq \<or> sc_proposesWrite sq
     \<or> mentionsCatalogName (sc_question sq) (sc_catalog sq) \<or> hasUsableContext (sc_context sq)"

definition no_answer :: "string \<Rightarrow> bool" where
  "no_answer answer \<longleftrightarrow> isOffTopic answer \<or> isDegenerateAnswer answer \<and> \<not> re_test PROPOSED_WRITE_RE answer"

text \<open>A refusal is challenged once when the question is plainly about data; \<open>None\<close> declines.\<close>

definition challenged :: "('s, 'e) ask_env_scheme \<Rightarrow> schema_question \<Rightarrow> nat \<Rightarrow> string \<Rightarrow> (thrown + string option) \<times> nat" where
  "challenged env sq n answer =
     (if \<not> no_answer answer then (Inr (Some answer), 0)
      else if \<not> about_this_database sq then (Inr None, 0)
      else (case schema_call env n (schema_system env sq False)
               (buildSchemaAnswerScopeRepairUser (sc_question sq) (sc_text sq) (d_promptLabel (en_dialect env)) (sc_edges sq)) of
              Inl t \<Rightarrow> (Inl t, 1)
            | Inr again \<Rightarrow>
                (Inr (if no_answer again \<or> isProseRefusal again (mentionsCatalogName again (sc_catalog sq)) then None else Some again), 1)))"

text \<open>The backstop for a model that does not follow the sentinel rule.\<close>

definition unrelated :: "schema_question \<Rightarrow> string \<Rightarrow> bool" where
  "unrelated sq answer \<longleftrightarrow>
     \<not> about_this_database sq \<and> \<not> mentionsCatalogName answer (sc_catalog sq) \<and> \<not> looksDatabaseRelated answer \<and> \<not> re_test PROPOSED_WRITE_RE answer"

text \<open>One repair of an answer with unknown names, skipped for a change, where new names are the proposal.\<close>

definition regrounded :: "('s, 'e) ask_env_scheme \<Rightarrow> schema_question \<Rightarrow> nat \<Rightarrow> string \<Rightarrow> (thrown + string option) \<times> nat" where
  "regrounded env sq n answer =
     (let unknown = unknownReferencesInProse answer (sc_catalog sq) False in
      if unknown = [] \<or> sc_isSchemaChange sq then (Inr (Some answer), 0)
      else (case schema_call env n (schema_system env sq False)
               (buildSchemaAnswerRepairUser (sc_question sq) (sc_text sq) unknown (sc_edges sq)) of
              Inl t \<Rightarrow> (Inl t, 1)
            | Inr again \<Rightarrow> (Inr (if isOffTopic again then None else Some again), 1)))"

definition proposal_note :: string where
  "proposal_note =
     [LF, LF] @ ''*Proposal only - AskSQL is read-only and never executes statements; run it yourself if you want it applied.*''"

definition noted :: "string \<Rightarrow> string \<Rightarrow> string" where
  "noted q answer =
     (if (re_test PROPOSED_WRITE_RE answer \<or> re_test WRITE_IN_QUESTION_RE q) \<and> \<not> re_test READ_ONLY answer
      then answer @ proposal_note else answer)"

text \<open>The statement an answer ends in, when the guard and the floors pass it.\<close>

definition proposed_sql :: "('s, 'e) ask_env_scheme \<Rightarrow> SchemaCatalog \<Rightarrow> string \<Rightarrow> thrown + string option" where
  "proposed_sql env catalog answer =
     (case truthy (map_option (\<lambda>x. trim (x_sql x)) (extractSql answer)) of
        None \<Rightarrow> Inr None
      | Some proposed \<Rightarrow>
          (case guarded env proposed of
             Inl t \<Rightarrow> Inl t
           | Inr v \<Rightarrow>
               Inr (if v_allowed v
                       \<and> firstUnknownTable (ak_tableList env) proposed catalog (d_grammar (en_dialect env)) None = None
                       \<and> firstUnknownColumn (ak_columnList env) (ak_tableList env) proposed catalog (d_grammar (en_dialect env)) = None
                    then Some proposed else None)))"

definition schema_answer :: "('s, 'e) ask_env_scheme \<Rightarrow> schema_question \<Rightarrow> string \<Rightarrow> thrown + SchemaAnswer" where
  "schema_answer env sq text' =
     (let unknown = unknownReferencesInProse text' (sc_catalog sq) False; answer = noted (sc_question sq) text' in
      (case proposed_sql env (sc_catalog sq) answer of
         Inl t \<Rightarrow> Inl t
       | Inr proposed \<Rightarrow>
           Inr \<lparr>sa_answer = answer, sa_tables = sc_tables sq, sa_grounded = (unknown = []), sa_unknownReferences = unknown,
                sa_isSchemaChange = sc_isSchemaChange sq, sa_proposedSql = proposed\<rparr>))"

definition ground_answer :: "('s, 'e) ask_env_scheme \<Rightarrow> schema_question \<Rightarrow> nat \<Rightarrow> string \<Rightarrow> (thrown + SchemaAnswer) \<times> nat" where
  "ground_answer env sq n answer =
     (case regrounded env sq n (stripSentinel answer) of
        (Inl t, k) \<Rightarrow> (Inl t, k)
      | (Inr None, k) \<Rightarrow> (Inr (offTopicAnswer (d_promptLabel (en_dialect env))), k)
      | (Inr (Some text'), k) \<Rightarrow> (schema_answer env sq text', k))"

definition answer_schema_question :: "('s, 'e) ask_env_scheme \<Rightarrow> schema_question \<Rightarrow> nat \<Rightarrow> (thrown + SchemaAnswer) \<times> nat" where
  "answer_schema_question env sq n =
     (case schema_call env n (schema_system env sq (\<not> sc_proposesWrite sq))
             (buildSchemaAnswerUser (sc_question sq) (sc_text sq) (sc_edges sq) (sc_context sq)) of
        Inl t \<Rightarrow> (Inl t, 1)
      | Inr first \<Rightarrow>
          (case challenged env sq (n + 1) first of
             (Inl t, k) \<Rightarrow> (Inl t, 1 + k)
           | (Inr None, k) \<Rightarrow> (Inr (offTopicAnswer (d_promptLabel (en_dialect env))), 1 + k)
           | (Inr (Some answer), k) \<Rightarrow>
               if unrelated sq answer then (Inr (offTopicAnswer (d_promptLabel (en_dialect env))), 1 + k)
               else apsnd (\<lambda>k'. 1 + k + k') (ground_answer env sq (n + 1 + k) answer)))"

definition no_tables_answer :: SchemaAnswer where
  "no_tables_answer = coded_answer (''This connection has no tables the current user can read.'')"

text \<open>The answer, and how many calls of the model it took.\<close>

definition explainSchema :: "(string \<times> 's ask_env) list \<Rightarrow> string option \<Rightarrow> string option \<Rightarrow> turn list \<Rightarrow> nat \<Rightarrow> (thrown + SchemaAnswer) \<times> nat" where
  "explainSchema connectors question connectionId context' n =
     (case connectorById connectors connectionId of
        Inl e \<Rightarrow> (Inl (ThrownAskSql e), 0)
      | Inr env \<Rightarrow>
          (let q = trim (or_default question []) in
           case invalid_question q of
             Some e \<Rightarrow> (Inl (ThrownAskSql e), 0)
           | None \<Rightarrow>
               if isPromptInjection q then (Inr (offTopicAnswer (d_promptLabel (en_dialect env))), 0)
               else if isCapabilityQuestion q then (Inr (capabilityAnswer (d_promptLabel (en_dialect env))), 0)
               else (case ak_getCatalog env False of
                       Inl t \<Rightarrow> (Inl t, 0)
                     | Inr catalog \<Rightarrow>
                         if k_tables catalog = [] then (Inr no_tables_answer, 0)
                         else answer_schema_question env (schema_question_of env catalog q context') n)))"

section \<open>Model: feedback\<close>

text \<open>The store of the host is an argument: the state it has, and what \<open>add\<close> makes of it.\<close>

definition recordFeedback :: "(string \<times> 's ask_env) list \<Rightarrow> ('f \<times> ('f \<Rightarrow> string \<Rightarrow> FewShotExample \<Rightarrow> string option \<Rightarrow> thrown + 'f)) option
    \<Rightarrow> string option \<Rightarrow> string option \<Rightarrow> string option \<Rightarrow> string option \<Rightarrow> thrown + 'f option" where
  "recordFeedback connectors store question sql connectionId userId =
     (case store of
        None \<Rightarrow> Inr None
      | Some (examples, add) \<Rightarrow>
          (case connectorById connectors connectionId of
             Inl e \<Rightarrow> Inl (ThrownAskSql e)
           | Inr env \<Rightarrow>
               (let q = trim (or_default question []); s = trim (or_default sql []) in
                if q = [] \<or> s = [] then Inr (Some examples)
                else (case guarded env s of
                        Inl t \<Rightarrow> Inl t
                      | Inr v \<Rightarrow>
                          if \<not> v_allowed v then Inr (Some examples)
                          else map_sum id Some (add examples (en_connection env) \<lparr>x_question = q, x_sql = v_sql v\<rparr> userId)))))"

section \<open>The configuration\<close>

lemma connector_error_None:
  "connector_error ids c = None \<longleftrightarrow>
     \<not> blank_text (cf_id c) \<and> \<not> blank_text (cf_name c) \<and> or_default (cf_id c) [] \<notin> set ids \<and> cf_dialect c \<noteq> None"
  by (simp add: connector_error_def Let_def)

definition ids_of :: "connector_config list \<Rightarrow> string list" where
  "ids_of cs = map (\<lambda>c. or_default (cf_id c) []) cs"

lemma connectors_error_None:
  "connectors_error ids cs = None \<longleftrightarrow>
     (\<forall>c \<in> set cs. \<not> blank_text (cf_id c) \<and> \<not> blank_text (cf_name c) \<and> cf_dialect c \<noteq> None)
     \<and> distinct (ids_of cs) \<and> set ids \<inter> set (ids_of cs) = {}"
proof (induction cs arbitrary: ids)
  case (Cons c cs)
  then show ?case
    using connector_error_None [of ids c] by (cases "connector_error ids c") (auto simp: ids_of_def)
qed (simp add: ids_of_def)

text \<open>
  An engine is created exactly for a configuration that has connectors and a model, whose connectors all have an identifier, a name
  and a dialect, no two of them the same identifier, and whose policy can be resolved.
\<close>

theorem createAskSql_accepts:
  "(\<exists>policy. createAskSql connectors has_model partial = Inr policy) \<longleftrightarrow>
     connectors \<noteq> [] \<and> has_model
     \<and> list_all (\<lambda>c. \<not> blank_text (cf_id c) \<and> \<not> blank_text (cf_name c) \<and> cf_dialect c \<noteq> None) connectors
     \<and> distinct (ids_of connectors) \<and> (\<exists>policy. resolveGuardPolicy partial = Inr policy)"
  using connectors_error_None [of "[]" connectors] by (auto simp: createAskSql_def list_all_iff split: option.splits)

section \<open>Repairs\<close>

definition admits :: "('s, 'e) engine_env_scheme \<Rightarrow> string \<Rightarrow> bool" where
  "admits env s \<longleftrightarrow> (\<exists>sql v. guarded env sql = Inr v \<and> v_allowed v \<and> v_sql v = s)"

lemma caseFixFor_admits: "caseFixFor env catalog sql message = Inr (Some s) \<Longrightarrow> admits env s"
  by (auto simp: caseFixFor_def admits_def split: if_splits option.splits sum.splits)

lemma corrected_admits: "corrected_by_model env n prompt sql = Some v \<Longrightarrow> admits env (v_sql v) \<and> v_sql v \<noteq> sql"
  by (auto simp: corrected_by_model_def admits_def split: if_splits option.splits sum.splits)

lemma truthy_Some: "truthy x = Some s \<longleftrightarrow> x = Some s \<and> s \<noteq> []"
  by (auto simp: truthy_def split: option.splits if_splits)

lemma suggestion_for_admits:
  assumes "suggestion_for env q catalog answer cancelled n err = Inr (Some s)"
  shows "admits env s \<and> \<not> cancelled \<and> (\<exists>e. err = ThrownAskSql e \<and> e_code e = DBQueryError)"
  using assms
  by (auto simp: suggestion_for_def tryRepairAfterDbError_def truthy_Some split: thrown.splits if_splits sum.splits option.splits
      dest: caseFixFor_admits corrected_admits)

text \<open>
  C16: a repair that a failed run suggests is what an allowing verdict of the guard holds; it is offered for an error of the database
  alone, never after a cancel, and never run: the world is the one the failed run left.
\<close>

theorem run_answer_suggests_only:
  assumes "run_answer env q opts catalog answer xo n w = (Inl (err, Some s), w')"
  shows "(\<exists>sql v. guarded env sql = Inr v \<and> v_allowed v \<and> v_sql v = s) \<and> \<not> xo_aborted xo \<and> \<not> ao_aborted opts
    \<and> (\<exists>e. err = ThrownAskSql e \<and> e_code e = DBQueryError)
    \<and> (\<exists>xo'. executeGuarded env w (ar_sql answer) xo' = (Inl err, w'))"
  using assms
  by (auto simp: run_answer_def admits_def split: prod.splits sum.splits dest!: suggestion_for_admits)

lemma fix_with_catalog_cases:
  assumes "fix_with_catalog env catalog bad question errorDetail n = (Some s, k)"
  shows "admits env s \<and> (k = 0 \<and> caseFixFor env catalog bad (or_default errorDetail []) = Inr (Some s)
      \<or> k = 1 \<and> s \<noteq> bad \<and> (\<exists>v. v_sql v = s \<and> floored env catalog v))"
  using assms caseFixFor_admits [of env catalog bad "or_default errorDetail []"]
  by (auto simp: fix_with_catalog_def Let_def split: sum.splits option.splits if_splits dest!: corrected_admits)


section \<open>Answers about the schema\<close>

lemma READ_ONLY_in: "re_test READ_ONLY (s @ ''read-only'' @ t)"
proof -
  have "(length s + 9, []) \<in> set (matches (cis ''read-only'') (s @ ''read-only'' @ t) (length s) [])"
    by (subst in_cis) (simp_all add: slice_def)
  then show ?thesis unfolding READ_ONLY_def re_test_iff by (intro exI [of _ "length s"]) auto
qed

lemma noted_read_only: "re_test PROPOSED_WRITE_RE answer \<or> re_test WRITE_IN_QUESTION_RE q \<Longrightarrow> re_test READ_ONLY (noted q answer)"
  using READ_ONLY_in [of "answer @ [LF, LF] @ ''*Proposal only - AskSQL is ''"
      "'' and never executes statements; run it yourself if you want it applied.*''"]
  by (auto simp: noted_def proposal_note_def)

lemma proposed_sql_checked:
  assumes "proposed_sql env catalog answer = Inr (Some s)"
  shows "(\<exists>v. guarded env s = Inr v \<and> v_allowed v)
    \<and> firstUnknownTable (ak_tableList env) s catalog (d_grammar (en_dialect env)) None = None
    \<and> firstUnknownColumn (ak_columnList env) (ak_tableList env) s catalog (d_grammar (en_dialect env)) = None"
  using assms by (auto simp: proposed_sql_def split: option.splits sum.splits if_splits)

lemma challenged_calls: "challenged env sq n answer = (r, k) \<Longrightarrow> k \<le> 1"
  by (auto simp: challenged_def split: if_splits sum.splits)

lemma regrounded_calls: "regrounded env sq n answer = (r, k) \<Longrightarrow> k \<le> 1"
  by (auto simp: regrounded_def Let_def split: if_splits sum.splits)

lemma ground_answer_calls: "snd (ground_answer env sq n answer) \<le> 1"
  by (auto simp: ground_answer_def dest: regrounded_calls split: prod.splits sum.splits option.splits)

text \<open>The form of an answer: one of the fixed ones, or the text of the model, checked and marked.\<close>

definition answered :: "('s, 'e) ask_env_scheme \<Rightarrow> schema_question \<Rightarrow> SchemaAnswer \<Rightarrow> bool" where
  "answered env sq a \<longleftrightarrow> a = offTopicAnswer (d_promptLabel (en_dialect env)) \<or> (\<exists>text'. schema_answer env sq text' = Inr a)"

lemma ground_answer_answered: "ground_answer env sq n answer = (Inr a, k) \<Longrightarrow> answered env sq a"
  by (auto simp: ground_answer_def answered_def split: prod.splits sum.splits option.splits)

lemma answer_schema_question_answered:
  assumes "answer_schema_question env sq n = (Inr a, k)"
  shows "answered env sq a"
  using assms
  by (auto simp: answer_schema_question_def answered_def apsnd_def map_prod_def ground_answer_def
      split: prod.splits sum.splits option.splits if_splits)

lemma answer_schema_question_calls: "snd (answer_schema_question env sq n) \<le> 3"
proof -
  have "1 + k + snd (ground_answer env sq (n + 1 + k) answer) \<le> 3" if "challenged env sq (n + 1) first = (r, k)" for k r first answer
    using challenged_calls [OF that] ground_answer_calls [of env sq "n + 1 + k" answer] by linarith
  moreover have "1 + k \<le> 3" if "challenged env sq (n + 1) first = (r, k)" for k r first
    using challenged_calls [OF that] by simp
  ultimately show ?thesis
    by (auto simp: answer_schema_question_def split: sum.splits option.splits prod.splits)
qed


lemma schema_answer_sound:
  assumes "schema_answer env sq text' = Inr a"
  shows "sa_answer a = noted (sc_question sq) text'" "sa_unknownReferences a = unknownReferencesInProse text' (sc_catalog sq) False"
    "sa_grounded a \<longleftrightarrow> sa_unknownReferences a = []" "proposed_sql env (sc_catalog sq) (sa_answer a) = Inr (sa_proposedSql a)"
  using assms by (auto simp: schema_answer_def Let_def split: sum.splits)

lemma noted_marks:
  "re_test PROPOSED_WRITE_RE (noted q answer) \<or> re_test WRITE_IN_QUESTION_RE q \<Longrightarrow> re_test READ_ONLY (noted q answer)"
  using noted_read_only [of answer q] by (auto simp: noted_def split: if_splits)

lemma explainSchema_cases:
  assumes "explainSchema connectors question connectionId ctx n = (Inr a, k)"
  obtains (coded) env where "connectorById connectors connectionId = Inr env" "k = 0"
      "a \<in> {offTopicAnswer (d_promptLabel (en_dialect env)), capabilityAnswer (d_promptLabel (en_dialect env)), no_tables_answer}"
  | (asked) env catalog where "connectorById connectors connectionId = Inr env" "ak_getCatalog env False = Inr catalog"
      "answer_schema_question env (schema_question_of env catalog (trim (or_default question [])) ctx) n = (Inr a, k)"
  using assms by (auto simp: explainSchema_def Let_def split: sum.splits option.splits if_splits)

lemma schema_question_of_sel [simp]:
  "sc_question (schema_question_of env catalog q ctx) = q" "sc_catalog (schema_question_of env catalog q ctx) = catalog"
  by (simp_all add: schema_question_of_def Let_def)


section \<open>Explanations and feedback\<close>

text \<open>
  A text reaches the model to be explained only if the guard admits it, and a pair is remembered only if its statement is what an
  allowing verdict holds.
\<close>

theorem explain_only_admitted:
  assumes "snd (explain connectors sql connectionId n) \<noteq> []"
  shows "\<exists>env v. connectorById connectors connectionId = Inr env \<and> guarded env (trim (or_default sql [])) = Inr v \<and> v_allowed v
    \<and> snd (explain connectors sql connectionId n) = [explain_prompt env (trim (or_default sql []))]"
  using assms by (auto simp: explain_def Let_def split: sum.splits if_splits)

lemma recordFeedback_only_admitted:
  assumes "recordFeedback connectors (Some (examples, add)) question sql connectionId userId = Inr (Some examples')" "examples' \<noteq> examples"
  shows "\<exists>env v. connectorById connectors connectionId = Inr env \<and> guarded env (trim (or_default sql [])) = Inr v \<and> v_allowed v
    \<and> add examples (en_connection env) \<lparr>x_question = trim (or_default question []), x_sql = v_sql v\<rparr> userId = Inr examples'"
  using assms by (auto simp: recordFeedback_def Let_def map_sum_def split: sum.splits if_splits)

section \<open>Witnesses\<close>

definition reply_env :: "string \<Rightarrow> MemoryHistoryStore ask_env" where
  "reply_env reply =
     orders_env\<lparr>ak_model := (\<lambda>_ _ _. Inr \<lparr>mr_text = reply, mr_inputTokens = None, mr_outputTokens = None\<rparr>),
       en_execute := (\<lambda>_ _. Inl (ThrownOther ''boom''))\<rparr>"

lemma reply_env_sel [simp]:
  "guarded (reply_env reply) = guarded orders_env" "ak_getCatalog (reply_env reply) = (\<lambda>_. Inr two_spellings)"
  "ak_model (reply_env reply) = (\<lambda>_ _ _. Inr \<lparr>mr_text = reply, mr_inputTokens = None, mr_outputTokens = None\<rparr>)"
  "en_execute (reply_env reply) = (\<lambda>_ _. Inl (ThrownOther ''boom''))" "en_connect (reply_env reply) = None"
  "en_dialect (reply_env reply) = SQLITE_DIALECT" "ak_engine (reply_env reply) = ''sqlite''"
  "ak_columnList (reply_env reply) = (\<lambda>_ _. Some [''select::null::a''])" "ak_tableList (reply_env reply) = (\<lambda>_ _. Some [''select::null::t''])"
  by (auto simp: reply_env_def orders_env_def two_spellings_def guarded_def fun_eq_iff)

lemma not_unknown: "\<not> looksLikeUnknownTable ''boom''" "v_allowed first_verdict" "v_sql first_verdict \<noteq> ''SELECT a FROM t''"
  by code_simp+

lemma reply_corrected: "corrected_by_model (reply_env ''SELECT a FROM t'') n prompt sql = (if v_sql first_verdict \<noteq> sql then Some first_verdict else None)"
  by (simp add: corrected_by_model_def replied orders_guarded not_unknown)

definition failed_answer :: AskResult where
  "failed_answer = \<lparr>ar_sql = ''SELECT a FROM t'', ar_explanation = [], ar_guard = first_verdict, ar_connectionId = ''c'',
     ar_usage = (Fin 0, Fin 0), ar_repairs = 0, ar_schemaText = []\<rparr>"

lemma run_fails:
  "\<exists>err w'. run_answer (reply_env ''SELECT a FROM t'') ''t'' no_ask_options two_spellings failed_answer no_options 0 sample_world
     = (Inl (err, Some (v_sql first_verdict)), w')"
proof -
  have "truthy (Some (v_sql first_verdict)) = Some (v_sql first_verdict)" by (simp add: truthy_def first_verdict_def accepted_def)
  then show ?thesis
    by (simp add: run_answer_def executeGuarded_def failed_answer_def orders_guarded not_unknown Let_def suggestion_for_def execution_error_def
        run_options_def no_options_def no_ask_options_def new_AskSqlError_def caseFixFor_def error_text_def or_default_def
        tryRepairAfterDbError_def reply_corrected)
qed

theorem run_answer_suggests_only_witness:
  "\<exists>err s w'. run_answer (reply_env ''SELECT a FROM t'') ''t'' no_ask_options two_spellings failed_answer no_options 0 sample_world = (Inl (err, Some s), w')
     \<and> (\<exists>sql v. guarded orders_env sql = Inr v \<and> v_allowed v \<and> v_sql v = s)"
proof -
  from run_fails obtain err w' where r: "run_answer (reply_env ''SELECT a FROM t'') ''t'' no_ask_options two_spellings failed_answer no_options 0 sample_world
     = (Inl (err, Some (v_sql first_verdict)), w')" by blast
  with run_answer_suggests_only [OF r] show ?thesis by auto
qed

definition boom_fix :: fix_options where
  "boom_fix = \<lparr>fo_connectionId = None, fo_question = Some ''t'', fo_errorDetail = Some ''boom''\<rparr>"


lemma explained_write:
  "\<not> isPromptInjection ''how do I insert into t a row?''" "\<not> isCapabilityQuestion ''how do I insert into t a row?''"
  "looksDatabaseRelated ''how do I insert into t a row?''" "invalid_question ''how do I insert into t a row?'' = None"
  "trim ''how do I insert into t a row?'' = ''how do I insert into t a row?''"
  "\<not> no_answer ''Run insert into t values (1);''" "stripSentinel ''Run insert into t values (1);'' = ''Run insert into t values (1);''"
  "trim ''Run insert into t values (1);'' = ''Run insert into t values (1);''"
  "unknownReferencesInProse ''Run insert into t values (1);'' two_spellings False = []" "k_tables two_spellings \<noteq> []"
  "extractSql (noted ''how do I insert into t a row?'' ''Run insert into t values (1);'') = None"
  "re_test WRITE_IN_QUESTION_RE ''how do I insert into t a row?''" "re_test PROPOSED_WRITE_RE ''insert into t values (1);''"
  by code_simp+


section \<open>A statement the engine wrote itself\<close>

text \<open>A parser that reads the limit the guard appends.\<close>

definition limit_parser :: parser where
  "limit_parser text' grammar =
     Some (JObj [(''type'', JStr ''select''),
             (''limit'', if text' = ''SELECT a FROM t'' then JNull
                else JObj [(''seperator'', JStr []), (''value'', JArr [JObj [(''type'', JStr ''number''), (''value'', JNum (Fin 5))]])])],
           Some [''select::null::t''])"

definition limit_env :: "MemoryHistoryStore ask_env" where
  "limit_env = orders_env\<lparr>en_parse := limit_parser, en_policy := DEFAULT_GUARD_POLICY\<lparr>p_maxRows := 5\<rparr>, en_execute := (\<lambda>_ _. Inr five_rows)\<rparr>"

definition limited_sql :: string where "limited_sql = ''SELECT a FROM t'' @ [LF] @ ''LIMIT 5''"

definition limited_answer :: AskResult where
  "limited_answer = failed_answer\<lparr>ar_sql := limited_sql, ar_guard := accepted limited_sql [] True False [''select::null::t'']\<rparr>"

lemma limit_guarded:
  "guarded limit_env ''SELECT a FROM t'' = Inr (accepted limited_sql [] True False [''select::null::t''])"
  "guarded limit_env limited_sql = Inr (accepted limited_sql [] False False [''select::null::t''])"
proof -
  have p: "resolveGuardPolicy (as_partial (DEFAULT_GUARD_POLICY\<lparr>p_maxRows := 5\<rparr>)) = Inr (DEFAULT_GUARD_POLICY\<lparr>p_maxRows := 5\<rparr>)" by code_simp
  have "guard_checked limit_parser (DEFAULT_GUARD_POLICY\<lparr>p_maxRows := 5\<rparr>) SQLITE_DIALECT ''SELECT a FROM t''
      = Inr (accepted limited_sql [] True False [''select::null::t''])" by code_simp
  moreover have "guard_checked limit_parser (DEFAULT_GUARD_POLICY\<lparr>p_maxRows := 5\<rparr>) SQLITE_DIALECT limited_sql
      = Inr (accepted limited_sql [] False False [''select::null::t''])" by code_simp
  ultimately show "guarded limit_env ''SELECT a FROM t'' = Inr (accepted limited_sql [] True False [''select::null::t''])"
    "guarded limit_env limited_sql = Inr (accepted limited_sql [] False False [''select::null::t''])"
    using p by (simp_all add: guarded_def guardSql_def limit_env_def orders_env_def or_default_def)
qed

text \<open>
  The run of a statement the engine wrote itself forgets that the guard appended a limit: the same five rows under the same five-row
  limit are marked as cut when the model wrote the statement and passed off as all there are when the engine did.
\<close>

lemma written_run_hides_cut:
  "(case fst (run_written limit_env ''t'' no_ask_options limited_answer no_options sample_world) of
      Inr result \<Rightarrow> rs_rowCount result = Fin 5 \<and> \<not> rs_truncated result \<and> rs_warnings result = [] | Inl _ \<Rightarrow> False)"
  "(case fst (run_answer limit_env ''t'' no_ask_options two_spellings limited_answer no_options 0 sample_world) of
      Inr result \<Rightarrow> rs_truncated result \<and> rs_warnings result \<noteq> [] | Inl _ \<Rightarrow> False)"
proof -
  have env: "en_connect limit_env = None" "en_execute limit_env = (\<lambda>_ _. Inr five_rows)" "en_policy limit_env = DEFAULT_GUARD_POLICY\<lparr>p_maxRows := 5\<rparr>"
    by (simp_all add: limit_env_def orders_env_def)
  have m: "cappedMax (DEFAULT_GUARD_POLICY\<lparr>p_maxRows := 5\<rparr>) (run_options ''t'' no_ask_options prior no_options) = Fin 5" for prior
    by (simp add: cappedMax_def run_options_def no_options_def or_default_def math_min_def)
  show "(case fst (run_written limit_env ''t'' no_ask_options limited_answer no_options sample_world) of
      Inr result \<Rightarrow> rs_rowCount result = Fin 5 \<and> \<not> rs_truncated result \<and> rs_warnings result = [] | Inl _ \<Rightarrow> False)"
    by (simp add: run_written_def executeGuarded_def limited_answer_def failed_answer_def env limit_guarded accepted_def Let_def present_result_def
        five_rows_def run_options_def no_options_def)
  show "(case fst (run_answer limit_env ''t'' no_ask_options two_spellings limited_answer no_options 0 sample_world) of
      Inr result \<Rightarrow> rs_truncated result \<and> rs_warnings result \<noteq> [] | Inl _ \<Rightarrow> False)"
    by (simp add: run_answer_def executeGuarded_def limited_answer_def failed_answer_def env limit_guarded accepted_def Let_def present_result_def
        five_rows_def m) (simp add: run_options_def)
qed

end
