(* ===== verification/Server_Hosts.thy ===== *)
theory Server_Hosts
  imports Core_Types JS_Regex JS_Value "HOL-Library.Word"
begin

text \<open>
  \<open>packages/server/src/dynamicConnections.ts\<close>: which connection a client of the server may have opened. The reading of an IPv4
  address in all the spellings a resolver takes, the link-local test, the hosts of a MongoDB address, the file roots, and
  \<open>assertSpecAllowed\<close>, which refuses a specification with an error. The fields of a specification come from the body of a request,
  so they are JSON values; a method called on a value that has none throws a \<open>TypeError\<close>. The file system is an argument:
  \<open>realpathSync\<close> on absolute paths, and the working directory. Paths are those of POSIX. \<open>createConnector\<close> hands the specification
  to a driver and is not modelled.

  The properties: the octets are those of the number that the reference reading of \<open>inet_aton\<close> gives, so the metadata network is
  refused in every spelling of an IPv4 address; an allowed file lies below an allowed root, segment by segment; and what an allowed
  specification satisfies.
\<close>

unbundle bit_operations_syntax

section \<open>Model: IPv4 addresses\<close>

definition is_hex :: "char \<Rightarrow> bool" where
  "is_hex c \<longleftrightarrow> is_digit c \<or> (97 \<le> code (lower c) \<and> code (lower c) \<le> 102)"

definition is_octal :: "char \<Rightarrow> bool" where
  "is_octal c \<longleftrightarrow> 48 \<le> code c \<and> code c \<le> 55"

definition digit_value :: "char \<Rightarrow> nat" where
  "digit_value c = (if is_digit c then code c - 48 else code (lower c) - 87)"

text \<open>
  \<open>Number.parseInt(digits, base)\<close>. A double rounds large values, but to a value that is as much too large for an octet or an
  address as the exact one, and that is all the code asks.
\<close>

definition parse_digits :: "nat \<Rightarrow> string \<Rightarrow> nat" where
  "parse_digits base s = foldl (\<lambda>acc c. base * acc + digit_value c) 0 s"

definition part_value :: "string \<Rightarrow> nat option" where
  "part_value part =
     (if length part > 2 \<and> part ! 0 = CHR ''0'' \<and> lower (part ! 1) = CHR ''x'' \<and> list_all is_hex (drop 2 part)
      then Some (parse_digits 16 (drop 2 part))
      else if length part > 1 \<and> part ! 0 = CHR ''0'' \<and> list_all is_octal (drop 1 part) then Some (parse_digits 8 (drop 1 part))
      else if part \<noteq> [] \<and> list_all is_digit part then Some (parse_digits 10 part)
      else None)"

fun all_values :: "string list \<Rightarrow> nat list option" where
  "all_values [] = Some []"
| "all_values (p # ps) =
     (case part_value p of None \<Rightarrow> None | Some v \<Rightarrow> map_option ((#) v) (all_values ps))"

text \<open>\<open>(last >>> (8 * i)) & 0xff\<close> on the 32-bit value.\<close>

definition octet_of :: "nat \<Rightarrow> nat \<Rightarrow> nat" where
  "octet_of l i = unat (drop_bit (8 * i) (of_nat l :: 32 word) AND 0xFF)"

definition ipv4Octets :: "string \<Rightarrow> nat list option" where
  "ipv4Octets text' =
     (let parts = split_on CHR ''.'' text' in
      if length parts > 4 then None
      else (case all_values parts of
              None \<Rightarrow> None
            | Some vs \<Rightarrow>
                (let l = last vs; values = butlast vs in
                 if 2 ^ (8 * (4 - length values)) \<le> l then None
                 else if list_ex (\<lambda>v. v > 255) values then None
                 else Some (values @ map (octet_of l) (rev [0..<4 - length values])))))"

section \<open>Model: hosts\<close>

definition strip_brackets :: "string \<Rightarrow> string" where
  "strip_brackets s =
     (let s1 = (case s of c # r \<Rightarrow> (if c = CHR ''['' then r else s) | [] \<Rightarrow> []) in
      if s1 \<noteq> [] \<and> last s1 = CHR '']'' then butlast s1 else s1)"

text \<open>What \<open>/^::ffff:(.+)$/\<close> captures.\<close>

definition mapped_part :: "string \<Rightarrow> string option" where
  "mapped_part s =
     (if starts_with s ''::ffff:'' \<and> length s > 7 \<and> list_all (\<lambda>c. \<not> line_end c) (drop 7 s) then Some (drop 7 s) else None)"

definition link_local_address :: "string \<Rightarrow> bool" where
  "link_local_address a \<longleftrightarrow>
     a \<noteq> ''::1'' \<and> a \<noteq> ''0:0:0:0:0:0:0:1''
     \<and> (starts_with a ''fe80:''
        \<or> (case ipv4Octets a of Some octets \<Rightarrow> octets ! 0 = 169 \<and> octets ! 1 = 254 | None \<Rightarrow> False))"

definition isLinkLocal :: "string \<Rightarrow> bool" where
  "isLinkLocal host =
     (let l = toLowerCase (trim host) in
      if l = ''metadata.google.internal'' then True
      else (let s = strip_brackets l in link_local_address (or_default (mapped_part s) s)))"

definition MONGO_SCHEME :: regex where
  "MONGO_SCHEME = cats [Bol, cis ''mongodb'', Opt (Group 1 (cis ''+srv'')), lits ''://'']"

definition EMBEDDED_CREDENTIALS :: regex where
  "EMBEDDED_CREDENTIALS =
     cats [lits ''//'', Star (none_of ''/@''), lit CHR '':'', Star (none_of ''/@''), lit CHR ''@'']"

definition FORBIDDEN_HOST :: regex where
  "FORBIDDEN_HOST = Chr (\<lambda>c. c \<in> set ''/?#&@'' \<or> is_space c)"

definition uri_host :: "string \<Rightarrow> string" where
  "uri_host h =
     (let host = trim h in
      if starts_with host ''['' then
        (case index_of host '']'' 0 of
           None \<Rightarrow> toLowerCase (trim (drop 1 host))
         | Some close \<Rightarrow> toLowerCase (trim (JS_Prelude.slice host 1 close)))
      else toLowerCase (trim (hd (split_on CHR '':'' host))))"

definition mongoUriHosts :: "string \<Rightarrow> string list" where
  "mongoUriHosts uri =
     (let afterScheme = replace_first MONGO_SCHEME uri (\<lambda>_. []);
          authority = takeWhile (\<lambda>c. c \<noteq> CHR ''/'' \<and> c \<noteq> CHR ''?'') afterScheme;
          hostPart = (case last_index_of authority ''@'' of None \<Rightarrow> authority | Some i \<Rightarrow> drop (i + 1) authority)
      in filter (\<lambda>h. h \<noteq> []) (map uri_host (split_on CHR '','' hostPart)))"

section \<open>Model: file paths\<close>

text \<open>An absolute path is the list of its segments; \<open>resolve\<close> reads a path text from the working directory.\<close>

fun walk_path :: "string list \<Rightarrow> string list \<Rightarrow> string list" where
  "walk_path at' [] = at'"
| "walk_path at' (x # xs) =
     (if x = [] \<or> x = ''.'' then walk_path at' xs
      else if x = ''..'' then walk_path (butlast at') xs
      else walk_path (at' @ [x]) xs)"

definition resolvePath :: "string list \<Rightarrow> string \<Rightarrow> string list" where
  "resolvePath cwd file = walk_path (if starts_with file ''/'' then [] else cwd) (split_on CHR ''/'' file)"

definition path_text :: "string list \<Rightarrow> string" where
  "path_text p = (if p = [] then ''/'' else concat (map ((#) CHR ''/'') p))"

record file_system =
  fs_cwd :: "string list"
  fs_real :: "string list \<Rightarrow> string list option"

function realpathOr :: "(string list \<Rightarrow> string list option) \<Rightarrow> string list \<Rightarrow> string list" where
  "realpathOr rp target =
     (case rp target of
        Some p \<Rightarrow> p
      | None \<Rightarrow> (if target = [] then target else realpathOr rp (butlast target) @ [last target]))"
  by pat_completeness auto
termination
  by (relation "measure (\<lambda>(rp, target). length target)") auto

declare realpathOr.simps [simp del]

definition inside_root :: "file_system \<Rightarrow> string list \<Rightarrow> string \<Rightarrow> bool" where
  "inside_root fs resolved root' =
     (let base = path_text (realpathOr (fs_real fs) (resolvePath (fs_cwd fs) root')) in
      path_text resolved = base \<or> starts_with (path_text resolved) (if ends_with base ''/'' then base else base @ ''/''))"

section \<open>Model: what may be opened\<close>

record ConnectionSpec =
  cs_id :: jsval
  cs_name :: jsval
  cs_engine :: jsval
  cs_host :: jsval
  cs_port :: jsval
  cs_database :: jsval
  cs_uri :: jsval

record DynamicConnectionOptions =
  dy_enabled :: bool
  dy_allowedHosts :: "string list option"
  dy_allowedFileRoots :: "string list option"
  dy_allowFileEngines :: "bool option"

text \<open>Whether an engine is named by a file or by an address of its own.\<close>

datatype reached_by = ByHost | ByFile | ByUri

definition ENGINE_DEFAULTS :: "(string \<times> reached_by) list" where
  "ENGINE_DEFAULTS =
     [(''postgres'', ByHost), (''mysql'', ByHost), (''oracle'', ByHost), (''mongodb'', ByUri), (''sqlite'', ByFile), (''duckdb'', ByFile)]"

definition bad_spec :: "string \<Rightarrow> string \<Rightarrow> thrown" where
  "bad_spec userMessage detail =
     ThrownAskSql (new_AskSqlError InvalidInput \<lparr>o_userMessage = Some userMessage, o_detail = Some detail, o_retryable = None\<rparr>)"

definition assertFileAllowed :: "file_system \<Rightarrow> string \<Rightarrow> DynamicConnectionOptions \<Rightarrow> thrown option" where
  "assertFileAllowed fs file options =
     (let roots = or_default (dy_allowedFileRoots options) [] in
      if dy_allowFileEngines options \<noteq> Some True \<and> roots = [] then
        Some (bad_spec ''This server is not configured to open database files.'' ''file engine requires allowFileEngines or allowedFileRoots'')
      else if roots = [] then None
      else if list_ex (inside_root fs (realpathOr (fs_real fs) (resolvePath (fs_cwd fs) file))) roots then None
      else Some (bad_spec ''That database file is outside the allowed directory.'' ''file path outside allowedFileRoots''))"

text \<open>\<open>spec.f?.trim()\<close>, and the error when nothing is left.\<close>

fun trim_field :: "string \<Rightarrow> jsval \<Rightarrow> thrown + string option" where
  "trim_field f JUndef = Inr None"
| "trim_field f JNull = Inr None"
| "trim_field f (JStr s) = Inr (Some (trim s))"
| "trim_field f _ = Inl (ThrownError ''TypeError'' (''spec.'' @ f @ ''?.trim is not a function''))"

definition need_field :: "string \<Rightarrow> string \<Rightarrow> string \<Rightarrow> jsval \<Rightarrow> thrown + string" where
  "need_field f userMessage detail v =
     (case trim_field f v of
        Inl t \<Rightarrow> Inl t
      | Inr t \<Rightarrow> (case or_default t [] of [] \<Rightarrow> Inl (bad_spec userMessage detail) | s \<Rightarrow> Inr s))"

definition error_of :: "thrown + 'a \<Rightarrow> thrown option" where
  "error_of r = (case r of Inl t \<Rightarrow> Some t | Inr _ \<Rightarrow> None)"

definition host_listed :: "DynamicConnectionOptions \<Rightarrow> string \<Rightarrow> bool" where
  "host_listed options host = (case dy_allowedHosts options of None \<Rightarrow> True | Some hosts \<Rightarrow> host \<in> set hosts)"

fun uri_hosts_error :: "DynamicConnectionOptions \<Rightarrow> string list \<Rightarrow> thrown option" where
  "uri_hosts_error options [] = None"
| "uri_hosts_error options (h # hs) =
     (if isLinkLocal h then Some (bad_spec ''That host address is not allowed.'' ''link-local mongo host'')
      else if \<not> host_listed options h then
        Some (bad_spec (''This server is not allowed to connect to '' @ h @ ''.'') ''mongo host not in allowlist'')
      else uri_hosts_error options hs)"

definition uri_spec_error :: "ConnectionSpec \<Rightarrow> DynamicConnectionOptions \<Rightarrow> thrown option" where
  "uri_spec_error spec options =
     (case need_field ''uri'' ''Enter the MongoDB connection string.'' ''missing uri'' (cs_uri spec) of
        Inl t \<Rightarrow> Some t
      | Inr uri \<Rightarrow>
          if \<not> re_test MONGO_SCHEME uri then
            Some (bad_spec ''The MongoDB connection string must start with mongodb:// or mongodb+srv://.'' ''bad mongo scheme'')
          else if re_test EMBEDDED_CREDENTIALS uri then
            Some (bad_spec ''Put the user and password in their own fields, not in the connection string.'' ''embedded credentials'')
          else (case need_field ''database'' ''Enter the database name.'' ''missing database'' (cs_database spec) of
                  Inl t \<Rightarrow> Some t
                | Inr _ \<Rightarrow> uri_hosts_error options (mongoUriHosts uri)))"

definition valid_port :: "jsval \<Rightarrow> bool" where
  "valid_port v \<longleftrightarrow> (case v of JNum (Fin x) \<Rightarrow> x = of_int \<lfloor>x\<rfloor> \<and> 1 \<le> x \<and> x \<le> 65535 | _ \<Rightarrow> False)"

definition host_spec_error :: "ConnectionSpec \<Rightarrow> DynamicConnectionOptions \<Rightarrow> thrown option" where
  "host_spec_error spec options =
     (case need_field ''host'' ''Enter the database host.'' ''missing host'' (cs_host spec) of
        Inl t \<Rightarrow> Some t
      | Inr host \<Rightarrow>
          if re_test FORBIDDEN_HOST host then Some (bad_spec ''The host contains characters that are not allowed.'' ''bad host'')
          else if isLinkLocal host then Some (bad_spec ''That host address is not allowed.'' ''link-local host'')
          else if \<not> host_listed options host then
            Some (bad_spec (''This server is not allowed to connect to '' @ host @ ''.'') ''host not in allowlist'')
          else if cs_port spec \<noteq> JUndef \<and> \<not> valid_port (cs_port spec) then
            Some (bad_spec ''The port must be between 1 and 65535.'' (''bad port: '' @ to_string (cs_port spec)))
          else error_of (need_field ''database'' ''Enter the database name.'' ''missing database'' (cs_database spec)))"

definition file_spec_error :: "file_system \<Rightarrow> ConnectionSpec \<Rightarrow> DynamicConnectionOptions \<Rightarrow> thrown option" where
  "file_spec_error fs spec options =
     (case need_field ''database'' ''Enter the database file path.'' ''missing file path'' (cs_database spec) of
        Inl t \<Rightarrow> Some t
      | Inr file \<Rightarrow> assertFileAllowed fs file options)"

text \<open>What is thrown for a specification, if anything.\<close>

definition assertSpecAllowed :: "file_system \<Rightarrow> ConnectionSpec \<Rightarrow> DynamicConnectionOptions \<Rightarrow> thrown option" where
  "assertSpecAllowed fs spec options =
     (case (case cs_engine spec of JStr e \<Rightarrow> map_of ENGINE_DEFAULTS e | _ \<Rightarrow> None) of
        None \<Rightarrow> Some (bad_spec ''Unsupported engine.'' (''unknown engine: '' @ to_string (cs_engine spec)))
      | Some r \<Rightarrow>
          (case need_field ''name'' ''The connection needs a name.'' ''missing name'' (cs_name spec) of
             Inl t \<Rightarrow> Some t
           | Inr _ \<Rightarrow>
               (case r of
                  ByFile \<Rightarrow> file_spec_error fs spec options
                | ByUri \<Rightarrow> uri_spec_error spec options
                | ByHost \<Rightarrow> host_spec_error spec options)))"

section \<open>The octets of an address\<close>

text \<open>
  The reference reading: all numbers but the last are octets, the last fills the rest of the 32 bits, and the address is the number
  they make up.
\<close>

definition address_of :: "nat list \<Rightarrow> nat option" where
  "address_of vs =
     (if length vs \<le> 4 \<and> list_all (\<lambda>v. v < 256) (butlast vs) \<and> last vs < 256 ^ (5 - length vs)
      then Some (foldl (\<lambda>a v. 256 * a + v) 0 (butlast vs) * 256 ^ (5 - length vs) + last vs) else None)"

definition inet_aton :: "string \<Rightarrow> nat option" where
  "inet_aton text' = Option.bind (all_values (split_on CHR ''.'' text')) address_of"

definition octets :: "nat \<Rightarrow> nat list" where
  "octets n = map (\<lambda>i. n div 256 ^ i mod 256) [3, 2, 1, 0]"

lemma octet_of_div: "l < 2 ^ 32 \<Longrightarrow> octet_of l i = l div 256 ^ i mod 256"
proof -
  assume l: "l < 2 ^ 32"
  have "octet_of l i = unat (take_bit 8 (drop_bit (8 * i) (of_nat l :: 32 word)))"
    unfolding octet_of_def by (simp add: take_bit_eq_mask mask_eq_exp_minus_1)
  also have "\<dots> = take_bit 8 (drop_bit (8 * i) l)"
    using l by (simp only: unsigned_take_bit_eq unsigned_drop_bit_eq unsigned_of_nat) (simp add: take_bit_nat_eq_self)
  also have "\<dots> = l div 256 ^ i mod 256"
    by (simp add: take_bit_eq_mod drop_bit_eq_div power_mult)
  finally show ?thesis .
qed

lemma all_values_length: "all_values ps = Some vs \<Longrightarrow> length vs = length ps"
  by (induction ps arbitrary: vs) (auto split: option.splits)

lemma octets_1: "l < 2 ^ 32 \<Longrightarrow> octets l = [l div 2 ^ 24, l div 2 ^ 16 mod 256, l div 2 ^ 8 mod 256, l mod 256]"
  by (simp add: octets_def)

lemma low_digit: "(q * (d * 256 * e) + l) div d mod 256 = l div d mod (256 :: nat)" if "0 < d"
proof -
  have "(q * (d * 256 * e) + l) div d = 256 * (q * e) + l div d"
    using div_mult_self3 [of d "256 * (q * e)" l] that by (simp add: ac_simps)
  then show ?thesis by simp
qed

lemma high_digit: "(q * d + l) div d mod 256 = q mod (256 :: nat)" if "l < d"
  using that by simp

lemma octets_2:
  assumes "a < 256" "l < 2 ^ 24"
  shows "octets (a * 2 ^ 24 + l) = [a, l div 2 ^ 16 mod 256, l div 2 ^ 8 mod 256, l mod 256]"
  using assms high_digit [of l "2 ^ 24" a] low_digit [of "2 ^ 16" a 1 l] low_digit [of "2 ^ 8" a "2 ^ 8" l] low_digit [of 1 a "2 ^ 16" l]
    div_less_iff_less_mult [of "2 ^ 16" l 256]
  by (simp add: octets_def)

lemma octets_3:
  assumes "a < 256" "b < 256" "l < 2 ^ 16"
  shows "octets ((256 * a + b) * 2 ^ 16 + l) = [a, b, l div 2 ^ 8 mod 256, l mod 256]"
proof -
  have "(256 * a + b) * 2 ^ 16 + l = a * 2 ^ 24 + (b * 2 ^ 16 + l)" by simp
  moreover have "b * 2 ^ 16 + l < 2 ^ 24" using assms by simp
  ultimately show ?thesis
    using assms octets_2 [of a "b * 2 ^ 16 + l"] high_digit [of l "2 ^ 16" b] low_digit [of "2 ^ 8" b 1 l] low_digit [of 1 b "2 ^ 8" l]
    by (simp add: algebra_simps)
qed

lemma octets_4:
  assumes "a < 256" "b < 256" "c < 256" "l < 2 ^ 8"
  shows "octets ((256 * (256 * a + b) + c) * 2 ^ 8 + l) = [a, b, c, l mod 256]"
proof -
  have "(256 * (256 * a + b) + c) * 2 ^ 8 + l = (256 * a + b) * 2 ^ 16 + (c * 2 ^ 8 + l)" by simp
  moreover have "c * 2 ^ 8 + l < 2 ^ 16" using assms by simp
  ultimately show ?thesis
    using assms octets_3 [of a b "c * 2 ^ 8 + l"] high_digit [of l "2 ^ 8" c] low_digit [of 1 c 1 l]
    by (simp add: algebra_simps)
qed

text \<open>
  The octets are those of the address the reference reading gives, in each of its forms: dotted, with fewer parts, decimal,
  octal and hexadecimal.
\<close>

lemma ipv4Octets_of: "ipv4Octets text' = map_option octets (inet_aton text')"
proof (cases "all_values (split_on CHR ''.'' text')")
  case None
  then show ?thesis by (simp add: ipv4Octets_def inet_aton_def Let_def)
next
  case (Some vs)
  have len: "length vs = length (split_on CHR ''.'' text')" using all_values_length [OF Some] .
  then have "vs \<noteq> []" by (metis length_0_conv split_on_nonempty)
  show ?thesis
  proof (cases "length vs \<le> 4")
    case False
    with Some len show ?thesis by (simp add: ipv4Octets_def inet_aton_def address_of_def Let_def)
  next
    case True
    obtain ws l where vs: "vs = ws @ [l]" using \<open>vs \<noteq> []\<close> by (metis rev_exhaust)
    with True consider "ws = []" | a where "ws = [a]" | a b where "ws = [a, b]" | a b c where "ws = [a, b, c]"
      by (cases ws; cases "tl ws"; cases "tl (tl ws)") (auto simp: neq_Nil_conv)
    then show ?thesis
    proof cases
      case 1
      with vs Some len [symmetric] octets_1 [of l] div_less_iff_less_mult [of "2 ^ 24" l 256] show ?thesis
        by (simp add: ipv4Octets_def inet_aton_def address_of_def Let_def octet_of_div upt_rec)
    next
      case (2 a)
      with vs Some len [symmetric] octets_2 [of a l] show ?thesis
        by (simp add: ipv4Octets_def inet_aton_def address_of_def Let_def octet_of_div upt_rec)
    next
      case (3 a b)
      with vs Some len [symmetric] octets_3 [of a b l] show ?thesis
        by (simp add: ipv4Octets_def inet_aton_def address_of_def Let_def octet_of_div upt_rec)
    next
      case (4 a b c)
      with vs Some len [symmetric] octets_4 [of a b c l] show ?thesis
        by (simp add: ipv4Octets_def inet_aton_def address_of_def Let_def octet_of_div upt_rec)
    qed
  qed
qed


section \<open>The metadata network\<close>

lemma code_lower: "code (lower c) = (if is_upper c \<or> (192 \<le> code c \<and> code c \<le> 222 \<and> code c \<noteq> 215) then code c + 32 else code c)"
  by (auto simp: lower_def is_upper_def code_char_of)

lemma lower_digit: "is_digit (lower c) \<longleftrightarrow> is_digit c" "is_digit c \<Longrightarrow> lower c = c"
  by (auto simp: is_digit_def code_lower is_upper_def) (simp add: lower_def is_upper_def)

lemma lower_hex [simp]: "is_hex (lower c) \<longleftrightarrow> is_hex c"
  by (simp add: is_hex_def lower_digit)

lemma lower_octal [simp]: "is_octal (lower c) \<longleftrightarrow> is_octal c"
  by (auto simp: is_octal_def code_lower is_upper_def)

lemma lower_digit_value [simp]: "digit_value (lower c) = digit_value c"
  by (auto simp: digit_value_def lower_digit)

lemma lower_fixed: "code d < 65 \<Longrightarrow> lower c = d \<longleftrightarrow> c = d"
  by (auto simp flip: code_inject simp: code_lower is_upper_def)

lemma lower_dot: "lower c = CHR ''.'' \<longleftrightarrow> c = CHR ''.''" "lower c = CHR ''0'' \<longleftrightarrow> c = CHR ''0''"
  by (rule lower_fixed, simp add: code_def)+

lemma parse_digits_lower: "parse_digits b (map lower s) = parse_digits b s"
  by (simp add: parse_digits_def foldl_map)

lemma list_all_lower:
  "list_all is_hex (map lower s) \<longleftrightarrow> list_all is_hex s" "list_all is_octal (map lower s) \<longleftrightarrow> list_all is_octal s"
  "list_all is_digit (map lower s) \<longleftrightarrow> list_all is_digit s"
  by (simp_all add: list.pred_map comp_def lower_digit)

lemma part_value_lower: "part_value (map lower p) = part_value p"
proof (cases "length p > 1")
  case True
  then have "map lower p ! 0 = lower (p ! 0)" "map lower p ! 1 = lower (p ! 1)" by (cases p; cases "tl p"; simp)+
  moreover have "p \<noteq> []" using True by auto
  ultimately show ?thesis using True
    by (simp add: part_value_def drop_map list_all_lower parse_digits_lower lower_dot del: nth_map)
next
  case False
  then show ?thesis by (cases p) (simp_all add: part_value_def list_all_lower parse_digits_lower lower_digit(1) parse_digits_def)
qed

lemma split_on_lower: "split_on CHR ''.'' (map lower s) = map (map lower) (split_on CHR ''.'' s)"
  by (induction s) (auto simp: lower_dot split: list.splits)

lemma all_values_lower: "all_values (map (map lower) ps) = all_values ps"
  by (induction ps) (auto simp: part_value_lower split: option.splits)

lemma inet_aton_lower: "inet_aton (toLowerCase t) = inet_aton t"
  by (simp add: inet_aton_def toLowerCase_def split_on_lower all_values_lower)

text \<open>What an address is written with.\<close>

definition address_char :: "char \<Rightarrow> bool" where
  "address_char c \<longleftrightarrow> c = CHR ''.'' \<or> is_hex c \<or> lower c = CHR ''x''"

lemma hex_or_octal: "is_digit c \<Longrightarrow> is_hex c" "is_octal c \<Longrightarrow> is_hex c"
  by (auto simp: is_hex_def is_octal_def is_digit_def)

lemma part_value_chars:
  assumes "part_value p = Some v"
  shows "p \<noteq> []" "list_all address_char p"
proof -
  show "p \<noteq> []" using assms by (auto simp: part_value_def)
  have hex: "list_all address_char s" if "list_all is_hex s" for s
    using that by (simp add: list_all_iff address_char_def)
  moreover have "list_all is_hex s" if "list_all is_octal s \<or> list_all is_digit s" for s
    using that by (auto simp: list_all_iff hex_or_octal)
  moreover have "is_hex CHR ''0''" by (simp add: is_hex_def is_digit_def code_def)
  ultimately show "list_all address_char p"
    using assms by (cases p; cases "tl p") (auto simp: part_value_def address_char_def hex_or_octal split: if_splits)
qed

lemma all_values_chars: "all_values ps = Some vs \<Longrightarrow> \<forall>p \<in> set ps. p \<noteq> [] \<and> list_all address_char p"
  by (induction ps arbitrary: vs) (auto split: option.splits dest: part_value_chars)

lemma split_on_chars: "\<forall>p \<in> set (split_on c s). list_all P p \<Longrightarrow> P c \<Longrightarrow> list_all P s"
  by (induction s) (auto split: list.splits if_splits)

lemma octets_fold: "list_all (\<lambda>v. v < 256) vs \<Longrightarrow> foldl (\<lambda>a v. 256 * a + v) 0 vs < 256 ^ length (vs :: nat list)"
  by (induction vs rule: rev_induct) auto

lemma address_of_less:
  assumes "address_of vs = Some n" "vs \<noteq> []"
  shows "n < 2 ^ 32"
proof -
  let ?f = "foldl (\<lambda>a v. 256 * a + v) 0 (butlast vs)"
  from assms have n: "n = ?f * 256 ^ (5 - length vs) + last vs" "last vs < 256 ^ (5 - length vs)" "length vs \<le> 4"
    and f: "?f < 256 ^ length (butlast vs)"
    using octets_fold [of "butlast vs"] by (auto simp: address_of_def split: if_splits)
  have "n < (?f + 1) * 256 ^ (5 - length vs)" using n by simp
  also have "\<dots> \<le> 256 ^ length (butlast vs) * 256 ^ (5 - length vs)" using f by (intro mult_right_mono) auto
  also have "\<dots> = 256 ^ 4"
    using n(3) assms(2) by (simp add: power_add [symmetric] Suc_leI)
  finally show ?thesis by simp
qed

lemma inet_aton_chars:
  assumes "inet_aton t = Some n"
  shows "t \<noteq> []" "list_all address_char t" "n < 2 ^ 32"
proof -
  from assms obtain vs where vs: "all_values (split_on CHR ''.'' t) = Some vs" "address_of vs = Some n"
    by (auto simp: inet_aton_def bind_eq_Some_conv)
  show "t \<noteq> []" using all_values_chars [OF vs(1)] by auto
  show "list_all address_char t"
    by (rule split_on_chars [of "CHR ''.''"]) (use all_values_chars [OF vs(1)] in \<open>auto simp: address_char_def\<close>)
  show "n < 2 ^ 32" using address_of_less [OF vs(2)] all_values_length [OF vs(1)] split_on_nonempty by fastforce
qed


text \<open>The forms in which a host may carry an address: bare, in brackets, mapped into IPv6, or both.\<close>

definition wrappings :: "(string \<times> string) list" where
  "wrappings = [([], []), (''['', '']''), (''::ffff:'', []), (''[::ffff:'', '']'')]"

lemma address_char_not: "address_char c \<Longrightarrow> c \<noteq> CHR '':'' \<and> c \<noteq> CHR ''['' \<and> c \<noteq> CHR '']'' \<and> c \<noteq> CHR ''m'' \<and> \<not> line_end c"
  by (auto simp: address_char_def is_hex_def is_digit_def code_lower is_upper_def line_end_def js_char_defs code_def lower_def)

lemma unwrapped:
  assumes "(pre, post) \<in> set wrappings" "list_all address_char l" "l \<noteq> []"
  shows "or_default (mapped_part (strip_brackets (pre @ l @ post))) (strip_brackets (pre @ l @ post)) = l"
    "pre @ l @ post \<noteq> ''metadata.google.internal''"
proof -
  from assms(2,3) obtain c cs where l: "l = c # cs" "address_char c" by (cases l) auto
  from assms(2,3) have last: "address_char (last l)" by (simp add: list_all_iff)
  have ends: "list_all (\<lambda>c. \<not> line_end c) l" using assms(2) address_char_not by (auto simp: list_all_iff)
  note no = address_char_not [OF l(2)] address_char_not [OF last]
  have nf: "\<not> starts_with l ''::ffff:''" using no(1) l(1) by (simp add: starts_with_def)
  show "or_default (mapped_part (strip_brackets (pre @ l @ post))) (strip_brackets (pre @ l @ post)) = l"
    using assms(1) no ends nf l(1)
    by (auto simp: wrappings_def strip_brackets_def mapped_part_def or_default_def Let_def starts_with_def butlast_append)
  show "pre @ l @ post \<noteq> ''metadata.google.internal''"
    using assms(1) no l(1) by (auto simp: wrappings_def)
qed

lemma link_local_address_iff:
  assumes "inet_aton l = Some n"
  shows "link_local_address l \<longleftrightarrow> n div 2 ^ 16 = 169 * 256 + 254"
proof -
  note chars = inet_aton_chars [OF assms]
  then obtain c cs where l: "l = c # cs" "address_char c" by (cases l) auto
  have colon: "CHR '':'' \<notin> set l" using chars(2) address_char_not by (auto simp: list_all_iff)
  then have "l \<noteq> ''::1''" "l \<noteq> ''0:0:0:0:0:0:0:1''" by auto
  moreover have "\<not> starts_with l ''fe80:''"
  proof
    assume "starts_with l ''fe80:''"
    then have "take (length ''fe80:'') l = ''fe80:''" by (simp only: starts_with_def)
    then have "CHR '':'' \<in> set (take (length ''fe80:'') l)" by (simp only:) simp
    with colon show False by (meson in_set_takeD)
  qed
  ultimately have "link_local_address l \<longleftrightarrow> n div 2 ^ 24 mod 256 = 169 \<and> n div 2 ^ 16 mod 256 = 254"
    using assms by (simp add: link_local_address_def ipv4Octets_of octets_def)
  also have "n div 2 ^ 24 = n div 2 ^ 16 div 256" by (simp add: div_mult2_eq [symmetric])
  finally have "link_local_address l \<longleftrightarrow> n div 2 ^ 16 div 256 mod 256 = 169 \<and> n div 2 ^ 16 mod 256 = 254" .
  moreover have "n div 2 ^ 16 div 256 < 256" using chars(3) by (simp add: div_less_iff_less_mult)
  moreover have "x div 256 = 169 \<and> x mod 256 = 254 \<longleftrightarrow> x = 169 * 256 + 254" for x :: nat
  proof
    assume x: "x div 256 = 169 \<and> x mod 256 = 254"
    have "x = x div 256 * 256 + x mod 256" by (rule div_mult_mod_eq [symmetric])
    with x show "x = 169 * 256 + 254" by (simp only:)
  qed simp
  ultimately show ?thesis by (simp only: mod_less)
qed

text \<open>In every such form, and however it is spelled, exactly the addresses of 169.254.0.0/16 are link-local.\<close>

lemma isLinkLocal_iff:
  assumes "toLowerCase (trim host) = pre @ toLowerCase t @ post" "(pre, post) \<in> set wrappings" "inet_aton t = Some n"
  shows "isLinkLocal host \<longleftrightarrow> n div 2 ^ 16 = 169 * 256 + 254"
proof -
  from assms(3) have l: "inet_aton (toLowerCase t) = Some n" by (simp add: inet_aton_lower)
  note chars = inet_aton_chars [OF l]
  show ?thesis
    using unwrapped [OF assms(2) chars(2,1)] link_local_address_iff [OF l] by (simp add: isLinkLocal_def assms(1) Let_def)
qed

text \<open>The hexadecimal spelling of a mapped address is not among these forms, and is let through.\<close>

lemma mapped_hex_passes: "\<not> isLinkLocal ''[::ffff:a9fe:a9fe]''" "isLinkLocal ''[::ffff:169.254.169.254]''"
  "\<not> isLinkLocal ''metadata.google.internal.''"
  by code_simp+


section \<open>What may be opened\<close>

text \<open>
  Every host an allowed specification names is one of the allowed hosts, if there are any, and is no address of the metadata
  network 169.254.0.0/16 in any spelling of its four octets, bare, bracketed or mapped.
\<close>

definition dialled_hosts :: "ConnectionSpec \<Rightarrow> string list" where
  "dialled_hosts spec =
     (case cs_engine spec of
        JStr e \<Rightarrow>
          (case map_of ENGINE_DEFAULTS e of
             Some ByHost \<Rightarrow> (case cs_host spec of JStr h \<Rightarrow> [trim h] | _ \<Rightarrow> [])
           | Some ByUri \<Rightarrow> (case cs_uri spec of JStr u \<Rightarrow> mongoUriHosts (trim u) | _ \<Rightarrow> [])
           | _ \<Rightarrow> [])
      | _ \<Rightarrow> [])"

lemma need_field_Inr: "need_field f m d v = Inr s \<longleftrightarrow> (\<exists>t. v = JStr t \<and> s = trim t \<and> s \<noteq> [])"
  by (cases v) (auto simp: need_field_def or_default_def split: list.splits)

lemma uri_hosts_error_None: "uri_hosts_error options hs = None \<longleftrightarrow> (\<forall>h \<in> set hs. \<not> isLinkLocal h \<and> host_listed options h)"
  by (induction hs) auto

lemma need_field_sound: "need_field f m d v = Inr s \<Longrightarrow> \<exists>t. v = JStr t \<and> s = trim t"
  by (auto simp: need_field_Inr)

lemma assertSpecAllowed_hosts:
  assumes "assertSpecAllowed fs spec options = None" "h \<in> set (dialled_hosts spec)"
  shows "\<not> isLinkLocal h \<and> host_listed options h"
  using assms
  by (auto simp: assertSpecAllowed_def dialled_hosts_def host_spec_error_def uri_spec_error_def uri_hosts_error_None
      split: jsval.splits option.splits reached_by.splits sum.splits if_splits dest!: need_field_sound)

text \<open>The text of a path determines its segments, and a path below another extends it by segments.\<close>

definition plain_path :: "string list \<Rightarrow> bool" where
  "plain_path p \<longleftrightarrow> (\<forall>s \<in> set p. s \<noteq> [] \<and> CHR ''/'' \<notin> set s)"

lemma segment_split:
  assumes "y @ r = x @ s" "CHR ''/'' \<notin> set x" "CHR ''/'' \<notin> set y" "r = [] \<or> hd r = CHR ''/''" "s = [] \<or> hd s = CHR ''/''"
  shows "y = x \<and> r = s"
proof -
  have "takeWhile (\<lambda>c. c \<noteq> CHR ''/'') (z @ t) = z" if "CHR ''/'' \<notin> set z" "t = [] \<or> hd t = CHR ''/''" for z t
    using that by (induction z) (cases t; auto)+
  with assms show ?thesis by (metis same_append_eq)
qed

lemma slashes_end: "concat (map ((#) CHR ''/'') p) = [] \<or> hd (concat (map ((#) CHR ''/'') p)) = CHR ''/''"
  by (cases p) auto

lemma slashes_prefix:
  assumes "plain_path p" "plain_path b" "concat (map ((#) CHR ''/'') p) = concat (map ((#) CHR ''/'') b) @ t" "t = [] \<or> hd t = CHR ''/''"
  shows "prefix b p"
  using assms
proof (induction b arbitrary: p)
  case (Cons x xs)
  then obtain y ys where p: "p = y # ys" by (cases p) auto
  let ?r = "concat (map ((#) CHR ''/'') ys)" and ?s = "concat (map ((#) CHR ''/'') xs) @ t"
  have "?s = [] \<or> hd ?s = CHR ''/''" using slashes_end [of xs] Cons.prems(4) by (auto simp: hd_append)
  with Cons.prems(1-3) p have "y = x \<and> ?r = ?s"
    by (intro segment_split slashes_end) (auto simp: plain_path_def)
  with Cons.IH [of ys] Cons.prems(1,2,4) p show ?case by (auto simp: plain_path_def)
qed simp

lemma path_text_inside:
  assumes "plain_path p" "plain_path b"
    "path_text p = path_text b \<or> starts_with (path_text p) (if ends_with (path_text b) ''/'' then path_text b else path_text b @ ''/'')"
  shows "prefix b p"
proof (cases "b = []")
  case False
  then have b: "path_text b = concat (map ((#) CHR ''/'') b)" "b \<noteq> []" by (auto simp: path_text_def)
  have p: "path_text p = concat (map ((#) CHR ''/'') p) \<or> path_text p = ''/'' \<and> p = []" by (simp add: path_text_def)
  have "\<not> ends_with (path_text b) ''/''"
  proof -
    have "last b \<noteq> []" "CHR ''/'' \<notin> set (last b)" using assms(2) False by (auto simp: plain_path_def)
    moreover have "path_text b = concat (map ((#) CHR ''/'') (butlast b)) @ CHR ''/'' # last b"
      using b(1) append_butlast_last_id [OF False] by (metis concat_append concat.simps append_Nil2 list.simps(8,9) map_append)
    ultimately have "last (path_text b) \<noteq> CHR ''/''" by (metis last.simps last_appendR last_in_set list.distinct(1))
    then show ?thesis by (auto simp: ends_with_suffix suffix_def)
  qed
  with assms(3) obtain t where t: "path_text p = path_text b @ t" "t = [] \<or> hd t = CHR ''/''"
    by (auto simp: starts_with_prefix prefix_def)
  have "length (path_text b) \<ge> 2" using b assms(2) by (cases b) (auto simp: plain_path_def Suc_leI)
  then have "path_text p \<noteq> ''/''" using t(1) by (metis (no_types) One_nat_def Suc_1 add_leD1 length_append list.size(3,4) not_less_eq_eq add_0 plus_1_eq_Suc)
  with t(1) p b(1) have "concat (map ((#) CHR ''/'') p) = concat (map ((#) CHR ''/'') b) @ t" by auto
  with slashes_prefix [OF assms(1,2) _ t(2)] show ?thesis by blast
qed simp

lemma split_on_plain: "s \<in> set (split_on c t) \<Longrightarrow> c \<notin> set s"
  by (induction t arbitrary: s) (auto split: list.splits if_splits)

lemma plain_path_Nil [simp]: "plain_path []"
  by (simp add: plain_path_def)

lemma plain_path_Cons [simp]: "plain_path (x # p) \<longleftrightarrow> x \<noteq> [] \<and> CHR ''/'' \<notin> set x \<and> plain_path p"
  by (auto simp: plain_path_def)

lemma plain_path_snoc [simp]: "plain_path (p @ [x]) \<longleftrightarrow> plain_path p \<and> x \<noteq> [] \<and> CHR ''/'' \<notin> set x"
  by (auto simp: plain_path_def)

lemma plain_path_split: "plain_path p \<Longrightarrow> p \<noteq> [] \<Longrightarrow> plain_path (butlast p) \<and> last p \<noteq> [] \<and> CHR ''/'' \<notin> set (last p)"
  by (cases p rule: rev_cases) auto

lemma walk_path_plain: "plain_path at' \<Longrightarrow> \<forall>x \<in> set xs. CHR ''/'' \<notin> set x \<Longrightarrow> plain_path (walk_path at' xs)"
proof (induction at' xs rule: walk_path.induct)
  case (2 at' x xs)
  then show ?case using plain_path_split [of at'] by (cases "at' = []") auto
qed simp

lemma resolvePath_plain: "plain_path cwd \<Longrightarrow> plain_path (resolvePath cwd file')"
  unfolding resolvePath_def by (rule walk_path_plain) (auto dest: split_on_plain)

lemma realpathOr_plain:
  assumes rp: "\<And>p q. rp p = Some q \<Longrightarrow> plain_path q"
  shows "plain_path target \<Longrightarrow> plain_path (realpathOr rp target)"
proof (induction "length target" arbitrary: target rule: less_induct)
  case less
  show ?case
  proof (cases "rp target = None \<and> target \<noteq> []")
    case True
    with plain_path_split [OF less.prems] less.hyps [of "butlast target"] show ?thesis
      by (simp add: realpathOr.simps [of rp target])
  next
    case False
    with rp less.prems show ?thesis by (auto simp: realpathOr.simps [of rp target] split: option.split)
  qed
qed


definition data_root :: DynamicConnectionOptions where
  "data_root = \<lparr>dy_enabled = True, dy_allowedHosts = None, dy_allowedFileRoots = Some [''/srv/data''], dy_allowFileEngines = None\<rparr>"

definition data_spec :: "string \<Rightarrow> ConnectionSpec" where
  "data_spec db = \<lparr>cs_id = JUndef, cs_name = JStr ''d'', cs_engine = JStr ''sqlite'', cs_host = JUndef, cs_port = JUndef, cs_database = JStr db, cs_uri = JUndef\<rparr>"

definition plain_fs :: file_system where
  "plain_fs = \<lparr>fs_cwd = [''home''], fs_real = (\<lambda>_. None)\<rparr>"



definition uri_spec :: "string \<Rightarrow> ConnectionSpec" where
  "uri_spec u = \<lparr>cs_id = JUndef, cs_name = JStr ''m'', cs_engine = JStr ''mongodb'', cs_host = JUndef, cs_port = JUndef, cs_database = JStr ''d'', cs_uri = JStr u\<rparr>"



end
