(* ===== verification/Server_Stream.thy ===== *)
theory Server_Stream
  imports Transition_System
begin

text \<open>
  The event stream of \<open>POST /chat\<close> in \<open>packages/server/src/handler.ts\<close>, \<open>chat\<close> and \<open>mongoChat\<close>, which have the same body: the
  engine pushes events into a queue and wakes the generator, the generator drains the queue, sleeps while there is nothing to do, and
  ends with the outcome. A step is what happens between two points at which the generator or the engine can be suspended. One such
  point is easy to miss: \<open>yield* drain()\<close> in an asynchronous generator also awaits the end of \<open>drain\<close>, so an event can arrive between the
  look that found the queue empty and the generator's going to sleep; \<open>AfterDrain\<close> is the state in between.

  What is relied on of the engine: it emits no event after \<open>ask\<close> has settled.

  The properties: whatever the interleaving, the client gets every stage and token in order, then the outcome, then \<open>done\<close>; and
  once the engine has settled the stream cannot get stuck.
\<close>

section \<open>Model\<close>

datatype engine_event = Stage string | Token string | OtherEvent

datatype 'r wire_event = WireStage string | WireToken string | WireOutcome 'r | WireDone

text \<open>Where the generator is; \<open>Sleeping\<close> is when \<open>notify\<close> is set.\<close>

datatype stream_phase = Looping | Draining | AfterDrain | Sleeping | LastDrain | AfterLastDrain | Closing | Finished

record 'r stream =
  st_queue :: "engine_event list"
  st_settled :: "'r option"
  st_phase :: stream_phase
  st_sent :: "'r wire_event list"
  st_pushed :: "engine_event list"

definition new_stream :: "'r stream" where
  "new_stream = \<lparr>st_queue = [], st_settled = None, st_phase = Looping, st_sent = [], st_pushed = []\<rparr>"

fun wire_of :: "engine_event \<Rightarrow> 'r wire_event list" where
  "wire_of (Stage s) = [WireStage s]"
| "wire_of (Token t) = [WireToken t]"
| "wire_of OtherEvent = []"

definition wake :: "'r stream \<Rightarrow> 'r stream" where
  "wake s = (if st_phase s = Sleeping then s\<lparr>st_phase := Looping\<rparr> else s)"

definition onEvent :: "engine_event \<Rightarrow> 'r stream \<Rightarrow> 'r stream" where
  "onEvent e s = wake (s\<lparr>st_queue := st_queue s @ [e], st_pushed := st_pushed s @ [e]\<rparr>)"

definition settle_with :: "'r \<Rightarrow> 'r stream \<Rightarrow> 'r stream" where
  "settle_with r s = wake (s\<lparr>st_settled := Some r\<rparr>)"

text \<open>One step of the generator; none when it sleeps or has finished.\<close>

definition take_event :: "'r stream \<Rightarrow> stream_phase \<Rightarrow> 'r stream" where
  "take_event s next =
     (case st_queue s of
        e # q \<Rightarrow> s\<lparr>st_queue := q, st_sent := st_sent s @ wire_of e\<rparr>
      | [] \<Rightarrow> s\<lparr>st_phase := next\<rparr>)"

fun generator :: "'r stream \<Rightarrow> 'r stream option" where
  "generator s =
     (case st_phase s of
        Looping \<Rightarrow> Some (s\<lparr>st_phase := if st_settled s = None then Draining else LastDrain\<rparr>)
      | Draining \<Rightarrow> Some (take_event s AfterDrain)
      | AfterDrain \<Rightarrow> Some (s\<lparr>st_phase := if st_settled s = None then Sleeping else LastDrain\<rparr>)
      | Sleeping \<Rightarrow> None
      | LastDrain \<Rightarrow> Some (take_event s AfterLastDrain)
      | AfterLastDrain \<Rightarrow>
          (case st_settled s of
             None \<Rightarrow> None
           | Some r \<Rightarrow> Some (s\<lparr>st_sent := st_sent s @ [WireOutcome r], st_phase := Closing\<rparr>))
      | Closing \<Rightarrow> Some (s\<lparr>st_sent := st_sent s @ [WireDone], st_phase := Finished\<rparr>)
      | Finished \<Rightarrow> None)"

inductive stream_step :: "'r stream \<Rightarrow> 'r stream \<Rightarrow> bool" where
  push: "st_settled s = None \<Longrightarrow> stream_step s (onEvent e s)"
| settle_with: "st_settled s = None \<Longrightarrow> stream_step s (settle_with r s)"
| run: "generator s = Some t \<Longrightarrow> stream_step s t"

interpretation chat: transition_system new_stream stream_step .

section \<open>Nothing is lost\<close>

definition wire :: "engine_event list \<Rightarrow> 'r wire_event list" where
  "wire es = concat (map wire_of es)"

lemma wire_simps [simp]: "wire [] = []" "wire (es @ [e]) = wire es @ wire_of e" "wire (e # es) = wire_of e @ wire es"
  by (simp_all add: wire_def)

text \<open>What has been sent of what was pushed; the last drain starts only after the engine has settled.\<close>

definition tail_of :: "'r stream \<Rightarrow> 'r wire_event list" where
  "tail_of s =
     (case st_settled s of
        None \<Rightarrow> []
      | Some r \<Rightarrow> (case st_phase s of Closing \<Rightarrow> [WireOutcome r] | Finished \<Rightarrow> [WireOutcome r, WireDone] | _ \<Rightarrow> []))"

definition late :: "stream_phase \<Rightarrow> bool" where
  "late p \<longleftrightarrow> p \<in> {LastDrain, AfterLastDrain, Closing, Finished}"

definition in_order :: "'r stream \<Rightarrow> bool" where
  "in_order s \<longleftrightarrow>
     (\<exists>taken. st_pushed s = taken @ st_queue s \<and> st_sent s = wire taken @ tail_of s)
     \<and> (late (st_phase s) \<longrightarrow> st_settled s \<noteq> None)
     \<and> (late (st_phase s) \<and> st_phase s \<noteq> LastDrain \<longrightarrow> st_queue s = [])
     \<and> (st_phase s = Sleeping \<longrightarrow> st_settled s = None)"

lemma in_order_generator:
  assumes "in_order s" "generator s = Some t"
  shows "in_order t"
proof -
  from assms(1) obtain taken where t: "st_pushed s = taken @ st_queue s" "st_sent s = wire taken @ tail_of s" unfolding in_order_def by blast
  show ?thesis
  proof (cases "st_phase s \<in> {Draining, LastDrain} \<and> st_queue s \<noteq> []")
    case True
    then obtain e q where q: "st_queue s = e # q" by (cases "st_queue s") auto
    have s': "t = s\<lparr>st_queue := q, st_sent := st_sent s @ wire_of e\<rparr>"
      using True q assms(2) by (auto simp: take_event_def)
    have tail: "tail_of s = []" "tail_of t = []" using True s' by (auto simp: tail_of_def split: option.splits)
    show ?thesis
      unfolding in_order_def
    proof (intro conjI exI [of _ "taken @ [e]"])
      show "st_pushed t = (taken @ [e]) @ st_queue t" "st_sent t = wire (taken @ [e]) @ tail_of t" using t q s' tail by simp_all
      show "late (st_phase t) \<longrightarrow> st_settled t \<noteq> None" using assms(1) s' by (simp add: in_order_def)
    qed (use True s' in \<open>auto simp: late_def\<close>)
  next
    case False
    then have idle: "st_phase s \<in> {Draining, LastDrain} \<Longrightarrow> st_queue s = []" by blast
    have rest: "(late (st_phase s) \<longrightarrow> st_settled s \<noteq> None)" "(late (st_phase s) \<and> st_phase s \<noteq> LastDrain \<longrightarrow> st_queue s = [])"
      using assms(1) unfolding in_order_def by blast+
    show ?thesis
      unfolding in_order_def
    proof (intro conjI exI [of _ taken])
      show "st_pushed t = taken @ st_queue t" "st_sent t = wire taken @ tail_of t"
        using assms(2) t idle rest
        by (cases "st_phase s"; auto simp: take_event_def tail_of_def late_def split: option.splits)+
      show "late (st_phase t) \<longrightarrow> st_settled t \<noteq> None" "late (st_phase t) \<and> st_phase t \<noteq> LastDrain \<longrightarrow> st_queue t = []"
        "st_phase t = Sleeping \<longrightarrow> st_settled t = None"
        using assms(2) idle rest
        by (cases "st_phase s"; auto simp: take_event_def late_def split: option.splits if_splits)+
    qed
  qed
qed

lemma in_order_reach: "chat.reach s \<Longrightarrow> in_order s"
proof (rule chat.invariant [where P = in_order])
  show "in_order new_stream" by (simp add: in_order_def new_stream_def tail_of_def late_def)
next
  fix s t :: "'r stream"
  assume "in_order s" "stream_step s t"
  from this(2,1) show "in_order t"
  proof (cases rule: stream_step.cases)
    case (push e)
    with \<open>in_order s\<close> show ?thesis by (auto simp: in_order_def onEvent_def wake_def tail_of_def late_def)
  next
    case (settle_with r)
    with \<open>in_order s\<close> show ?thesis
      by (auto simp: in_order_def settle_with_def wake_def tail_of_def late_def split: stream_phase.splits)
  next
    case run
    with in_order_generator \<open>in_order s\<close> show ?thesis by blast
  qed
qed


section \<open>The stream ends\<close>

definition rank :: "stream_phase \<Rightarrow> nat" where
  "rank p =
     (case p of Sleeping \<Rightarrow> 8 | Draining \<Rightarrow> 7 | AfterDrain \<Rightarrow> 6 | Looping \<Rightarrow> 8 | LastDrain \<Rightarrow> 5 | AfterLastDrain \<Rightarrow> 4 | Closing \<Rightarrow> 3 | Finished \<Rightarrow> 0)"

definition work :: "'r stream \<Rightarrow> nat" where
  "work s = length (st_queue s) + rank (st_phase s)"

lemma settled_step:
  assumes "in_order s" "st_settled s = Some r" "st_phase s \<noteq> Finished"
  shows "\<exists>t. generator s = Some t"
  using assms by (cases "st_phase s") (auto simp: in_order_def)

lemma settled_work:
  assumes "stream_step s t" "st_settled s = Some r"
  shows "work t < work s \<and> st_settled t = Some r"
  using assms
  by (cases rule: stream_step.cases) (auto simp: work_def take_event_def rank_def split: stream_phase.splits list.splits option.splits if_splits)

lemma settled_finishes:
  assumes "chat.reach s" "st_settled s = Some r"
  shows "\<exists>t. stream_step\<^sup>*\<^sup>* s t \<and> st_phase t = Finished"
  using assms
proof (induction "work s" arbitrary: s rule: less_induct)
  case less
  show ?case
  proof (cases "st_phase s = Finished")
    case False
    with settled_step in_order_reach less.prems obtain t where t: "stream_step s t" by (meson stream_step.run)
    with settled_work [OF t less.prems(2)] less.hyps [of t] chat.reach_step [OF less.prems(1) t] show ?thesis
      by (meson converse_rtranclp_into_rtranclp)
  qed auto
qed

text \<open>
  C28: once the engine has settled, the stream never gets stuck: short of its end a step is possible, no matter how the events before
  interleaved, every step leaves less to do, and so every run from there ends, with the stream finished.
\<close>

theorem chat_stream_ends:
  assumes "stream_step\<^sup>*\<^sup>* new_stream s" "st_settled s = Some r"
  shows "(st_phase s \<noteq> Finished \<longrightarrow> (\<exists>t. stream_step s t)) \<and> (\<forall>t. stream_step s t \<longrightarrow> work t < work s)
    \<and> (\<exists>t. stream_step\<^sup>*\<^sup>* s t \<and> st_phase t = Finished)"
proof -
  have r: "chat.reach s" using assms(1) by (simp add: chat.reach_def)
  show ?thesis
    using settled_step [OF in_order_reach [OF r] assms(2)] settled_work [OF _ assms(2)] settled_finishes [OF r assms(2)] stream_step.run
    by blast
qed

section \<open>A run\<close>

text \<open>A wake-up is lost when an event arrives in the window: the generator sleeps although there is something to send.\<close>

definition delayed :: "nat stream" where
  "delayed = \<lparr>st_queue = [Token ''a''], st_settled = None, st_phase = Sleeping, st_sent = [], st_pushed = [Token ''a'']\<rparr>"

lemma event_delayed: "stream_step\<^sup>*\<^sup>* new_stream delayed"
proof -
  let ?s1 = "new_stream\<lparr>st_phase := Draining\<rparr> :: nat stream" and ?s2 = "new_stream\<lparr>st_phase := AfterDrain\<rparr> :: nat stream"
  have "stream_step new_stream ?s1" by (rule stream_step.run) (simp add: new_stream_def)
  moreover have "stream_step ?s1 ?s2" by (rule stream_step.run) (simp add: new_stream_def take_event_def)
  moreover have "stream_step ?s2 (onEvent (Token ''a'') ?s2)" by (rule stream_step.push) (simp add: new_stream_def)
  moreover have "stream_step (onEvent (Token ''a'') ?s2) delayed"
    by (rule stream_step.run) (simp add: new_stream_def onEvent_def wake_def delayed_def)
  ultimately show ?thesis by (meson rtranclp.rtrancl_into_rtrancl rtranclp.rtrancl_refl)
qed

definition ended :: "nat stream" where
  "ended = \<lparr>st_queue = [], st_settled = Some 7, st_phase = Finished, st_sent = [WireToken ''a'', WireOutcome 7, WireDone], st_pushed = [Token ''a'']\<rparr>"

lemma delayed_settled: "stream_step\<^sup>*\<^sup>* new_stream (settle_with 7 delayed)"
  using event_delayed stream_step.settle_with [of delayed 7] by (simp add: delayed_def)

lemma delayed_ends: "stream_step\<^sup>*\<^sup>* (settle_with 7 delayed) ended"
proof -
  let ?s = "\<lambda>q p out. \<lparr>st_queue = q, st_settled = Some 7, st_phase = p, st_sent = out, st_pushed = [Token ''a'']\<rparr> :: nat stream"
  have "settle_with 7 delayed = ?s [Token ''a''] Looping []" by (simp add: settle_with_def wake_def delayed_def)
  moreover have "stream_step (?s [Token ''a''] Looping []) (?s [Token ''a''] LastDrain [])" by (rule stream_step.run) simp
  moreover have "stream_step (?s [Token ''a''] LastDrain []) (?s [] LastDrain [WireToken ''a''])"
    by (rule stream_step.run) (simp add: take_event_def)
  moreover have "stream_step (?s [] LastDrain [WireToken ''a'']) (?s [] AfterLastDrain [WireToken ''a''])"
    by (rule stream_step.run) (simp add: take_event_def)
  moreover have "stream_step (?s [] AfterLastDrain [WireToken ''a'']) (?s [] Closing [WireToken ''a'', WireOutcome 7])"
    by (rule stream_step.run) simp
  moreover have "stream_step (?s [] Closing [WireToken ''a'', WireOutcome 7]) ended" by (rule stream_step.run) (simp add: ended_def)
  ultimately show ?thesis by (metis (no_types, lifting) rtranclp.rtrancl_into_rtrancl rtranclp.rtrancl_refl)
qed


theorem chat_stream_ends_witness: "\<exists>t. stream_step\<^sup>*\<^sup>* (settle_with 7 delayed) t \<and> st_phase t = Finished"
  using chat_stream_ends [OF delayed_settled, of 7] by (simp add: settle_with_def wake_def delayed_def)

end
