(* ===== verification/Server_Connections.thy ===== *)
theory Server_Connections
  imports Transition_System JS_Prelude
begin

text \<open>
  The connections of a running server: \<open>createConnection\<close>, \<open>deleteConnection\<close> and \<open>setConnectors\<close> of the class \<open>AskSqlServer\<close> in
  \<open>packages/server/src/handler.ts\<close>. Both handlers await (the driver, its connecting, its closing) between their checks and their
  effects, so requests interleave: a step is what one handler does between two awaits, and the requests that are waiting are part of
  the state. Of a connection only the identifier and the kind matter here.

  The properties: whatever requests come in and however they interleave, no identifier is ever used twice, the engine plans against
  the connections there are, and a connection the operator configured is never removed.
\<close>

section \<open>Model\<close>

record registry =
  rg_connectors :: "string list"
  rg_mongo :: "string list"
  rg_engine :: "string list option"
  rg_creating :: "string list"
  rg_dynamic :: "string list"
  rg_seq :: nat
  rg_creates :: "(string \<times> bool) list"
  rg_deletes :: "(string \<times> bool) list"

text \<open>\<open>createAskSql\<close> needs a connector, so without one there is no engine.\<close>

definition buildEngine :: "string list \<Rightarrow> string list option" where
  "buildEngine connectors = (if connectors = [] then None else Some connectors)"

definition setConnectors :: "string list \<Rightarrow> registry \<Rightarrow> registry" where
  "setConnectors next s = s\<lparr>rg_connectors := next, rg_engine := buildEngine next\<rparr>"

definition new_registry :: "string list \<Rightarrow> string list \<Rightarrow> registry" where
  "new_registry connectors mongo =
     \<lparr>rg_connectors = connectors, rg_mongo = mongo, rg_engine = buildEngine connectors, rg_creating = [], rg_dynamic = [], rg_seq = 0,
      rg_creates = [], rg_deletes = []\<rparr>"

definition known :: "registry \<Rightarrow> string \<Rightarrow> bool" where
  "known s i \<longleftrightarrow> i \<in> set (rg_connectors s) \<or> i \<in> set (rg_mongo s)"

text \<open>\<open>spec.id?.trim() || `dyn_${++this.dynamicSeq}`\<close>\<close>

definition pick_id :: "string option \<Rightarrow> registry \<Rightarrow> string \<times> registry" where
  "pick_id wanted s =
     (case wanted of
        Some i \<Rightarrow> if trim i \<noteq> [] then (trim i, s) else (''dyn_'' @ show_nat (rg_seq s + 1), s\<lparr>rg_seq := rg_seq s + 1\<rparr>)
      | None \<Rightarrow> (''dyn_'' @ show_nat (rg_seq s + 1), s\<lparr>rg_seq := rg_seq s + 1\<rparr>))"

text \<open>From the choice of the identifier to the first await: refused, or reserved and waiting for the driver.\<close>

definition reserve :: "string option \<Rightarrow> bool \<Rightarrow> registry \<Rightarrow> registry" where
  "reserve wanted mongo s0 =
     (let (i, s) = pick_id wanted s0 in
      if known s i \<or> i \<in> set (rg_creating s) then s
      else s\<lparr>rg_creating := i # rg_creating s, rg_creates := (i, mongo) # rg_creates s\<rparr>)"

text \<open>The driver is connected; the \<open>finally\<close> gives the reservation back.\<close>

definition created :: "string \<Rightarrow> bool \<Rightarrow> registry \<Rightarrow> registry" where
  "created i mongo s =
     (let s1 = (if mongo then s\<lparr>rg_mongo := add_new i (rg_mongo s)\<rparr> else setConnectors (rg_connectors s @ [i]) s)
      in s1\<lparr>rg_dynamic := add_new i (rg_dynamic s1), rg_creating := removeAll i (rg_creating s1), rg_creates := remove1 (i, mongo) (rg_creates s1)\<rparr>)"

definition not_created :: "string \<Rightarrow> bool \<Rightarrow> registry \<Rightarrow> registry" where
  "not_created i mongo s = s\<lparr>rg_creating := removeAll i (rg_creating s), rg_creates := remove1 (i, mongo) (rg_creates s)\<rparr>"

text \<open>A removal: refused, or waiting for the connection to close.\<close>

definition start_delete :: "string \<Rightarrow> registry \<Rightarrow> registry" where
  "start_delete i s =
     (if known s i \<and> i \<in> set (rg_dynamic s) then s\<lparr>rg_deletes := (i, i \<in> set (rg_mongo s)) # rg_deletes s\<rparr> else s)"

definition deleted :: "string \<Rightarrow> bool \<Rightarrow> registry \<Rightarrow> registry" where
  "deleted i mongo s =
     (let s1 = (if mongo then s\<lparr>rg_mongo := removeAll i (rg_mongo s)\<rparr> else setConnectors (filter (\<lambda>j. j \<noteq> i) (rg_connectors s)) s)
      in s1\<lparr>rg_dynamic := removeAll i (rg_dynamic s1), rg_deletes := remove1 (i, mongo) (rg_deletes s1)\<rparr>)"

definition not_deleted :: "string \<Rightarrow> bool \<Rightarrow> registry \<Rightarrow> registry" where
  "not_deleted i mongo s = s\<lparr>rg_deletes := remove1 (i, mongo) (rg_deletes s)\<rparr>"

inductive registry_step :: "registry \<Rightarrow> registry \<Rightarrow> bool" where
  create_request: "registry_step s (reserve wanted mongo s)"
| create_succeeds: "(i, mongo) \<in> set (rg_creates s) \<Longrightarrow> registry_step s (created i mongo s)"
| create_fails: "(i, mongo) \<in> set (rg_creates s) \<Longrightarrow> registry_step s (not_created i mongo s)"
| delete_request: "registry_step s (start_delete i s)"
| delete_succeeds: "(i, mongo) \<in> set (rg_deletes s) \<Longrightarrow> registry_step s (deleted i mongo s)"
| delete_fails: "(i, mongo) \<in> set (rg_deletes s) \<Longrightarrow> registry_step s (not_deleted i mongo s)"

interpretation reg: transition_system "new_registry sql mongo" registry_step for sql mongo .

section \<open>The invariant\<close>

definition operator_ids :: "string list \<Rightarrow> string list \<Rightarrow> string set" where
  "operator_ids sql mongo = set sql \<union> set mongo"

definition registry_ok :: "string list \<Rightarrow> string list \<Rightarrow> registry \<Rightarrow> bool" where
  "registry_ok sql mongo s \<longleftrightarrow>
     distinct (rg_connectors s @ rg_mongo s)
     \<and> rg_engine s = buildEngine (rg_connectors s)
     \<and> distinct (map fst (rg_creates s)) \<and> set (rg_creating s) = fst ` set (rg_creates s)
     \<and> (\<forall>i \<in> set (rg_creating s). \<not> known s i)
     \<and> set sql \<subseteq> set (rg_connectors s) \<and> set mongo \<subseteq> set (rg_mongo s)
     \<and> operator_ids sql mongo \<inter> set (rg_dynamic s) = {}
     \<and> operator_ids sql mongo \<inter> fst ` set (rg_deletes s) = {}"

lemma registry_okD:
  assumes "registry_ok sql mongo s"
  shows "distinct (rg_connectors s @ rg_mongo s)" "rg_engine s = buildEngine (rg_connectors s)" "distinct (map fst (rg_creates s))"
    "set (rg_creating s) = fst ` set (rg_creates s)" "\<And>i. i \<in> set (rg_creating s) \<Longrightarrow> \<not> known s i"
    "set sql \<subseteq> set (rg_connectors s)" "set mongo \<subseteq> set (rg_mongo s)" "operator_ids sql mongo \<inter> set (rg_dynamic s) = {}"
    "operator_ids sql mongo \<inter> fst ` set (rg_deletes s) = {}"
  using assms unfolding registry_ok_def by blast+

lemma known_simps [simp]:
  "known (s\<lparr>rg_creating := x\<rparr>) = known s" "known (s\<lparr>rg_creates := y\<rparr>) = known s" "known (s\<lparr>rg_seq := n\<rparr>) = known s"
  "known (s\<lparr>rg_dynamic := d\<rparr>) = known s" "known (s\<lparr>rg_deletes := e\<rparr>) = known s"
  by (auto simp: known_def fun_eq_iff)

lemma pick_id_same: "pick_id wanted s = (i, t) \<Longrightarrow> \<exists>n. t = s\<lparr>rg_seq := n\<rparr>"
  by (auto simp: pick_id_def split: option.splits if_splits intro: exI [of _ "rg_seq s"])

lemma registry_ok_seq [simp]: "registry_ok sql mongo (s\<lparr>rg_seq := n\<rparr>) \<longleftrightarrow> registry_ok sql mongo s"
  by (simp add: registry_ok_def)

lemma ok_reserve:
  assumes "registry_ok sql mongo s"
  shows "registry_ok sql mongo (reserve wanted m s)"
proof -
  obtain i t where t: "pick_id wanted s = (i, t)" by force
  from pick_id_same [OF t] obtain n where n: "t = s\<lparr>rg_seq := n\<rparr>" by blast
  have "i \<notin> fst ` set (rg_creates s)" if "i \<notin> set (rg_creating s)" using that assms by (simp add: registry_ok_def)
  with assms show ?thesis by (auto simp: reserve_def t n registry_ok_def Let_def)
qed

lemma removed_pair:
  assumes "distinct (map fst xs)" "(i, m) \<in> set xs"
  shows "fst ` set (remove1 (i, m) xs) = fst ` set xs - {i}" "distinct (map fst (remove1 (i, m) xs))"
  using assms by (induction xs) (auto simp: rev_image_eqI)

lemma ok_not_created:
  assumes "registry_ok sql mongo s" "(i, m) \<in> set (rg_creates s)"
  shows "registry_ok sql mongo (not_created i m s)"
  using assms removed_pair [of "rg_creates s" i m] by (auto simp: registry_ok_def not_created_def)

lemma created_sel [simp]:
  "rg_creates (created i m s) = remove1 (i, m) (rg_creates s)" "rg_deletes (created i m s) = rg_deletes s"
  "rg_creating (created i m s) = removeAll i (rg_creating s)" "set (rg_dynamic (created i m s)) = insert i (set (rg_dynamic s))"
  "known (created i m s) j \<longleftrightarrow> j = i \<or> known s j"
  "rg_connectors (created i m s) = (if m then rg_connectors s else rg_connectors s @ [i])"
  "rg_mongo (created i m s) = (if m then add_new i (rg_mongo s) else rg_mongo s)"
  "rg_engine (created i m s) = (if m then rg_engine s else buildEngine (rg_connectors s @ [i]))"
  by (auto simp: created_def setConnectors_def Let_def known_def)

lemma deleted_sel [simp]:
  "rg_creates (deleted i m s) = rg_creates s" "rg_deletes (deleted i m s) = remove1 (i, m) (rg_deletes s)"
  "rg_creating (deleted i m s) = rg_creating s" "rg_dynamic (deleted i m s) = removeAll i (rg_dynamic s)"
  "rg_connectors (deleted i m s) = (if m then rg_connectors s else filter (\<lambda>j. j \<noteq> i) (rg_connectors s))"
  "rg_mongo (deleted i m s) = (if m then removeAll i (rg_mongo s) else rg_mongo s)"
  "rg_engine (deleted i m s) = (if m then rg_engine s else buildEngine (filter (\<lambda>j. j \<noteq> i) (rg_connectors s)))"
  by (auto simp: deleted_def setConnectors_def Let_def)

lemma known_deleted: "known (deleted i m s) j \<Longrightarrow> known s j"
  by (auto simp: known_def split: if_splits)

lemma ok_created:
  assumes "registry_ok sql mongo s" and i: "(i, m) \<in> set (rg_creates s)"
  shows "registry_ok sql mongo (created i m s)"
proof -
  note ok = registry_okD [OF assms(1)]
  have creating: "i \<in> set (rg_creating s)" unfolding ok(4) using i by (rule rev_image_eqI) simp
  then have new: "i \<notin> set (rg_connectors s)" "i \<notin> set (rg_mongo s)" "i \<notin> operator_ids sql mongo"
    using ok(5) [of i] ok(6,7) by (auto simp: known_def operator_ids_def)
  note creates = removed_pair [OF ok(3) i]
  show ?thesis
    unfolding registry_ok_def
  proof (intro conjI)
    show "distinct (rg_connectors (created i m s) @ rg_mongo (created i m s))"
      using ok(1) new by (simp add: add_new_def)
    show "rg_engine (created i m s) = buildEngine (rg_connectors (created i m s))" using ok(2) by simp
    show "distinct (map fst (rg_creates (created i m s)))" using creates(2) by simp
    show "set (rg_creating (created i m s)) = fst ` set (rg_creates (created i m s))" using creates(1) ok(4) by simp
    show "\<forall>j \<in> set (rg_creating (created i m s)). \<not> known (created i m s) j" using ok(5) by simp
    show "set sql \<subseteq> set (rg_connectors (created i m s))" using ok(6) by auto
    show "set mongo \<subseteq> set (rg_mongo (created i m s))" using ok(7) by auto
    show "operator_ids sql mongo \<inter> set (rg_dynamic (created i m s)) = {}" using ok(8) new(3) by simp
    show "operator_ids sql mongo \<inter> fst ` set (rg_deletes (created i m s)) = {}" using ok(9) by simp
  qed
qed

lemma fewer_deletes: "fst ` set (remove1 x xs) \<subseteq> fst ` set xs"
  by (rule image_mono) (rule set_remove1_subset)

lemma ok_deleted:
  assumes "registry_ok sql mongo s" and i: "(i, m) \<in> set (rg_deletes s)"
  shows "registry_ok sql mongo (deleted i m s)"
proof -
  note ok = registry_okD [OF assms(1)]
  have "i \<in> fst ` set (rg_deletes s)" using i by (rule rev_image_eqI) simp
  then have new: "i \<notin> set sql" "i \<notin> set mongo" using ok(9) by (auto simp: operator_ids_def)
  show ?thesis
    unfolding registry_ok_def
  proof (intro conjI)
    show "distinct (rg_connectors (deleted i m s) @ rg_mongo (deleted i m s))"
      using ok(1) by (auto simp: distinct_removeAll)
    show "rg_engine (deleted i m s) = buildEngine (rg_connectors (deleted i m s))" using ok(2) by simp
    show "distinct (map fst (rg_creates (deleted i m s)))" "set (rg_creating (deleted i m s)) = fst ` set (rg_creates (deleted i m s))"
      using ok(3,4) by simp_all
    show "\<forall>j \<in> set (rg_creating (deleted i m s)). \<not> known (deleted i m s) j" using ok(5) by (auto dest: known_deleted)
    show "set sql \<subseteq> set (rg_connectors (deleted i m s))" using ok(6) new by auto
    show "set mongo \<subseteq> set (rg_mongo (deleted i m s))" using ok(7) new by auto
    show "operator_ids sql mongo \<inter> set (rg_dynamic (deleted i m s)) = {}" using ok(8) by auto
    show "operator_ids sql mongo \<inter> fst ` set (rg_deletes (deleted i m s)) = {}"
      using ok(9) fewer_deletes [of "(i, m)" "rg_deletes s"] unfolding deleted_sel by blast
  qed
qed

lemma ok_not_deleted:
  assumes "registry_ok sql mongo s"
  shows "registry_ok sql mongo (not_deleted i m s)"
proof -
  have "operator_ids sql mongo \<inter> fst ` set (remove1 (i, m) (rg_deletes s)) = {}"
    using registry_okD(9) [OF assms] fewer_deletes [of "(i, m)" "rg_deletes s"] by blast
  with assms show ?thesis unfolding registry_ok_def not_deleted_def by simp
qed

lemma ok_start_delete:
  assumes "registry_ok sql mongo s"
  shows "registry_ok sql mongo (start_delete i s)"
  using registry_okD(8) [OF assms] assms by (auto simp: registry_ok_def start_delete_def)

lemma ok_reach: "reg.reach sql mongo s \<Longrightarrow> distinct (sql @ mongo) \<Longrightarrow> registry_ok sql mongo s"
proof (erule reg.invariant [where P = "registry_ok sql mongo"])
  assume "distinct (sql @ mongo)"
  then show "registry_ok sql mongo (new_registry sql mongo)" by (simp add: registry_ok_def new_registry_def)
next
  fix s t
  assume "registry_ok sql mongo s" "registry_step s t"
  from this(2,1) show "registry_ok sql mongo t"
    by (cases rule: registry_step.cases)
      (auto intro: ok_reserve ok_created ok_not_created ok_deleted ok_not_deleted ok_start_delete)
qed

text \<open>
  C26: whatever requests to create and remove connections come in, and however they interleave: no identifier ever stands for two
  connections, the engine plans against exactly the connections there are, and the connections the operator configured are all
  still there and cannot be removed by a client.
\<close>

theorem registry_safe:
  assumes "registry_step\<^sup>*\<^sup>* (new_registry sql mongo) s" "distinct (sql @ mongo)"
  shows "distinct (rg_connectors s @ rg_mongo s) \<and> rg_engine s = buildEngine (rg_connectors s)
    \<and> set sql \<subseteq> set (rg_connectors s) \<and> set mongo \<subseteq> set (rg_mongo s)
    \<and> (set sql \<union> set mongo) \<inter> set (rg_dynamic s) = {}"
  using ok_reach [of sql mongo s] assms unfolding reg.reach_def by (simp add: registry_ok_def operator_ids_def)


section \<open>A removal that comes too late\<close>

text \<open>
  Two removals of one connection both pass the checks while the first is still closing. If the identifier is used again in between, the
  second removes the connection that was just created, which is never closed.
\<close>

definition twice_removed :: registry where
  "twice_removed = (new_registry [] [])\<lparr>rg_deletes := [(''a'', False)], rg_seq := 0\<rparr>"

lemma late_removal:
  "registry_step\<^sup>*\<^sup>* (new_registry [] []) (reserve (Some ''a'') False twice_removed)"
  "created ''a'' False (reserve (Some ''a'') False twice_removed)
     = (new_registry [''a''] [])\<lparr>rg_deletes := [(''a'', False)], rg_dynamic := [''a'']\<rparr>"
  "rg_connectors (deleted ''a'' False (created ''a'' False (reserve (Some ''a'') False twice_removed))) = []"
proof -
  let ?s0 = "new_registry [] []" and ?a = "trim ''a''"
  have a: "trim ''a'' = ''a''" by code_simp
  let ?s1 = "reserve (Some ''a'') False ?s0"
  let ?s2 = "created ''a'' False ?s1"
  let ?s3 = "start_delete ''a'' (start_delete ''a'' ?s2)"
  have "registry_step ?s0 ?s1" by (rule registry_step.create_request)
  moreover have "registry_step ?s1 ?s2"
    by (rule registry_step.create_succeeds) (simp add: reserve_def pick_id_def a new_registry_def known_def)
  moreover have "registry_step ?s2 (start_delete ''a'' ?s2)" "registry_step (start_delete ''a'' ?s2) ?s3"
    by (rule registry_step.delete_request)+
  moreover have s3: "?s3 = (new_registry [''a''] [])\<lparr>rg_deletes := [(''a'', False), (''a'', False)], rg_dynamic := [''a'']\<rparr>"
    by (simp add: start_delete_def created_def reserve_def pick_id_def a new_registry_def known_def setConnectors_def add_new_def Let_def)
  moreover have "registry_step ?s3 (deleted ''a'' False ?s3)" by (rule registry_step.delete_succeeds) (simp add: s3)
  moreover have "deleted ''a'' False ?s3 = twice_removed"
    unfolding s3 by (simp add: deleted_def setConnectors_def new_registry_def twice_removed_def Let_def)
  moreover have "registry_step twice_removed (reserve (Some ''a'') False twice_removed)" by (rule registry_step.create_request)
  ultimately show "registry_step\<^sup>*\<^sup>* ?s0 (reserve (Some ''a'') False twice_removed)"
    by (metis (no_types, lifting) rtranclp.rtrancl_into_rtrancl rtranclp.rtrancl_refl)
  show c: "created ''a'' False (reserve (Some ''a'') False twice_removed)
     = (new_registry [''a''] [])\<lparr>rg_deletes := [(''a'', False)], rg_dynamic := [''a'']\<rparr>"
    by (simp add: created_def reserve_def pick_id_def a new_registry_def twice_removed_def known_def setConnectors_def add_new_def Let_def)
  show "rg_connectors (deleted ''a'' False (created ''a'' False (reserve (Some ''a'') False twice_removed))) = []"
    unfolding c by (simp add: new_registry_def)
qed

theorem registry_safe_witness:
  "distinct (rg_connectors (reserve (Some ''a'') False twice_removed) @ rg_mongo (reserve (Some ''a'') False twice_removed))"
  using registry_safe [OF late_removal(1)] by simp

end
