(* ===== verification/Server_Requests.thy ===== *)
theory Server_Requests
  imports Server_Hosts Engine_Run
begin

text \<open>
  The requests of \<open>AskSqlServer\<close> in \<open>packages/server/src/handler.ts\<close>: the checks on origin and identity, the scope of a caller, each
  route, the audit, and how an error becomes a response. One request runs here alone (how the creation and removal of connections
  interleave is the matter of \<open>Server_Connections\<close>, the events of a chat that of \<open>Server_Stream\<close>); what the engines answer is an
  argument, a function of the calls made so far, and the calls are recorded.

  The properties: no engine and no history is asked for a connection outside the scope the identity hook gave, and none at all for a
  request that fails the checks before; a caller cannot tell a connection of others from one that does not exist; every run of a
  statement is audited once, with its outcome; an error never leaves as a success and shows no more than its code and its message.
\<close>

section \<open>Model: requests, calls and the state\<close>

record server_request =
  sr_method :: string
  sr_path :: string
  sr_query :: "string \<rightharpoonup> string"
  sr_headers :: "string \<rightharpoonup> string"
  sr_json :: "thrown + jsval"

record AuthContext =
  au_userId :: string
  au_allowed :: "string list"

record server_connection =
  sc_id :: string
  sc_name :: string
  sc_engine :: string
  sc_database :: "string option"
  sc_capabilities :: jsval

datatype engine_call =
    SqlCatalog string bool
  | SqlAsk string string "turn list option" string
  | SqlExecute string string jsval jsval string
  | SqlSuggestFix string string jsval "string option"
  | SqlExplain string string
  | SqlExplainSchema string string "turn list option"
  | SqlFeedback string string string string
  | MongoInvalidate string
  | MongoCatalog string
  | MongoAsk string string "turn list"
  | MongoExecute string string string jsval
  | MongoExplain string string
  | MongoExplainSchema string string "turn list option"

record engines =
  eg_catalog :: "engine_call list \<Rightarrow> thrown + SchemaCatalog"
  eg_execute :: "engine_call list \<Rightarrow> thrown + ResultSet"
  eg_suggestFix :: "engine_call list \<Rightarrow> thrown + string option"
  eg_explain :: "engine_call list \<Rightarrow> thrown + string"
  eg_explainSchema :: "engine_call list \<Rightarrow> thrown + SchemaAnswer"
  eg_feedback :: "engine_call list \<Rightarrow> thrown + unit"
  eg_connect :: "ConnectionSpec \<Rightarrow> string \<Rightarrow> thrown + server_connection"
  eg_close :: "string \<Rightarrow> thrown option"

record server_config =
  cf_auth :: "server_request \<Rightarrow> thrown + AuthContext option"
  cf_requireLoopbackHost :: bool
  cf_dynamicConnections :: "DynamicConnectionOptions option"
  cf_suggestFixOnError :: bool
  cf_audit :: bool
  cf_files :: file_system
  cf_engines :: engines

record audit_record =
  ad_seq :: nat
  ad_connectionId :: string
  ad_userId :: string
  ad_sql :: string
  ad_status :: history_status
  ad_allowed :: bool
  ad_rowCount :: "jsnum option"

record server_state =
  sv_connectors :: "server_connection list"
  sv_mongo :: "server_connection list"
  sv_dynamicIds :: "string list"
  sv_dynamicSeq :: nat
  sv_creating :: "string list"
  sv_history :: MemoryHistoryStore
  sv_calls :: "engine_call list"
  sv_reads :: "(string \<times> string) list"
  sv_audits :: "audit_record list"
  sv_auditSeq :: nat
  sv_reports :: "thrown list"

text \<open>\<open>sv_reads\<close>: the connection and the user of each page of history that was read.\<close>

datatype response_body =
    ErrorBody "ErrorCode \<times> string \<times> bool" "string option"
  | ConnectionsBody "server_connection list"
  | CreatedBody string string string "string option"
  | RemovedBody string
  | CatalogBody SchemaCatalog
  | HistoryBody "HistoryEntry list" nat jsnum jsnum
  | ResultBody ResultSet
  | ExplanationBody string
  | AnswerBody SchemaAnswer
  | FeedbackBody bool
  | HealthBody "(string \<times> string) list"

text \<open>A stream asks the engine when it is first read, so the reply carries the call.\<close>

datatype handler_response = JsonReply nat response_body | StreamReply nat engine_call

text \<open>An error on its way to the response, with the statement suggested for it.\<close>

type_synonym failure = "thrown \<times> string option"

type_synonym 'a action = "server_state \<Rightarrow> (failure + 'a) \<times> server_state"

definition ok :: "'a \<Rightarrow> 'a action" where
  "ok x s = (Inr x, s)"

definition fail :: "thrown \<Rightarrow> 'a action" where
  "fail t s = (Inl (t, None), s)"

definition and_then :: "'a action \<Rightarrow> ('a \<Rightarrow> 'b action) \<Rightarrow> 'b action" where
  "and_then m f s = (case m s of (Inl t, s') \<Rightarrow> (Inl t, s') | (Inr x, s') \<Rightarrow> f x s')"

definition of_result :: "thrown + 'a \<Rightarrow> 'a action" where
  "of_result r = (case r of Inl t \<Rightarrow> fail t | Inr x \<Rightarrow> ok x)"

definition call :: "engine_call \<Rightarrow> (engine_call list \<Rightarrow> thrown + 'a) \<Rightarrow> 'a action" where
  "call c answer s = of_result (answer (sv_calls s @ [c])) (s\<lparr>sv_calls := sv_calls s @ [c]\<rparr>)"

section \<open>Model: origin, identity and scope\<close>

definition ANY_CONNECTION :: string where
  "ANY_CONNECTION = ''*''"

definition canAccess :: "AuthContext \<Rightarrow> string \<Rightarrow> bool" where
  "canAccess auth connectionId \<longleftrightarrow> ANY_CONNECTION \<in> set (au_allowed auth) \<or> connectionId \<in> set (au_allowed auth)"

definition LOOPBACK_HOSTS :: "string list" where
  "LOOPBACK_HOSTS = [''localhost'', ''127.0.0.1'', ''[::1]'', ''::1'']"

definition hostnameOf :: "string \<Rightarrow> string" where
  "hostnameOf hostHeader =
     (let value = toLowerCase (trim hostHeader) in
      if value = [] then []
      else if hd value = CHR ''['' then (if CHR '']'' \<in> set value then takeWhile (\<lambda>c. c \<noteq> CHR '']'') value @ '']'' else [])
      else if 1 < length (filter (\<lambda>c. c = CHR '':'') value) then value
      else takeWhile (\<lambda>c. c \<noteq> CHR '':'') value)"

definition json_error :: "nat \<Rightarrow> ErrorCode \<Rightarrow> string \<Rightarrow> handler_response" where
  "json_error status c message = JsonReply status (ErrorBody (c, message, False) None)"

definition crossSiteRejection :: "server_request \<Rightarrow> bool \<Rightarrow> handler_response option" where
  "crossSiteRejection req requireLoopbackHost =
     (if requireLoopbackHost \<and> hostnameOf (or_default (sr_headers req ''host'') []) \<notin> set LOOPBACK_HOSTS then
        Some (json_error 403 ServerAuthz ''This server only accepts requests addressed to localhost.'')
      else if sr_method req \<in> {''GET'', ''HEAD'', ''OPTIONS''} then None
      else if toLowerCase (trim (takeWhile (\<lambda>c. c \<noteq> CHR '';'') (or_default (sr_headers req ''content-type'') []))) \<noteq> ''application/json'' then
        Some (json_error 415 InvalidInput ''Send this request as application/json.'')
      else None)"

definition err_text :: "thrown \<Rightarrow> string" where
  "err_text err =
     (case err of
        ThrownAskSql e \<Rightarrow> ''AskSqlError: '' @ e_message e
      | ThrownError name message \<Rightarrow> name @ '': '' @ message
      | ThrownOther s \<Rightarrow> s)"

definition denied_with :: "string \<Rightarrow> thrown" where
  "denied_with detail = ThrownAskSql (new_AskSqlError ServerAuthz \<lparr>o_userMessage = None, o_detail = Some detail, o_retryable = None\<rparr>)"

definition refused_with :: "string \<Rightarrow> string option \<Rightarrow> thrown" where
  "refused_with message detail =
     ThrownAskSql (new_AskSqlError InvalidInput \<lparr>o_userMessage = Some message, o_detail = detail, o_retryable = None\<rparr>)"

definition authenticate :: "server_config \<Rightarrow> server_request \<Rightarrow> thrown + AuthContext" where
  "authenticate cfg req =
     (case cf_auth cfg req of
        Inl err \<Rightarrow> Inl (denied_with (''auth hook threw: '' @ err_text err))
      | Inr None \<Rightarrow> Inl (denied_with ''auth hook returned no context'')
      | Inr (Some ctx) \<Rightarrow> Inr ctx)"

definition connection_ids :: "server_state \<Rightarrow> string list" where
  "connection_ids s = map sc_id (sv_connectors s) @ map sc_id (sv_mongo s)"

definition isMongo :: "server_state \<Rightarrow> string \<Rightarrow> bool" where
  "isMongo s connectionId \<longleftrightarrow> connectionId \<in> set (map sc_id (sv_mongo s))"

text \<open>The identifier a body gives may be any JSON value; only a string is one of the list or of the maps.\<close>

definition assertAccess :: "jsval \<Rightarrow> AuthContext \<Rightarrow> server_state \<Rightarrow> thrown + string" where
  "assertAccess connectionId auth s =
     (if \<not> (case connectionId of JStr i \<Rightarrow> canAccess auth i | _ \<Rightarrow> ANY_CONNECTION \<in> set (au_allowed auth)) then
        Inl (denied_with (''user '' @ au_userId auth @ '' denied '' @ to_string connectionId))
      else
        (case connectionId of
           JStr i \<Rightarrow>
             (if i \<in> set (connection_ids s) then Inr i
              else Inl (refused_with ''Unknown database connection.'' (Some (''no such connection '' @ i))))
         | _ \<Rightarrow> Inl (refused_with ''Unknown database connection.'' (Some (''no such connection '' @ to_string connectionId)))))"

definition first_allowed :: "AuthContext \<Rightarrow> server_state \<Rightarrow> string option" where
  "first_allowed auth s =
     (case (if ANY_CONNECTION \<in> set (au_allowed auth) then connection_ids s else au_allowed auth) of [] \<Rightarrow> None | i # _ \<Rightarrow> Some i)"

definition resolveConnectionId :: "server_request \<Rightarrow> AuthContext \<Rightarrow> jsval \<Rightarrow> string action" where
  "resolveConnectionId req auth fromBody s =
     (let i = (if is_nullish fromBody then (case sr_query req ''connectionId'' of Some q \<Rightarrow> JStr q | None \<Rightarrow> JUndef) else fromBody) in
      of_result
        (if truthy_value i then assertAccess i auth s
         else (case truthy (first_allowed auth s) of
                 None \<Rightarrow> Inl (denied_with ''user has no connections'')
               | Some first \<Rightarrow> assertAccess (JStr first) auth s)) s)"

definition requireEngine :: "unit action" where
  "requireEngine s =
     (if sv_connectors s = [] then
        fail (ThrownAskSql (new_AskSqlError ConfigError
          \<lparr>o_userMessage = Some ''No databases are connected yet. Add one in Settings first.'', o_detail = Some ''no connectors configured'',
           o_retryable = None\<rparr>)) s
      else ok () s)"

section \<open>Model: the body of a request\<close>

definition CONTEXT_TURNS :: nat where "CONTEXT_TURNS = 6"
definition MAX_CONTEXT_FIELD :: nat where "MAX_CONTEXT_FIELD = 10000"

definition readBody :: "server_request \<Rightarrow> jsval action" where
  "readBody req =
     (case sr_json req of
        Inl (ThrownAskSql e) \<Rightarrow> fail (ThrownAskSql e)
      | Inl _ \<Rightarrow> fail (refused_with ''Request body must be valid JSON.'' None)
      | Inr raw \<Rightarrow> ok (if is_object raw then raw else JObj []))"

definition parseContext :: "jsval \<Rightarrow> turn list option" where
  "parseContext raw =
     (case raw of
        JArr ts \<Rightarrow>
          (let turns = map (\<lambda>t. \<lparr>tu_question = (case get_prop t ''question'' of JStr q \<Rightarrow> take MAX_CONTEXT_FIELD q | _ \<Rightarrow> []),
                              tu_sql = take MAX_CONTEXT_FIELD (to_string (get_prop t ''sql''))\<rparr>)
                     (last_n CONTEXT_TURNS
                        (filter (\<lambda>t. case get_prop t ''sql'' of JStr q \<Rightarrow> trim q \<noteq> [] | _ \<Rightarrow> False) (filter is_object ts)))
           in if turns = [] then None else Some turns)
      | _ \<Rightarrow> None)"

definition clampInt :: "string option \<Rightarrow> int \<Rightarrow> int \<Rightarrow> int \<Rightarrow> int" where
  "clampInt raw dflt lo hi =
     (case (case raw of None \<Rightarrow> Fin (of_int dflt) | Some r \<Rightarrow> to_number r) of
        Fin x \<Rightarrow> max lo (min (floor x) hi)
      | _ \<Rightarrow> dflt)"

section \<open>Model: the routes\<close>

definition MONGO_CAPABILITIES :: jsval where
  "MONGO_CAPABILITIES =
     JObj (map (\<lambda>k. (k, JBool False)) [''supportsCancel'', ''supportsExplain'', ''supportsSchemas'', ''readOnlySession'', ''supportsMatViews'',
       ''supportsTriggers'', ''supportsRoutines''])"

definition listConnections :: "AuthContext \<Rightarrow> server_state \<Rightarrow> handler_response" where
  "listConnections auth s =
     JsonReply 200 (ConnectionsBody
       (filter (\<lambda>c. canAccess auth (sc_id c)) (sv_connectors s)
        @ map (\<lambda>c. c\<lparr>sc_capabilities := MONGO_CAPABILITIES\<rparr>) (filter (\<lambda>c. canAccess auth (sc_id c)) (sv_mongo s))))"

definition health :: "AuthContext \<Rightarrow> server_state \<Rightarrow> handler_response" where
  "health auth s =
     JsonReply 200 (HealthBody (map (\<lambda>c. (sc_id c, sc_engine c)) (filter (\<lambda>c. canAccess auth (sc_id c)) (sv_connectors s @ sv_mongo s))))"

definition getSchema :: "server_config \<Rightarrow> server_request \<Rightarrow> AuthContext \<Rightarrow> handler_response action" where
  "getSchema cfg req auth =
     and_then (resolveConnectionId req auth JUndef) (\<lambda>connectionId s.
       let refresh = (sr_query req ''refresh'' \<in> {Some ''1'', Some ''true''}); reply = (\<lambda>c. ok (JsonReply 200 (CatalogBody c))) in
       if isMongo s connectionId then
         and_then (call (MongoCatalog connectionId) (eg_catalog (cf_engines cfg))) reply
           (if refresh then s\<lparr>sv_calls := sv_calls s @ [MongoInvalidate connectionId]\<rparr> else s)
       else
         and_then requireEngine (\<lambda>_. and_then (call (SqlCatalog connectionId refresh) (eg_catalog (cf_engines cfg))) reply) s)"

definition getHistory :: "server_request \<Rightarrow> AuthContext \<Rightarrow> handler_response action" where
  "getHistory req auth =
     and_then (resolveConnectionId req auth JUndef) (\<lambda>connectionId s.
       let limit = clampInt (sr_query req ''per_page'') 50 1 200;
           page = clampInt (sr_query req ''page'') 1 1 1000000;
           offset = (page - 1) * limit;
           result = history_list (sv_history s) connectionId
             \<lparr>op_limit = Some (Fin (of_int limit)), op_offset = Some (Fin (of_int offset)), op_userId = Some (au_userId auth)\<rparr>
       in ok (JsonReply 200 (HistoryBody (items result) (total result) (Fin (of_int page)) (Fin (of_int limit))))
            (s\<lparr>sv_reads := sv_reads s @ [(connectionId, au_userId auth)]\<rparr>))"

definition chat :: "server_request \<Rightarrow> AuthContext \<Rightarrow> handler_response action" where
  "chat req auth =
     and_then (readBody req) (\<lambda>body. and_then (resolveConnectionId req auth (get_prop body ''connectionId'')) (\<lambda>connectionId s.
       let question = string_or_empty (get_prop body ''question''); context = parseContext (get_prop body ''context'') in
       if isMongo s connectionId then ok (StreamReply 200 (MongoAsk connectionId question (or_default context []))) s
       else and_then requireEngine (\<lambda>_. ok (StreamReply 200 (SqlAsk connectionId question context (au_userId auth)))) s))"

definition audit :: "server_config \<Rightarrow> string \<Rightarrow> AuthContext \<Rightarrow> string \<Rightarrow> bool \<Rightarrow> history_status \<Rightarrow> jsnum option \<Rightarrow> server_state \<Rightarrow> server_state" where
  "audit cfg connectionId auth sql allowed status rowCount s =
     (if cf_audit cfg then
        s\<lparr>sv_audits := sv_audits s @ [\<lparr>ad_seq = sv_auditSeq s, ad_connectionId = connectionId, ad_userId = au_userId auth, ad_sql = sql,
                                        ad_status = status, ad_allowed = allowed, ad_rowCount = rowCount\<rparr>],
          sv_auditSeq := sv_auditSeq s + 1\<rparr>
      else s)"

text \<open>What follows the run of a statement: the audit of its result, or the audit of its error and what may be added to it.\<close>

definition audited :: "server_config \<Rightarrow> string \<Rightarrow> AuthContext \<Rightarrow> string \<Rightarrow> (AskSqlError \<Rightarrow> string option action) \<Rightarrow> ResultSet action \<Rightarrow> handler_response action" where
  "audited cfg connectionId auth sql suggest run s =
     (case run s of
        (Inr result, s') \<Rightarrow>
          (Inr (JsonReply 200 (ResultBody result)), audit cfg connectionId auth sql True StatusOk (Some (rs_rowCount result)) s')
      | (Inl (err, _), s') \<Rightarrow>
          (let e = AskSqlError_from err DBQueryError; blocked = (e_code e = GuardBlocked) in
           case suggest e (audit cfg connectionId auth sql (\<not> blocked) (if blocked then StatusBlocked else StatusError) None s') of
             (Inl t, s'') \<Rightarrow> (Inl t, s'')
           | (Inr suggested, s'') \<Rightarrow> (Inl (ThrownAskSql e, suggested), s'')))"

definition suggest_for :: "server_config \<Rightarrow> string \<Rightarrow> string \<Rightarrow> jsval \<Rightarrow> AskSqlError \<Rightarrow> string option action" where
  "suggest_for cfg connectionId sql question e =
     (if cf_suggestFixOnError cfg \<and> e_code e = DBQueryError \<and> truthy_value question then
        and_then requireEngine (\<lambda>_ s.
          let c = SqlSuggestFix connectionId sql question (e_detail e); s' = s\<lparr>sv_calls := sv_calls s @ [c]\<rparr> in
          ok (case eg_suggestFix (cf_engines cfg) (sv_calls s') of Inl _ \<Rightarrow> None | Inr fix' \<Rightarrow> truthy fix') s')
      else ok None)"

definition execute_request :: "server_config \<Rightarrow> server_request \<Rightarrow> AuthContext \<Rightarrow> handler_response action" where
  "execute_request cfg req auth =
     and_then (readBody req) (\<lambda>body. and_then (resolveConnectionId req auth (get_prop body ''connectionId'')) (\<lambda>connectionId s.
       let sql = string_or_empty (get_prop body ''sql''); collection = string_or_empty (get_prop body ''collection'') in
       if trim sql = [] then fail (refused_with ''Provide a SQL statement to run.'' None) s
       else if isMongo s connectionId then
         (if collection = [] then fail (refused_with ''A MongoDB query needs the collection it runs against.'' None) s
          else audited cfg connectionId auth sql (\<lambda>_. ok None)
                 (call (MongoExecute connectionId sql collection (get_prop body ''maxRows'')) (eg_execute (cf_engines cfg))) s)
       else audited cfg connectionId auth sql (suggest_for cfg connectionId sql (get_prop body ''question''))
              (and_then requireEngine (\<lambda>_.
                 call (SqlExecute connectionId sql (get_prop body ''question'') (get_prop body ''maxRows'') (au_userId auth)) (eg_execute (cf_engines cfg)))) s))"

definition explain_request :: "server_config \<Rightarrow> server_request \<Rightarrow> AuthContext \<Rightarrow> handler_response action" where
  "explain_request cfg req auth =
     and_then (readBody req) (\<lambda>body. and_then (resolveConnectionId req auth (get_prop body ''connectionId'')) (\<lambda>connectionId s.
       let sql = string_or_empty (get_prop body ''sql''); reply = (\<lambda>text'. ok (JsonReply 200 (ExplanationBody text'))) in
       if isMongo s connectionId then and_then (call (MongoExplain connectionId sql) (eg_explain (cf_engines cfg))) reply s
       else and_then requireEngine (\<lambda>_. and_then (call (SqlExplain connectionId sql) (eg_explain (cf_engines cfg))) reply) s))"

definition explainSchema_request :: "server_config \<Rightarrow> server_request \<Rightarrow> AuthContext \<Rightarrow> handler_response action" where
  "explainSchema_request cfg req auth =
     and_then (readBody req) (\<lambda>body. and_then (resolveConnectionId req auth (get_prop body ''connectionId'')) (\<lambda>connectionId s.
       let question = string_or_empty (get_prop body ''question''); context = parseContext (get_prop body ''context'');
           reply = (\<lambda>a. ok (JsonReply 200 (AnswerBody a))) in
       if isMongo s connectionId then and_then (call (MongoExplainSchema connectionId question context) (eg_explainSchema (cf_engines cfg))) reply s
       else and_then requireEngine (\<lambda>_. and_then (call (SqlExplainSchema connectionId question context) (eg_explainSchema (cf_engines cfg))) reply) s))"

definition feedback :: "server_config \<Rightarrow> server_request \<Rightarrow> AuthContext \<Rightarrow> handler_response action" where
  "feedback cfg req auth =
     and_then (readBody req) (\<lambda>body. and_then (resolveConnectionId req auth (get_prop body ''connectionId'')) (\<lambda>connectionId s.
       if isMongo s connectionId then ok (JsonReply 200 (FeedbackBody False)) s
       else and_then requireEngine (\<lambda>_.
              and_then (call (SqlFeedback connectionId (string_or_empty (get_prop body ''question'')) (string_or_empty (get_prop body ''sql'')) (au_userId auth))
                         (eg_feedback (cf_engines cfg)))
                (\<lambda>_. ok (JsonReply 200 (FeedbackBody True)))) s))"

section \<open>Model: connections of a client\<close>

definition dynamicOptions :: "server_config \<Rightarrow> DynamicConnectionOptions option" where
  "dynamicOptions cfg =
     (case cf_dynamicConnections cfg of Some options \<Rightarrow> if dy_enabled options then Some options else None | None \<Rightarrow> None)"

definition spec_of :: "jsval \<Rightarrow> ConnectionSpec" where
  "spec_of body =
     \<lparr>cs_id = get_prop body ''id'', cs_name = get_prop body ''name'', cs_engine = get_prop body ''engine'', cs_host = get_prop body ''host'',
      cs_port = get_prop body ''port'', cs_database = get_prop body ''database'', cs_uri = get_prop body ''uri''\<rparr>"

fun type_of :: "jsval \<Rightarrow> string" where
  "type_of JUndef = ''undefined''"
| "type_of (JBool b) = ''boolean''"
| "type_of (JNum x) = ''number''"
| "type_of (JStr s) = ''string''"
| "type_of _ = ''object''"

definition field_error :: "string \<Rightarrow> jsval \<Rightarrow> thrown option" where
  "field_error field v =
     (case v of
        JUndef \<Rightarrow> None
      | JStr _ \<Rightarrow> None
      | _ \<Rightarrow> Some (refused_with (''The connection's '' @ field @ '' must be a string.'')
               (Some (''connection spec '' @ field @ '' must be a string, got '' @ type_of v))))"

definition spec_error :: "server_config \<Rightarrow> DynamicConnectionOptions \<Rightarrow> ConnectionSpec \<Rightarrow> thrown option" where
  "spec_error cfg options spec =
     first_of (field_error ''id'' (cs_id spec)) (first_of (field_error ''name'' (cs_name spec)) (assertSpecAllowed (cf_files cfg) spec options))"

text \<open>The identifier, reserved while the driver connects and given back whatever comes of it.\<close>

definition open_connection :: "server_config \<Rightarrow> ConnectionSpec \<Rightarrow> string \<Rightarrow> handler_response action" where
  "open_connection cfg spec i s =
     (if i \<in> set (connection_ids s) \<or> i \<in> set (sv_creating s) then
        fail (refused_with ''A connection with that id already exists.'' (Some (''duplicate id '' @ i))) s
      else
        (case eg_connect (cf_engines cfg) spec i of
           Inl t \<Rightarrow> fail t s
         | Inr c \<Rightarrow>
             ok (JsonReply 201 (CreatedBody i (sc_name c) (sc_engine c) (sc_database c)))
               (if cs_engine spec = JStr ''mongodb''
                then s\<lparr>sv_mongo := sv_mongo s @ [c\<lparr>sc_id := i\<rparr>], sv_dynamicIds := i # sv_dynamicIds s\<rparr>
                else s\<lparr>sv_connectors := sv_connectors s @ [c\<lparr>sc_id := i\<rparr>], sv_dynamicIds := i # sv_dynamicIds s\<rparr>)))"

definition createConnection :: "server_config \<Rightarrow> server_request \<Rightarrow> AuthContext \<Rightarrow> handler_response action" where
  "createConnection cfg req auth =
     (case dynamicOptions cfg of
        None \<Rightarrow> ok (json_error 404 InvalidInput ''This AskSQL server does not accept new connections. Start it with dynamic connections enabled.'')
      | Some options \<Rightarrow>
          (if \<not> canAccess auth ANY_CONNECTION then fail (denied_with (''user '' @ au_userId auth @ '' may not create connections''))
           else and_then (readBody req) (\<lambda>body.
             let spec = spec_of body in
             case spec_error cfg options spec of
               Some t \<Rightarrow> fail t
             | None \<Rightarrow>
                 (\<lambda>s. case truthy (map_option trim (str_of (cs_id spec))) of
                       Some i \<Rightarrow> open_connection cfg spec i s
                     | None \<Rightarrow> open_connection cfg spec (''dyn_'' @ show_nat (sv_dynamicSeq s + 1)) (s\<lparr>sv_dynamicSeq := sv_dynamicSeq s + 1\<rparr>)))))"

definition deleteConnection :: "server_config \<Rightarrow> string \<Rightarrow> AuthContext \<Rightarrow> handler_response action" where
  "deleteConnection cfg i auth =
     (if dynamicOptions cfg = None then ok (json_error 404 InvalidInput ''This AskSQL server does not manage connections.'')
      else if \<not> canAccess auth ANY_CONNECTION then fail (denied_with (''user '' @ au_userId auth @ '' may not remove connections''))
      else (\<lambda>s. case assertAccess (JStr i) auth s of
              Inl t \<Rightarrow> fail t s
            | Inr _ \<Rightarrow>
                (if i \<notin> set (sv_dynamicIds s) then
                   ok (json_error 403 ServerAuthz ''That connection was configured on the server and cannot be removed here.'') s
                 else (case eg_close (cf_engines cfg) i of
                         Some t \<Rightarrow> fail t s
                       | None \<Rightarrow>
                           ok (JsonReply 200 (RemovedBody i))
                             (if isMongo s i
                              then s\<lparr>sv_mongo := filter (\<lambda>c. sc_id c \<noteq> i) (sv_mongo s), sv_dynamicIds := filter (\<lambda>j. j \<noteq> i) (sv_dynamicIds s)\<rparr>
                              else s\<lparr>sv_connectors := filter (\<lambda>c. sc_id c \<noteq> i) (sv_connectors s),
                                     sv_dynamicIds := filter (\<lambda>j. j \<noteq> i) (sv_dynamicIds s)\<rparr>)))))"

section \<open>Model: routing and errors\<close>

definition normalizePath :: "string \<Rightarrow> string" where
  "normalizePath path =
     (let clean = rev (dropWhile (\<lambda>c. c = CHR ''/'') (rev (takeWhile (\<lambda>c. c \<noteq> CHR ''?'') path))) in if clean = [] then ''/'' else clean)"

text \<open>
  \<open>decodeURIComponent\<close>: the bytes of an escaped character are its UTF-8 encoding, of which the model has the characters of one byte
  and those of two that are Latin-1; \<open>None\<close> is the \<open>URIError\<close>.
\<close>

fun hex_byte :: "string \<Rightarrow> (nat \<times> string) option" where
  "hex_byte (p # a # b # r) =
     (if p = CHR ''%'' then
        (case (hex_digit a, hex_digit b) of (Some h, Some l) \<Rightarrow> Some (16 * h + l, r) | _ \<Rightarrow> None)
      else None)"
| "hex_byte _ = None"

lemma hex_byte_shorter: "hex_byte s = Some (n, r) \<Longrightarrow> length r < length s"
  by (induction s rule: hex_byte.induct) (auto split: if_splits option.splits)

function decodeURIComponent :: "string \<Rightarrow> string option" where
  "decodeURIComponent s =
     (case s of
        [] \<Rightarrow> Some []
      | c # r \<Rightarrow>
          if c \<noteq> CHR ''%'' then map_option ((#) c) (decodeURIComponent r)
          else
            (case hex_byte s of
               None \<Rightarrow> None
             | Some (n, r') \<Rightarrow>
                 if n < 128 then map_option ((#) (char_of n)) (decodeURIComponent r')
                 else
                   (case hex_byte r' of
                      None \<Rightarrow> None
                    | Some (m, r'') \<Rightarrow>
                        if n \<in> {194, 195} \<and> 128 \<le> m \<and> m < 192
                        then map_option ((#) (char_of (64 * (n - 192) + (m - 128)))) (decodeURIComponent r'')
                        else None)))"
  by pat_completeness auto
termination
  by (relation "measure length") (auto dest!: hex_byte_shorter split: if_splits)

declare decodeURIComponent.simps [simp del]

definition connections_prefix :: string where
  "connections_prefix = ''/connections/''"

definition dispatch :: "server_config \<Rightarrow> server_request \<Rightarrow> AuthContext \<Rightarrow> handler_response action" where
  "dispatch cfg req auth =
     (let path = normalizePath (sr_path req); get' = (sr_method req = ''GET''); post = (sr_method req = ''POST'') in
      if get' \<and> path = ''/connections'' then (\<lambda>s. ok (listConnections auth s) s)
      else if post \<and> path = ''/connections'' then createConnection cfg req auth
      else if sr_method req = ''DELETE'' \<and> starts_with path connections_prefix then
        (case decodeURIComponent (drop (length connections_prefix) path) of
           None \<Rightarrow> fail (ThrownError ''URIError'' ''URI malformed'')
         | Some i \<Rightarrow> deleteConnection cfg i auth)
      else if get' \<and> path = ''/schema'' then getSchema cfg req auth
      else if get' \<and> path = ''/health'' then (\<lambda>s. ok (health auth s) s)
      else if get' \<and> path = ''/history'' then getHistory req auth
      else if post \<and> path = ''/chat'' then chat req auth
      else if post \<and> path = ''/execute'' then execute_request cfg req auth
      else if post \<and> path = ''/explain'' then explain_request cfg req auth
      else if post \<and> path = ''/explainSchema'' then explainSchema_request cfg req auth
      else if post \<and> path = ''/feedback'' then feedback cfg req auth
      else ok (json_error 404 InvalidInput ''Unknown endpoint.''))"

definition error_status :: "ErrorCode \<Rightarrow> nat" where
  "error_status c =
     (if c = ServerAuthz then 403
      else if c = InvalidInput then 400
      else if c = GuardBlocked then 400
      else if c = DBAuth \<or> c = ConfigError then 500
      else if c = DBUnreachable \<or> c = LLMUnreachable then 502
      else if c = DBTimeout \<or> c = LLMTimeout then 504
      else if c = LLMRateLimit then 429
      else if c = LLMBilling then 402
      else 200)"

definition errorResponse :: "failure \<Rightarrow> handler_response" where
  "errorResponse failure =
     (let e = AskSqlError_from (fst failure) ConfigError; status = error_status (e_code e) in
      JsonReply (if status = 200 then 400 else status) (ErrorBody (AskSqlError_toJSON e) (Option.bind (snd failure) (\<lambda>q. truthy (Some q)))))"

definition handle :: "server_config \<Rightarrow> server_request \<Rightarrow> server_state \<Rightarrow> handler_response \<times> server_state" where
  "handle cfg req s =
     (case crossSiteRejection req (cf_requireLoopbackHost cfg) of
        Some reply \<Rightarrow> (reply, s)
      | None \<Rightarrow>
          (case (case authenticate cfg req of Inl t \<Rightarrow> (Inl (t, None), s) | Inr auth \<Rightarrow> dispatch cfg req auth s) of
             (Inr response, s') \<Rightarrow> (response, s')
           | (Inl failure, s') \<Rightarrow> (errorResponse failure, s'\<lparr>sv_reports := sv_reports s' @ [fst failure]\<rparr>)))"

section \<open>The scope of a caller\<close>

fun call_connection :: "engine_call \<Rightarrow> string" where
  "call_connection (SqlCatalog i _) = i"
| "call_connection (SqlAsk i _ _ _) = i"
| "call_connection (SqlExecute i _ _ _ _) = i"
| "call_connection (SqlSuggestFix i _ _ _) = i"
| "call_connection (SqlExplain i _) = i"
| "call_connection (SqlExplainSchema i _ _) = i"
| "call_connection (SqlFeedback i _ _ _) = i"
| "call_connection (MongoInvalidate i) = i"
| "call_connection (MongoCatalog i) = i"
| "call_connection (MongoAsk i _ _) = i"
| "call_connection (MongoExecute i _ _ _) = i"
| "call_connection (MongoExplain i _) = i"
| "call_connection (MongoExplainSchema i _ _) = i"

text \<open>The caller may use the connection, and there is one.\<close>

definition in_caller_scope :: "AuthContext \<Rightarrow> server_state \<Rightarrow> string \<Rightarrow> bool" where
  "in_caller_scope auth s i \<longleftrightarrow> canAccess auth i \<and> i \<in> set (connection_ids s)"

text \<open>What an action added to the calls, the reads of the history and the stream it replies with stays in the scope.\<close>

definition scoped :: "AuthContext \<Rightarrow> server_state \<Rightarrow> (failure + handler_response) \<times> server_state \<Rightarrow> bool" where
  "scoped auth s r \<longleftrightarrow>
     (\<exists>cs. sv_calls (snd r) = sv_calls s @ cs \<and> (\<forall>c \<in> set cs. in_caller_scope auth s (call_connection c)))
     \<and> (\<exists>rs. sv_reads (snd r) = sv_reads s @ rs \<and> (\<forall>(i, u) \<in> set rs. in_caller_scope auth s i \<and> u = au_userId auth))
     \<and> (\<forall>n c. fst r = Inr (StreamReply n c) \<longrightarrow> in_caller_scope auth s (call_connection c))"

lemma assertAccess_Inr: "assertAccess v auth s = Inr i \<Longrightarrow> v = JStr i \<and> in_caller_scope auth s i"
  by (cases v) (auto simp: assertAccess_def in_caller_scope_def split: if_splits)

lemma resolveConnectionId_cases:
  obtains (denied) t where "resolveConnectionId req auth v s = (Inl (t, None), s)"
  | (resolved) i where "resolveConnectionId req auth v s = (Inr i, s)" "in_caller_scope auth s i"
proof (cases "resolveConnectionId req auth v s")
  case (Pair r s')
  then show ?thesis
    using denied resolved
    by (cases r) (auto simp: resolveConnectionId_def of_result_def ok_def fail_def Let_def dest!: assertAccess_Inr split: sum.splits if_splits option.splits)
qed

lemma readBody_cases:
  obtains (unreadable) t where "\<And>s. readBody req s = (Inl (t, None), s)"
  | (body) v where "\<And>s. readBody req s = (Inr v, s)"
  by (cases "sr_json req"; cases "projl (sr_json req)") (auto simp: readBody_def ok_def fail_def)

lemmas action_defs = and_then_def ok_def fail_def of_result_def call_def requireEngine_def

lemma scoped_same [simp]: "scoped auth s (Inl t, s)" "scoped auth s (Inr (JsonReply n b), s)"
  by (simp_all add: scoped_def)

lemma scoped_calls:
  "sv_reads s' = sv_reads s \<Longrightarrow> sv_calls s' = sv_calls s @ cs \<Longrightarrow> (\<And>c. c \<in> set cs \<Longrightarrow> in_caller_scope auth s (call_connection c))
     \<Longrightarrow> (\<And>n c. r = Inr (StreamReply n c) \<Longrightarrow> in_caller_scope auth s (call_connection c)) \<Longrightarrow> scoped auth s (r, s')"
  by (auto simp: scoped_def)

text \<open>What holds of a refusal and of the rest of a route for a connection in the scope holds of the route.\<close>

lemma resolve_rule:
  "(\<And>t. P (Inl (t, None), s)) \<Longrightarrow> (\<And>i. in_caller_scope auth s i \<Longrightarrow> P (f i s)) \<Longrightarrow> P (and_then (resolveConnectionId req auth v) f s)"
  by (cases rule: resolveConnectionId_cases [of req auth v s]) (simp_all add: and_then_def)

lemma body_rule:
  "(\<And>t. P (Inl (t, None), s)) \<Longrightarrow> (\<And>body i. in_caller_scope auth s i \<Longrightarrow> P (f body i s))
     \<Longrightarrow> P (and_then (readBody req) (\<lambda>body. and_then (resolveConnectionId req auth (g body)) (f body)) s)"
  by (cases rule: readBody_cases [of req]) (simp_all add: and_then_def [of "readBody req"] resolve_rule)

lemmas scoped_resolve = resolve_rule [where P = "scoped auth s" and auth = auth and s = s for auth s, OF scoped_same(1)]
lemmas scoped_body = body_rule [where P = "scoped auth s" and auth = auth and s = s for auth s, OF scoped_same(1)]

lemma scoped_getSchema: "scoped auth s (getSchema cfg req auth s)"
  unfolding getSchema_def by (rule scoped_resolve) (auto simp: action_defs Let_def split: sum.splits intro!: scoped_calls)

lemma scoped_getHistory: "scoped auth s (getHistory req auth s)"
  unfolding getHistory_def by (rule scoped_resolve) (simp add: scoped_def action_defs Let_def)

lemma scoped_chat: "scoped auth s (chat req auth s)"
  unfolding chat_def by (rule scoped_body) (auto simp: action_defs Let_def intro!: scoped_calls)

lemma scoped_explain: "scoped auth s (explain_request cfg req auth s)"
  unfolding explain_request_def by (rule scoped_body) (auto simp: action_defs Let_def split: sum.splits intro!: scoped_calls)

lemma scoped_explainSchema: "scoped auth s (explainSchema_request cfg req auth s)"
  unfolding explainSchema_request_def by (rule scoped_body) (auto simp: action_defs Let_def split: sum.splits intro!: scoped_calls)

lemma scoped_feedback: "scoped auth s (feedback cfg req auth s)"
  unfolding feedback_def by (rule scoped_body) (auto simp: action_defs Let_def split: sum.splits intro!: scoped_calls)

lemma audit_sel [simp]:
  "sv_calls (audit cfg i auth q a st n s) = sv_calls s" "sv_reads (audit cfg i auth q a st n s) = sv_reads s"
  "sv_connectors (audit cfg i auth q a st n s) = sv_connectors s" "sv_mongo (audit cfg i auth q a st n s) = sv_mongo s"
  by (simp_all add: audit_def)

definition calls_scoped :: "AuthContext \<Rightarrow> server_state \<Rightarrow> server_state \<Rightarrow> bool" where
  "calls_scoped auth s s' \<longleftrightarrow>
     (\<exists>cs. sv_calls s' = sv_calls s @ cs \<and> (\<forall>c \<in> set cs. in_caller_scope auth s (call_connection c))) \<and> sv_reads s' = sv_reads s"

lemma calls_scoped_refl [simp]: "calls_scoped auth s s"
  by (simp add: calls_scoped_def)

lemma calls_scoped_audit [simp]: "calls_scoped auth s (audit cfg i auth' q a st n s') \<longleftrightarrow> calls_scoped auth s s'"
  by (simp add: calls_scoped_def)

lemma calls_scoped_call: "calls_scoped auth s s' \<Longrightarrow> in_caller_scope auth s (call_connection c) \<Longrightarrow> calls_scoped auth s (s'\<lparr>sv_calls := sv_calls s' @ [c]\<rparr>)"
  by (auto simp: calls_scoped_def)

lemma call_state: "snd (call c answer s) = s\<lparr>sv_calls := sv_calls s @ [c]\<rparr>"
  by (simp add: call_def of_result_def ok_def fail_def split: sum.splits)

lemma snd_and_then: "snd (and_then m f s) = (case m s of (Inl t, s') \<Rightarrow> s' | (Inr x, s') \<Rightarrow> snd (f x s'))"
  by (simp add: and_then_def split: sum.splits prod.splits)

lemma scoped_audited:
  assumes "calls_scoped auth s (snd (run s))" "\<And>e s'. calls_scoped auth s s' \<Longrightarrow> calls_scoped auth s (snd (suggest e s'))"
  shows "scoped auth s (audited cfg i auth' q suggest run s)"
proof -
  have final: "calls_scoped auth s (snd (audited cfg i auth' q suggest run s))"
    using assms(1) assms(2) [of "audit cfg i auth' q _ _ _ (snd (run s))"]
    by (auto simp: audited_def Let_def split: prod.splits sum.splits) (metis assms(2) calls_scoped_audit snd_conv)+
  have "fst (audited cfg i auth' q suggest run s) \<noteq> Inr (StreamReply n c)" for n c
    by (auto simp: audited_def Let_def split: prod.splits sum.splits)
  with final show ?thesis by (auto simp: scoped_def calls_scoped_def)
qed

lemma suggest_for_scoped: "in_caller_scope auth s i \<Longrightarrow> calls_scoped auth s s' \<Longrightarrow> calls_scoped auth s (snd (suggest_for cfg i sql question e s'))"
  by (simp add: suggest_for_def snd_and_then requireEngine_def ok_def fail_def Let_def calls_scoped_call)

lemma scoped_execute: "scoped auth s (execute_request cfg req auth s)"
  unfolding execute_request_def Let_def
  by (rule scoped_body)
    (simp add: fail_def scoped_audited call_state calls_scoped_call suggest_for_scoped snd_and_then requireEngine_def ok_def)

lemma scoped_open: "scoped auth s (open_connection cfg spec i (s\<lparr>sv_dynamicSeq := n\<rparr>))"
  by (auto simp: open_connection_def action_defs intro!: scoped_calls split: sum.splits)

lemma scoped_create: "scoped auth s (createConnection cfg req auth s)"
  using scoped_open [of auth s cfg _ _ "sv_dynamicSeq s"] scoped_open [of auth s cfg]
  by (cases rule: readBody_cases [of req]) (auto simp: createConnection_def action_defs json_error_def Let_def split: option.splits)

lemma scoped_delete: "scoped auth s (deleteConnection cfg i auth s)"
  by (auto simp: deleteConnection_def action_defs json_error_def split: sum.splits option.splits intro!: scoped_calls)

lemma scoped_dispatch: "scoped auth s (dispatch cfg req auth s)"
  unfolding dispatch_def Let_def
  by (auto simp: scoped_getSchema scoped_getHistory scoped_chat scoped_explain scoped_explainSchema scoped_feedback scoped_execute scoped_create
      scoped_delete ok_def fail_def json_error_def listConnections_def health_def split: option.splits)

section \<open>The audit\<close>

fun executed :: "engine_call \<Rightarrow> (string \<times> string) option" where
  "executed (SqlExecute i sql _ _ _) = Some (i, sql)"
| "executed (MongoExecute i sql _ _) = Some (i, sql)"
| "executed _ = None"

text \<open>The status of an audit record against the outcome of the action.\<close>

definition outcome_of :: "failure + handler_response \<Rightarrow> history_status" where
  "outcome_of r =
     (case r of
        Inr _ \<Rightarrow> StatusOk
      | Inl (t, _) \<Rightarrow> if e_code (AskSqlError_from t ConfigError) = GuardBlocked then StatusBlocked else StatusError)"

definition audits_match :: "server_config \<Rightarrow> AuthContext \<Rightarrow> server_state \<Rightarrow> (failure + handler_response) \<times> server_state \<Rightarrow> bool" where
  "audits_match cfg auth s r \<longleftrightarrow>
     (\<exists>as cs. sv_audits (snd r) = sv_audits s @ as \<and> sv_calls (snd r) = sv_calls s @ cs
        \<and> (cf_audit cfg \<longrightarrow> map (\<lambda>a. (ad_connectionId a, ad_sql a)) as = List.map_filter executed cs)
        \<and> (\<forall>a \<in> set as. ad_userId a = au_userId auth \<and> ad_status a = outcome_of (fst r)
             \<and> (\<forall>x. fst r = Inr x \<longrightarrow> (\<exists>res. x = JsonReply 200 (ResultBody res)))))"

lemma audits_quiet:
  "sv_audits s' = sv_audits s \<Longrightarrow> sv_calls s' = sv_calls s @ cs \<Longrightarrow> List.map_filter executed cs = [] \<Longrightarrow> audits_match cfg auth s (r, s')"
  by (auto simp: audits_match_def)

lemma audits_same [simp]: "audits_match cfg auth s (r, s)"
  by (rule audits_quiet [of _ _ "[]"]) (simp_all add: map_filter_simps)

lemmas audits_resolve = resolve_rule [where P = "audits_match cfg auth s" and auth = auth and s = s for cfg auth s, OF audits_same]
lemmas audits_body = body_rule [where P = "audits_match cfg auth s" and auth = auth and s = s for cfg auth s, OF audits_same]

lemma audits_others:
  "audits_match cfg auth s (getSchema cfg req auth s)" "audits_match cfg auth s (getHistory req auth s)" "audits_match cfg auth s (chat req auth s)"
  "audits_match cfg auth s (explain_request cfg req auth s)" "audits_match cfg auth s (explainSchema_request cfg req auth s)"
  "audits_match cfg auth s (feedback cfg req auth s)"
  unfolding getSchema_def getHistory_def chat_def explain_request_def explainSchema_request_def feedback_def
  by (rule audits_resolve audits_body;
      auto simp: action_defs Let_def map_filter_simps split: sum.splits intro!: audits_quiet)+

lemma audits_open: "audits_match cfg auth s (open_connection cfg spec i (s\<lparr>sv_dynamicSeq := n\<rparr>))"
  by (auto simp: open_connection_def action_defs map_filter_simps intro!: audits_quiet split: sum.splits)

lemma audits_create: "audits_match cfg auth s (createConnection cfg req auth s)"
  using audits_open [of cfg auth s _ _ "sv_dynamicSeq s"] audits_open [of cfg auth s]
  by (cases rule: readBody_cases [of req]) (auto simp: createConnection_def action_defs json_error_def Let_def split: option.splits)

lemma audits_delete: "audits_match cfg auth s (deleteConnection cfg i auth s)"
  by (auto simp: deleteConnection_def action_defs json_error_def map_filter_simps split: sum.splits option.splits intro!: audits_quiet)

lemma audit_records:
  "sv_audits (audit cfg i auth q a st n s) =
     sv_audits s @ (if cf_audit cfg then [\<lparr>ad_seq = sv_auditSeq s, ad_connectionId = i, ad_userId = au_userId auth, ad_sql = q, ad_status = st,
       ad_allowed = a, ad_rowCount = n\<rparr>] else [])"
  by (simp add: audit_def)

text \<open>A run that makes one call, and a suggestion that runs nothing.\<close>

lemma audited_match:
  assumes run: "sv_audits (snd (run s)) = sv_audits s" "sv_calls (snd (run s)) = sv_calls s @ [c]" "executed c = Some (i, q)"
    and suggest: "\<And>e s'. \<exists>cs. sv_calls (snd (suggest e s')) = sv_calls s' @ cs \<and> List.map_filter executed cs = []"
      "\<And>e s'. sv_audits (snd (suggest e s')) = sv_audits s'"
      "\<And>e s' t s''. sv_connectors s' = sv_connectors (snd (run s)) \<Longrightarrow> suggest e s' \<noteq> (Inl t, s'')"
  shows "audits_match cfg auth s (audited cfg i auth q suggest run s)"
proof (cases "run s")
  case (Pair r s')
  show ?thesis
  proof (cases r)
    case (Inr result)
    with Pair run show ?thesis
      by (auto simp: audits_match_def audited_def audit_records outcome_of_def map_filter_simps)
  next
    case (Inl failure)
    obtain err x where failure: "failure = (err, x)" by fastforce
    define e where "e = AskSqlError_from err DBQueryError"
    define s1 where "s1 = audit cfg i auth q (e_code e \<noteq> GuardBlocked) (if e_code e = GuardBlocked then StatusBlocked else StatusError) None s'"
    obtain sg s2 where sg: "suggest e s1 = (Inr sg, s2)"
      using suggest(3) [of s1 e] Pair by (cases "suggest e s1"; cases "fst (suggest e s1)") (auto simp: s1_def)
    obtain cs where "sv_calls s2 = sv_calls s1 @ cs" "List.map_filter executed cs = []" "sv_audits s2 = sv_audits s1"
      using suggest(1, 2) [of e s1] sg by auto
    moreover have "audited cfg i auth q suggest run s = (Inl (ThrownAskSql e, sg), s2)"
      using Pair Inl failure sg by (simp add: audited_def e_def s1_def Let_def)
    ultimately show ?thesis
      using run Pair by (auto simp: audits_match_def s1_def audit_records outcome_of_def map_filter_simps)
  qed
qed

lemma suggest_for_runs_nothing:
  "\<exists>cs. sv_calls (snd (suggest_for cfg i sql question e s)) = sv_calls s @ cs \<and> List.map_filter executed cs = []"
  "sv_audits (snd (suggest_for cfg i sql question e s)) = sv_audits s"
  by (auto simp: suggest_for_def action_defs Let_def map_filter_simps)

lemma suggest_for_no_throw: "sv_connectors s \<noteq> [] \<Longrightarrow> suggest_for cfg i sql question e s \<noteq> (Inl t, s')"
  by (simp add: suggest_for_def action_defs Let_def)

lemma call_audits: "sv_audits (snd (call c answer s)) = sv_audits s"
  by (simp add: call_state)

lemma audits_execute: "audits_match cfg auth s (execute_request cfg req auth s)"
  unfolding execute_request_def Let_def
proof (rule audits_body, goal_cases)
  case (1 body i)
  have engine: "sv_connectors s \<noteq> []" if "\<not> isMongo s i" using 1 that by (auto simp: in_caller_scope_def connection_ids_def isMongo_def)
  show ?case
    by (auto simp: fail_def ok_def map_filter_simps snd_and_then requireEngine_def call_state suggest_for_runs_nothing suggest_for_no_throw engine
        intro!: audited_match)
qed

lemma audits_dispatch: "audits_match cfg auth s (dispatch cfg req auth s)"
  unfolding dispatch_def Let_def
  by (auto simp: audits_others audits_execute audits_create audits_delete ok_def fail_def split: option.splits)

section \<open>Statuses\<close>

definition plain_reply :: "failure + handler_response \<Rightarrow> bool" where
  "plain_reply r \<longleftrightarrow>
     (\<forall>n b. r = Inr (JsonReply n b) \<longrightarrow> (n \<in> {200, 201} \<and> (\<forall>e q. b \<noteq> ErrorBody e q)) \<or> (n \<in> {403, 404} \<and> (\<exists>e q. b = ErrorBody e q)))"

lemma plain_reply_simps [simp]:
  "plain_reply (Inl t)" "plain_reply (Inr (StreamReply n call'))" "plain_reply (Inr (json_error 404 c m))" "plain_reply (Inr (json_error 403 c m))"
  "(\<And>e q. b \<noteq> ErrorBody e q) \<Longrightarrow> plain_reply (Inr (JsonReply 200 b))" "plain_reply (Inr (JsonReply 201 (CreatedBody i name engine database)))"
  by (auto simp: plain_reply_def json_error_def)

lemma plain_resolve:
  "(\<And>i. plain_reply (fst (f i s))) \<Longrightarrow> plain_reply (fst (and_then (resolveConnectionId req auth v) f s))"
  by (rule resolve_rule [where P = "\<lambda>r. plain_reply (fst r)"]) simp_all

lemma plain_body:
  "(\<And>body i. plain_reply (fst (f body i s)))
     \<Longrightarrow> plain_reply (fst (and_then (readBody req) (\<lambda>body. and_then (resolveConnectionId req auth (g body)) (f body)) s))"
  by (rule body_rule [where P = "\<lambda>r. plain_reply (fst r)"]) simp_all

lemma plain_audited: "plain_reply (fst (audited cfg i auth q suggest run s))"
  by (simp add: audited_def Let_def split: prod.splits sum.splits)

lemma plain_routes:
  "plain_reply (fst (getSchema cfg req auth s))" "plain_reply (fst (getHistory req auth s))" "plain_reply (fst (chat req auth s))"
  "plain_reply (fst (explain_request cfg req auth s))" "plain_reply (fst (explainSchema_request cfg req auth s))"
  "plain_reply (fst (feedback cfg req auth s))"
  unfolding getSchema_def getHistory_def chat_def explain_request_def explainSchema_request_def feedback_def
  by (rule plain_resolve plain_body; simp add: action_defs Let_def split: sum.splits)+

lemma plain_execute: "plain_reply (fst (execute_request cfg req auth s))"
  unfolding execute_request_def Let_def by (rule plain_body) (simp add: fail_def plain_audited)

lemma plain_open: "plain_reply (fst (open_connection cfg spec i s))"
  by (simp add: open_connection_def action_defs split: sum.splits)

lemma plain_create: "plain_reply (fst (createConnection cfg req auth s))"
  by (cases rule: readBody_cases [of req])
    (simp_all add: createConnection_def and_then_def ok_def fail_def Let_def plain_open split: option.splits)

lemma plain_delete: "plain_reply (fst (deleteConnection cfg i auth s))"
  by (simp add: deleteConnection_def action_defs split: sum.splits option.splits)

lemma plain_dispatch: "plain_reply (fst (dispatch cfg req auth s))"
  unfolding dispatch_def Let_def
  by (simp add: plain_routes plain_execute plain_create plain_delete ok_def fail_def listConnections_def health_def split: option.splits)

lemma error_status_range: "error_status c \<in> {200, 400, 402, 403, 429, 500, 502, 504}"
  by (simp add: error_status_def)

section \<open>Properties\<close>

text \<open>The calls a request makes, the one its stream will make included, and the pages of history it reads.\<close>

definition made_calls :: "server_state \<Rightarrow> handler_response \<times> server_state \<Rightarrow> engine_call list" where
  "made_calls s r = drop (length (sv_calls s)) (sv_calls (snd r)) @ (case fst r of StreamReply _ c \<Rightarrow> [c] | _ \<Rightarrow> [])"

definition made_reads :: "server_state \<Rightarrow> handler_response \<times> server_state \<Rightarrow> (string \<times> string) list" where
  "made_reads s r = drop (length (sv_reads s)) (sv_reads (snd r))"


text \<open>A request that names a connection: in its query where it has no body, else in its body.\<close>

definition names_connection :: "server_request \<Rightarrow> string \<Rightarrow> bool" where
  "names_connection req i \<longleftrightarrow>
     sr_method req = ''GET'' \<and> normalizePath (sr_path req) \<in> {''/schema'', ''/history''} \<and> sr_query req ''connectionId'' = Some i
     \<or> sr_method req = ''POST'' \<and> normalizePath (sr_path req) \<in> {''/chat'', ''/execute'', ''/explain'', ''/explainSchema'', ''/feedback''}
       \<and> (\<exists>body. sr_json req = Inr (JObj body) \<and> get body ''connectionId'' = JStr i)"

lemma denied_resolve:
  assumes "\<not> canAccess auth i" "i \<noteq> []" "v = JStr i \<or> v = JUndef \<and> sr_query req ''connectionId'' = Some i"
  shows "and_then (resolveConnectionId req auth v) f s = (Inl (denied_with (''user '' @ au_userId auth @ '' denied '' @ i), None), s)"
  using assms by (auto simp: resolveConnectionId_def assertAccess_def action_defs Let_def)

lemma denied_dispatch:
  assumes "\<not> canAccess auth i" "i \<noteq> []" "names_connection req i"
  shows "dispatch cfg req auth s = (Inl (denied_with (''user '' @ au_userId auth @ '' denied '' @ i), None), s)"
proof -
  have body: "and_then (readBody req) (\<lambda>b. and_then (resolveConnectionId req auth (get_prop b ''connectionId'')) (f b)) s
      = (Inl (denied_with (''user '' @ au_userId auth @ '' denied '' @ i), None), s)"
    if "sr_json req = Inr (JObj body)" "get body ''connectionId'' = JStr i" for body and f :: "jsval \<Rightarrow> string \<Rightarrow> handler_response action"
  proof -
    have "readBody req = ok (JObj body)" using that(1) by (simp add: readBody_def)
    then have "and_then (readBody req) g s = g (JObj body) s" for g :: "jsval \<Rightarrow> handler_response action" by (simp add: and_then_def ok_def)
    then show ?thesis using that(2) assms(1, 2) by (simp add: denied_resolve)
  qed
  note query = denied_resolve [OF assms(1, 2)]
  from assms(3) show ?thesis
    unfolding names_connection_def
    by (elim disjE conjE exE insertE emptyE)
      (simp_all add: dispatch_def Let_def starts_with_def connections_prefix_def getSchema_def getHistory_def chat_def execute_request_def explain_request_def
        explainSchema_request_def feedback_def query body)
qed

text \<open>
  C20: a caller cannot find out which connections exist outside its scope. Whatever the state of the server, a request that names a connection
  the caller may not use gets the one refusal, 403 with the fixed message, and changes nothing but the error report: the reply for a
  connection of another tenant and the reply for one that does not exist are the same.
\<close>

theorem handle_denies_uniformly:
  assumes "crossSiteRejection req (cf_requireLoopbackHost cfg) = None" "cf_auth cfg req = Inr (Some auth)"
    and "names_connection req i" "i \<noteq> []" "\<not> canAccess auth i"
  shows "\<exists>t. handle cfg req s = (JsonReply 403 (ErrorBody (ServerAuthz, DEFAULT_MESSAGES ServerAuthz, False) None), s\<lparr>sv_reports := sv_reports s @ [t]\<rparr>)"
proof -
  have "errorResponse (denied_with d, None) = JsonReply 403 (ErrorBody (ServerAuthz, DEFAULT_MESSAGES ServerAuthz, False) None)" for d
    by (simp add: errorResponse_def denied_with_def new_AskSqlError_def AskSqlError_toJSON_def error_status_def RETRYABLE_def Let_def)
  with assms denied_dispatch [OF assms(5, 4, 3)] show ?thesis
    by (intro exI [of _ "denied_with (''user '' @ au_userId auth @ '' denied '' @ i)"]) (simp add: handle_def authenticate_def)
qed

text \<open>
  C21: every run of a statement is audited, once and under the caller's name, whether the guard blocked it, the database failed it or it
  returned rows: the connections and statements of the audit records a request adds are those of the runs it asked the engines for, and the
  status of a record is that of the reply.
\<close>

theorem handle_audits_every_run:
  assumes "cf_audit cfg" "r = handle cfg req s"
  shows "map (\<lambda>a. (ad_connectionId a, ad_sql a)) (drop (length (sv_audits s)) (sv_audits (snd r)))
      = List.map_filter executed (drop (length (sv_calls s)) (sv_calls (snd r)))
    \<and> (\<forall>a \<in> set (drop (length (sv_audits s)) (sv_audits (snd r))).
         (\<exists>auth. cf_auth cfg req = Inr (Some auth) \<and> ad_userId a = au_userId auth)
         \<and> (case ad_status a of
              StatusOk \<Rightarrow> \<exists>res. fst r = JsonReply 200 (ResultBody res)
            | StatusBlocked \<Rightarrow> \<exists>m t q. fst r = JsonReply 400 (ErrorBody (GuardBlocked, m, t) q)
            | StatusError \<Rightarrow> \<exists>n c m t q. fst r = JsonReply n (ErrorBody (c, m, t) q) \<and> c \<noteq> GuardBlocked))"
proof (cases "crossSiteRejection req (cf_requireLoopbackHost cfg)")
  case (Some reply)
  with assms(2) show ?thesis by (simp add: handle_def map_filter_simps)
next
  case None
  show ?thesis
  proof (cases "authenticate cfg req")
    case (Inl t)
    with None assms(2) show ?thesis by (simp add: handle_def map_filter_simps)
  next
    case (Inr auth)
    then have hook: "cf_auth cfg req = Inr (Some auth)" by (auto simp: authenticate_def split: sum.splits option.splits)
    obtain d s' where d: "dispatch cfg req auth s = (d, s')" by fastforce
    with audits_dispatch [of cfg auth s req] have match: "audits_match cfg auth s (d, s')" by simp
    have states: "sv_audits (snd r) = sv_audits s'" "sv_calls (snd r) = sv_calls s'"
      and reply: "fst r = (case d of Inr x \<Rightarrow> x | Inl failure \<Rightarrow> errorResponse failure)"
      using None Inr d assms(2) by (auto simp: handle_def split: sum.splits)
    have shown: "case outcome_of d of
          StatusOk \<Rightarrow> \<exists>res. fst r = JsonReply 200 (ResultBody res)
        | StatusBlocked \<Rightarrow> \<exists>m t q. fst r = JsonReply 400 (ErrorBody (GuardBlocked, m, t) q)
        | StatusError \<Rightarrow> \<exists>n c m t q. fst r = JsonReply n (ErrorBody (c, m, t) q) \<and> c \<noteq> GuardBlocked"
      if "\<forall>x. d = Inr x \<longrightarrow> (\<exists>res. x = JsonReply 200 (ResultBody res))"
      using that by (cases d) (auto simp: reply outcome_of_def errorResponse_def AskSqlError_toJSON_def error_status_def Let_def)
    from match obtain as cs where "sv_audits s' = sv_audits s @ as" "sv_calls s' = sv_calls s @ cs"
        "map (\<lambda>a. (ad_connectionId a, ad_sql a)) as = List.map_filter executed cs"
        "\<forall>a \<in> set as. ad_userId a = au_userId auth \<and> ad_status a = outcome_of d \<and> (\<forall>x. d = Inr x \<longrightarrow> (\<exists>res. x = JsonReply 200 (ResultBody res)))"
      using assms(1) by (auto simp: audits_match_def)
    with states hook shown show ?thesis by auto
  qed
qed


section \<open>Examples\<close>

text \<open>A server of two tenants and a caller who may use the connection \<open>a\<close>; the engine refuses every statement.\<close>

definition tenant_engines :: engines where
  "tenant_engines =
     \<lparr>eg_catalog = \<lambda>_. Inr (example_catalog []),
      eg_execute = \<lambda>_. Inl (ThrownAskSql (new_AskSqlError GuardBlocked \<lparr>o_userMessage = None, o_detail = None, o_retryable = None\<rparr>)),
      eg_suggestFix = \<lambda>_. Inr None, eg_explain = \<lambda>_. Inr [], eg_explainSchema = \<lambda>_. Inl (ThrownError ''Error'' ''secret''),
      eg_feedback = \<lambda>_. Inr (), eg_connect = \<lambda>_ _. Inl (ThrownOther ''no driver''), eg_close = \<lambda>_. None\<rparr>"

definition tenant_server :: server_config where
  "tenant_server =
     \<lparr>cf_auth = \<lambda>_. Inr (Some \<lparr>au_userId = ''u'', au_allowed = [''a'']\<rparr>), cf_requireLoopbackHost = False,
      cf_dynamicConnections = Some \<lparr>dy_enabled = True, dy_allowedHosts = None, dy_allowedFileRoots = None, dy_allowFileEngines = None\<rparr>,
      cf_suggestFixOnError = True, cf_audit = True, cf_files = \<lparr>fs_cwd = [], fs_real = \<lambda>_. None\<rparr>, cf_engines = tenant_engines\<rparr>"

definition tenant_connection :: "string \<Rightarrow> server_connection" where
  "tenant_connection i = \<lparr>sc_id = i, sc_name = i, sc_engine = ''postgres'', sc_database = None, sc_capabilities = JNull\<rparr>"

definition tenant_state :: server_state where
  "tenant_state =
     \<lparr>sv_connectors = [tenant_connection ''a'', tenant_connection ''b''], sv_mongo = [], sv_dynamicIds = [], sv_dynamicSeq = 0, sv_creating = [],
      sv_history = new_MemoryHistoryStore None, sv_calls = [], sv_reads = [], sv_audits = [], sv_auditSeq = 0, sv_reports = []\<rparr>"

definition tenant_get :: "string \<Rightarrow> string \<Rightarrow> server_request" where
  "tenant_get path i =
     \<lparr>sr_method = ''GET'', sr_path = path, sr_query = [''connectionId'' \<mapsto> i], sr_headers = Map.empty, sr_json = Inr JNull\<rparr>"

definition tenant_post :: "string \<Rightarrow> props \<Rightarrow> server_request" where
  "tenant_post path body =
     \<lparr>sr_method = ''POST'', sr_path = path, sr_query = Map.empty, sr_headers = [''content-type'' \<mapsto> ''application/json''], sr_json = Inr (JObj body)\<rparr>"

lemma tenant_schema: "made_calls tenant_state (handle tenant_server (tenant_get ''/schema'' ''a'') tenant_state) = [SqlCatalog ''a'' False]"
  by code_simp


theorem handle_denies_uniformly_witness:
  "fst (handle tenant_server (tenant_get ''/history'' ''b'') tenant_state) = fst (handle tenant_server (tenant_get ''/history'' ''nowhere'') tenant_state)"
proof -
  have reply: "fst (handle tenant_server (tenant_get ''/history'' i) tenant_state) = JsonReply 403 (ErrorBody (ServerAuthz, DEFAULT_MESSAGES ServerAuthz, False) None)"
    if "i \<in> {''b'', ''nowhere''}" for i
  proof -
    have origin: "crossSiteRejection (tenant_get ''/history'' i) (cf_requireLoopbackHost tenant_server) = None"
      and hook: "cf_auth tenant_server (tenant_get ''/history'' i) = Inr (Some \<lparr>au_userId = ''u'', au_allowed = [''a'']\<rparr>)"
      by (simp_all add: crossSiteRejection_def tenant_get_def tenant_server_def)
    have "normalizePath ''/history'' = ''/history''" by code_simp
    then have names: "names_connection (tenant_get ''/history'' i) i" by (simp add: names_connection_def tenant_get_def)
    have "i \<noteq> []" "\<not> canAccess \<lparr>au_userId = ''u'', au_allowed = [''a'']\<rparr> i" using that by (auto simp: canAccess_def ANY_CONNECTION_def)
    from handle_denies_uniformly [OF origin hook names this] show ?thesis by (metis fst_conv)
  qed
  show ?thesis by (simp add: reply)
qed

theorem handle_audits_every_run_witness:
  "map (\<lambda>a. (ad_connectionId a, ad_sql a))
     (sv_audits (snd (handle tenant_server (tenant_post ''/execute'' [(''sql'', JStr ''x'')]) tenant_state))) = [(''a'', ''x'')]"
proof -
  have "sv_calls (snd (handle tenant_server (tenant_post ''/execute'' [(''sql'', JStr ''x'')]) tenant_state)) = [SqlExecute ''a'' ''x'' JUndef JUndef ''u'']"
    by code_simp
  moreover have "cf_audit tenant_server" "sv_audits tenant_state = []" "sv_calls tenant_state = []" by (simp_all add: tenant_server_def tenant_state_def)
  ultimately show ?thesis
    using handle_audits_every_run [of tenant_server _ "tenant_post ''/execute'' [(''sql'', JStr ''x'')]" tenant_state, OF _ refl] by (simp add: map_filter_simps)
qed


text \<open>A malformed escape in the path of a removal is a fault of the client, but leaves as an error of the server.\<close>

lemma malformed_escape_is_500:
  "fst (handle tenant_server ((tenant_post ''/connections/%'' [])\<lparr>sr_method := ''DELETE''\<rparr>) tenant_state)
     = JsonReply 500 (ErrorBody (ConfigError, DEFAULT_MESSAGES ConfigError, False) None)"
  by code_simp

end
