(* ===== verification/JSON_Round_Trip.thy ===== *)
theory JSON_Round_Trip
  imports JSON "HOL-Library.Multiset"
begin

text \<open>
  \<open>JSON.parse\<close> reads back what \<open>JSON.stringify\<close> wrote, on every value the parser can give. A number is written with the fewest
  digits that identify it and read back from those digits; \<open>reread\<close> is that number, which is the number itself for every integer
  up to \<open>2 ^ 53\<close>. The round trip is proved on tokens first, then for the lexer.
\<close>

section \<open>Numbers\<close>

lemma show_nat_first: "0 < n \<Longrightarrow> hd (show_nat n) \<noteq> CHR ''0''"
proof (induction n rule: show_nat.induct)
  case (1 n)
  show ?case
  proof (cases "n < 10")
    case True
    with 1(2) have "code (char_of (48 + n)) \<noteq> code (CHR ''0'')" by (simp add: code_def)
    then have "char_of (48 + n) \<noteq> CHR ''0''" by metis
    with True show ?thesis by (simp add: show_nat.simps [of n])
  next
    case False
    with 1 show ?thesis by (simp add: show_nat.simps [of n])
  qed
qed

lemma int_digits_form:
  assumes "0 \<le> z"
  shows "list_all is_digit (int_digits z)" "int_digits z \<noteq> []" "0 < z \<Longrightarrow> hd (int_digits z) \<noteq> CHR ''0''"
    "digits_int 0 (int_digits z) = z"
proof -
  obtain n where z: "z = int n" using assms nonneg_int_cases by blast
  show "list_all is_digit (int_digits z)" "int_digits z \<noteq> []" "0 < z \<Longrightarrow> hd (int_digits z) \<noteq> CHR ''0''"
    using show_nat_digits show_nat_first by (simp_all add: z int_digits_nat)
  show "digits_int 0 (int_digits z) = z"
    using digits_int_val [of 0 "show_nat n"] number_show_nat [of n] by (simp add: z int_digits_nat number_of_digits_def)
qed

text \<open>What may follow a number: nothing that could be read as more of it.\<close>

definition ends_number :: "string \<Rightarrow> bool" where
  "ends_number r \<longleftrightarrow> (case r of [] \<Rightarrow> True | c # _ \<Rightarrow> \<not> is_digit c \<and> c \<notin> set ''.eE'')"

lemma ends_number_simps [simp]: "ends_number []" "ends_number (c # r) \<longleftrightarrow> \<not> is_digit c \<and> c \<notin> set ''.eE''"
  by (simp_all add: ends_number_def)

definition ends_digits :: "string \<Rightarrow> bool" where
  "ends_digits r \<longleftrightarrow> (case r of [] \<Rightarrow> True | c # _ \<Rightarrow> \<not> is_digit c)"

lemma ends_digits_simps [simp]: "ends_digits []" "ends_digits (c # r) \<longleftrightarrow> \<not> is_digit c"
  by (simp_all add: ends_digits_def)

lemma ends_number_digits: "ends_number r \<Longrightarrow> ends_digits r"
  by (cases r) auto

lemma digits_then: "list_all is_digit ds \<Longrightarrow> ends_digits r \<Longrightarrow> takeWhile is_digit (ds @ r) = ds \<and> dropWhile is_digit (ds @ r) = r"
  by (induction ds) (cases r; auto)+

lemma json_int_part_digits:
  assumes "list_all is_digit ds" "ds \<noteq> []" "ds = ''0'' \<or> hd ds \<noteq> CHR ''0''" "ends_digits r"
  shows "json_int_part (ds @ r) = Some (ds, r)"
  using assms digits_then [OF assms(1,4)] by (cases ds) (auto simp: json_int_part_def)

lemma json_frac_part_none: "ends_number r \<or> hd r \<in> set ''eE'' \<Longrightarrow> json_frac_part r = Some ([], r)"
  by (cases r) (auto simp: json_frac_part_def)

lemma json_frac_part_digits:
  "list_all is_digit ds \<Longrightarrow> ds \<noteq> [] \<Longrightarrow> ends_digits r \<Longrightarrow> json_frac_part (CHR ''.'' # ds @ r) = Some (ds, r)"
  using digits_then [of ds r] by (simp add: json_frac_part_def)

lemma json_exp_part_none: "ends_number r \<Longrightarrow> json_exp_part r = Some (0, r)"
  by (cases r) (auto simp: json_exp_part_def)

lemma json_exp_digits_digits:
  "list_all is_digit ds \<Longrightarrow> ds \<noteq> [] \<Longrightarrow> ends_digits r \<Longrightarrow> json_exp_digits s (ds @ r) = Some (s * digits_int 0 ds, r)"
  using digits_then [of ds r] by (simp add: json_exp_digits_def)

lemma json_exp_part_int:
  assumes "ends_number r"
  shows "\<exists>e. \<forall>r. ends_number r \<longrightarrow> json_exp_part (CHR ''e'' # (if 0 \<le> z then ''+'' else []) @ show_int z @ r) = Some (e, r)"
proof (cases "0 \<le> z")
  case True
  with int_digits_form [OF True] json_exp_digits_digits ends_number_digits show ?thesis
    by (auto simp: json_exp_part_def show_int_def)
next
  case False
  with int_digits_form [of "- z"] json_exp_digits_digits ends_number_digits show ?thesis
    by (auto simp: json_exp_part_def show_int_def)
qed

lemma not_digits [simp]: "\<not> is_digit (CHR ''e'')" "\<not> is_digit (CHR ''.'')" "\<not> is_digit (CHR ''-'')" "\<not> is_digit (CHR ''+'')"
  by code_simp+

text \<open>A number with a first digit that is not zero, or zero alone, before an optional fraction and exponent.\<close>

definition number_text :: "string \<Rightarrow> bool" where
  "number_text s \<longleftrightarrow> (\<exists>q. \<forall>r. ends_number r \<longrightarrow> json_unsigned (s @ r) = Some (q, r))"

lemma number_textI:
  assumes ip: "list_all is_digit ip" "ip \<noteq> []" "ip = ''0'' \<or> hd ip \<noteq> CHR ''0''"
    and fp: "list_all is_digit fp" "fr = (if fp = [] then [] else CHR ''.'' # fp)"
    and ep: "ex = [] \<or> ex = CHR ''e'' # (if 0 \<le> z then ''+'' else []) @ show_int z"
  shows "number_text (ip @ fr @ ex)"
proof -
  obtain e where e: "json_exp_part (ex @ r) = Some (e, r)" if "ends_number r" for r
    using ep json_exp_part_int [of "[]" z] json_exp_part_none by (metis append.left_neutral append_Cons append_assoc ends_number_simps(1))
  have head: "ends_digits (ex @ r)" "ends_number (ex @ r) \<or> hd (ex @ r) \<in> set ''eE''" if "ends_number r" for r
    using that ep ends_number_digits by auto
  have "json_frac_part (fr @ ex @ r) = Some (fp, ex @ r)" if "ends_number r" for r
    using fp head [OF that] json_frac_part_none json_frac_part_digits by auto
  moreover have "ends_digits (fr @ ex @ r)" if "ends_number r" for r
    using fp(2) head [OF that] by auto
  ultimately have "json_unsigned ((ip @ fr @ ex) @ r) = Some (scale 10 (of_int (digits_int 0 (ip @ fp))) (e - int (length fp)), r)" if "ends_number r" for r
    using that e json_int_part_digits [OF ip] by (simp add: json_unsigned_def)
  then show ?thesis unfolding number_text_def by blast
qed

section \<open>The digits of a number\<close>

lemma flog_int_le: "2 \<le> b \<Longrightarrow> 1 \<le> n \<Longrightarrow> b ^ flog_int b n \<le> n \<and> n < b ^ Suc (flog_int b n)"
proof (induction b n rule: flog_int.induct)
  case (1 b n)
  show ?case
  proof (cases "n < b")
    case True
    with 1(3) show ?thesis by (simp add: flog_int.simps [of b n])
  next
    case False
    with 1 have IH: "b ^ flog_int b (n div b) \<le> n div b" "n div b < b ^ Suc (flog_int b (n div b))"
      by (auto simp: pos_imp_zdiv_pos_iff int_one_le_iff_zero_less)
    have "b * b ^ flog_int b (n div b) \<le> b * (n div b)" using IH(1) 1(2) by (intro mult_left_mono) auto
    also have "\<dots> \<le> n" using 1(2) by (simp add: mult_div_mod_eq [symmetric] pos_mod_sign mult.commute minus_mod_eq_mult_div [symmetric])
    finally have lo: "b * b ^ flog_int b (n div b) \<le> n" .
    have "n < b * (n div b + 1)" unfolding distrib_left using 1(2) pos_mod_bound [of b n] mult_div_mod_eq [of b n] by linarith
    also have "\<dots> \<le> b * b ^ Suc (flog_int b (n div b))" using IH(2) 1(2) by (intro mult_left_mono) auto
    finally show ?thesis using lo False 1(2) by (simp add: flog_int.simps [of b n])
  qed
qed

lemma flog10_le: "0 < x \<Longrightarrow> scale 10 1 (flog 10 x) \<le> x"
proof (cases "1 \<le> x")
  case True
  then have "1 \<le> \<lfloor>x\<rfloor>" by linarith
  with flog_int_le [of 10 "\<lfloor>x\<rfloor>"] have "10 ^ flog_int 10 \<lfloor>x\<rfloor> \<le> \<lfloor>x\<rfloor>" by simp
  then have "rat_of_int (10 ^ flog_int 10 \<lfloor>x\<rfloor>) \<le> x" by (simp only: le_floor_iff)
  with True show ?thesis by (simp add: flog_def scale_def)
next
  case False
  assume "0 < x"
  define k where "k = flog_int 10 \<lfloor>1 / x\<rfloor>"
  have "1 \<le> \<lfloor>1 / x\<rfloor>" using False \<open>0 < x\<close> by simp
  with flog_int_le [of 10 "\<lfloor>1 / x\<rfloor>"] have "\<lfloor>1 / x\<rfloor> < 10 ^ Suc k" by (simp add: k_def)
  then have up: "1 / x < 10 ^ Suc k" by (simp add: floor_less_iff)
  have inv: "1 / 10 ^ j \<le> x" if "1 / x \<le> 10 ^ j" for j :: nat
    using that \<open>0 < x\<close> by (simp add: field_simps)
  show ?thesis
  proof (cases "1 / x \<le> rat_of_int (10 ^ k)")
    case True
    then have "1 / x \<le> 10 ^ k" by simp
    moreover have "k \<noteq> 0" using calculation False \<open>0 < x\<close> by (intro notI) simp
    ultimately show ?thesis using inv [of k] False True by (simp add: flog_def scale_def flip: k_def)
  next
    case far: False
    from inv [of "Suc k"] up have "1 / 10 ^ Suc k \<le> x" by simp
    moreover have "flog 10 x = - int (Suc k)" using False far by (simp add: flog_def flip: k_def)
    ultimately show ?thesis by (simp add: scale_def del: power_Suc of_nat_Suc)
  qed
qed

lemma scale_powi: "scale 10 x e = x * 10 powi e"
proof (cases "0 \<le> e")
  case False
  then have "(10 :: rat) powi e = inverse (10 ^ nat (- e))" by (simp only: power_int_def if_False power_inverse)
  with False show ?thesis by (simp add: scale_def divide_inverse)
qed (simp add: scale_def power_int_def)

lemma round_half_even_pos: "1 \<le> q \<Longrightarrow> 1 \<le> round_half_even q"
  by (auto simp: round_half_even_def Let_def le_floor_iff)

lemma digits_pos:
  assumes "0 < x" "- flog 10 x \<le> e"
  shows "1 \<le> round_half_even (scale 10 x e)"
proof (rule round_half_even_pos)
  have "1 \<le> (10 :: rat) powi (flog 10 x + e)" using assms(2) by (simp add: power_int_def)
  also have "\<dots> = 10 powi flog 10 x * 10 powi e" by (simp add: power_int_add)
  also have "\<dots> \<le> x * 10 powi e" using flog10_le [OF assms(1)] by (intro mult_right_mono) (simp_all add: scale_powi)
  finally show "1 \<le> scale 10 x e" by (simp add: scale_powi)
qed

lemma shortest_digits_pos:
  assumes "0 < x"
  shows "0 < fst (shortest_digits x)"
proof -
  define n where "n = flog 10 x + 1"
  have c: "1 \<le> round_half_even (scale 10 x (int k - n))" if "1 \<le> k" for k
    using digits_pos [OF assms, of "int k - n"] that by (simp add: n_def)
  define good where "good = (\<lambda>k. nearest_double (scale 10 (of_int (round_half_even (scale 10 x (int k - n)))) (n - int k)) = x)"
  have unfolded: "shortest_digits x = (case List.find good [1..<18] of None \<Rightarrow> (round_half_even (scale 10 x (int 17 - n)), n)
      | Some k \<Rightarrow> if round_half_even (scale 10 x (int k - n)) = 10 ^ k then (10 ^ (k - 1), n + 1) else (round_half_even (scale 10 x (int k - n)), n))"
    unfolding shortest_digits_def Let_def good_def n_def ..
  show ?thesis
  proof (cases "List.find good [1..<18]")
    case None
    with c [of 17] show ?thesis by (simp add: unfolded)
  next
    case (Some k)
    then have "1 \<le> k" using find_Some_iff [of good "[1..<18]" k] by (auto simp del: upt_Suc upt_rec_numeral)
    with c [of k] Some show ?thesis by (simp add: unfolded)
  qed
qed

lemma show_pos_text:
  assumes "0 < x"
  shows "number_text (show_pos x)"
proof -
  obtain s n where sn: "shortest_digits x = (s, n)" by (cases "shortest_digits x")
  with shortest_digits_pos [OF assms] have s: "0 < s" by simp
  define ds where "ds = int_digits s"
  have ds: "list_all is_digit ds" "ds \<noteq> []" "hd ds \<noteq> CHR ''0''" using int_digits_form [of s] s by (auto simp: ds_def)
  have digits: "list_all is_digit (take i ds)" "list_all is_digit (drop i ds)" "list_all is_digit (replicate i (CHR ''0''))" for i
    using ds(1) by (auto simp: list_all_iff is_digit_def code_def dest: in_set_takeD in_set_dropD)
  have zero: "is_digit (CHR ''0'')" by code_simp
  define k where "k = int (length ds)"
  consider (whole) "k \<le> n" "n \<le> 21" | (point) "\<not> (k \<le> n \<and> n \<le> 21)" "0 < n" "n \<le> 21"
    | (small) "\<not> (k \<le> n \<and> n \<le> 21)" "\<not> (0 < n \<and> n \<le> 21)" "- 6 < n" "n \<le> 0"
    | (scientific) "\<not> (k \<le> n \<and> n \<le> 21)" "\<not> (0 < n \<and> n \<le> 21)" "\<not> (- 6 < n \<and> n \<le> 0)" by blast
  then show ?thesis
  proof cases
    case whole
    then have "show_pos x = (ds @ replicate (nat (n - k)) (CHR ''0'')) @ [] @ []"
      by (simp add: show_pos_def sn Let_def flip: ds_def k_def)
    moreover have "number_text \<dots>" by (rule number_textI [where fp = "[]"]) (use ds digits in \<open>auto simp: list_all_append\<close>)
    ultimately show ?thesis by simp
  next
    case point
    then have "show_pos x = take (nat n) ds @ (CHR ''.'' # drop (nat n) ds) @ []"
      by (simp add: show_pos_def sn Let_def flip: ds_def k_def)
    moreover have "number_text \<dots>"
      by (rule number_textI [where fp = "drop (nat n) ds"]) (use ds digits point k_def in \<open>auto simp: hd_take\<close>)
    ultimately show ?thesis by simp
  next
    case small
    then have "show_pos x = ''0'' @ (CHR ''.'' # replicate (nat (- n)) (CHR ''0'') @ ds) @ []"
      by (auto simp add: show_pos_def sn Let_def simp flip: ds_def k_def)
    moreover have "number_text \<dots>"
      by (rule number_textI [where fp = "replicate (nat (- n)) (CHR ''0'') @ ds"]) (use ds digits zero in \<open>auto simp: list_all_append\<close>)
    ultimately show ?thesis by simp
  next
    case scientific
    let ?ex = "''e'' @ (if 0 \<le> n - 1 then ''+'' else []) @ show_int (n - 1)"
    show ?thesis
    proof (cases "length ds = 1")
      case True
      with scientific have "show_pos x = ds @ [] @ ?ex" by (auto simp add: show_pos_def sn Let_def k_def simp flip: ds_def)
      moreover have "number_text \<dots>" by (rule number_textI [where fp = "[]" and z = "n - 1"]) (use ds in auto)
      ultimately show ?thesis by simp
    next
      case False
      with scientific have "show_pos x = take 1 ds @ (CHR ''.'' # drop 1 ds) @ ?ex" by (auto simp add: show_pos_def sn Let_def k_def simp flip: ds_def)
      moreover have "drop 1 ds \<noteq> []" using False ds(2) by (cases ds) auto
      then have "number_text (take 1 ds @ (CHR ''.'' # drop 1 ds) @ ?ex)"
        by (intro number_textI [where fp = "drop 1 ds" and z = "n - 1"]) (use ds digits in \<open>auto simp: hd_take\<close>)
      ultimately show ?thesis by simp
    qed
  qed
qed

section \<open>Reading a number back\<close>

text \<open>The number \<open>JSON.stringify\<close> writes, as \<open>JSON.parse\<close> reads it; one that is not finite is written as \<open>null\<close>.\<close>

definition reread :: "jsnum \<Rightarrow> jsval" where
  "reread x = (if isFinite x then (case json_number (show_jsnum x) of Some (y, _) \<Rightarrow> JNum y | None \<Rightarrow> JNull) else JNull)"

lemma digit_not_minus: "ds \<noteq> [] \<Longrightarrow> list_all is_digit ds \<Longrightarrow> hd ds \<noteq> CHR ''-''"
  by (cases ds) auto

lemma number_text_first: "number_text s \<Longrightarrow> s \<noteq> [] \<and> is_digit (hd s)"
proof -
  assume "number_text s"
  then obtain q where "json_unsigned (s @ []) = Some (q, [])" unfolding number_text_def by (meson ends_number_simps(1))
  then have "json_int_part s \<noteq> None" by (auto simp: json_unsigned_def split: option.splits)
  moreover have "is_digit (CHR ''0'')" by code_simp
  ultimately show ?thesis by (cases s) (auto simp: json_int_part_def split: if_splits)
qed

lemma show_int_text: "0 \<le> z \<Longrightarrow> number_text (show_int z)"
  using number_textI [of "int_digits z" "[]" "[]" "[]" 0] int_digits_form [of z]
  by (cases "z = 0") (auto simp: show_int_def int_digits.simps [of 0])

lemma json_number_text:
  assumes "number_text s"
  shows "\<exists>y. \<forall>r. ends_number r \<longrightarrow> json_number (s @ r) = Some (y, r)" "\<exists>y. \<forall>r. ends_number r \<longrightarrow> json_number (CHR ''-'' # s @ r) = Some (y, r)"
proof -
  obtain q where q: "json_unsigned (s @ r) = Some (q, r)" if "ends_number r" for r using assms unfolding number_text_def by blast
  obtain c cs where "s = c # cs" "is_digit c" using number_text_first [OF assms] by (cases s) auto
  moreover from this have "c \<noteq> CHR ''-''" by (intro notI) simp
  ultimately have s: "s = c # cs" "c \<noteq> CHR ''-''" by simp_all
  from s q show "\<exists>y. \<forall>r. ends_number r \<longrightarrow> json_number (s @ r) = Some (y, r)" by (auto simp: json_number_def)
  from q show "\<exists>y. \<forall>r. ends_number r \<longrightarrow> json_number (CHR ''-'' # s @ r) = Some (y, r)" by (auto simp: json_number_def)
qed

lemma show_jsnum_text:
  assumes "isFinite x"
  obtains s where "number_text s" "show_jsnum x = s \<or> show_jsnum x = CHR ''-'' # s"
proof -
  obtain q where x: "x = Fin q" using assms by (cases x) auto
  show thesis
  proof (cases "q = of_int \<lfloor>q\<rfloor> \<and> \<bar>q\<bar> \<le> 2 ^ 53")
    case True
    with that [of "show_int \<bar>\<lfloor>q\<rfloor>\<bar>"] show_int_text [of "\<bar>\<lfloor>q\<rfloor>\<bar>"] show ?thesis by (auto simp: x show_int_def)
  next
    case False
    have "q \<noteq> 0" using False by auto
    with that [of "show_pos \<bar>q\<bar>"] show_pos_text [of "\<bar>q\<bar>"] False show ?thesis by (auto simp: x)
  qed
qed

lemma reread_number:
  assumes "isFinite x"
  obtains y where "reread x = JNum y" "\<And>r. ends_number r \<Longrightarrow> json_number (show_jsnum x @ r) = Some (y, r)"
    "show_jsnum x \<noteq> []" "is_digit (hd (show_jsnum x)) \<or> hd (show_jsnum x) = CHR ''-''"
proof -
  obtain s where s: "number_text s" "show_jsnum x = s \<or> show_jsnum x = CHR ''-'' # s" using show_jsnum_text [OF assms] by blast
  with json_number_text obtain y where y: "json_number (show_jsnum x @ r) = Some (y, r)" if "ends_number r" for r by (metis append_Cons)
  from y [of "[]"] have "reread x = JNum y" by (simp add: reread_def assms)
  with y s number_text_first [OF s(1)] that show thesis by auto
qed

text \<open>An integer is read back as itself.\<close>

lemma reread_int: "\<bar>z\<bar> \<le> 2 ^ 53 \<Longrightarrow> reread (Fin (of_int z)) = JNum (Fin (of_int z))"
proof -
  assume z: "\<bar>z\<bar> \<le> 2 ^ 53"
  then have small: "\<bar>rat_of_int z\<bar> \<le> 2 ^ 53" by (metis of_int_abs of_int_le_iff of_int_numeral of_int_power)
  have ip: "json_unsigned (int_digits \<bar>z\<bar>) = Some (of_int \<bar>z\<bar>, [])"
    using json_int_part_digits [of "int_digits \<bar>z\<bar>" "[]"] int_digits_form [of "\<bar>z\<bar>"]
    by (cases "z = 0") (auto simp: json_unsigned_def json_frac_part_def json_exp_part_def scale_def int_digits.simps [of 0])
  have "int_digits \<bar>z\<bar> \<noteq> [] \<and> hd (int_digits \<bar>z\<bar>) \<noteq> CHR ''-''"
    using int_digits_form [of "\<bar>z\<bar>"] digit_not_minus by simp
  then obtain c cs where c: "int_digits \<bar>z\<bar> = c # cs" "c \<noteq> CHR ''-''" by (cases "int_digits \<bar>z\<bar>") auto
  have read: "read_double (of_int z) = Fin (of_int z)" using small by (simp only: read_double_def floor_of_int simp_thms if_True)
  have "json_number (show_int z) = Some (Fin (of_int z), [])"
  proof (cases "z < 0")
    case True
    then have "\<bar>z\<bar> = - z" by simp
    with True ip read show ?thesis by (simp add: show_int_def json_number_def)
  next
    case False
    then have "\<bar>z\<bar> = z" by simp
    with False ip read c show ?thesis by (simp add: show_int_def json_number_def)
  qed
  moreover have "show_jsnum (Fin (of_int z)) = show_int z" using small by (simp only: show_jsnum.simps floor_of_int simp_thms if_True)
  ultimately show ?thesis unfolding reread_def by simp
qed

section \<open>Strings\<close>

lemma hex_char_digit: "n < 16 \<Longrightarrow> hex_digit (hex_char n) = Some n"
proof -
  have "\<forall>n \<in> set [0..<16]. hex_digit (hex_char n) = Some n" by code_simp
  then show "n < 16 \<Longrightarrow> hex_digit (hex_char n) = Some n" by simp
qed

lemma json_string_quote: "json_string (concat (map json_quote_char s) @ DQUOTE # r) = Some (s, r)"
proof (induction s)
  case (Cons c s)
  have code_eq: "c = char_of (code c)" by (simp add: code_def)
  have specials: "json_escape_char DQUOTE = Some DQUOTE" "json_escape_char BSLASH = Some BSLASH" "json_escape_char (CHR ''b'') = Some (char_of (8 :: nat))"
    "json_escape_char (CHR ''t'') = Some (char_of (9 :: nat))" "json_escape_char (CHR ''n'') = Some LF" "json_escape_char (CHR ''f'') = Some (char_of (12 :: nat))"
    "json_escape_char (CHR ''r'') = Some CR" "BSLASH \<noteq> DQUOTE" "DQUOTE \<noteq> CHR ''u''" "BSLASH \<noteq> CHR ''u''" "LF = char_of (10 :: nat)" "CR = char_of (13 :: nat)"
    by code_simp+
  consider "c = DQUOTE" | "c = BSLASH" | (short) "code c \<in> {8, 9, 10, 12, 13}" | (long) "code c < 32" "code c \<notin> {8, 9, 10, 12, 13}"
    | (plain) "c \<noteq> DQUOTE" "c \<noteq> BSLASH" "32 \<le> code c" by (metis not_le)
  then show ?case
  proof cases
    case short
    then have "c \<noteq> DQUOTE" "c \<noteq> BSLASH" by (auto simp: DQUOTE_def BSLASH_def code_def)
    moreover have "c \<in> {char_of (8 :: nat), char_of (9 :: nat), char_of (10 :: nat), char_of (12 :: nat), char_of (13 :: nat)}"
      using short code_eq by (metis insert_iff singletonD)
    moreover have "code (char_of (8 :: nat)) = 8" "code (char_of (9 :: nat)) = 9" "code (char_of (10 :: nat)) = 10" "code (char_of (12 :: nat)) = 12"
      "code (char_of (13 :: nat)) = 13" by code_simp+
    ultimately show ?thesis using Cons specials by (auto simp: json_quote_char_def)
  next
    case long
    then have "c \<noteq> DQUOTE" "c \<noteq> BSLASH" by (auto simp: DQUOTE_def BSLASH_def code_def)
    moreover have "hex_digit (CHR ''0'') = Some 0" by code_simp
    moreover have "hex_digit (hex_char (code c div 16)) = Some (code c div 16)" "hex_digit (hex_char (code c mod 16)) = Some (code c mod 16)"
      using long by (auto intro: hex_char_digit)
    moreover have "char_of (16 * (code c div 16) + code c mod 16) = c" using code_eq by simp
    ultimately show ?thesis using long Cons specials by (simp add: json_quote_char_def)
  next
    case plain
    with Cons show ?thesis by (simp add: json_quote_char_def)
  qed (use Cons specials in \<open>simp_all add: json_quote_char_def\<close>)
qed simp

section \<open>Values and their tokens\<close>

text \<open>The values the parser gives: nothing undefined, and objects whose keys differ and stand in the order of \<open>Object.keys\<close>.\<close>

fun parsed_value :: "jsval \<Rightarrow> bool" where
  "parsed_value JUndef = False"
| "parsed_value (JArr xs) = list_all parsed_value xs"
| "parsed_value (JObj kvs) = (distinct (map fst kvs) \<and> own_order kvs = kvs \<and> list_all (\<lambda>(k, v). parsed_value v) kvs)"
| "parsed_value _ = True"

fun renumber :: "jsval \<Rightarrow> jsval" where
  "renumber (JNum x) = reread x"
| "renumber (JArr xs) = JArr (map renumber xs)"
| "renumber (JObj kvs) = JObj (map (\<lambda>(k, v). (k, renumber v)) kvs)"
| "renumber v = v"

definition comma_separated :: "jtok list list \<Rightarrow> jtok list" where
  "comma_separated ts = (case ts of [] \<Rightarrow> [] | t # us \<Rightarrow> t @ concat (map ((#) TComma) us))"

fun value_tokens :: "jsval \<Rightarrow> jtok list" where
  "value_tokens (JNum x) = (case reread x of JNum y \<Rightarrow> [TNum y] | _ \<Rightarrow> [TWord JNull])"
| "value_tokens (JStr s) = [TStr s]"
| "value_tokens (JArr xs) = TLBrack # comma_separated (map value_tokens xs) @ [TRBrack]"
| "value_tokens (JObj kvs) = TLBrace # comma_separated (map (\<lambda>(k, v). TStr k # TColon # value_tokens v) kvs) @ [TRBrace]"
| "value_tokens JUndef = [TWord JNull]"
| "value_tokens v = [TWord v]"

section \<open>From text to tokens\<close>

definition ends_value :: "string \<Rightarrow> bool" where
  "ends_value r \<longleftrightarrow> (case r of [] \<Rightarrow> True | c # _ \<Rightarrow> c \<in> set '',]}'')"

lemma ends_value_simps [simp]: "ends_value []" "ends_value (c # r) \<longleftrightarrow> c \<in> set '',]}''"
  by (simp_all add: ends_value_def)

lemma ends_value_number: "ends_value r \<Longrightarrow> ends_number r"
proof -
  have "\<not> is_digit (CHR '','')" "\<not> is_digit (CHR '']'')" "\<not> is_digit (CHR ''}'')" by code_simp+
  then show "ends_value r \<Longrightarrow> ends_number r" by (cases r) auto
qed

lemma lex_token: "json_token s = (Some (Inr t), r) \<Longrightarrow> s \<noteq> [] \<Longrightarrow> json_lex s = map_option ((#) t) (json_lex r)"
  by (simp add: json_lex.simps [of s])

lemma punctuation_plain:
  "\<not> json_ws (CHR ''['')" "\<not> json_ws (CHR '']'')" "\<not> json_ws (CHR ''{'')" "\<not> json_ws (CHR ''}'')" "\<not> json_ws (CHR '','')" "\<not> json_ws (CHR '':'')"
  "\<not> json_ws DQUOTE" "\<not> json_ws (CHR ''n'')" "\<not> json_ws (CHR ''t'')" "\<not> json_ws (CHR ''f'')" "\<not> json_ws (CHR ''-'')"
  by code_simp+

lemma lex_punctuation [simp]:
  "json_lex (CHR ''['' # r) = map_option ((#) TLBrack) (json_lex r)" "json_lex (CHR '']'' # r) = map_option ((#) TRBrack) (json_lex r)"
  "json_lex (CHR ''{'' # r) = map_option ((#) TLBrace) (json_lex r)" "json_lex (CHR ''}'' # r) = map_option ((#) TRBrace) (json_lex r)"
  "json_lex (CHR '','' # r) = map_option ((#) TComma) (json_lex r)" "json_lex (CHR '':'' # r) = map_option ((#) TColon) (json_lex r)"
  by (rule lex_token; simp add: json_token_def punctuation_plain)+

lemma lex_quote: "json_lex (json_quote s @ r) = map_option ((#) (TStr s)) (json_lex r)"
  by (rule lex_token) (use json_string_quote [of s r] punctuation_plain(7) in \<open>simp_all add: json_token_def json_quote_def DQUOTE_def\<close>)

lemma lex_words:
  "json_lex (''true'' @ r) = map_option ((#) (TWord (JBool True))) (json_lex r)"
  "json_lex (''false'' @ r) = map_option ((#) (TWord (JBool False))) (json_lex r)"
  "json_lex (''null'' @ r) = map_option ((#) (TWord JNull)) (json_lex r)"
  by (rule lex_token; simp add: json_token_def punctuation_plain starts_with_def DQUOTE_def)+

lemma digit_plain:
  assumes "is_digit c \<or> c = CHR ''-''"
  shows "\<not> json_ws c" "c \<notin> set ''[]{},:tfn''" "c \<noteq> DQUOTE"
  using assms by (auto simp: is_digit_def json_ws_def code_def DQUOTE_def)

lemma lex_number:
  assumes "ends_value r"
  shows "json_lex (json_stringify (JNum x) @ r) = map_option ((@) (value_tokens (JNum x))) (json_lex r)"
proof (cases "isFinite x")
  case True
  then obtain y where y: "reread x = JNum y" "json_number (show_jsnum x @ r) = Some (y, r)" "show_jsnum x \<noteq> []"
      "is_digit (hd (show_jsnum x)) \<or> hd (show_jsnum x) = CHR ''-''"
    using assms ends_value_number by (blast elim: reread_number)
  then obtain c cs where c: "show_jsnum x = c # cs" "is_digit c \<or> c = CHR ''-''" by (cases "show_jsnum x") auto
  have "json_token (show_jsnum x @ r) = (Some (Inr (TNum y)), r)"
    using digit_plain [OF c(2)] y(2) by (simp add: c(1) json_token_def starts_with_def)
  with y show ?thesis using True lex_token [of "show_jsnum x @ r"] by (cases "json_lex r") simp_all
next
  case False
  with lex_words(3) [of r] show ?thesis by (cases "json_lex r") (simp_all add: reread_def)
qed

lemma lex_cons: "json_lex s = Some ts \<Longrightarrow> map_option ((#) t) (json_lex s) = Some (t # ts)"
  by simp

text \<open>A list of texts that each lex to their tokens, joined by commas.\<close>

lemma lex_joined:
  assumes "\<And>x r. x \<in> set xs \<Longrightarrow> ends_value r \<Longrightarrow> json_lex (f x @ r) = map_option ((@) (g x)) (json_lex r)" "ends_value r"
  shows "json_lex (join '','' (map f xs) @ r) = map_option ((@) (comma_separated (map g xs))) (json_lex r)"
  using assms
proof (induction xs)
  case (Cons x xs)
  show ?case
  proof (cases xs)
    case Nil
    with Cons.prems show ?thesis by (simp add: comma_separated_def)
  next
    case (Cons y ys)
    let ?rest = "join '','' (map f xs) @ r"
    have "json_lex ?rest = map_option ((@) (comma_separated (map g xs))) (json_lex r)" using Cons.IH Cons.prems by simp
    moreover have "json_lex (f x @ CHR '','' # ?rest) = map_option ((@) (g x)) (json_lex (CHR '','' # ?rest))" using Cons.prems by simp
    ultimately show ?thesis
      using local.Cons by (simp add: comma_separated_def option.map_comp comp_def)
  qed
qed (cases "json_lex r", simp_all add: comma_separated_def)

lemma lex_value:
  "parsed_value v \<Longrightarrow> ends_value r \<Longrightarrow> json_lex (json_stringify v @ r) = map_option ((@) (value_tokens v)) (json_lex r)"
proof (induction v arbitrary: r)
  case (JNum x)
  then show ?case using lex_number by blast
next
  case (JArr xs)
  have "json_lex (join '','' (map json_stringify xs) @ CHR '']'' # r) = map_option ((@) (comma_separated (map value_tokens xs))) (json_lex (CHR '']'' # r))"
    by (rule lex_joined) (use JArr in \<open>auto simp: list_all_iff\<close>)
  then show ?case by (simp add: option.map_comp comp_def)
next
  case (JObj kvs)
  have defined: "filter (\<lambda>(k, v). v \<noteq> JUndef) kvs = kvs"
    using JObj.prems(1) by (auto simp: filter_id_conv list_all_iff) 
  let ?f = "\<lambda>(k, v). json_quote k @ '':'' @ json_stringify v" and ?g = "\<lambda>(k, v). TStr k # TColon # value_tokens v"
  have "json_lex (join '','' (map ?f kvs) @ CHR ''}'' # r) = map_option ((@) (comma_separated (map ?g kvs))) (json_lex (CHR ''}'' # r))"
  proof (rule lex_joined)
    fix kv r assume kv: "kv \<in> set kvs" and r: "ends_value r"
    obtain k v where "kv = (k, v)" by (cases kv)
    with JObj kv r have "json_lex (json_stringify v @ r) = map_option ((@) (value_tokens v)) (json_lex r)"
      by (auto simp: list_all_iff)
    with \<open>kv = (k, v)\<close> show "json_lex (?f kv @ r) = map_option ((@) (?g kv)) (json_lex r)"
      by (cases "json_lex r") (simp_all add: lex_quote)
  qed simp
  with defined show ?case by (simp add: option.map_comp comp_def)
next
  case (JStr s)
  show ?case using lex_quote [of s r] by (cases "json_lex r") simp_all
next
  case (JBool b)
  show ?case using lex_words(1,2) [of r] by (cases "json_lex r"; cases b) simp_all
next
  case JNull
  show ?case using lex_words(3) [of r] by (cases "json_lex r") simp_all
qed simp

section \<open>From tokens to values\<close>

text \<open>A value is read wherever one may start; its first token is no bracket that closes.\<close>

lemma value_tokens_first: "value_tokens v \<noteq> [] \<and> hd (value_tokens v) \<notin> {TRBrack, TRBrace, TComma, TColon}"
  by (cases v) (auto split: jsval.splits)

lemma set_prop_fresh: "k \<notin> fst ` set kvs \<Longrightarrow> set_prop kvs k v = kvs @ [(k, v)]"
  by (simp add: set_prop_def)

lemma foldl_set_prop: "distinct (map fst (kvs @ es)) \<Longrightarrow> foldl (\<lambda>kvs (k, v). set_prop kvs k v) kvs es = kvs @ es"
  by (induction es arbitrary: kvs) (auto simp: set_prop_fresh)

lemma insort_key_map: "insort_key f (g x) (map g xs) = map g (insort_key (\<lambda>x. f (g x)) x xs)"
  by (induction xs) auto

lemma sort_key_map: "sort_key f (map g xs) = map g (sort_key (\<lambda>x. f (g x)) xs)"
  by (induction xs) (auto simp: insort_key_map)

lemma own_order_map: "own_order (map (\<lambda>(k, v). (k, f v)) kvs) = map (\<lambda>(k, v). (k, f v)) (own_order kvs)"
  by (simp add: own_order_def filter_map sort_key_map comp_def case_prod_unfold)

lemma object_of_parsed:
  assumes "distinct (map fst kvs)" "own_order kvs = kvs"
  shows "object_of (map (\<lambda>(k, v). (k, f v)) kvs) = JObj (map (\<lambda>(k, v). (k, f v)) kvs)"
proof -
  have "distinct (map fst ([] @ map (\<lambda>(k, v). (k, f v)) kvs))" using assms(1) by (simp add: comp_def case_prod_beta)
  from foldl_set_prop [OF this] show ?thesis by (simp add: object_of_def own_order_map assms(2))
qed

definition then_run :: "pstate option \<Rightarrow> jtok list \<Rightarrow> pstate option" where
  "then_run st ts = Option.bind st (\<lambda>s. json_run s ts)"

lemma then_run_simps [simp]: "then_run (Some s) ts = json_run s ts" "then_run None ts = None"
  by (simp_all add: then_run_def)

lemma json_run_Cons: "json_run st (t # ts) = then_run (json_step st t) ts"
  by (simp add: then_run_def split: option.splits)

declare json_run.simps(2) [simp del]

lemma item_or_end: "t # ts = value_tokens v @ us \<Longrightarrow> json_run (PItemOrEnd fs) (t # ts) = json_run (PValue fs) (t # ts)"
  using value_tokens_first [of v] by (cases "value_tokens v") (auto simp: json_run_Cons)

lemma run_items:
  assumes "\<And>x fs ts. x \<in> set xs \<Longrightarrow> json_run (PValue fs) (value_tokens x @ ts) = then_run (deliver (renumber x) fs) ts"
  shows "json_run (PAfter (FArr acc # fs)) (concat (map ((#) TComma) (map value_tokens xs)) @ TRBrack # ts)
    = then_run (deliver (JArr (rev acc @ map renumber xs)) fs) ts"
  using assms
proof (induction xs arbitrary: acc)
  case (Cons x xs)
  have "json_run (PValue (FArr acc # fs)) (value_tokens x @ concat (map ((#) TComma) (map value_tokens xs)) @ TRBrack # ts)
      = json_run (PAfter (FArr (renumber x # acc) # fs)) (concat (map ((#) TComma) (map value_tokens xs)) @ TRBrack # ts)"
    using Cons.prems by simp
  also have "\<dots> = then_run (deliver (JArr (rev acc @ map renumber (x # xs))) fs) ts" using Cons by simp
  finally show ?case by (simp add: json_run_Cons)
qed (simp add: json_run_Cons)

lemma run_entries:
  assumes "\<And>kv fs ts. kv \<in> set kvs \<Longrightarrow> json_run (PValue fs) (value_tokens (snd kv) @ ts) = then_run (deliver (renumber (snd kv)) fs) ts"
  shows "json_run (PAfter (FObj acc # fs)) (concat (map ((#) TComma) (map (\<lambda>(k, v). TStr k # TColon # value_tokens v) kvs)) @ TRBrace # ts)
    = then_run (deliver (object_of (rev acc @ map (\<lambda>(k, v). (k, renumber v)) kvs)) fs) ts"
  using assms
proof (induction kvs arbitrary: acc)
  case (Cons kv kvs)
  obtain k x where kv: "kv = (k, x)" by (cases kv)
  let ?rest = "concat (map ((#) TComma) (map (\<lambda>(k, v). TStr k # TColon # value_tokens v) kvs)) @ TRBrace # ts"
  have "json_run (PValue (FEntry acc k # fs)) (value_tokens x @ ?rest) = json_run (PAfter (FObj ((k, renumber x) # acc) # fs)) ?rest"
    using Cons.prems [of kv] kv by simp
  also have "\<dots> = then_run (deliver (object_of (rev acc @ map (\<lambda>(k, v). (k, renumber v)) (kv # kvs))) fs) ts"
    using Cons kv by simp
  finally show ?case by (simp add: json_run_Cons kv)
qed (simp add: json_run_Cons)

lemma run_value: "parsed_value v \<Longrightarrow> json_run (PValue fs) (value_tokens v @ ts) = then_run (deliver (renumber v) fs) ts"
proof (induction v arbitrary: fs ts)
  case (JNum x)
  show ?case by (cases "isFinite x", erule reread_number) (simp_all add: json_run_Cons reread_def)
next
  case (JArr xs)
  show ?case
  proof (cases xs)
    case (Cons y ys)
    have IH: "json_run (PValue fs) (value_tokens x @ ts) = then_run (deliver (renumber x) fs) ts" if "x \<in> set xs" for x fs ts
      using JArr that by (auto simp: list_all_iff)
    have "json_run (PItemOrEnd (FArr [] # fs)) (value_tokens y @ us) = json_run (PValue (FArr [] # fs)) (value_tokens y @ us)" for us
      using item_or_end [of _ _ y us] value_tokens_first [of y] by (cases "value_tokens y") auto
    with IH run_items [of ys "[renumber y]" fs ts] show ?thesis
      by (simp add: Cons json_run_Cons comma_separated_def)
  qed (simp add: json_run_Cons comma_separated_def)
next
  case (JObj kvs)
  have IH: "json_run (PValue fs) (value_tokens (snd kv) @ ts) = then_run (deliver (renumber (snd kv)) fs) ts" if "kv \<in> set kvs" for kv fs ts
    using JObj.IH [of kv "snd kv"] JObj.prems that by (cases kv) (auto simp: list_all_iff)
  have obj: "object_of (map (\<lambda>(k, v). (k, renumber v)) kvs) = renumber (JObj kvs)" using JObj.prems by (simp add: object_of_parsed)
  show ?case
  proof (cases kvs)
    case Nil
    with obj show ?thesis by (simp add: json_run_Cons comma_separated_def)
  next
    case (Cons kv kvs')
    obtain k x where kv: "kv = (k, x)" by (cases kv)
    have "json_run (PValue (FEntry [] k # fs)) (value_tokens x @ us) = json_run (PAfter (FObj [(k, renumber x)] # fs)) us" for us
      using IH [of kv] by (simp add: Cons kv)
    with IH run_entries [of kvs' "[(k, renumber x)]" fs ts] obj show ?thesis
      by (simp add: Cons kv json_run_Cons comma_separated_def)
  qed
qed (simp_all add: json_run_Cons)

text \<open>
  What \<open>JSON.stringify\<close> writes of a parsed value, \<open>JSON.parse\<close> reads as that value, its numbers as their digits give them.
\<close>

theorem json_round_trip:
  assumes "parsed_value v"
  shows "json_parse (json_stringify v) = Some (renumber v)"
proof -
  have "json_lex (json_stringify v) = Some (value_tokens v)"
    using lex_value [OF assms, of "[]"] by (simp add: json_lex.simps [of "[]"])
  moreover have "json_run (PValue []) (value_tokens v) = Some (PDone (renumber v))" using run_value [OF assms, of "[]" "[]"] by simp
  ultimately show ?thesis by (simp add: json_parse_def)
qed

section \<open>What the parser gives\<close>

lemma set_prop_keys: "distinct (map fst kvs) \<Longrightarrow> distinct (map fst (set_prop kvs k v))"
  by (auto simp: set_prop_def comp_def case_prod_unfold)

lemma set_prop_values: "list_all (\<lambda>(k, v). parsed_value v) kvs \<Longrightarrow> parsed_value v \<Longrightarrow> list_all (\<lambda>(k, v). parsed_value v) (set_prop kvs k v)"
  by (auto simp: set_prop_def list_all_iff)

lemma foldl_entries:
  "distinct (map fst kvs) \<Longrightarrow> list_all (\<lambda>(k, v). parsed_value v) kvs \<Longrightarrow> list_all (\<lambda>(k, v). parsed_value v) es \<Longrightarrow>
     distinct (map fst (foldl (\<lambda>kvs (k, v). set_prop kvs k v) kvs es)) \<and> list_all (\<lambda>(k, v). parsed_value v) (foldl (\<lambda>kvs (k, v). set_prop kvs k v) kvs es)"
  by (induction es arbitrary: kvs) (auto simp: set_prop_keys set_prop_values)

lemma own_order_perm: "mset (own_order kvs) = mset kvs"
proof -
  have "mset (filter P kvs) + mset (filter (\<lambda>x. \<not> P x) kvs) = mset kvs" for P :: "string \<times> jsval \<Rightarrow> bool"
    by (metis mset_filter multiset_partition)
  from this [of "\<lambda>(k, _). index_key k"] show ?thesis by (simp add: own_order_def case_prod_unfold)
qed

lemma own_order_idem: "own_order (own_order kvs) = own_order kvs"
proof -
  have "filter P (sort_key f (filter P kvs)) = sort_key f (filter P kvs)" "filter (\<lambda>x. \<not> P x) (sort_key f (filter P kvs)) = []"
    for P :: "string \<times> jsval \<Rightarrow> bool" and f :: "string \<times> jsval \<Rightarrow> int"
    by (auto simp: filter_id_conv filter_empty_conv)
  from this [of "\<lambda>(k, _). index_key k" "\<lambda>(k, _). digits_int 0 k"] show ?thesis
    by (simp add: own_order_def case_prod_unfold filter_empty_conv sort_key_id_if_sorted)
qed

lemma object_of_parsed_value: "list_all (\<lambda>(k, v). parsed_value v) es \<Longrightarrow> parsed_value (object_of es)"
proof -
  let ?kvs = "foldl (\<lambda>kvs (k, v). set_prop kvs k v) [] es"
  assume "list_all (\<lambda>(k, v). parsed_value v) es"
  with foldl_entries [of "[]" es] have kvs: "distinct (map fst ?kvs)" "list_all (\<lambda>(k, v). parsed_value v) ?kvs" by auto
  have "mset (map fst (own_order ?kvs)) = mset (map fst ?kvs)" by (simp add: own_order_perm)
  then have "distinct (map fst (own_order ?kvs))" using kvs(1) mset_eq_imp_distinct_iff by blast
  moreover have "set (own_order ?kvs) = set ?kvs" by (rule mset_eq_setD [OF own_order_perm])
  ultimately show ?thesis using kvs(2) by (simp add: object_of_def own_order_idem list_all_iff)
qed

fun parsed_frame :: "frame \<Rightarrow> bool" where
  "parsed_frame (FArr xs) = list_all parsed_value xs"
| "parsed_frame (FObj ps) = list_all (\<lambda>(k, v). parsed_value v) ps"
| "parsed_frame (FEntry ps k) = list_all (\<lambda>(k, v). parsed_value v) ps"

fun parsed_state :: "pstate \<Rightarrow> bool" where
  "parsed_state (PDone v) = parsed_value v"
| "parsed_state (PValue fs) = list_all parsed_frame fs"
| "parsed_state (PItemOrEnd fs) = list_all parsed_frame fs"
| "parsed_state (PKeyOrEnd fs) = list_all parsed_frame fs"
| "parsed_state (PKey fs) = list_all parsed_frame fs"
| "parsed_state (PColon fs) = list_all parsed_frame fs"
| "parsed_state (PAfter fs) = list_all parsed_frame fs"

fun parsed_token :: "jtok \<Rightarrow> bool" where
  "parsed_token (TWord v) = parsed_value v"
| "parsed_token _ = True"

lemma deliver_parsed: "deliver v fs = Some st \<Longrightarrow> parsed_value v \<Longrightarrow> list_all parsed_frame fs \<Longrightarrow> parsed_state st"
  by (cases "(v, fs)" rule: deliver.cases) auto

lemma close_parsed: "close_frame fs t = Some st \<Longrightarrow> list_all parsed_frame fs \<Longrightarrow> parsed_state st"
  by (cases "(fs, t)" rule: close_frame.cases) (auto simp: list_all_iff intro!: object_of_parsed_value elim!: deliver_parsed)

lemma start_value_parsed: "start_value fs t = Some st \<Longrightarrow> list_all parsed_frame fs \<Longrightarrow> parsed_token t \<Longrightarrow> parsed_state st"
  by (cases "(fs, t)" rule: start_value.cases) (auto elim!: deliver_parsed)

lemma start_key_parsed: "start_key fs t = Some st \<Longrightarrow> list_all parsed_frame fs \<Longrightarrow> parsed_state st"
  by (cases "(fs, t)" rule: start_key.cases) auto

lemma json_step_parsed: "json_step st t = Some st' \<Longrightarrow> parsed_state st \<Longrightarrow> parsed_token t \<Longrightarrow> parsed_state st'"
  by (cases st) (auto simp: list_all_iff split: if_splits list.splits frame.splits
      intro: start_value_parsed start_key_parsed close_parsed [unfolded list_all_iff])

lemma json_run_parsed: "json_run st ts = Some st' \<Longrightarrow> parsed_state st \<Longrightarrow> list_all parsed_token ts \<Longrightarrow> parsed_state st'"
  by (induction ts arbitrary: st) (auto simp: json_run_Cons then_run_def bind_eq_Some_conv intro: json_step_parsed)

lemma json_token_parsed: "json_token s = (Some (Inr t), r) \<Longrightarrow> parsed_token t"
  by (auto simp: json_token_def split: list.splits if_splits option.splits prod.splits)

lemma json_lex_parsed: "json_lex s = Some ts \<Longrightarrow> list_all parsed_token ts"
proof (induction s arbitrary: ts rule: json_lex.induct)
  case (1 s)
  then show ?case
    by (subst (asm) json_lex.simps) (auto split: if_splits prod.splits option.splits sum.splits dest: json_token_parsed)
qed

lemma json_parse_parsed: "json_parse s = Some v \<Longrightarrow> parsed_value v"
  by (auto simp: json_parse_def split: option.splits pstate.splits dest!: json_lex_parsed elim!: json_run_parsed [THEN parsed_state.simps(1) [THEN iffD1]])

theorem json_round_trip_witness: "json_parse (json_stringify (JArr [JNum (Fin 7), JObj [(''a'', JStr ''b'')]])) = Some (JArr [JNum (Fin 7), JObj [(''a'', JStr ''b'')]])"
proof -
  have "parsed_value (JArr [JNum (Fin 7), JObj [(''a'', JStr ''b'')]])" by (simp add: own_order_def)
  from json_round_trip [OF this] reread_int [of 7] show ?thesis by simp
qed

end
