(* ===== verification/Mongo_Extract.thy ===== *)
theory Mongo_Extract
  imports Extract Core_Types
begin

text \<open>
  \<open>packages/core/src/mongo/extract.ts\<close>: how the collection and the pipeline are read out of a reply that calls
  \<open>db.<collection>.aggregate([...])\<close>.

  The property: what is extracted is a part of the reply, an array literal whose brackets outside strings are closed at its end.
\<close>

section \<open>Model\<close>

datatype mongo_source = MongoFence | MongoWhole

record MongoExtraction =
  mx_collection :: string
  mx_pipelineJson :: string
  mx_explanation :: string
  mx_source :: mongo_source

text \<open>\<open>/```(?:js|javascript|json)?\s*\n?([\s\S]*?)```/\<close>\<close>

definition MONGO_FENCE_RE :: regex where
  "MONGO_FENCE_RE =
     cats [fence, Opt (ors [lits ''js'', lits ''javascript'', lits ''json'']), Star ws, Opt (lit LF), Group 1 (LazyStar anyc), fence]"

definition word_or_dollar :: regex where
  "word_or_dollar = Chr (\<lambda>c. is_word c \<or> c = CHR ''$'')"

definition quoted_name :: "nat \<Rightarrow> regex" where
  "quoted_name n = cats [one_of [DQUOTE, SQUOTE], Group n (plus (none_of [DQUOTE, SQUOTE])), one_of [DQUOTE, SQUOTE]]"

definition AGGREGATE_CALL_RE :: regex where
  "AGGREGATE_CALL_RE =
     cats [lits ''db'', Star ws,
           ors [cats [lit CHR ''.'', Star ws, Group 1 (cats [Chr (\<lambda>c. is_alpha c \<or> c = CHR ''_'' \<or> c = CHR ''$''), Star word_or_dollar])],
                cats [lit CHR ''.'', Star ws, lits ''getCollection'', Star ws, lit CHR ''('', Star ws, quoted_name 2, Star ws, lit CHR '')''],
                cats [lit CHR ''['', Star ws, quoted_name 3, Star ws, lit CHR '']'']],
           Star ws, lit CHR ''.'', Star ws, lits ''aggregate'', Star ws, lit CHR ''('']"

text \<open>\<open>findMatchingClose\<close> from the position \<open>i\<close> on, with what it has counted so far.\<close>

fun matching_close :: "int \<Rightarrow> bool \<Rightarrow> nat \<Rightarrow> string \<Rightarrow> nat option" where
  "matching_close depth inString i [] = None"
| "matching_close depth inString i (c # cs) =
     (if inString then
        (if c = BSLASH then (case cs of [] \<Rightarrow> None | _ # cs' \<Rightarrow> matching_close depth True (i + 2) cs')
         else matching_close depth (c \<noteq> DQUOTE) (i + 1) cs)
      else if c = DQUOTE then matching_close depth True (i + 1) cs
      else if c \<in> set ''([{'' then matching_close (depth + 1) False (i + 1) cs
      else if c \<in> set '')]}'' then (if depth - 1 = 0 then Some i else matching_close (depth - 1) False (i + 1) cs)
      else matching_close depth False (i + 1) cs)"

definition findMatchingClose :: "string \<Rightarrow> nat \<Rightarrow> nat option" where
  "findMatchingClose s open' = matching_close 0 False open' (drop open' s)"

definition call_collection :: "string \<Rightarrow> rmatch \<Rightarrow> string" where
  "call_collection s m =
     (case m_group s m 1 of Some c \<Rightarrow> c
      | None \<Rightarrow> (case m_group s m 2 of Some c \<Rightarrow> c | None \<Rightarrow> or_default (m_group s m 3) []))"

definition extractFrom :: "string \<Rightarrow> (string \<times> string) option" where
  "extractFrom candidate =
     (case re_exec AGGREGATE_CALL_RE candidate 0 of
        None \<Rightarrow> None
      | Some m \<Rightarrow>
          (if call_collection candidate m = [] then None
           else (case index_of candidate ''('' (m_end m - 1) of
                   None \<Rightarrow> None
                 | Some open' \<Rightarrow>
                     (case findMatchingClose candidate open' of
                        None \<Rightarrow> None
                      | Some close \<Rightarrow>
                          (let inner = trim (JS_Prelude.slice candidate (open' + 1) close) in
                           if starts_with inner ''['' then Some (call_collection candidate m, inner) else None)))))"

definition mongo_tidy :: "string \<Rightarrow> string" where
  "mongo_tidy s = take 2000 (trim (replace_all (plus ws) s (\<lambda>_. '' '')))"

fun first_call :: "string \<Rightarrow> rmatch list \<Rightarrow> MongoExtraction option" where
  "first_call raw [] = None"
| "first_call raw (f # fs) =
     (case extractFrom (fence_body raw f) of
        Some (collection, pipelineJson) \<Rightarrow>
          Some \<lparr>mx_collection = collection, mx_pipelineJson = pipelineJson,
                mx_explanation = mongo_tidy (replace_all ANY_FENCE (replace_text raw (m_whole raw f) '' '') (\<lambda>_. '' '')),
                mx_source = MongoFence\<rparr>
      | None \<Rightarrow> first_call raw fs)"

definition extractPipeline :: "string \<Rightarrow> MongoExtraction option" where
  "extractPipeline raw =
     (case first_call raw (match_all MONGO_FENCE_RE raw) of
        Some x \<Rightarrow> Some x
      | None \<Rightarrow>
          map_option (\<lambda>(collection, pipelineJson).
              \<lparr>mx_collection = collection, mx_pipelineJson = pipelineJson, mx_explanation = [], mx_source = MongoWhole\<rparr>)
            (extractFrom (trim raw)))"

section \<open>Brackets\<close>

text \<open>How deep a text leaves the brackets outside strings, and whether it ends inside a string.\<close>

fun nesting :: "int \<Rightarrow> bool \<Rightarrow> string \<Rightarrow> int \<times> bool" where
  "nesting depth inString [] = (depth, inString)"
| "nesting depth inString (c # cs) =
     (if inString then
        (if c = BSLASH then (case cs of [] \<Rightarrow> (depth, True) | _ # cs' \<Rightarrow> nesting depth True cs')
         else nesting depth (c \<noteq> DQUOTE) cs)
      else if c = DQUOTE then nesting depth True cs
      else if c \<in> set ''([{'' then nesting (depth + 1) False cs
      else if c \<in> set '')]}'' then nesting (depth - 1) False cs
      else nesting depth False cs)"

declare nesting.simps(2) [simp del] matching_close.simps(2) [simp del]

lemma matching_close_nesting:
  "matching_close depth inString i s = Some j \<Longrightarrow>
     i \<le> j \<and> j < i + length s \<and> s ! (j - i) \<in> set '')]}'' \<and> nesting depth inString (take (j - i) s) = (1, False)"
proof (induction depth inString i s rule: matching_close.induct)
  case (2 depth inString i c cs)
  consider (escape) d cs' where "inString" "c = BSLASH" "cs = d # cs'" "matching_close depth True (i + 2) cs' = Some j"
    | (string) "inString" "c \<noteq> BSLASH" "matching_close depth (c \<noteq> DQUOTE) (i + 1) cs = Some j"
    | (opens) "\<not> inString" "c = DQUOTE" "matching_close depth True (i + 1) cs = Some j"
    | (deeper) "\<not> inString" "c \<noteq> DQUOTE" "c \<in> set ''([{''" "matching_close (depth + 1) False (i + 1) cs = Some j"
    | (found) "\<not> inString" "c \<in> set '')]}''" "depth = 1" "j = i"
    | (higher) "\<not> inString" "c \<noteq> DQUOTE" "c \<notin> set ''([{''" "c \<in> set '')]}''" "depth \<noteq> 1" "matching_close (depth - 1) False (i + 1) cs = Some j"
    | (other) "\<not> inString" "c \<noteq> DQUOTE" "c \<notin> set ''([{''" "c \<notin> set '')]}''" "matching_close depth False (i + 1) cs = Some j"
    using "2.prems" by (auto simp only: matching_close.simps split: if_splits list.splits) auto
  then show ?case
  proof cases
    case escape
    with 2 have "i + 2 \<le> j \<and> j < i + 2 + length cs' \<and> cs' ! (j - (i + 2)) \<in> set '')]}'' \<and> nesting depth True (take (j - (i + 2)) cs') = (1, False)"
      by simp
    moreover from this obtain k where "j = i + 2 + k" using le_Suc_ex by blast
    ultimately show ?thesis using escape by (simp add: nesting.simps(2))
  next
    case found
    then show ?thesis by simp
  qed (use 2 in \<open>(clarsimp simp: nesting.simps(2) Suc_le_eq, cases "j - i"; auto simp: nesting.simps(2) diff_Suc split: nat.splits)\<close>)+
qed simp

lemma space_plain: "is_space c \<Longrightarrow> c \<notin> set ''([{'' \<and> c \<notin> set '')]}'' \<and> c \<noteq> DQUOTE \<and> c \<noteq> BSLASH"
  by (auto simp: is_space_def DQUOTE_def BSLASH_def code_def)

lemma nesting_only_spaces: "list_all is_space w \<Longrightarrow> nesting depth inString w = (depth, inString)"
  by (induction w) (use space_plain in \<open>auto simp: nesting.simps(2)\<close>)

lemma nesting_spaces: "list_all is_space w \<Longrightarrow> nesting depth inString (s @ w) = nesting depth inString s"
proof (induction "length s" arbitrary: depth inString s rule: less_induct)
  case less
  show ?case
  proof (cases s)
    case (Cons c cs)
    note IH = less.hyps [unfolded Cons, OF _ less.prems]
    show ?thesis
    proof (cases "inString \<and> c = BSLASH")
      case True
      with IH less.prems show ?thesis
        by (cases cs; cases w) (simp_all add: Cons nesting.simps(2) nesting_only_spaces)
    next
      case False
      with IH [of cs] show ?thesis by (simp add: Cons nesting.simps(2))
    qed
  qed (use less.prems in \<open>simp add: nesting_only_spaces\<close>)
qed

lemma nesting_front_spaces: "list_all is_space w \<Longrightarrow> nesting depth False (w @ s) = nesting depth False s"
  by (induction w) (use space_plain in \<open>auto simp: nesting.simps(2)\<close>)

lemma nesting_trim: "nesting depth False (trim s) = nesting depth False s"
proof -
  obtain a where a: "s = a @ trim_start s" "list_all is_space a" using trim_start_split by blast
  obtain b where b: "trim_start s = trim s @ b" "list_all is_space b" using trim_end_split unfolding trim_def by blast
  from a nesting_front_spaces have "nesting depth False s = nesting depth False (trim_start s)" by metis
  also from b nesting_spaces have "\<dots> = nesting depth False (trim s)" by metis
  finally show ?thesis by simp
qed

lemma nesting_shift: "nesting depth inString s = (n, b) \<Longrightarrow> nesting (depth + d) inString s = (n + d, b)"
proof (induction "length s" arbitrary: depth inString s rule: less_induct)
  case less
  show ?case
  proof (cases s)
    case (Cons c cs)
    note IH = less.hyps [unfolded Cons] and step = less.prems [unfolded Cons nesting.simps(2)]
    have shift: "depth + d + 1 = depth + 1 + d" "depth + d - 1 = depth - 1 + d" by simp_all
    consider "inString" "c = BSLASH" | "inString" "c \<noteq> BSLASH" | "\<not> inString" "c = DQUOTE" | "\<not> inString" "c \<noteq> DQUOTE" "c \<in> set ''([{''"
      | "\<not> inString" "c \<noteq> DQUOTE" "c \<notin> set ''([{''" "c \<in> set '')]}''" | "\<not> inString" "c \<noteq> DQUOTE" "c \<notin> set ''([{''" "c \<notin> set '')]}''"
      by blast
    then show ?thesis
    proof cases
      case 1
      with step IH show ?thesis by (auto simp: Cons nesting.simps(2) split: list.splits)
    qed (use step IH [of cs] in \<open>simp_all only: Cons nesting.simps(2) shift if_True if_False simp_thms list.size lessI\<close>)
  qed (use less.prems in simp)
qed

lemma extractFrom_sound:
  assumes "extractFrom candidate = Some (collection, p)"
  shows "sublist p candidate \<and> starts_with p ''['' \<and> trim p = p \<and> nesting 0 False p = (0, False) \<and> collection \<noteq> []"
proof -
  obtain m i j where m: "call_collection candidate m \<noteq> []" "collection = call_collection candidate m"
      and i: "index_of candidate ''('' (m_end m - 1) = Some i" and j: "findMatchingClose candidate i = Some j"
      and p: "p = trim (JS_Prelude.slice candidate (i + 1) j)" "starts_with p ''[''"
    using assms by (auto simp: extractFrom_def Let_def split: option.splits if_splits)
  from j have close: "i \<le> j" "j < i + length (drop i candidate)" "nesting 0 False (take (j - i) (drop i candidate)) = (1, False)"
    unfolding findMatchingClose_def by (blast dest: matching_close_nesting)+
  from index_of_SomeD [OF i] have at: "take 1 (drop i candidate) = ''(''" by simp
  then obtain rest where rest: "drop i candidate = CHR ''('' # rest" by (cases "drop i candidate") auto
  have "j \<noteq> i" using close(3) by (intro notI) simp
  with close(1) obtain k where k: "j = Suc (i + k)" by (metis le_Suc_ex add_Suc_right nat.exhaust add.right_neutral)
  have "JS_Prelude.slice candidate (i + 1) j = take k rest"
    using arg_cong [OF rest, of tl] k by (simp add: JS_Prelude.slice_def drop_Suc tl_drop)
  moreover have "nesting 0 False (take (j - i) (drop i candidate)) = nesting 1 False (take k rest)"
    by (simp add: rest k nesting.simps(2) DQUOTE_def)
  ultimately have "nesting 1 False p = (1, False)" using close(3) p(1) by (simp add: nesting_trim)
  with nesting_shift [of 1 False p 1 False "-1"] have "nesting 0 False p = (0, False)" by simp
  moreover have "sublist p candidate" unfolding p(1)
    using sublist_order.order_trans [OF trim_sublist slice_sublist] by blast
  ultimately show ?thesis using m p by simp
qed

lemma first_call_sound:
  "first_call raw fs = Some x \<Longrightarrow> \<exists>f. extractFrom (fence_body raw f) = Some (mx_collection x, mx_pipelineJson x)"
  by (induction raw fs rule: first_call.induct) (auto split: option.splits)

lemma fence_body_sublist: "sublist (fence_body raw f) raw"
  using sublist_order.order_trans [OF trim_sublist slice_sublist]
  by (auto simp: fence_body_def m_group_def trim_def trim_start_def trim_end_def split: option.splits)

text \<open>
  Extraction invents nothing: the pipeline is a contiguous, trimmed part of the reply that starts an array, and every bracket it opens
  outside its strings it closes.
\<close>

theorem extractPipeline_sound:
  assumes "extractPipeline raw = Some x"
  shows "sublist (mx_pipelineJson x) raw \<and> starts_with (mx_pipelineJson x) ''['' \<and> trim (mx_pipelineJson x) = mx_pipelineJson x
    \<and> nesting 0 False (mx_pipelineJson x) = (0, False) \<and> mx_collection x \<noteq> []"
proof -
  have "\<exists>c. extractFrom c = Some (mx_collection x, mx_pipelineJson x) \<and> sublist c raw"
    using assms first_call_sound fence_body_sublist trim_sublist
    by (fastforce simp: extractPipeline_def split: option.splits)
  with extractFrom_sound show ?thesis by (meson sublist_order.order_trans)
qed

theorem extractPipeline_sound_witness: "nesting 0 False ''[{a: []}]'' = (0, False)"
proof -
  have "extractPipeline ''Use db.orders.aggregate([{a: []}]) here'' =
      Some \<lparr>mx_collection = ''orders'', mx_pipelineJson = ''[{a: []}]'', mx_explanation = [], mx_source = MongoWhole\<rparr>"
    by code_simp
  from extractPipeline_sound [OF this] show ?thesis by simp
qed

end
