(* ===== verification/Mongo_Engine.thy ===== *)
theory Mongo_Engine
  imports Engine_Run JSON_Round_Trip Mongo_Stages Mongo_Extract Mongo_Prompts
begin

text \<open>
  The engine of \<open>packages/core/src/mongo/engine.ts\<close>: how names of collections are resolved, the loop of \<open>ask\<close>, and \<open>execute\<close>,
  \<open>explain\<close> and \<open>explainSchema\<close>. As in \<open>Engine_Ask\<close> the model is a function of the number of the call, the system text and the prompt;
  what \<open>catalog\<close> gives is an argument (its cache is \<open>Mongo_Catalog_Cache\<close>), and so is the connector.

  The properties: a question ends after at most five calls of the model, and what it returns has passed every floor. What \<open>execute\<close> sends is
  the matter of \<open>Mongo_Sent\<close>.
\<close>

section \<open>Model: names of collections\<close>

definition collection_names :: "SchemaCatalog \<Rightarrow> string list" where
  "collection_names catalog = map t_name (k_tables catalog)"

definition resolveCollection :: "string \<Rightarrow> SchemaCatalog \<Rightarrow> string option" where
  "resolveCollection name catalog =
     (if name \<in> set (collection_names catalog) then Some name
      else List.find (\<lambda>n. toLowerCase n = toLowerCase name) (collection_names catalog))"

text \<open>\<open>resolve(n) ?? n\<close> on the property of a specification, when it is a string.\<close>

definition resolve_at :: "(string \<Rightarrow> string option) \<Rightarrow> string \<Rightarrow> props \<Rightarrow> props" where
  "resolve_at resolve slot spec =
     (case get spec slot of JStr s \<Rightarrow> put_prop spec slot (JStr (or_default (resolve s) s)) | _ \<Rightarrow> spec)"

text \<open>
  An assignment to the property \<open>__proto__\<close> sets the prototype, so the copy has no such property. The specification of a join is
  resolved before it is entered; its size does not change.
\<close>

lemma size_put_prop_str: "size_list (size_prod (\<lambda>x. 0) size) (put_prop spec slot (JStr t)) \<le> size_list (size_prod (\<lambda>x. 0) size) spec"
  unfolding put_prop_def by (induction spec) (auto intro: add_mono)

lemma size_resolve_at: "size_list (size_prod (\<lambda>x. 0) size) (resolve_at resolve slot spec) \<le> size_list (size_prod (\<lambda>x. 0) size) spec"
  by (auto simp: resolve_at_def size_put_prop_str split: jsval.splits)

lemma twice_resolve_at:
  "2 * size_list (size_prod (\<lambda>x. 0) size) (resolve_at resolve slot spec) < Suc (Suc (Suc (2 * size_list (size_prod (\<lambda>x. 0) size) spec)))"
  using size_resolve_at [of resolve slot spec] by linarith

function rewriteJoinTargets :: "(string \<Rightarrow> string option) \<Rightarrow> jsval \<Rightarrow> jsval"
and rewrite_items :: "(string \<Rightarrow> string option) \<Rightarrow> jsval list \<Rightarrow> jsval list"
and rewrite_props :: "(string \<Rightarrow> string option) \<Rightarrow> props \<Rightarrow> props"
and rewrite_at :: "(string \<Rightarrow> string option) \<Rightarrow> string \<Rightarrow> jsval \<Rightarrow> jsval" where
  "rewriteJoinTargets resolve v =
     (case v of
        JArr xs \<Rightarrow> JArr (rewrite_items resolve xs)
      | JObj kvs \<Rightarrow> JObj (rewrite_props resolve kvs)
      | _ \<Rightarrow> v)"
| "rewrite_items resolve [] = []"
| "rewrite_items resolve (x # xs) = rewriteJoinTargets resolve x # rewrite_items resolve xs"
| "rewrite_props resolve [] = []"
| "rewrite_props resolve ((k, v) # kvs) =
     (if k = ''__proto__'' then [] else [(k, rewrite_at resolve k v)]) @ rewrite_props resolve kvs"
| "rewrite_at resolve k v =
     (if (k = ''$lookup'' \<or> k = ''$graphLookup'') \<and> doc_of v \<noteq> None then
        JObj (rewrite_props resolve (resolve_at resolve ''from'' (the (doc_of v))))
      else if k = ''$unionWith'' then
        (case v of
           JStr s \<Rightarrow> JStr (or_default (resolve s) s)
         | JObj spec \<Rightarrow> JObj (rewrite_props resolve (resolve_at resolve ''coll'' spec))
         | _ \<Rightarrow> v)
      else rewriteJoinTargets resolve v)"
  by pat_completeness auto
termination
  by (relation "measure (\<lambda>x. case x of
       Inl (Inl (resolve, v)) \<Rightarrow> 2 * size v
     | Inl (Inr (resolve, xs)) \<Rightarrow> 2 * size_list size xs
     | Inr (Inl (resolve, kvs)) \<Rightarrow> 2 * size_list (size_prod (\<lambda>x. 0) size) kvs
     | Inr (Inr (resolve, k, v)) \<Rightarrow> 2 * size v + 1)")
    (auto simp: le_imp_less_Suc twice_resolve_at)

definition resolveJoinTargets :: "MongoGuardVerdict \<Rightarrow> SchemaCatalog \<Rightarrow> string \<times> string list" where
  "resolveJoinTargets verdict catalog =
     (let unresolved = filter (\<lambda>c. resolveCollection c catalog = None) (mv_collections verdict) in
      if unresolved \<noteq> [] \<or> mv_collections verdict = [] then (mv_pipelineJson verdict, unresolved)
      else (json_stringify (rewriteJoinTargets (\<lambda>n. resolveCollection n catalog)
              (JArr (or_default (parsePipeline (mv_pipelineJson verdict)) []))), unresolved))"

section \<open>Model: what the model may have meant\<close>

definition PASSTHROUGH_STAGES :: "string list" where
  "PASSTHROUGH_STAGES = [''$limit'', ''$skip'', ''$sort'', ''$sample'']"

definition isNoOpPipeline :: "string \<Rightarrow> bool" where
  "isNoOpPipeline pipelineJson =
     (case toStrictPipelineJson pipelineJson of
        None \<Rightarrow> False
      | Some (_, stages) \<Rightarrow>
          list_all (\<lambda>stage. case stage of JObj kvs \<Rightarrow> kvs \<noteq> [] \<and> list_all (\<lambda>(k, _). k \<in> set PASSTHROUGH_STAGES) kvs | _ \<Rightarrow> False) stages)"

definition CANNOT_ANSWER_RE :: regex where
  "CANNOT_ANSWER_RE =
     (let cannot = cats [cis ''can'', ors [cis ''no'', lit SQUOTE], cis ''t''] in
      cats [WordB,
        ors [cis ''impossible to answer'', cis ''impossible to determine'', cis ''cannot be answered'', cats [cannot, cis '' be answered''],
             cis ''not possible to answer'', cis ''unable to answer'', cis ''no way to answer'',
             cats [ors [cis ''does not'', cis ''doesn't'', cis ''do not'', cis ''don't''], lit SPACE, ors [cis ''contain'', cis ''have''], lit SPACE,
                   Opt (ors [cis ''any '', cis ''the '']),
                   ors [cis ''information'', cis ''data'', cats [cis ''field'', Opt (cis ''s'')], cats [cis ''column'', Opt (cis ''s'')]],
                   upto_times 30 (none_of ''.?!''), ors [cis ''needed'', cis ''required'', cis ''necessary''], cis '' to answer''],
             cats [ors [cis ''cannot'', cannot], lit SPACE, Opt (cis ''be ''),
                   ors [cis ''determine'', cis ''determined'', cis ''answer''], upto_times 40 (none_of ''.?!''), WordB, cis ''from '',
                   ors [cis ''this'', cis ''the''], cis '' schema'']],
        WordB])"

definition MONGO_REFUSAL_RE :: regex where
  "MONGO_REFUSAL_RE =
     cats [WordB,
       Group 1 (ors [cats [cis ''i can'', ors [cis ''no'', lit SQUOTE], cis ''t''], cis ''i cannot'', cis ''i am unable'', cis ''i'm unable'',
         cis ''i'm sorry'', cis ''as an ai'']),
       WordB]"

definition looksLikeRefusal :: "string \<Rightarrow> bool" where
  "looksLikeRefusal text' = re_test MONGO_REFUSAL_RE text'"

definition MONGO_WRITE_COMMAND_RE :: regex where
  "MONGO_WRITE_COMMAND_RE =
     cats [WordB, cis ''db.'', plus (Chr is_word), lit CHR ''.'',
       Group 1 (ors (map cis [''insertOne'', ''insertMany'', ''updateOne'', ''updateMany'', ''deleteOne'', ''deleteMany'', ''replaceOne'',
         ''createIndex'', ''dropIndex'', ''drop'', ''renameCollection''])),
       Star ws, lit CHR ''('']"

section \<open>Model: the environment and the loop\<close>

record 'o mongo_env =
  me_policy :: MongoGuardPolicy
  me_pruner :: PrunerSettings
  me_glossary :: "GlossaryEntry list"
  me_customInstructions :: string
  me_ellipsis :: char
  me_model :: "nat \<Rightarrow> string \<Rightarrow> string \<Rightarrow> thrown + model_reply"
  me_catalog :: "thrown + SchemaCatalog"
  me_connect :: "thrown option"
  me_aggregate :: "string \<Rightarrow> jsval list \<Rightarrow> 'o \<Rightarrow> thrown + ResultSet"

record MongoAskResult =
  ma_pipelineJson :: string
  ma_collection :: string
  ma_explanation :: string
  ma_autoLimited :: bool
  ma_loweredLimit :: bool
  ma_warnings :: "string list"
  ma_repairs :: nat

record mongo_context =
  mc_question :: string
  mc_catalog :: SchemaCatalog
  mc_context :: "turn list"
  mc_system :: string

record mongo_state =
  ms_attempt :: nat
  ms_prompt :: string
  ms_schemaText :: string
  ms_lastPipeline :: string
  ms_lastCollection :: string
  ms_everyReplyEmpty :: bool
  ms_contextShrunk :: bool
  ms_triedFuzzy :: bool
  ms_calls :: nat

datatype mongo_outcome = MAgain mongo_state | MThrows thrown | MReturns MongoAskResult

definition mongo_guard :: "'o mongo_env \<Rightarrow> string \<Rightarrow> MongoGuardVerdict" where
  "mongo_guard env pipelineJson = guardPipeline pipelineJson (me_policy env)"

definition mongo_repair_prompt :: "mongo_context \<Rightarrow> mongo_state \<Rightarrow> string \<Rightarrow> string" where
  "mongo_repair_prompt cx st failure =
     buildMongoRepairUser \<lparr>bm_question = mc_question cx, bm_failedPipeline = ms_lastPipeline st, bm_failure = failure,
       bm_schemaText = ms_schemaText st, bm_collection = ms_lastCollection st\<rparr>"

text \<open>The last attempt throws, an earlier one goes round again with the failure in the prompt.\<close>

definition mongo_repair :: "mongo_context \<Rightarrow> mongo_state \<Rightarrow> thrown \<Rightarrow> string \<Rightarrow> mongo_outcome" where
  "mongo_repair cx st final failure =
     (if ms_attempt st \<ge> MAX_REPAIRS then MThrows final
      else MAgain (st\<lparr>ms_attempt := ms_attempt st + 1, ms_prompt := mongo_repair_prompt cx st failure\<rparr>))"

definition mongo_first_prompt :: "'o mongo_env \<Rightarrow> string \<Rightarrow> turn list \<Rightarrow> string \<Rightarrow> string" where
  "mongo_first_prompt env q context' schemaText =
     buildPipelineUser \<lparr>bp_question = q, bp_schemaText = schemaText, bp_glossary = me_glossary env, bp_fewShots = [], bp_context = context'\<rparr>"

definition mongo_shrink :: "'o mongo_env \<Rightarrow> mongo_context \<Rightarrow> mongo_state \<Rightarrow> mongo_state" where
  "mongo_shrink env cx st =
     (let settings = \<lparr>ps_maxTables = Some (max 5 (length (k_tables (mc_catalog cx)) div 2)),
                      ps_maxSchemaTokens = Some (max 1000 ((case ps_maxSchemaTokens (me_pruner env) of Some n \<Rightarrow> n | None \<Rightarrow> 6000) div 2))\<rparr>;
          schemaText = pr_schemaText (pruneCatalog (mc_catalog cx) (mc_question cx) settings)
      in st\<lparr>ms_contextShrunk := True, ms_schemaText := schemaText,
            ms_prompt := mongo_first_prompt env (mc_question cx) (mc_context cx) schemaText\<rparr>)"

definition no_pipeline :: "'o mongo_env \<Rightarrow> mongo_context \<Rightarrow> mongo_state \<Rightarrow> string \<Rightarrow> mongo_outcome" where
  "no_pipeline env cx st text' =
     (case truthy (extractImpossible (me_ellipsis env) text') of
        Some impossible \<Rightarrow>
          (case (if ms_triedFuzzy st then None else truthy (closestTableName (mc_question cx) (mc_catalog cx))) of
             Some near' \<Rightarrow>
               MAgain (st\<lparr>ms_triedFuzzy := True,
                 ms_prompt := mongo_repair_prompt cx st
                   (''No collection matches the question exactly, but a '' @ [DQUOTE] @ near' @ [DQUOTE]
                    @ '' collection exists. If the question meant that collection, answer using it.'')\<rparr>)
           | None \<Rightarrow>
               MThrows (ask_error LLMBadOutput (Some (''I wasn't able to build a query for that one: '' @ impossible)) ''model returned IMPOSSIBLE sentinel'' (Some False)))
      | None \<Rightarrow>
          mongo_repair cx st
            (if ms_everyReplyEmpty st then
               ask_error LLMUnavailable
                 (Some ''The AI model returned an empty response. Check the model name is right and that your account can use it.'')
                 (''model returned nothing on all '' @ show_nat (ms_attempt st + 1) @ '' attempts'') None
             else
               ask_error (if looksLikeRefusal text' then LLMRefusal else LLMBadOutput)
                 (Some ''Couldn't produce a valid aggregation pipeline for this question. Try rephrasing it.'')
                 (''no pipeline extracted after '' @ show_nat (ms_attempt st + 1) @ '' attempts; raw preview: '' @ take 200 text') None)
            (''The response contained no db.<collection>.aggregate([...]) call. Reply with one in a '' @ fence_mark @ ''js fence.''))"

text \<open>The verdict on the rewritten pipeline when the guard allows it, else on the one of the model.\<close>

definition mongo_verdict :: "'o mongo_env \<Rightarrow> string \<Rightarrow> MongoGuardVerdict" where
  "mongo_verdict env pipelineJson =
     (case Option.bind (parsePipeline pipelineJson) rewriteDistinctCount of
        Some fewer \<Rightarrow>
          (if mv_allowed (mongo_guard env (json_stringify (JArr fewer))) then mongo_guard env (json_stringify (JArr fewer))
           else mongo_guard env pipelineJson)
      | None \<Rightarrow> mongo_guard env pipelineJson)"

definition collection_fields :: "SchemaCatalog \<Rightarrow> string \<Rightarrow> string list" where
  "collection_fields catalog name =
     (case List.find (\<lambda>t. t_name t = name) (k_tables catalog) of Some t \<Rightarrow> map c_name (t_columns t) | None \<Rightarrow> [])"

definition mongo_limit_warnings :: "MongoGuardPolicy \<Rightarrow> MongoGuardVerdict \<Rightarrow> string list" where
  "mongo_limit_warnings policy verdict =
     (if mv_autoLimited verdict
      then [''A row limit of '' @ show_jsnum (mp_maxRows policy) @ '' was added automatically - export to get everything.''] else [])
     @ (if mv_loweredLimit verdict then [''The row limit was lowered to '' @ show_jsnum (mp_maxRows policy) @ ''.''] else [])"

text \<open>The floors on fields, on the pipeline as it will be sent; what passes them is the answer.\<close>

definition field_floors :: "'o mongo_env \<Rightarrow> mongo_context \<Rightarrow> mongo_state \<Rightarrow> MongoExtraction \<Rightarrow> MongoGuardVerdict \<Rightarrow> string \<Rightarrow> string \<Rightarrow> mongo_outcome" where
  "field_floors env cx st x verdict resolved pipelineJson =
     (let pipeline = or_default (parsePipeline pipelineJson) [] in
      case firstMisquotedField pipeline (collection_fields (mc_catalog cx) resolved) of
        Some m \<Rightarrow>
          mongo_repair cx st
            (ask_error LLMBadOutput (Some (''The pipeline quotes a field name as `'' @ q_raw m @ ''`, which MongoDB reads as a different field.''))
              (''misquoted field after repairs: '' @ q_raw m) (Some False))
            ([DQUOTE] @ ''$'' @ q_raw m @ [DQUOTE] @ '' is not a field. MongoDB has no quoting for field paths, so the quote characters ''
             @ ''become part of the name and the field reads as missing. Write '' @ [DQUOTE] @ ''$'' @ q_suggestion m @ [DQUOTE] @ '' instead.'')
      | None \<Rightarrow>
          (case firstUnknownStageField pipeline of
             Some u \<Rightarrow>
               mongo_repair cx st
                 (ask_error LLMBadOutput (Some (''The pipeline reads a field called '' @ [DQUOTE] @ u_field u @ [DQUOTE] @ '' that no earlier stage produces.''))
                   (''unknown field after repairs: '' @ u_field u @ '' at stage '' @ show_nat (u_stage u)) (Some False))
                 (''Stage '' @ show_nat (u_stage u + 1) @ '' reads '' @ [DQUOTE] @ ''$'' @ u_field u @ [DQUOTE] @ '', which no earlier stage produces. ''
                  @ ''At that point the document holds only: '' @ join '', '' (u_available u) @ ''. ''
                  @ ''Remember that $group replaces the document with its _id and its accumulator outputs.'')
           | None \<Rightarrow>
               MReturns \<lparr>ma_pipelineJson = pipelineJson, ma_collection = resolved, ma_explanation = mx_explanation x,
                 ma_autoLimited = mv_autoLimited verdict, ma_loweredLimit = mv_loweredLimit verdict,
                 ma_warnings = mongo_limit_warnings (me_policy env) verdict, ma_repairs = ms_attempt st\<rparr>))"

definition name_floors :: "'o mongo_env \<Rightarrow> mongo_context \<Rightarrow> mongo_state \<Rightarrow> MongoExtraction \<Rightarrow> MongoGuardVerdict \<Rightarrow> mongo_outcome" where
  "name_floors env cx st x verdict =
     (case truthy (resolveCollection (mx_collection x) (mc_catalog cx)) of
        None \<Rightarrow>
          mongo_repair cx st
            (ask_error LLMBadOutput (Some (''I couldn't find a collection called '' @ [DQUOTE] @ mx_collection x @ [DQUOTE]
                @ '' in this database. Try rephrasing, or check the schema.'')) ''unknown collection after repairs'' (Some False))
            (''Collection '' @ [DQUOTE] @ mx_collection x @ [DQUOTE] @ '' does not exist in the schema. Use only collections from the <schema> block.'')
      | Some resolved \<Rightarrow>
          (case resolveJoinTargets verdict (mc_catalog cx) of
             (pipelineJson, []) \<Rightarrow> field_floors env cx st x verdict resolved pipelineJson
           | (_, u # us) \<Rightarrow>
               mongo_repair cx st
                 (ask_error LLMBadOutput (Some (''I couldn't find a collection called '' @ [DQUOTE] @ u @ [DQUOTE]
                     @ '' referenced by a join. Try rephrasing, or check the schema.''))
                   (''unknown join collection(s) after repairs: '' @ join '', '' (u # us)) (Some False))
                 (''A join references collection(s) not in the schema: '' @ join '', '' (u # us) @ ''. Use only collections from the <schema> block.'')))"

definition pipeline_checked :: "'o mongo_env \<Rightarrow> mongo_context \<Rightarrow> mongo_state \<Rightarrow> string \<Rightarrow> MongoExtraction \<Rightarrow> mongo_outcome" where
  "pipeline_checked env cx st text' x =
     (if isNoOpPipeline (mx_pipelineJson x) \<and> re_test CANNOT_ANSWER_RE text' then
        mongo_repair cx st
          (ask_error LLMBadOutput (Some ''That question doesn't seem to match any collection in this database.'')
            ''pipeline selects nothing (no $match/$group/$project stage)'' (Some False))
          ''That pipeline has no stage that answers the question. Use $match/$group/$project, or reply with IMPOSSIBLE and one sentence saying why.''
      else
        (let verdict = mongo_verdict env (mx_pipelineJson x) in
         if \<not> mv_allowed verdict then
           mongo_repair cx st
             (ask_error GuardBlocked (Some (''I didn't run that one for safety: '' @ or_default (mv_reason verdict) ''the generated pipeline is not allowed.''))
               (''ruleId='' @ or_default (mv_ruleId verdict) ''unknown'' @ '' after '' @ show_nat (ms_attempt st + 1) @ '' attempts'') None)
             (''The pipeline validator rejected it: '' @ or_default (mv_reason verdict) (or_default (mv_ruleId verdict) ''not allowed'')
              @ ''. Produce a single read-only pipeline.'')
         else name_floors env cx st x verdict))"

definition mongo_heard :: "model_reply \<Rightarrow> mongo_state \<Rightarrow> mongo_state" where
  "mongo_heard r st = st\<lparr>ms_calls := ms_calls st + 1, ms_everyReplyEmpty := ms_everyReplyEmpty st \<and> trim (mr_text r) = []\<rparr>"

definition mongo_pass :: "'o mongo_env \<Rightarrow> mongo_context \<Rightarrow> mongo_state \<Rightarrow> mongo_outcome" where
  "mongo_pass env cx st =
     (case me_model env (ms_calls st) (mc_system cx) (ms_prompt st) of
        Inl err \<Rightarrow>
          (if is_overflow err \<and> \<not> ms_contextShrunk st then MAgain (mongo_shrink env cx (st\<lparr>ms_calls := ms_calls st + 1\<rparr>)) else MThrows err)
      | Inr r \<Rightarrow>
          (case extractPipeline (mr_text r) of
             None \<Rightarrow> no_pipeline env cx (mongo_heard r st) (mr_text r)
           | Some x \<Rightarrow>
               pipeline_checked env cx ((mongo_heard r st)\<lparr>ms_lastPipeline := mx_pipelineJson x, ms_lastCollection := mx_collection x\<rparr>)
                 (mr_text r) x))"

section \<open>Model: the loop\<close>

lemma mongo_repair_again:
  "mongo_repair cx st final failure = MAgain st' \<Longrightarrow>
     ms_attempt st < MAX_REPAIRS \<and> st' = st\<lparr>ms_attempt := ms_attempt st + 1, ms_prompt := mongo_repair_prompt cx st failure\<rparr>"
  by (auto simp: mongo_repair_def split: if_splits)

definition mongo_budget :: "mongo_state \<Rightarrow> nat" where
  "mongo_budget st = (MAX_REPAIRS - ms_attempt st) + of_bool (\<not> ms_contextShrunk st) + of_bool (\<not> ms_triedFuzzy st)"

text \<open>A round that goes on uses up some of the budget and one call.\<close>

definition mongo_goes_on :: "mongo_state \<Rightarrow> mongo_state \<Rightarrow> bool" where
  "mongo_goes_on st st' \<longleftrightarrow>
     mongo_budget st' < mongo_budget st \<and> ms_calls st' = ms_calls st \<and> (ms_attempt st \<le> MAX_REPAIRS \<longrightarrow> ms_attempt st' \<le> MAX_REPAIRS)"

lemma mongo_repair_goes_on: "mongo_repair cx st final failure = MAgain st' \<Longrightarrow> mongo_goes_on st st'"
  by (auto dest!: mongo_repair_again simp: mongo_goes_on_def mongo_budget_def)

lemma field_floors_goes_on: "field_floors env cx st x v c p = MAgain st' \<Longrightarrow> mongo_goes_on st st'"
  by (auto simp: field_floors_def Let_def split: option.splits dest: mongo_repair_goes_on)

lemma name_floors_goes_on: "name_floors env cx st x v = MAgain st' \<Longrightarrow> mongo_goes_on st st'"
  by (auto simp: name_floors_def split: option.splits prod.splits list.splits dest: mongo_repair_goes_on field_floors_goes_on)

lemma pipeline_checked_goes_on: "pipeline_checked env cx st t x = MAgain st' \<Longrightarrow> mongo_goes_on st st'"
  by (auto simp: pipeline_checked_def Let_def split: if_splits dest: mongo_repair_goes_on name_floors_goes_on)

lemma no_pipeline_goes_on: "no_pipeline env cx st t = MAgain st' \<Longrightarrow> mongo_goes_on st st'"
proof (cases "truthy (extractImpossible (me_ellipsis env) t)")
  case None
  assume "no_pipeline env cx st t = MAgain st'"
  with None show ?thesis by (simp only: no_pipeline_def option.case mongo_repair_goes_on)
next
  case (Some impossible)
  assume "no_pipeline env cx st t = MAgain st'"
  with Some have "\<not> ms_triedFuzzy st" "\<exists>p. st' = st\<lparr>ms_triedFuzzy := True, ms_prompt := p\<rparr>"
    by (auto simp only: no_pipeline_def option.case mongo_outcome.simps split: option.splits if_splits)
  then show ?thesis by (auto simp: mongo_goes_on_def mongo_budget_def)
qed

lemma mongo_heard_goes_on:
  "mongo_goes_on (mongo_heard r st) st' \<Longrightarrow> mongo_goes_on (st\<lparr>ms_calls := ms_calls st + 1\<rparr>) st'"
  "mongo_goes_on ((mongo_heard r st)\<lparr>ms_lastPipeline := p, ms_lastCollection := c\<rparr>) st' \<Longrightarrow> mongo_goes_on (st\<lparr>ms_calls := ms_calls st + 1\<rparr>) st'"
  by (simp_all add: mongo_goes_on_def mongo_heard_def mongo_budget_def)

lemma mongo_pass_goes_on:
  assumes "mongo_pass env cx st = MAgain st'"
  shows "mongo_goes_on (st\<lparr>ms_calls := ms_calls st + 1\<rparr>) st'"
proof (cases "me_model env (ms_calls st) (mc_system cx) (ms_prompt st)")
  case (Inl err)
  with assms show ?thesis by (auto simp: mongo_pass_def mongo_shrink_def Let_def mongo_goes_on_def mongo_budget_def split: if_splits)
next
  case (Inr r)
  show ?thesis
  proof (cases "extractPipeline (mr_text r)")
    case None
    with Inr assms have "no_pipeline env cx (mongo_heard r st) (mr_text r) = MAgain st'" by (simp only: mongo_pass_def sum.case option.case)
    then show ?thesis by (rule mongo_heard_goes_on(1) [OF no_pipeline_goes_on])
  next
    case (Some x)
    with Inr assms have "pipeline_checked env cx ((mongo_heard r st)\<lparr>ms_lastPipeline := mx_pipelineJson x, ms_lastCollection := mx_collection x\<rparr>)
        (mr_text r) x = MAgain st'" by (simp only: mongo_pass_def sum.case option.case)
    then show ?thesis by (rule mongo_heard_goes_on(2) [OF pipeline_checked_goes_on])
  qed
qed

lemma mongo_pass_budget: "mongo_pass env cx st = MAgain st' \<Longrightarrow> mongo_budget st' < mongo_budget st \<and> ms_calls st' = ms_calls st + 1"
  by (drule mongo_pass_goes_on) (simp add: mongo_goes_on_def mongo_budget_def)

text \<open>The loop, with the number of calls of the model.\<close>

function mongo_loop :: "'o mongo_env \<Rightarrow> mongo_context \<Rightarrow> mongo_state \<Rightarrow> (thrown + MongoAskResult) \<times> nat" where
  "mongo_loop env cx st =
     (case mongo_pass env cx st of
        MThrows t \<Rightarrow> (Inl t, ms_calls st + 1)
      | MReturns r \<Rightarrow> (Inr r, ms_calls st + 1)
      | MAgain st' \<Rightarrow> mongo_loop env cx st')"
  by pat_completeness auto
termination
  by (relation "measure (\<lambda>(env, cx, st). mongo_budget st)") (auto dest: mongo_pass_budget)

declare mongo_loop.simps [simp del]

section \<open>Model: the operations of the engine\<close>

definition mongo_invalid :: "string \<Rightarrow> AskSqlError option" where
  "mongo_invalid q =
     (if q = [] then
        Some (new_AskSqlError InvalidInput
          \<lparr>o_userMessage = Some ''Ask a question about your data to get started.'', o_detail = None, o_retryable = None\<rparr>)
      else if length q > MAX_QUESTION_LENGTH then
        Some (new_AskSqlError InvalidInput
          \<lparr>o_userMessage = Some ''That question is too long. Keep it under 10,000 characters.'', o_detail = None, o_retryable = None\<rparr>)
      else None)"

text \<open>\<open>ask\<close>: the outcome, the warnings it emits and the number of calls of the model.\<close>

definition mongo_ask :: "'o mongo_env \<Rightarrow> string \<Rightarrow> turn list \<Rightarrow> (thrown + MongoAskResult) \<times> string list \<times> nat" where
  "mongo_ask env question context' =
     (let q = trim question in
      case mongo_invalid q of
        Some e \<Rightarrow> (Inl (ThrownAskSql e), [], 0)
      | None \<Rightarrow>
          (case off_path q of
             Some t \<Rightarrow> (Inl t, [], 0)
           | None \<Rightarrow>
               (case me_catalog env of
                  Inl t \<Rightarrow> (Inl t, [], 0)
                | Inr catalog \<Rightarrow>
                    (let pruned = pruneCatalog catalog q (me_pruner env);
                         (outcome, calls) = mongo_loop env
                           \<lparr>mc_question = q, mc_catalog = catalog, mc_context = context',
                            mc_system = buildPipelineSystem (mp_maxRows (me_policy env)) (me_customInstructions env)\<rparr>
                           \<lparr>ms_attempt = 0, ms_prompt = mongo_first_prompt env q context' (pr_schemaText pruned),
                            ms_schemaText = pr_schemaText pruned, ms_lastPipeline = [], ms_lastCollection = [], ms_everyReplyEmpty = True,
                            ms_contextShrunk = False, ms_triedFuzzy = False, ms_calls = 0\<rparr>
                     in (outcome,
                         (if pr_dropped pruned > 0
                          then [''Schema narrowed to '' @ show_nat (length (k_tables (pr_catalog pruned))) @ '' relevant collections.''] else []),
                         calls)))))"

text \<open>\<open>execute\<close>: the outcome, and what the connector was sent.\<close>

definition mongo_blocked_error :: "string \<Rightarrow> MongoGuardVerdict \<Rightarrow> string \<Rightarrow> thrown" where
  "mongo_blocked_error what verdict otherwise =
     ThrownAskSql (new_AskSqlError GuardBlocked
       \<lparr>o_userMessage = Some (what @ or_default (mv_reason verdict) otherwise), o_detail = Some (''ruleId='' @ or_default (mv_ruleId verdict) ''unknown''),
        o_retryable = None\<rparr>)"

definition mongo_execute :: "'o mongo_env \<Rightarrow> string \<Rightarrow> string \<Rightarrow> 'o \<Rightarrow> (thrown + ResultSet) \<times> (string \<times> jsval list) list" where
  "mongo_execute env pipelineJson collection opts =
     (let verdict = mongo_guard env pipelineJson in
      if \<not> mv_allowed verdict then (Inl (mongo_blocked_error ''I didn't run that one for safety: '' verdict ''the pipeline is not allowed.''), [])
      else
        (case me_catalog env of
           Inl t \<Rightarrow> (Inl t, [])
         | Inr catalog \<Rightarrow>
             (case truthy (resolveCollection collection catalog) of
                None \<Rightarrow>
                  (Inl (ask_error DBQueryError (Some (''There is no collection called '' @ [DQUOTE] @ collection @ [DQUOTE] @ '' in this database.''))
                     ''unknown collection at execute'' None), [])
              | Some resolved \<Rightarrow>
                  (case resolveJoinTargets verdict catalog of
                     (_, u # us) \<Rightarrow>
                       (Inl (ask_error DBQueryError
                          (Some (''A join references a collection called '' @ [DQUOTE] @ u @ [DQUOTE] @ '' that does not exist in this database.''))
                          (''unknown join collection(s) at execute: '' @ join '', '' (u # us)) None), [])
                   | (json, []) \<Rightarrow>
                       (case me_connect env of
                          Some t \<Rightarrow> (Inl t, [])
                        | None \<Rightarrow>
                            (let pipeline = or_default (parsePipeline json) [] in
                             (me_aggregate env resolved pipeline opts, [(resolved, pipeline)])))))))"

definition mongo_explain :: "'o mongo_env \<Rightarrow> string \<Rightarrow> nat \<Rightarrow> (thrown + string) \<times> string list" where
  "mongo_explain env pipelineJson n =
     (let verdict = mongo_guard env pipelineJson; prompt = buildMongoExplainUser (mv_pipelineJson verdict) [] in
      if \<not> mv_allowed verdict then (Inl (mongo_blocked_error ''I can't explain that one: '' verdict ''it is not a read-only pipeline.''), [])
      else (map_sum id (\<lambda>r. trim (mr_text r)) (me_model env n buildMongoExplainSystem prompt), [prompt]))"

section \<open>Model: answers about the schema\<close>

definition mongo_no_answer :: "string \<Rightarrow> bool" where
  "mongo_no_answer answer \<longleftrightarrow> isOffTopic answer \<or> isDegenerateAnswer answer \<and> \<not> re_test MONGO_WRITE_COMMAND_RE answer"

record mongo_question =
  mq_question :: string
  mq_catalog :: SchemaCatalog
  mq_pruned :: PruneResult
  mq_isSchemaChange :: bool
  mq_context :: "turn list"

definition mongo_about :: "mongo_question \<Rightarrow> bool" where
  "mongo_about mq \<longleftrightarrow>
     looksDatabaseRelated (mq_question mq) \<or> mq_isSchemaChange mq \<or> mentionsCatalogName (mq_question mq) (mq_catalog mq)
     \<or> hasUsableContext (mq_context mq)"

definition mongo_call :: "'o mongo_env \<Rightarrow> nat \<Rightarrow> string \<Rightarrow> string \<Rightarrow> thrown + string" where
  "mongo_call env n system prompt = map_sum id (\<lambda>r. trim (mr_text r)) (me_model env n system prompt)"

text \<open>The first answer, challenged once if it refuses a question about data; \<open>None\<close> declines.\<close>

definition mongo_first_answer :: "'o mongo_env \<Rightarrow> mongo_question \<Rightarrow> nat \<Rightarrow> (thrown + string option) \<times> nat" where
  "mongo_first_answer env mq n =
     (case mongo_call env n (buildMongoSchemaAnswerSystem (mq_isSchemaChange mq) True)
             (buildMongoSchemaAnswerUser (mq_question mq) (pr_schemaText (mq_pruned mq)) (mq_context mq)) of
        Inl t \<Rightarrow> (Inl t, 1)
      | Inr answer \<Rightarrow>
          (if \<not> mongo_no_answer answer then (Inr (Some answer), 1)
           else if \<not> mongo_about mq then (Inr None, 1)
           else (case mongo_call env (n + 1) (buildMongoSchemaAnswerSystem (mq_isSchemaChange mq) False)
                    (buildMongoSchemaAnswerScopeRepairUser (mq_question mq) (pr_schemaText (mq_pruned mq))) of
                   Inl t \<Rightarrow> (Inl t, 2)
                 | Inr again \<Rightarrow>
                     (Inr (if mongo_no_answer again \<or> isProseRefusal again (mentionsCatalogName again (mq_catalog mq)) then None else Some again), 2))))"

definition mongo_proposal_note :: string where
  "mongo_proposal_note =
     [LF, LF] @ ''*Proposal only - AskSQL is read-only and never executes commands; run it yourself if you want it applied.*''"

definition mongo_noted :: "string \<Rightarrow> string \<Rightarrow> string" where
  "mongo_noted q answer =
     (if (re_test MONGO_WRITE_COMMAND_RE answer \<or> re_test MONGO_WRITE_COMMAND_RE q) \<and> \<not> re_test READ_ONLY answer
      then answer @ mongo_proposal_note else answer)"

definition mongo_proposed :: "'o mongo_env \<Rightarrow> SchemaCatalog \<Rightarrow> string \<Rightarrow> string option" where
  "mongo_proposed env catalog answer =
     (case truthy (map_option (\<lambda>x. trim (mx_pipelineJson x)) (extractPipeline answer)) of
        None \<Rightarrow> None
      | Some proposed \<Rightarrow>
          (if mv_allowed (mongo_guard env proposed) \<and> unknownReferencesInProse proposed catalog True = [] then Some proposed else None))"

definition mongo_schema_answer :: "'o mongo_env \<Rightarrow> mongo_question \<Rightarrow> string \<Rightarrow> SchemaAnswer" where
  "mongo_schema_answer env mq text' =
     (let answer = mongo_noted (mq_question mq) (stripSentinel text'); unknown = unknownReferencesInProse answer (mq_catalog mq) True in
      \<lparr>sa_answer = answer, sa_tables = map t_name (k_tables (pr_catalog (mq_pruned mq))), sa_grounded = (unknown = []),
       sa_unknownReferences = unknown, sa_isSchemaChange = mq_isSchemaChange mq,
       sa_proposedSql = mongo_proposed env (mq_catalog mq) answer\<rparr>)"

definition no_collections_answer :: SchemaAnswer where
  "no_collections_answer = coded_answer ''This connection has no collections the current user can read.''"

definition mongo_unrelated :: "mongo_question \<Rightarrow> string \<Rightarrow> bool" where
  "mongo_unrelated mq answer \<longleftrightarrow>
     \<not> mongo_about mq \<and> \<not> mentionsCatalogName answer (mq_catalog mq) \<and> \<not> looksDatabaseRelated answer \<and> \<not> re_test MONGO_WRITE_COMMAND_RE answer"

definition mongo_explainSchema :: "'o mongo_env \<Rightarrow> string option \<Rightarrow> turn list \<Rightarrow> nat \<Rightarrow> (thrown + SchemaAnswer) \<times> nat" where
  "mongo_explainSchema env question context' n =
     (let q = trim (or_default question []) in
      case invalid_question q of
        Some e \<Rightarrow> (Inl (ThrownAskSql e), 0)
      | None \<Rightarrow>
          if isPromptInjection q then (Inr (offTopicAnswer ''MongoDB''), 0)
          else if isCapabilityQuestion q then (Inr (capabilityAnswer ''MongoDB''), 0)
          else (case me_catalog env of
                  Inl t \<Rightarrow> (Inl t, 0)
                | Inr catalog \<Rightarrow>
                    if k_tables catalog = [] then (Inr no_collections_answer, 0)
                    else
                      (let mq = \<lparr>mq_question = q, mq_catalog = catalog, mq_pruned = pruneCatalog catalog q (me_pruner env),
                                 mq_isSchemaChange = (re_test SCHEMA_CHANGE_RE q \<or> isSchemaProposalQuestion q), mq_context = context'\<rparr>
                       in case mongo_first_answer env mq n of
                            (Inl t, k) \<Rightarrow> (Inl t, k)
                          | (Inr None, k) \<Rightarrow> (Inr (offTopicAnswer ''MongoDB''), k)
                          | (Inr (Some answer), k) \<Rightarrow>
                              (Inr (if mongo_unrelated mq answer then offTopicAnswer ''MongoDB'' else mongo_schema_answer env mq answer), k))))"

section \<open>How often the model is called\<close>

lemma mongo_loop_calls: "snd (mongo_loop env cx st) \<le> ms_calls st + 1 + mongo_budget st"
proof (induction env cx st rule: mongo_loop.induct)
  case (1 env cx st)
  show ?case
  proof (cases "mongo_pass env cx st")
    case (MAgain st')
    with "1.IH" [OF MAgain] mongo_pass_budget [OF MAgain] show ?thesis by (subst mongo_loop.simps) simp
  qed (subst mongo_loop.simps, simp)+
qed

text \<open>
  C9: a question to the MongoDB engine ends after at most five calls of the model, whatever model and catalog answer: three attempts, one
  shrinking of the schema and one rephrasing.
\<close>

theorem mongo_ask_calls_bounded: "snd (snd (mongo_ask env question context')) \<le> 5"
proof -
  have "snd (mongo_loop env cx st) \<le> 5"
    if "ms_calls st = 0" "ms_attempt st = 0" for cx st
    using mongo_loop_calls [of env cx st] that by (cases "ms_contextShrunk st"; cases "ms_triedFuzzy st") (simp_all add: mongo_budget_def MAX_REPAIRS_def)
  then show ?thesis by (simp add: mongo_ask_def Let_def case_prod_unfold split: option.splits sum.splits)
qed

section \<open>What a question returns\<close>

text \<open>The floors a returned pipeline has passed.\<close>

definition mongo_passed :: "'o mongo_env \<Rightarrow> SchemaCatalog \<Rightarrow> MongoAskResult \<Rightarrow> bool" where
  "mongo_passed env catalog r \<longleftrightarrow>
     (\<exists>js. mv_allowed (mongo_guard env js) \<and> resolveJoinTargets (mongo_guard env js) catalog = (ma_pipelineJson r, [])
        \<and> ma_autoLimited r = mv_autoLimited (mongo_guard env js) \<and> ma_loweredLimit r = mv_loweredLimit (mongo_guard env js))
     \<and> ma_collection r \<in> set (collection_names catalog) \<and> ma_collection r \<noteq> []
     \<and> firstMisquotedField (or_default (parsePipeline (ma_pipelineJson r)) []) (collection_fields catalog (ma_collection r)) = None
     \<and> firstUnknownStageField (or_default (parsePipeline (ma_pipelineJson r)) []) = None"

lemma resolveCollection_in: "resolveCollection name catalog = Some n \<Longrightarrow> n \<in> set (collection_names catalog)"
  by (auto simp: resolveCollection_def find_Some_iff split: if_splits)

lemma mongo_repair_returns: "mongo_repair cx st final failure \<noteq> MReturns r"
  by (simp add: mongo_repair_def)

lemma field_floors_returns:
  "field_floors env cx st x verdict resolved json = MReturns r \<Longrightarrow>
     ma_pipelineJson r = json \<and> ma_collection r = resolved \<and> ma_repairs r = ms_attempt st
     \<and> ma_autoLimited r = mv_autoLimited verdict \<and> ma_loweredLimit r = mv_loweredLimit verdict
     \<and> firstMisquotedField (or_default (parsePipeline json) []) (collection_fields (mc_catalog cx) resolved) = None
     \<and> firstUnknownStageField (or_default (parsePipeline json) []) = None"
  by (auto simp: field_floors_def Let_def mongo_repair_returns split: option.splits)

lemma name_floors_returns:
  assumes "name_floors env cx st x (mongo_guard env js) = MReturns r" "mv_allowed (mongo_guard env js)"
  shows "mongo_passed env (mc_catalog cx) r \<and> ma_repairs r = ms_attempt st"
proof -
  from assms(1) obtain resolved json where floors: "truthy (resolveCollection (mx_collection x) (mc_catalog cx)) = Some resolved"
      "resolveJoinTargets (mongo_guard env js) (mc_catalog cx) = (json, [])"
      "field_floors env cx st x (mongo_guard env js) resolved json = MReturns r"
    by (auto simp: name_floors_def mongo_repair_returns split: option.splits prod.splits list.splits)
  from floors(1) have "resolveCollection (mx_collection x) (mc_catalog cx) = Some resolved" "resolved \<noteq> []"
    by (auto simp: truthy_def split: option.splits if_splits)
  with floors(2) field_floors_returns [OF floors(3)] assms(2) resolveCollection_in show ?thesis unfolding mongo_passed_def by metis
qed

lemma mongo_verdict_guard: "\<exists>js. mongo_verdict env j = mongo_guard env js"
  by (auto simp: mongo_verdict_def split: option.splits)

lemma pipeline_checked_returns:
  "pipeline_checked env cx st t x = MReturns r \<Longrightarrow> mongo_passed env (mc_catalog cx) r \<and> ma_repairs r = ms_attempt st"
  using mongo_verdict_guard [of env "mx_pipelineJson x"] name_floors_returns
  by (fastforce simp: pipeline_checked_def Let_def mongo_repair_returns split: if_splits)

lemma no_pipeline_returns: "no_pipeline env cx st t \<noteq> MReturns r"
  by (simp add: no_pipeline_def mongo_repair_returns split: option.splits)

lemma mongo_pass_returns: "mongo_pass env cx st = MReturns r \<Longrightarrow> mongo_passed env (mc_catalog cx) r \<and> ma_repairs r = ms_attempt st"
  by (auto simp: mongo_pass_def no_pipeline_returns mongo_heard_def split: sum.splits if_splits option.splits dest: pipeline_checked_returns)

lemma mongo_loop_returns:
  "fst (mongo_loop env cx st) = Inr r \<Longrightarrow> ms_attempt st \<le> MAX_REPAIRS \<Longrightarrow> mongo_passed env (mc_catalog cx) r \<and> ma_repairs r \<le> MAX_REPAIRS"
proof (induction env cx st rule: mongo_loop.induct)
  case (1 env cx st)
  show ?case
  proof (cases "mongo_pass env cx st")
    case (MAgain st')
    with mongo_pass_goes_on [OF MAgain] "1.prems"(2) have "ms_attempt st' \<le> MAX_REPAIRS" by (simp add: mongo_goes_on_def)
    with "1.IH" [OF MAgain] "1.prems"(1) MAgain show ?thesis by (subst (asm) (2) mongo_loop.simps) simp
  next
    case (MThrows t)
    with "1.prems" show ?thesis by (subst (asm) mongo_loop.simps) simp
  next
    case (MReturns r')
    with "1.prems" mongo_pass_returns [OF MReturns] show ?thesis by (subst (asm) mongo_loop.simps) simp
  qed
qed

text \<open>
  C8: what a question to the MongoDB engine returns has passed every floor, whatever the model replies: the pipeline is the one of a verdict
  in which the guard allows it, with the joins spelled as in the catalog; its collection is one of the catalog; it quotes no field path
  and reads no field that an earlier stage dropped; and at most two repairs were spent.
\<close>

theorem mongo_ask_returns_checked:
  assumes "fst (mongo_ask env question context') = Inr r"
  shows "ma_repairs r \<le> 2 \<and> (\<exists>catalog. me_catalog env = Inr catalog \<and> ma_collection r \<in> set (collection_names catalog)
    \<and> (\<exists>js. mv_allowed (mongo_guard env js) \<and> resolveJoinTargets (mongo_guard env js) catalog = (ma_pipelineJson r, []))
    \<and> firstMisquotedField (or_default (parsePipeline (ma_pipelineJson r)) []) (collection_fields catalog (ma_collection r)) = None
    \<and> firstUnknownStageField (or_default (parsePipeline (ma_pipelineJson r)) []) = None)"
proof -
  from assms obtain catalog cx st where loop: "fst (mongo_loop env cx st) = Inr r" "me_catalog env = Inr catalog" "mc_catalog cx = catalog"
      "ms_attempt st = 0"
    by (auto simp: mongo_ask_def Let_def case_prod_unfold split: option.splits sum.splits)
  from mongo_loop_returns [OF loop(1)] loop(2-4) show ?thesis by (auto simp: mongo_passed_def MAX_REPAIRS_def)
qed

text \<open>A model that names the collection in the wrong case.\<close>

definition sample_collections :: SchemaCatalog where
  "sample_collections = example_catalog [example_table ''A'' [] [], example_table ''b'' [] []]"

definition sample_reply :: string where
  "sample_reply = ''db.B.aggregate([{$limit: 3}])''"

definition sample_mongo :: "unit mongo_env" where
  "sample_mongo =
     \<lparr>me_policy = sample_policy, me_pruner = \<lparr>ps_maxTables = None, ps_maxSchemaTokens = None\<rparr>, me_glossary = [], me_customInstructions = [],
      me_ellipsis = CHR ''.'', me_model = \<lambda>_ _ _. Inr \<lparr>mr_text = sample_reply, mr_inputTokens = None, mr_outputTokens = None\<rparr>,
      me_catalog = Inr sample_collections, me_connect = None, me_aggregate = \<lambda>_ _ _. Inl (ThrownOther ''not connected'')\<rparr>"

definition sample_sent :: string where
  "sample_sent = ''[{'' @ [DQUOTE] @ ''$limit'' @ [DQUOTE] @ '':3}]''"

lemma sample_extracted:
  "extractPipeline sample_reply = Some \<lparr>mx_collection = ''B'', mx_pipelineJson = ''[{$limit: 3}]'', mx_explanation = [], mx_source = MongoWhole\<rparr>"
  by code_simp

lemma sample_checks:
  "\<not> re_test CANNOT_ANSWER_RE sample_reply" "mv_allowed (mongo_verdict sample_mongo ''[{$limit: 3}]'')" "mongo_invalid ''t'' = None" "trim ''t'' = ''t''"
  "resolveCollection ''B'' sample_collections = Some ''b''"
  "resolveJoinTargets (mongo_verdict sample_mongo ''[{$limit: 3}]'') sample_collections = (sample_sent, [])"
  "firstMisquotedField (or_default (parsePipeline sample_sent) []) (collection_fields sample_collections ''b'') = None"
  "firstUnknownStageField (or_default (parsePipeline sample_sent) []) = None"
  by code_simp+

lemma sample_pass:
  assumes "mc_catalog cx = sample_collections"
  shows "\<exists>r. mongo_pass sample_mongo cx st = MReturns r \<and> ma_collection r = ''b''"
proof -
  have model: "me_model sample_mongo n system prompt = Inr \<lparr>mr_text = sample_reply, mr_inputTokens = None, mr_outputTokens = None\<rparr>" for n system prompt
    by (simp add: sample_mongo_def)
  show ?thesis
    by (simp add: mongo_pass_def model sample_extracted pipeline_checked_def name_floors_def field_floors_def sample_checks assms truthy_def Let_def)
qed

lemma sample_ask: "\<exists>r. fst (mongo_ask sample_mongo ''t'' []) = Inr r \<and> ma_collection r = ''b''"
proof -
  have "\<exists>r. fst (mongo_loop sample_mongo cx st) = Inr r \<and> ma_collection r = ''b''" if "mc_catalog cx = sample_collections" for cx st
    using sample_pass [OF that, of st] by (subst mongo_loop.simps) auto
  moreover have "me_catalog sample_mongo = Inr sample_collections" by (simp add: sample_mongo_def)
  ultimately show ?thesis by (simp add: mongo_ask_def sample_checks routed case_prod_unfold Let_def)
qed

theorem mongo_ask_returns_checked_witness:
  "\<exists>r. fst (mongo_ask sample_mongo ''t'' []) = Inr r \<and> ma_repairs r \<le> 2 \<and> (\<exists>js. mv_allowed (mongo_guard sample_mongo js))"
  using sample_ask mongo_ask_returns_checked [of sample_mongo "''t''" "[]"] by blast

end
