(* ===== verification/Mongo_Sent.thy ===== *)
theory Mongo_Sent
  imports Mongo_Engine
begin

text \<open>
  What the connector of \<open>packages/core/src/mongo/engine.ts\<close> is sent. The verdict of the guard is about a pipeline; \<open>execute\<close> sends
  another one: it writes the capped pipeline as text, reads it back, spells the targets of its joins as the catalog does, writes it
  again and reads it back. The lemmas follow what the guard promised (every stage only reads, no code, no unsafe pattern, the limit at
  the end, the collections that are named) through the cap, the rewriting of the targets and the reading of numbers from text.
\<close>

section \<open>Rewriting the targets of joins\<close>

lemmas rewrite_simps = rewriteJoinTargets.simps rewrite_items.simps rewrite_props.simps

declare rewriteJoinTargets.simps [simp del] rewrite_at.simps [simp del]

lemma rewriteJoinTargets_simps [simp]:
  "rewriteJoinTargets r (JArr xs) = JArr (rewrite_items r xs)"
  "rewriteJoinTargets r (JObj kvs) = JObj (rewrite_props r kvs)"
  "rewriteJoinTargets r (JStr s) = JStr s"
  "rewriteJoinTargets r (JNum x) = JNum x"
  "rewriteJoinTargets r (JBool b) = JBool b"
  "rewriteJoinTargets r JNull = JNull"
  "rewriteJoinTargets r JUndef = JUndef"
  by (simp_all add: rewriteJoinTargets.simps)

definition join_key :: "string \<Rightarrow> bool" where
  "join_key k \<longleftrightarrow> k = ''$lookup'' \<or> k = ''$graphLookup'' \<or> k = ''$unionWith''"

lemma rewrite_at_other: "\<not> join_key k \<Longrightarrow> rewrite_at r k v = rewriteJoinTargets r v"
  by (simp add: join_key_def rewrite_at.simps)

lemma rewrite_items_map: "rewrite_items r xs = map (rewriteJoinTargets r) xs"
  by (induction xs) simp_all

lemma rewrite_props_map:
  "rewrite_props r kvs = map (\<lambda>(k, v). (k, rewrite_at r k v)) (filter (\<lambda>(k, v). k \<noteq> ''__proto__'') kvs)"
  by (induction kvs) auto

lemma set_rewrite_props: "(k, x) \<in> set (rewrite_props r kvs) \<longleftrightarrow> k \<noteq> ''__proto__'' \<and> (\<exists>v. (k, v) \<in> set kvs \<and> x = rewrite_at r k v)"
  by (auto simp: rewrite_props_map)

lemma keys_rewrite_props: "k \<in> fst ` set (rewrite_props r kvs) \<longleftrightarrow> k \<noteq> ''__proto__'' \<and> k \<in> fst ` set kvs"
  by (force simp: rewrite_props_map image_iff)

lemma get_rewrite_props:
  "k \<noteq> ''__proto__'' \<Longrightarrow> \<not> join_key k \<Longrightarrow> get (rewrite_props r kvs) k = rewriteJoinTargets r (get kvs k)"
  by (induction kvs) (auto simp: rewrite_at_other)

text \<open>The shape of a value stays: a join rewrites names inside it.\<close>

lemma rewrite_at_shape:
  "rewrite_at r k v = JArr xs \<Longrightarrow> \<exists>ys. v = JArr ys \<and> (xs = ys \<or> xs = rewrite_items r ys)"
  "rewrite_at r k (JNum x) = JNum x"
  by (auto simp: rewrite_at.simps split: if_splits jsval.splits) (cases v; auto simp: rewrite_at.simps)+

lemma keys_resolve_at: "map fst (resolve_at r slot spec) = map fst spec"
  by (auto simp: resolve_at_def put_prop_def split: jsval.splits)

lemma set_resolve_at: "(k, v) \<in> set (resolve_at r slot spec) \<Longrightarrow> (k, v) \<in> set spec \<or> k = slot \<and> (\<exists>s. v = JStr s)"
  by (auto simp: resolve_at_def put_prop_def split: jsval.splits if_splits)

section \<open>The values that are checked are not rewritten\<close>

lemma string_or_opaque_rewrite: "string_or_opaque (rewriteJoinTargets r v) = string_or_opaque v"
  by (cases v) (simp_all add: string_or_opaque_def)

lemma regexPatternOf_rewrite: "regexPatternOf (rewriteJoinTargets r v) = regexPatternOf v"
proof (cases v)
  case (JObj kvs)
  have plain: "\<not> join_key ''$regularExpression''" "\<not> join_key ''pattern''" by (simp_all add: join_key_def)
  show ?thesis
    by (cases "get kvs ''$regularExpression''")
      (simp_all add: JObj regexPatternOf_def get_rewrite_props plain keys_rewrite_props string_or_opaque_rewrite)
qed (simp_all add: regexPatternOf_def)

lemma inspectRegex_rewrite: "inspectRegex (rewriteJoinTargets r v) policy = inspectRegex v policy"
  by (simp add: inspectRegex_def regexPatternOf_rewrite)

lemma entry_violation_join: "join_key k \<Longrightarrow> entry_violation policy k v = None"
  by (auto simp: join_key_def entry_violation_def DENIED_OPERATORS_ANYWHERE_def REGEX_OPERATORS_def)

lemma entry_violation_rewrite: "entry_violation policy k (rewrite_at r k v) = entry_violation policy k v"
proof (cases "join_key k")
  case False
  have regex: "\<not> join_key ''regex''" by (simp add: join_key_def)
  have "(case rewriteJoinTargets r v of
           JObj kvs \<Rightarrow> (if ''regex'' \<in> fst ` set kvs then inspectRegex (get kvs ''regex'') policy else None) | _ \<Rightarrow> None)
      = (case v of JObj kvs \<Rightarrow> (if ''regex'' \<in> fst ` set kvs then inspectRegex (get kvs ''regex'') policy else None) | _ \<Rightarrow> None)"
    by (cases v) (simp_all add: keys_rewrite_props get_rewrite_props regex inspectRegex_rewrite)
  with False show ?thesis by (simp add: rewrite_at_other entry_violation_def inspectRegex_rewrite)
qed (simp add: entry_violation_join)

lemma entries_ok_resolve_at: "entries_ok policy (JObj spec) \<Longrightarrow> slot \<in> {''from'', ''coll''} \<Longrightarrow> entries_ok policy (JObj (resolve_at r slot spec))"
proof -
  assume spec: "entries_ok policy (JObj spec)" and slot: "slot \<in> {''from'', ''coll''}"
  have "entry_violation policy slot x = None" for x
    using slot by (auto simp: entry_violation_def DENIED_OPERATORS_ANYWHERE_def REGEX_OPERATORS_def)
  with spec show "entries_ok policy (JObj (resolve_at r slot spec))"
    unfolding entries_ok_Obj using entries_ok_atom by (auto dest!: set_resolve_at)
qed

lemma entries_ok_Cons: "entries_ok policy (JObj ((k, v) # kvs)) \<longleftrightarrow> entry_violation policy k v = None \<and> entries_ok policy v \<and> entries_ok policy (JObj kvs)"
  unfolding entries_ok_Obj by auto

lemma entries_ok_rewrite:
  "entries_ok policy v \<Longrightarrow> entries_ok policy (rewriteJoinTargets r v)"
  "\<forall>x \<in> set xs. entries_ok policy x \<Longrightarrow> \<forall>x \<in> set (rewrite_items r xs). entries_ok policy x"
  "entries_ok policy (JObj kvs) \<Longrightarrow> entries_ok policy (JObj (rewrite_props r kvs))"
  "entries_ok policy v \<Longrightarrow> entries_ok policy (rewrite_at r k v)"
proof (induction r v and r xs and r kvs and r k v rule: rewriteJoinTargets_rewrite_items_rewrite_props_rewrite_at.induct)
  case (1 r v)
  then show ?case by (cases v) (auto simp: entries_ok_Arr)
next
  case (5 r k v kvs)
  then show ?case by (cases "k = ''__proto__''") (simp_all add: entries_ok_Cons entry_violation_rewrite)
next
  case (6 r k v)
  show ?case
  proof (cases "join_key k")
    case True
    with 6 show ?thesis
      by (cases v) (auto simp: join_key_def rewrite_at.simps entries_ok_resolve_at entries_ok_atom)
  qed (use 6 in \<open>auto simp: rewrite_at_other join_key_def\<close>)
qed simp_all

section \<open>Sub-pipelines and joins of a rewritten stage\<close>

lemma get_resolve_at: "k \<noteq> slot \<Longrightarrow> get (resolve_at r slot spec) k = get spec k"
proof -
  have "k \<noteq> slot \<Longrightarrow> get (put_prop spec slot x) k = get spec k" for x by (induction spec) (auto simp: put_prop_def)
  then show "k \<noteq> slot \<Longrightarrow> ?thesis" by (simp add: resolve_at_def split: jsval.splits)
qed

lemma get_resolve_slot: "get (resolve_at r slot spec) slot = (case get spec slot of JStr s \<Rightarrow> JStr (or_default (r s) s) | v \<Rightarrow> v)"
proof -
  have "get spec slot \<noteq> JUndef \<Longrightarrow> get (put_prop spec slot x) slot = x" for x
    by (induction spec) (auto simp: put_prop_def)
  then show ?thesis by (auto simp: resolve_at_def split: jsval.splits)
qed

lemma plain_slots [simp]: "\<not> join_key ''pipeline''" "\<not> join_key ''from''" "\<not> join_key ''coll''" "\<not> join_key ''$facet''" "\<not> join_key ''$limit''"
  by (simp_all add: join_key_def)

lemma joined_pipeline:
  assumes "name \<in> {''$lookup'', ''$unionWith''}"
  shows "q \<in> set (subPipelines name (JObj kvs)) \<longleftrightarrow> get kvs ''pipeline'' = JArr q"
proof -
  have "q \<in> set (case v of JArr xs \<Rightarrow> [xs] | _ \<Rightarrow> []) \<longleftrightarrow> v = JArr q" for v by (cases v) auto
  with assms show ?thesis by (elim insertE emptyE) (simp_all add: subPipelines_def)
qed

lemma rewrite_at_object: "doc_of (rewrite_at r k v) = None \<longleftrightarrow> doc_of v = None"
  by (cases v) (simp_all add: rewrite_at.simps)

lemma subPipelines_atom: "doc_of v = None \<Longrightarrow> subPipelines name v = []"
  by (cases v) (simp_all add: subPipelines_def)

lemma subPipelines_rewrite:
  "q \<in> set (subPipelines name (rewrite_at r name spec)) \<Longrightarrow> \<exists>p \<in> set (subPipelines name spec). q = p \<or> q = rewrite_items r p"
proof -
  assume q: "q \<in> set (subPipelines name (rewrite_at r name spec))"
  have from_object: ?thesis if "spec = JObj kvs" "rewrite_at r name spec = JObj (rewrite_props r (resolve_at r slot kvs))" "slot \<noteq> ''pipeline''"
      "name \<in> {''$lookup'', ''$unionWith''}" for kvs slot
  proof -
    have "get (rewrite_props r (resolve_at r slot kvs)) ''pipeline'' = rewriteJoinTargets r (get kvs ''pipeline'')"
      using that(3) by (simp add: get_rewrite_props get_resolve_at)
    with joined_pipeline [OF that(4)] q [unfolded that(2)] have "rewriteJoinTargets r (get kvs ''pipeline'') = JArr q" by metis
    then obtain p where "get kvs ''pipeline'' = JArr p" "q = rewrite_items r p" by (cases "get kvs ''pipeline''") auto
    with that(1) joined_pipeline [OF that(4)] show ?thesis by metis
  qed
  show ?thesis
  proof (cases spec)
    case (JObj kvs)
    consider "name = ''$lookup''" | "name = ''$unionWith''" | "name = ''$facet''" | "name \<notin> {''$lookup'', ''$unionWith'', ''$facet''}" by blast
    then show ?thesis
    proof cases
      case 1
      with JObj from_object [of kvs "''from''"] show ?thesis by (simp add: rewrite_at.simps)
    next
      case 2
      with JObj from_object [of kvs "''coll''"] show ?thesis by (simp add: rewrite_at.simps)
    next
      case 3
      with JObj q obtain k v where "(k, v) \<in> set kvs" "rewrite_at r k v = JArr q"
        by (auto simp: rewrite_at_other subPipelines_def set_map_filter_arr set_rewrite_props)
      with 3 JObj rewrite_at_shape(1) [of r k v q] show ?thesis by (auto simp: Bex_def subPipelines_def set_map_filter_arr)
    next
      case 4
      then have "subPipelines name w = []" for w by (cases w) (simp_all add: subPipelines_def)
      with q show ?thesis by simp
    qed
  qed (use q in \<open>simp_all add: subPipelines_atom rewrite_at_object\<close>)
qed

lemma collectRefs_rewrite:
  "set (collectRefs name (rewrite_at r name spec) []) = (\<lambda>c. or_default (r c) c) ` set (collectRefs name spec [])"
proof (cases spec)
  case (JObj kvs)
  show ?thesis
    by (cases "get kvs ''from''"; cases "get kvs ''coll''")
      (simp_all add: JObj collectRefs_def rewrite_at.simps get_rewrite_props get_resolve_slot add_new_def)
qed (simp_all add: collectRefs_def rewrite_at.simps add_new_def)

section \<open>What is promised of a pipeline\<close>

text \<open>Every collection a join names, at any depth, is one of those that \<open>ok\<close> admits.\<close>

definition joins_ok :: "(string \<Rightarrow> bool) \<Rightarrow> jsval list \<Rightarrow> bool" where
  "joins_ok ok p \<longleftrightarrow> (\<forall>q name spec. sub_pipeline p q \<longrightarrow> JObj [(name, spec)] \<in> set q \<longrightarrow> (\<forall>c \<in> set (collectRefs name spec []). ok c))"

lemma joins_ok_unfold:
  "joins_ok ok p \<longleftrightarrow>
     (\<forall>name spec. JObj [(name, spec)] \<in> set p \<longrightarrow>
        (\<forall>c \<in> set (collectRefs name spec []). ok c) \<and> (\<forall>q \<in> set (subPipelines name spec). joins_ok ok q))"
  (is "?L \<longleftrightarrow> ?R")
proof
  show "?L \<Longrightarrow> ?R" unfolding joins_ok_def by (meson sub_self sub_stage)
  assume R: ?R
  show ?L
    unfolding joins_ok_def
  proof (intro allI impI)
    fix q name spec assume "sub_pipeline p q" and st: "JObj [(name, spec)] \<in> set q"
    then show "\<forall>c \<in> set (collectRefs name spec []). ok c"
    proof (cases rule: sub_pipeline.cases)
      case (sub_stage name' spec' q')
      with R have "joins_ok ok q'" by blast
      with sub_stage(3) st show ?thesis unfolding joins_ok_def by blast
    qed (use R st in blast)
  qed
qed

lemma joins_ok_Cons: "joins_ok ok (st # p) \<longleftrightarrow> joins_ok ok [st] \<and> joins_ok ok p"
  unfolding joins_ok_unfold [of ok "st # p"] joins_ok_unfold [of ok "[st]"] joins_ok_unfold [of ok p] by auto

lemma joins_ok_subset: "joins_ok ok p \<Longrightarrow> set q \<subseteq> set p \<Longrightarrow> joins_ok ok q"
  unfolding joins_ok_unfold [of ok p] joins_ok_unfold [of ok q] by auto

lemma joins_ok_append: "joins_ok ok (p @ q) \<longleftrightarrow> joins_ok ok p \<and> joins_ok ok q"
  unfolding joins_ok_unfold [of ok "p @ q"] joins_ok_unfold [of ok p] joins_ok_unfold [of ok q] by auto

lemma joins_ok_Nil [simp]: "joins_ok ok []"
  by (subst joins_ok_unfold) simp

lemma joins_ok_limit: "joins_ok ok [limit_stage n]"
  by (subst joins_ok_unfold) (simp add: limit_stage_def collectRefs_def subPipelines_def)

lemma joins_ok_facet: "joins_ok ok [JObj [(''$facet'', JObj kvs)]] \<longleftrightarrow> (\<forall>k xs. (k, JArr xs) \<in> set kvs \<longrightarrow> joins_ok ok xs)"
  by (subst joins_ok_unfold) (auto simp: collectRefs_def subPipelines_def set_map_filter_arr)

section \<open>The promises hold after each step\<close>

lemma cap_last_joins: "joins_ok ok p \<Longrightarrow> joins_ok ok (fst (cap_last n (p, a, l)))"
  using joins_ok_limit [of ok n] joins_ok_subset [of ok p "butlast p"]
  by (auto simp: cap_last_def joins_ok_append split: limit_decision.splits dest: in_set_butlastD)

lemma cap_stage_joins:
  assumes "joins_ok ok [stage]"
    and "\<And>kvs facet. stage = JObj kvs \<Longrightarrow> get kvs ''$facet'' = JObj facet \<Longrightarrow> (\<forall>k xs. (k, JArr xs) \<in> set facet \<longrightarrow> joins_ok ok xs)
           \<Longrightarrow> \<forall>k xs. (k, JArr xs) \<in> set (fst (cap_branches n facet)) \<longrightarrow> joins_ok ok xs"
  shows "joins_ok ok [fst (case stage of
          JObj kvs \<Rightarrow>
            (case get kvs ''$facet'' of
               JObj facet \<Rightarrow> apfst (\<lambda>facet'. JObj (put_prop kvs ''$facet'' (JObj facet'))) (cap_branches n facet)
             | _ \<Rightarrow> (stage, False, False))
        | _ \<Rightarrow> (stage, False, False))]"
proof (cases "\<exists>kvs facet. stage = JObj kvs \<and> get kvs ''$facet'' = JObj facet")
  case True
  then obtain kvs facet where st: "stage = JObj kvs" "get kvs ''$facet'' = JObj facet" by blast
  have "joins_ok ok [JObj (put_prop kvs ''$facet'' (JObj (fst (cap_branches n facet))))]"
  proof (cases kvs)
    case (Cons kv kvs')
    show ?thesis
    proof (cases kvs')
      case Nil
      with \<open>kvs = kv # kvs'\<close> st have kvs: "kvs = [(''$facet'', JObj facet)]" by (cases kv) (auto split: if_splits)
      with assms st show ?thesis by (simp add: put_prop_def joins_ok_facet)
    next
      case (Cons kv' kvs'')
      with \<open>kvs = kv # kvs'\<close> show ?thesis by (subst joins_ok_unfold) (simp add: put_prop_def)
    qed
  qed (use st in simp)
  with st show ?thesis by simp
next
  case False
  then have "(case stage of
          JObj kvs \<Rightarrow>
            (case get kvs ''$facet'' of
               JObj facet \<Rightarrow> apfst (\<lambda>facet'. JObj (put_prop kvs ''$facet'' (JObj facet'))) (cap_branches n facet)
             | _ \<Rightarrow> (stage, False, False))
        | _ \<Rightarrow> (stage, False, False)) = (stage, False, False)"
    by (auto split: jsval.splits)
  with assms(1) show ?thesis by simp
qed

lemma cap_joins:
  "joins_ok ok p \<Longrightarrow> joins_ok ok (fst (cap_stages n p))"
  "\<forall>k xs. (k, JArr xs) \<in> set kvs \<longrightarrow> joins_ok ok xs \<Longrightarrow> \<forall>k xs. (k, JArr xs) \<in> set (fst (cap_branches n kvs)) \<longrightarrow> joins_ok ok xs"
proof (induction n p and n kvs rule: cap_stages_cap_branches.induct)
  case (2 n stage stages)
  then have "joins_ok ok [stage]" "joins_ok ok (fst (cap_stages n stages))" by (simp_all add: joins_ok_Cons [of ok stage stages])
  with cap_stage_joins [of ok stage n] "2.IH"(1) show ?case
    by (simp only: cap_stages.simps cons_flags_def fst_conv) (subst joins_ok_Cons, blast)
next
  case (4 n k v kvs)
  then have rest: "\<forall>k xs. (k, JArr xs) \<in> set (fst (cap_branches n kvs)) \<longrightarrow> joins_ok ok xs" by auto
  show ?case
  proof (cases v)
    case (JArr xs)
    have "joins_ok ok (fst (cap_last n (cap_stages n xs)))"
      using cap_last_joins [OF "4.IH"(1) [OF JArr]] "4.prems" JArr by (metis prod.collapse list.set_intros(1))
    with rest JArr show ?thesis by (auto simp: cons_flags_def)
  qed (use rest in \<open>auto simp: cons_flags_def\<close>)
qed simp_all

lemma capPipeline_joins: "joins_ok ok p \<Longrightarrow> joins_ok ok (fst (capPipeline p n))"
  unfolding capPipeline_def using cap_last_joins [OF cap_joins(1)] by (metis prod.collapse)

text \<open>Rewriting the joins, with a spelling for every name that \<open>ok\<close> admits which it admits as well.\<close>

lemma read_only_shape: "read_only policy p \<Longrightarrow> st \<in> set p \<Longrightarrow> \<exists>name spec. st = JObj [(name, spec)] \<and> name \<in> set ALLOWED_STAGES"
  by (subst (asm) read_only_unfold) blast

lemma allowed_not_proto: "name \<in> set ALLOWED_STAGES \<Longrightarrow> name \<noteq> ''__proto__''"
proof -
  have "''__proto__'' \<notin> set ALLOWED_STAGES" by code_simp
  then show "name \<in> set ALLOWED_STAGES \<Longrightarrow> name \<noteq> ''__proto__''" by blast
qed

lemma set_rewrite_items:
  assumes "read_only policy p" "st' \<in> set (rewrite_items r p)"
  obtains name spec where "JObj [(name, spec)] \<in> set p" "st' = JObj [(name, rewrite_at r name spec)]" "name \<in> set ALLOWED_STAGES"
proof -
  from assms(2) obtain st where st: "st \<in> set p" "st' = rewriteJoinTargets r st" by (auto simp: rewrite_items_map)
  with read_only_shape [OF assms(1)] obtain name spec where "st = JObj [(name, spec)]" "name \<in> set ALLOWED_STAGES" by blast
  with st that allowed_not_proto show ?thesis by simp
qed

lemma size_sub: "JObj [(name, spec)] \<in> set p \<Longrightarrow> q \<in> set (subPipelines name spec) \<Longrightarrow> size_list size q < size_list size p"
proof -
  assume st: "JObj [(name, spec)] \<in> set p" and q: "q \<in> set (subPipelines name spec)"
  from q have "size_list size q \<le> size_list (size_list size) (subPipelines name spec)" by (simp add: size_list_estimation' [of q])
  also have "\<dots> \<le> size spec" by (rule size_subPipelines)
  also have "\<dots> < size (JObj [(name, spec)])" by simp
  also have "\<dots> \<le> size_list size p" using st by (simp only: size_list_estimation' [of _ p])
  finally show ?thesis .
qed

lemma rewrite_keeps_promises:
  assumes "\<And>c. ok c \<Longrightarrow> ok (or_default (r c) c)"
  shows "read_only policy p \<and> joins_ok ok p \<Longrightarrow> read_only policy (rewrite_items r p) \<and> joins_ok ok (rewrite_items r p)"
proof (induction p rule: measure_induct_rule [where f = "size_list size"])
  case (less p)
  then have ro: "read_only policy p" and jo: "joins_ok ok p" by simp_all
  have sub: "read_only policy q' \<and> joins_ok ok q'"
    if st: "JObj [(name, spec)] \<in> set p" and q': "q' \<in> set (subPipelines name (rewrite_at r name spec))" for name spec q'
  proof -
    obtain q where q: "q \<in> set (subPipelines name spec)" "q' = q \<or> q' = rewrite_items r q" using subPipelines_rewrite [OF q'] by blast
    have "read_only policy q \<and> joins_ok ok q"
      using ro jo st q(1) by (subst (asm) read_only_unfold, subst (asm) joins_ok_unfold) fastforce
    with less.IH [OF size_sub [OF st q(1)]] q(2) show ?thesis by blast
  qed
  have stage: "entries_ok policy (rewrite_at r name spec) \<and> (\<forall>c \<in> set (collectRefs name (rewrite_at r name spec) []). ok c)"
    if "JObj [(name, spec)] \<in> set p" for name spec
  proof -
    have "entries_ok policy spec" using ro that by (subst (asm) read_only_unfold) fastforce
    moreover have "\<forall>c \<in> set (collectRefs name spec []). ok c" using jo that by (subst (asm) joins_ok_unfold) blast
    ultimately show ?thesis using assms by (simp add: entries_ok_rewrite(4) collectRefs_rewrite)
  qed
  have "read_only policy (rewrite_items r p)"
    by (subst read_only_unfold) (blast elim: set_rewrite_items [OF ro] dest: sub stage)
  moreover have "joins_ok ok (rewrite_items r p)"
    by (subst joins_ok_unfold) (fastforce elim: set_rewrite_items [OF ro] dest: sub stage)
  ultimately show ?case by blast
qed

section \<open>Reading numbers from text\<close>

lemma reread_form: "reread x = JNull \<or> (\<exists>y. reread x = JNum y)"
  by (simp add: reread_def split: option.splits prod.splits)

lemma get_renumber: "get (map (\<lambda>(k, v). (k, renumber v)) kvs) k = renumber (get kvs k)"
  by (induction kvs) auto

lemma keys_renumber: "fst ` (\<lambda>(k, v). (k, f v)) ` set kvs = fst ` set kvs"
  by force

lemma string_or_opaque_renumber: "string_or_opaque (renumber v) = string_or_opaque v"
proof (cases v)
  case (JNum x)
  then show ?thesis using reread_form [of x] by (auto simp: string_or_opaque_def)
qed (simp_all add: string_or_opaque_def)

lemma regexPatternOf_renumber: "regexPatternOf (renumber v) = regexPatternOf v"
proof (cases v)
  case (JObj kvs)
  have "regexPatternOf (JObj (map (\<lambda>(k, v). (k, renumber v)) kvs)) = regexPatternOf (JObj kvs)"
  proof (cases "get kvs ''$regularExpression''")
    case (JNum x)
    then show ?thesis
      using reread_form [of x]
      by (elim disjE exE) (simp_all add: regexPatternOf_def get_renumber keys_renumber string_or_opaque_renumber)
  qed (simp_all add: regexPatternOf_def get_renumber keys_renumber string_or_opaque_renumber)
  with JObj show ?thesis by simp
next
  case (JNum x)
  then show ?thesis using reread_form [of x] by (auto simp: regexPatternOf_def)
qed (simp_all add: regexPatternOf_def)

lemma inspectRegex_renumber: "inspectRegex (renumber v) policy = inspectRegex v policy"
  by (simp add: inspectRegex_def regexPatternOf_renumber)

lemma entry_violation_renumber: "entry_violation policy k (renumber v) = entry_violation policy k v"
proof -
  have "(case renumber v of
           JObj kvs \<Rightarrow> (if ''regex'' \<in> fst ` set kvs then inspectRegex (get kvs ''regex'') policy else None) | _ \<Rightarrow> None)
      = (case v of JObj kvs \<Rightarrow> (if ''regex'' \<in> fst ` set kvs then inspectRegex (get kvs ''regex'') policy else None) | _ \<Rightarrow> None)"
  proof (cases v)
    case (JNum x)
    then show ?thesis using reread_form [of x] by auto
  qed (simp_all add: keys_renumber get_renumber inspectRegex_renumber)
  then show ?thesis by (simp add: entry_violation_def inspectRegex_renumber)
qed

lemma entries_ok_renumber: "entries_ok policy v \<Longrightarrow> entries_ok policy (renumber v)"
proof (induction v rule: renumber.induct)
  case (1 x)
  then show ?case using reread_form [of x] by (auto simp: entries_ok_atom)
next
  case (2 xs)
  then show ?case by (simp add: entries_ok_Arr)
next
  case (3 kvs)
  then show ?case by (fastforce simp: entries_ok_Obj entry_violation_renumber)
qed (simp_all add: entries_ok_atom)

lemma arr_of_renumber: "arr_of (renumber v) = map_option (map renumber) (arr_of v)"
proof (cases v)
  case (JNum x)
  then show ?thesis using reread_form [of x] by auto
qed simp_all

lemma map_filter_renumber:
  "List.map_filter (\<lambda>(k, v). arr_of v) (map (\<lambda>(k, v). (k, renumber v)) kvs) = map (map renumber) (List.map_filter (\<lambda>(k, v). arr_of v) kvs)"
  by (induction kvs) (auto simp: map_filter_simps arr_of_renumber split: option.splits)

lemma arrays_renumber: "(case renumber v of JArr xs \<Rightarrow> [xs] | _ \<Rightarrow> []) = map (map renumber) (case v of JArr xs \<Rightarrow> [xs] | _ \<Rightarrow> [])"
proof (cases v)
  case (JNum x)
  then show ?thesis using reread_form [of x] by auto
qed simp_all

lemma subPipelines_renumber: "subPipelines name (renumber spec) = map (map renumber) (subPipelines name spec)"
proof (cases spec)
  case (JNum x)
  then show ?thesis using reread_form [of x] by (auto simp: subPipelines_def)
qed (simp_all add: subPipelines_def get_renumber map_filter_renumber arrays_renumber)

lemma collectRefs_renumber: "collectRefs name (renumber spec) out = collectRefs name spec out"
proof -
  have str: "(case renumber v of JStr s \<Rightarrow> f s | _ \<Rightarrow> d) = (case v of JStr s \<Rightarrow> f s | _ \<Rightarrow> d)" for v and f :: "string \<Rightarrow> string list" and d
  proof (cases v)
    case (JNum x)
    then show ?thesis using reread_form [of x] by auto
  qed simp_all
  have prop': "get_prop (renumber v) k = renumber (get_prop v k)" for v k
  proof (cases v)
    case (JNum x)
    then show ?thesis using reread_form [of x] by auto
  qed (simp_all add: get_renumber)
  show ?thesis by (simp only: collectRefs_def prop' str)
qed

lemma renumber_keeps_promises:
  "read_only policy p \<and> joins_ok ok p \<Longrightarrow> read_only policy (map renumber p) \<and> joins_ok ok (map renumber p)"
proof (induction p rule: measure_induct_rule [where f = "size_list size"])
  case (less p)
  then have ro: "read_only policy p" and jo: "joins_ok ok p" by simp_all
  have from_stage: thesis
    if "st' \<in> set (map renumber p)"
      "\<And>name spec. JObj [(name, spec)] \<in> set p \<Longrightarrow> st' = JObj [(name, renumber spec)] \<Longrightarrow> name \<in> set ALLOWED_STAGES \<Longrightarrow> thesis" for st' thesis
    using that read_only_shape [OF ro] by fastforce
  have sub: "read_only policy q' \<and> joins_ok ok q'"
    if st: "JObj [(name, spec)] \<in> set p" and q': "q' \<in> set (subPipelines name (renumber spec))" for name spec q'
  proof -
    obtain q where q: "q \<in> set (subPipelines name spec)" "q' = map renumber q" using q' by (auto simp: subPipelines_renumber)
    have "read_only policy q \<and> joins_ok ok q"
      using ro jo st q(1) by (subst (asm) read_only_unfold, subst (asm) joins_ok_unfold) fastforce
    with less.IH [OF size_sub [OF st q(1)]] q(2) show ?thesis by blast
  qed
  have stage: "entries_ok policy (renumber spec) \<and> (\<forall>c \<in> set (collectRefs name (renumber spec) []). ok c)"
    if "JObj [(name, spec)] \<in> set p" for name spec
  proof -
    have "entries_ok policy spec" using ro that by (subst (asm) read_only_unfold) fastforce
    moreover have "\<forall>c \<in> set (collectRefs name spec []). ok c" using jo that by (subst (asm) joins_ok_unfold) blast
    ultimately show ?thesis by (simp add: entries_ok_renumber collectRefs_renumber)
  qed
  have "read_only policy (map renumber p)"
    by (subst read_only_unfold) (blast elim: from_stage dest: sub stage)
  moreover have "joins_ok ok (map renumber p)"
    by (subst joins_ok_unfold) (fastforce elim: from_stage dest: sub stage)
  ultimately show ?case by blast
qed

section \<open>What is written can be read back\<close>

text \<open>The order of \<open>Object.keys\<close> depends on the keys alone.\<close>

definition keys_ordered :: "string list \<Rightarrow> bool" where
  "keys_ordered ks \<longleftrightarrow>
     (\<exists>xs ys. ks = xs @ ys \<and> (\<forall>k \<in> set xs. index_key k) \<and> sorted (map (digits_int 0) xs) \<and> (\<forall>k \<in> set ys. \<not> index_key k))"

lemma own_order_iff: "own_order kvs = kvs \<longleftrightarrow> keys_ordered (map fst kvs)"
proof
  let ?idx = "\<lambda>kv :: string \<times> jsval. index_key (fst kv)" and ?num = "\<lambda>kv :: string \<times> jsval. digits_int 0 (fst kv)"
  have own: "own_order kvs = sort_key ?num (filter ?idx kvs) @ filter (\<lambda>kv. \<not> ?idx kv) kvs"
    by (simp add: own_order_def case_prod_unfold)
  {
    assume "own_order kvs = kvs"
    with own have "map fst kvs = map fst (sort_key ?num (filter ?idx kvs)) @ map fst (filter (\<lambda>kv. \<not> ?idx kv) kvs)" by (metis map_append)
    moreover have "sorted (map (digits_int 0) (map fst (sort_key ?num (filter ?idx kvs))))" using sorted_sort_key [of ?num] by (simp add: o_def)
    ultimately show "keys_ordered (map fst kvs)" unfolding keys_ordered_def by fastforce
  next
    assume "keys_ordered (map fst kvs)"
    then obtain xs ys where keys: "map fst kvs = xs @ ys" "\<forall>k \<in> set xs. index_key k" "sorted (map (digits_int 0) xs)" "\<forall>k \<in> set ys. \<not> index_key k"
      unfolding keys_ordered_def by blast
    then obtain as bs where kvs: "kvs = as @ bs" "map fst as = xs" "map fst bs = ys" by (auto simp: map_eq_append_conv)
    with keys have "filter ?idx kvs = as" "filter (\<lambda>kv. \<not> ?idx kv) kvs = bs" by (auto simp: filter_id_conv filter_empty_conv)
    moreover have "sorted (map ?num as)" using keys(3) kvs(2) by (auto simp: o_def)
    ultimately show "own_order kvs = kvs" using own kvs(1) by (simp add: sort_key_id_if_sorted)
  }
qed

lemma keys_ordered_filter: "keys_ordered ks \<Longrightarrow> keys_ordered (filter P ks)"
  unfolding keys_ordered_def by (fastforce intro: sorted_filter)

lemma parsed_object_iff:
  "parsed_value (JObj kvs) \<longleftrightarrow> distinct (map fst kvs) \<and> keys_ordered (map fst kvs) \<and> (\<forall>k v. (k, v) \<in> set kvs \<longrightarrow> parsed_value v)"
  by (auto simp: own_order_iff list_all_iff)

lemma keys_rewrite_list: "map fst (rewrite_props r kvs) = filter (\<lambda>k. k \<noteq> ''__proto__'') (map fst kvs)"
  by (induction kvs) auto

lemma parsed_resolve_at: "parsed_value (JObj spec) \<Longrightarrow> parsed_value (JObj (resolve_at r slot spec))"
  unfolding parsed_object_iff keys_resolve_at by (fastforce dest: set_resolve_at)

lemma parsed_rewrite:
  "parsed_value v \<Longrightarrow> parsed_value (rewriteJoinTargets r v)"
  "list_all parsed_value xs \<Longrightarrow> list_all parsed_value (rewrite_items r xs)"
  "\<forall>k v. (k, v) \<in> set kvs \<longrightarrow> parsed_value v \<Longrightarrow> \<forall>k v. (k, v) \<in> set (rewrite_props r kvs) \<longrightarrow> parsed_value v"
  "parsed_value v \<Longrightarrow> parsed_value (rewrite_at r k v)"
proof (induction r v and r xs and r kvs and r k v rule: rewriteJoinTargets_rewrite_items_rewrite_props_rewrite_at.induct)
  case (1 r v)
  show ?case
  proof (cases v)
    case (JObj kvs)
    with 1 show ?thesis
      by (simp add: parsed_object_iff keys_rewrite_list keys_ordered_filter del: parsed_value.simps(3))
  qed (use 1 in simp_all)
next
  case (5 r k v kvs)
  then show ?case by auto
next
  case (6 r k v)
  have spec: "parsed_value (JObj (rewrite_props r (resolve_at r slot spec)))"
    if "parsed_value (JObj spec)" "\<forall>k v. (k, v) \<in> set (rewrite_props r (resolve_at r slot spec)) \<longrightarrow> parsed_value v" for slot spec
    using parsed_resolve_at [OF that(1), of r slot] that(2)
    unfolding parsed_object_iff keys_rewrite_list by (simp add: keys_ordered_filter)
  have IH: "\<forall>k v. (k, v) \<in> set (resolve_at r slot spec) \<longrightarrow> parsed_value v" if "parsed_value (JObj spec)" for slot spec
    using parsed_resolve_at [OF that] unfolding parsed_object_iff by blast
  show ?case
  proof (cases "join_key k")
    case True
    with 6 spec IH show ?thesis
      by (cases v) (auto simp: join_key_def rewrite_at.simps simp del: parsed_value.simps(3))
  qed (use 6 in \<open>auto simp: rewrite_at_other join_key_def\<close>)
qed simp_all

lemma cap_branches_keys: "map fst (fst (cap_branches n kvs)) = map fst kvs"
  by (induction kvs) (auto simp: cons_flags_def split: jsval.splits)

lemma parsed_limit: "parsed_value (limit_stage n)"
  by (simp add: limit_stage_def own_order_def)

lemma parsed_cap_last: "list_all parsed_value p \<Longrightarrow> list_all parsed_value (fst (cap_last n (p, a, l)))"
  using parsed_limit [of n] by (auto simp: cap_last_def list_all_iff split: limit_decision.splits dest: in_set_butlastD)

lemma parsed_put_prop: "parsed_value (JObj kvs) \<Longrightarrow> parsed_value v \<Longrightarrow> parsed_value (JObj (put_prop kvs k v))"
proof -
  have keys: "map fst (put_prop kvs k v) = map fst kvs" by (simp add: put_prop_def case_prod_unfold o_def)
  have "(k', x) \<in> set (put_prop kvs k v) \<Longrightarrow> x = v \<or> (k', x) \<in> set kvs" for k' x
    by (auto simp: put_prop_def split: if_splits)
  with keys show "parsed_value (JObj kvs) \<Longrightarrow> parsed_value v \<Longrightarrow> ?thesis"
    unfolding parsed_object_iff keys by blast
qed

lemma parsed_cap:
  "list_all parsed_value p \<Longrightarrow> list_all parsed_value (fst (cap_stages n p))"
  "\<forall>k v. (k, v) \<in> set kvs \<longrightarrow> parsed_value v \<Longrightarrow> \<forall>k v. (k, v) \<in> set (fst (cap_branches n kvs)) \<longrightarrow> parsed_value v"
proof (induction n p and n kvs rule: cap_stages_cap_branches.induct)
  case (2 n stage stages)
  have "parsed_value (fst (case stage of
          JObj kvs \<Rightarrow>
            (case get kvs ''$facet'' of
               JObj facet \<Rightarrow> apfst (\<lambda>facet'. JObj (put_prop kvs ''$facet'' (JObj facet'))) (cap_branches n facet)
             | _ \<Rightarrow> (stage, False, False))
        | _ \<Rightarrow> (stage, False, False)))"
  proof (cases "\<exists>kvs facet. stage = JObj kvs \<and> get kvs ''$facet'' = JObj facet")
    case True
    then obtain kvs facet where st: "stage = JObj kvs" "get kvs ''$facet'' = JObj facet" by blast
    with "2.prems" have parsed: "parsed_value (JObj kvs)" by (simp del: parsed_value.simps(3))
    with get_in_set [OF st(2)] have "parsed_value (JObj facet)"
      unfolding parsed_object_iff [of kvs] by (metis jsval.distinct(11))
    with "2.IH"(1) [OF st] have "parsed_value (JObj (fst (cap_branches n facet)))"
      unfolding parsed_object_iff cap_branches_keys by blast
    with parsed_put_prop [OF parsed] st show ?thesis by (simp del: parsed_value.simps(3))
  next
    case False
    with "2.prems" show ?thesis by (auto simp del: parsed_value.simps(3) split: jsval.splits)
  qed
  with "2.IH"(2) "2.prems" show ?case by (simp only: cap_stages.simps cons_flags_def fst_conv list.pred_inject)
next
  case (4 n k v kvs)
  then have rest: "\<forall>k v. (k, v) \<in> set (fst (cap_branches n kvs)) \<longrightarrow> parsed_value v" by auto
  show ?case
  proof (cases v)
    case (JArr xs)
    have "list_all parsed_value (fst (cap_last n (cap_stages n xs)))"
      using parsed_cap_last [OF "4.IH"(1) [OF JArr]] "4.prems" JArr by (metis prod.collapse list.set_intros(1) parsed_value.simps(2))
    with rest JArr show ?thesis by (auto simp: cons_flags_def)
  qed (use rest "4.prems" in \<open>auto simp: cons_flags_def\<close>)
qed simp_all

lemma capPipeline_parsed: "list_all parsed_value p \<Longrightarrow> list_all parsed_value (fst (capPipeline p n))"
  unfolding capPipeline_def using parsed_cap_last [OF parsed_cap(1)] by (metis prod.collapse)

lemma parsed_renumber: "parsed_value v \<Longrightarrow> parsed_value (renumber v)"
proof (induction v rule: renumber.induct)
  case (1 x)
  then show ?case using reread_form [of x] by auto
next
  case (2 xs)
  then show ?case by (simp add: list_all_iff)
next
  case (3 kvs)
  then have "parsed_value (JObj (map (\<lambda>(k, v). (k, renumber v)) kvs))"
    unfolding parsed_object_iff by (auto simp: case_prod_unfold o_def)
  then show ?case by simp
qed simp_all

lemma parsePipeline_parsed: "parsePipeline s = Some p \<Longrightarrow> list_all parsed_value p"
proof -
  have "parse_array t = Some p \<Longrightarrow> list_all parsed_value p" for t
    by (auto simp: parse_array_def bind_eq_Some_conv dest: json_parse_parsed)
  then show "parsePipeline s = Some p \<Longrightarrow> list_all parsed_value p"
    by (auto simp: parsePipeline_def toStrictPipelineJson_def Let_def split: option.splits)
qed

text \<open>A pipeline that was parsed and is written as text is read back as itself, its numbers as their digits give them.\<close>

lemma parsePipeline_stringify: "list_all parsed_value p \<Longrightarrow> parsePipeline (json_stringify (JArr p)) = Some (map renumber p)"
proof -
  assume "list_all parsed_value p"
  then have "json_parse (json_stringify (JArr p)) = Some (JArr (map renumber p))" by (subst json_round_trip) simp_all
  then show ?thesis by (simp only: parsePipeline_def toStrictPipelineJson_def parse_array_def bind.simps arr_of.simps option.case option.map snd_conv)
qed

section \<open>What execute sends\<close>

lemma resolveCollection_known: "n \<in> set (collection_names catalog) \<Longrightarrow> resolveCollection n catalog = Some n"
  by (simp add: resolveCollection_def)

definition mongo_cap :: "MongoGuardPolicy \<Rightarrow> nat" where
  "mongo_cap policy = clampMaxRows (Some (mp_maxRows policy)) DEFAULT_MONGO_ROWS"

text \<open>The capped pipeline of an allowing verdict, as the engine reads it back.\<close>

lemma admitted_pipeline:
  assumes "mv_allowed (mongo_guard env js)"
  obtains p where "mv_pipelineJson (mongo_guard env js) = json_stringify (JArr p)" "list_all parsed_value p" "read_only (me_policy env) p"
    "joins_ok (\<lambda>c. c \<in> set (mv_collections (mongo_guard env js))) p" "ends_capped (mongo_cap (me_policy env)) p"
proof -
  obtain json p cs where p: "toStrictPipelineJson js = Some (json, p)" "walkPipeline p (me_policy env) 0 [] = Inr cs"
      "mv_collections (mongo_guard env js) = cs"
      "mv_pipelineJson (mongo_guard env js) = json_stringify (JArr (fst (capPipeline p (mongo_cap (me_policy env)))))"
    using assms unfolding mongo_guard_def mongo_cap_def by (rule guardPipeline_allowed)
  note walk = walkPipeline_stages [OF p(2)]
  have "list_all parsed_value p" using p(1) by (intro parsePipeline_parsed [of js]) (simp add: parsePipeline_def)
  moreover have "joins_ok (\<lambda>c. c \<in> set cs) p" using walk_collects(1) [OF walk] unfolding joins_ok_def by blast
  ultimately show ?thesis
    using that p(3, 4) capPipeline_parsed capPipeline_joins capPipeline_read_only [OF walk_read_only(1) [OF walk]] capPipeline_capped
    unfolding all_capped_iff by metis
qed

text \<open>A pipeline that ends in the limit \<open>x\<close>, as it was written and read.\<close>

definition limited_to :: "jsval \<Rightarrow> jsval list \<Rightarrow> bool" where
  "limited_to v p \<longleftrightarrow> (\<exists>init. p = init @ [JObj [(''$limit'', v)]])"

lemma limited_to_renumber: "limited_to v p \<Longrightarrow> limited_to (renumber v) (map renumber p)"
  by (auto simp: limited_to_def)

lemma limited_to_rewrite: "limited_to v p \<Longrightarrow> doc_of v = None \<Longrightarrow> arr_of v = None \<Longrightarrow> limited_to v (rewrite_items r p)"
  unfolding limited_to_def by (cases v) (auto simp: rewrite_items_map rewrite_at_other)

lemma resolveJoinTargets_all:
  assumes "resolveJoinTargets verdict catalog = (json, [])"
  shows "\<forall>c \<in> set (mv_collections verdict). resolveCollection c catalog \<noteq> None"
proof -
  have "filter (\<lambda>c. resolveCollection c catalog = None) (mv_collections verdict) = []"
    using assms unfolding resolveJoinTargets_def Let_def by (metis (lifting) prod.inject)
  then show ?thesis by (simp add: filter_empty_conv)
qed

lemma resolveJoinTargets_resolved:
  assumes "resolveJoinTargets verdict catalog = (json, [])"
  shows "mv_collections verdict = [] \<and> json = mv_pipelineJson verdict
    \<or> json = json_stringify (rewriteJoinTargets (\<lambda>n. resolveCollection n catalog) (JArr (or_default (parsePipeline (mv_pipelineJson verdict)) [])))"
  using assms unfolding resolveJoinTargets_def Let_def by (metis (lifting) prod.inject)

text \<open>After the rewriting, the names of the joins are those of the catalog.\<close>

lemma rewritten_joins_exact:
  assumes "read_only policy p" "joins_ok (\<lambda>c. resolveCollection c catalog \<noteq> None) p"
    and "JObj [(name, spec)] \<in> set (map renumber (rewrite_items (\<lambda>n. resolveCollection n catalog) p))"
  shows "set (collectRefs name spec []) \<subseteq> set (collection_names catalog)"
proof -
  from assms(3) obtain st where st: "st \<in> set (rewrite_items (\<lambda>n. resolveCollection n catalog) p)" "JObj [(name, spec)] = renumber st" by auto
  from st(1) obtain spec' where st': "JObj [(name, spec')] \<in> set p" "spec = renumber (rewrite_at (\<lambda>n. resolveCollection n catalog) name spec')"
    by (rule set_rewrite_items [OF assms(1)]) (use st(2) in auto)
  have "\<forall>c \<in> set (collectRefs name spec' []). resolveCollection c catalog \<noteq> None"
    using assms(2) st'(1) by (subst (asm) joins_ok_unfold) blast
  then show ?thesis unfolding st'(2) collectRefs_renumber collectRefs_rewrite using resolveCollection_in by (fastforce simp: or_default_def)
qed

lemma sent_pipeline:
  assumes verdict: "mv_allowed (mongo_guard env js)" and joins: "resolveJoinTargets (mongo_guard env js) catalog = (json, [])"
    and p: "parsePipeline json = Some p"
  shows "read_only (me_policy env) p \<and> joins_ok (\<lambda>c. resolveCollection c catalog \<noteq> None) p"
    and "JObj [(name, spec)] \<in> set p \<Longrightarrow> set (collectRefs name spec []) \<subseteq> set (collection_names catalog)"
    and "\<exists>x v. limited_to v p \<and> \<not> jsnum_gt x (of_nat (mongo_cap (me_policy env))) \<and> (v = reread x \<or> v = renumber (reread x))"
proof -
  let ?r = "\<lambda>n. resolveCollection n catalog" and ?cs = "mv_collections (mongo_guard env js)" and ?ok = "\<lambda>c. resolveCollection c catalog \<noteq> None"
  obtain q where q: "mv_pipelineJson (mongo_guard env js) = json_stringify (JArr q)" "list_all parsed_value q"
      "read_only (me_policy env) q" "joins_ok (\<lambda>c. c \<in> set ?cs) q" "ends_capped (mongo_cap (me_policy env)) q"
    using verdict by (rule admitted_pipeline)
  have known: "?r c \<noteq> None" if "c \<in> set ?cs" for c
    using resolveJoinTargets_all [OF joins] that by blast
  have jq: "joins_ok ?ok q" using q(4) known unfolding joins_ok_def by blast
  have q': "read_only (me_policy env) (map renumber q) \<and> joins_ok ?ok (map renumber q)" using renumber_keeps_promises q(3) jq by blast
  from q(5) obtain x where x: "limited_to (JNum x) q" "\<not> jsnum_gt x (of_nat (mongo_cap (me_policy env)))"
    unfolding ends_capped_def limited_to_def by blast
  have lim: "limited_to (reread x) (map renumber q)" using limited_to_renumber [OF x(1)] by simp
  have spelled: "?ok (or_default (?r c) c)" if "?ok c" for c
    using that resolveCollection_in resolveCollection_known by (fastforce simp: or_default_def)
  from resolveJoinTargets_resolved [OF joins]
  consider (same) "?cs = []" "json = json_stringify (JArr q)"
    | (rewritten) "json = json_stringify (JArr (rewrite_items ?r (map renumber q)))"
    unfolding q(1) parsePipeline_stringify [OF q(2)] option.case rewriteJoinTargets_simps or_default_def by blast
  then have "(read_only (me_policy env) p \<and> joins_ok ?ok p)
    \<and> (\<forall>name spec. JObj [(name, spec)] \<in> set p \<longrightarrow> set (collectRefs name spec []) \<subseteq> set (collection_names catalog))
    \<and> (\<exists>x v. limited_to v p \<and> \<not> jsnum_gt x (of_nat (mongo_cap (me_policy env))) \<and> (v = reread x \<or> v = renumber (reread x)))"
  proof cases
    case same
    with p parsePipeline_stringify [OF q(2)] have pq: "p = map renumber q" by simp
    have none: "joins_ok (\<lambda>_. False) p" using renumber_keeps_promises [of _ q "\<lambda>_. False"] q(3, 4) same(1) pq by simp
    have "\<forall>name spec. JObj [(name, spec)] \<in> set p \<longrightarrow> set (collectRefs name spec []) \<subseteq> set (collection_names catalog)"
      using none by (subst (asm) joins_ok_unfold) blast
    with pq q' lim x(2) show ?thesis by blast
  next
    case rewritten
    have "list_all parsed_value (rewrite_items ?r (map renumber q))"
      using q(2) by (intro parsed_rewrite(2)) (simp add: list_all_iff parsed_renumber)
    with rewritten p parsePipeline_stringify have pq: "p = map renumber (rewrite_items ?r (map renumber q))" by simp
    have "read_only (me_policy env) p \<and> joins_ok ?ok p"
      unfolding pq by (rule renumber_keeps_promises [OF rewrite_keeps_promises [OF spelled q']])
    moreover have "limited_to (reread x) (rewrite_items ?r (map renumber q))" using limited_to_rewrite [OF lim] reread_form [of x] by fastforce
    ultimately show ?thesis
      using rewritten_joins_exact [OF conjunct1 [OF q'] conjunct2 [OF q']] limited_to_renumber x(2) unfolding pq by blast
  qed
  then show "read_only (me_policy env) p \<and> joins_ok ?ok p"
    and "JObj [(name, spec)] \<in> set p \<Longrightarrow> set (collectRefs name spec []) \<subseteq> set (collection_names catalog)"
    and "\<exists>x v. limited_to v p \<and> \<not> jsnum_gt x (of_nat (mongo_cap (me_policy env))) \<and> (v = reread x \<or> v = renumber (reread x))"
    by blast+
qed

lemma resolveJoinTargets_parses:
  assumes "mv_allowed (mongo_guard env js)" "resolveJoinTargets (mongo_guard env js) catalog = (json, [])"
  shows "\<exists>p. parsePipeline json = Some p"
proof -
  obtain q where q: "mv_pipelineJson (mongo_guard env js) = json_stringify (JArr q)" "list_all parsed_value q"
    using assms(1) by (rule admitted_pipeline)
  then have "list_all parsed_value (rewrite_items (\<lambda>n. resolveCollection n catalog) (map renumber q))"
    by (intro parsed_rewrite(2)) (simp add: list_all_iff parsed_renumber)
  then show ?thesis
    using resolveJoinTargets_resolved [OF assms(2)] parsePipeline_stringify q(2)
    unfolding q(1) parsePipeline_stringify [OF q(2)] or_default_def option.case rewriteJoinTargets_simps by blast
qed

section \<open>Properties\<close>

text \<open>
  C5: whatever the connector of the MongoDB engine is sent: the guard allowed the text, the collection is one of the catalog, and in the
  pipeline, as the driver receives it, every stage at any depth is one allowlisted operator without server-side code and without an
  unsafe regular expression, every join names a collection that the catalog resolves (at the top level in the spelling of the catalog),
  and the last stage is a limit: a number within the cap as \<open>JSON.stringify\<close> writes it, an integer exactly.
\<close>

theorem mongo_execute_sends_only_admitted:
  assumes "(c, p) \<in> set (snd (mongo_execute env js coll opts))"
  shows "mv_allowed (mongo_guard env js)
    \<and> (\<exists>catalog. me_catalog env = Inr catalog \<and> c \<in> set (collection_names catalog)
      \<and> (\<forall>q st. sub_pipeline p q \<longrightarrow> st \<in> set q \<longrightarrow>
           (\<exists>name spec. st = JObj [(name, spec)] \<and> name \<in> set ALLOWED_STAGES
              \<and> (\<forall>k kvs key x. occurs k spec (JObj kvs) \<longrightarrow> (key, x) \<in> set kvs \<longrightarrow>
                   key \<notin> set DENIED_OPERATORS_ANYWHERE \<and> entry_violation (me_policy env) key x = None)
              \<and> (\<forall>t \<in> set (collectRefs name spec []). resolveCollection t catalog \<noteq> None)))
      \<and> (\<forall>name spec. JObj [(name, spec)] \<in> set p \<longrightarrow> set (collectRefs name spec []) \<subseteq> set (collection_names catalog)))
    \<and> (\<exists>init x v. p = init @ [JObj [(''$limit'', v)]] \<and> \<not> jsnum_gt x (of_nat (mongo_cap (me_policy env)))
         \<and> (v = reread x \<or> v = renumber (reread x)) \<and> (\<forall>z. x = Fin (of_int z) \<and> \<bar>z\<bar> \<le> 2 ^ 53 \<longrightarrow> v = JNum x))
    \<and> 1 \<le> mongo_cap (me_policy env) \<and> mongo_cap (me_policy env) \<le> MAX_ROW_CAP"
proof -
  from assms obtain catalog json where sent: "mv_allowed (mongo_guard env js)" "me_catalog env = Inr catalog" "resolveCollection coll catalog = Some c"
      "resolveJoinTargets (mongo_guard env js) catalog = (json, [])" "p = or_default (parsePipeline json) []"
    by (auto simp: mongo_execute_def Let_def truthy_def split: sum.splits option.splits if_splits prod.splits list.splits)
  obtain p' where p': "parsePipeline json = Some p'"
    using resolveJoinTargets_parses [OF sent(1, 4)] by blast
  with sent(5) have p: "parsePipeline json = Some p" by (simp add: or_default_def)
  note facts = sent_pipeline [OF sent(1, 4) p]
  have stage: "\<exists>name spec. st = JObj [(name, spec)] \<and> name \<in> set ALLOWED_STAGES
      \<and> (\<forall>k kvs key x. occurs k spec (JObj kvs) \<longrightarrow> (key, x) \<in> set kvs \<longrightarrow>
           key \<notin> set DENIED_OPERATORS_ANYWHERE \<and> entry_violation (me_policy env) key x = None)
      \<and> (\<forall>t \<in> set (collectRefs name spec []). resolveCollection t catalog \<noteq> None)"
    if stage: "sub_pipeline p q" "st \<in> set q" for q st
  proof -
    obtain name spec where st: "st = JObj [(name, spec)]" "name \<in> set ALLOWED_STAGES" "entries_ok (me_policy env) spec"
      using facts(1) stage unfolding read_only_def read_only_stage_def by blast
    moreover have "\<forall>t \<in> set (collectRefs name spec []). resolveCollection t catalog \<noteq> None"
      using facts(1) stage st(1) unfolding joins_ok_def by blast
    moreover have "key \<notin> set DENIED_OPERATORS_ANYWHERE" if "entry_violation (me_policy env) key x = None" for key x
      using that by (auto simp: entry_violation_def)
    ultimately show ?thesis unfolding entries_ok_def by blast
  qed
  obtain x v where x: "limited_to v p" "\<not> jsnum_gt x (of_nat (mongo_cap (me_policy env)))" "v = reread x \<or> v = renumber (reread x)"
    using facts(3) by blast
  have "v = JNum x" if "x = Fin (of_int z) \<and> \<bar>z\<bar> \<le> 2 ^ 53" for z
    using x(3) that reread_int [of z] by auto
  then have "\<exists>init x v. p = init @ [JObj [(''$limit'', v)]] \<and> \<not> jsnum_gt x (of_nat (mongo_cap (me_policy env)))
      \<and> (v = reread x \<or> v = renumber (reread x)) \<and> (\<forall>z. x = Fin (of_int z) \<and> \<bar>z\<bar> \<le> 2 ^ 53 \<longrightarrow> v = JNum x)"
    using x unfolding limited_to_def by blast
  moreover have "1 \<le> mongo_cap (me_policy env) \<and> mongo_cap (me_policy env) \<le> MAX_ROW_CAP"
    unfolding mongo_cap_def by (rule clamp_range) (simp_all add: DEFAULT_MONGO_ROWS_def MAX_ROW_CAP_def)
  ultimately show ?thesis using sent(1, 2) stage facts(2) resolveCollection_in [OF sent(3)] by blast
qed

lemma sample_mongo_sends:
  "snd (mongo_execute sample_mongo (quoted sample_lookup) ''B'' ()) =
     [(''b'', [JObj [(''$lookup'', JObj [(''from'', JStr ''A''), (''pipeline'', JArr [JObj [(''$unionWith'', JStr ''b'')]])])],
               JObj [(''$limit'', JNum (Fin 5))]])]"
  by code_simp

theorem mongo_execute_sends_only_admitted_witness:
  "mv_allowed (mongo_guard sample_mongo (quoted sample_lookup)) \<and> 1 \<le> mongo_cap (me_policy sample_mongo)
     \<and> (\<exists>catalog. me_catalog sample_mongo = Inr catalog \<and> ''b'' \<in> set (collection_names catalog))"
  using mongo_execute_sends_only_admitted [of "''b''" _ sample_mongo "quoted sample_lookup" "''B''" "()"] unfolding sample_mongo_sends by auto

text \<open>
  C33: the engine writes a pipeline as text and reads it back, twice. A pipeline that was parsed comes back with the same stages, the same
  keys in the same order and the same values, its numbers as the digits that \<open>JSON.stringify\<close> writes give them, an integer as itself.
\<close>

theorem parsePipeline_reads_back:
  assumes "parsePipeline js = Some p"
  shows "parsePipeline (json_stringify (JArr p)) = Some (map renumber p)
    \<and> (\<forall>z. \<bar>z\<bar> \<le> 2 ^ 53 \<longrightarrow> renumber (JNum (Fin (of_int z))) = JNum (Fin (of_int z)))"
  using parsePipeline_stringify [OF parsePipeline_parsed [OF assms]] reread_int by simp

theorem parsePipeline_reads_back_witness:
  "parsePipeline (json_stringify (JArr [JObj [(''$limit'', JNum (Fin 3))]])) = Some [JObj [(''$limit'', JNum (Fin 3))]]"
proof -
  have "parsePipeline ''[{$limit: 3}]'' = Some [JObj [(''$limit'', JNum (Fin 3))]]" by code_simp
  from parsePipeline_reads_back [OF this] reread_int [of 3] show ?thesis by simp
qed

end
