(* ===== verification/Mongo_Catalog_Cache.thy ===== *)
theory Mongo_Catalog_Cache
  imports Catalog_Cache
begin

text \<open>
  The catalog of \<open>createMongoAskSql\<close> in \<open>packages/core/src/mongo/engine.ts\<close>: \<open>withoutSampledData\<close>, \<open>catalog\<close> and
  \<open>invalidateCatalog\<close>. As in \<open>Catalog_Cache\<close> the functions are cut at their awaits: entering \<open>catalog\<close>, the end of the
  \<open>introspect\<close> inside, the \<open>finally\<close> that runs after it, and \<open>invalidateCatalog\<close>. A read is a number.

  The properties: a read that began before an invalidation never fills the cache; no sampled value is served unless the host allowed it.
  The last lemma is a run in which two reads of the newest generation are in progress at once: unlike its SQL counterpart, \<open>finally\<close>
  forgets the read that callers join without looking whose it is.
\<close>

section \<open>Model\<close>

record mongo_catalog =
  mk_cached :: "cache_entry option"
  mk_inflight :: "nat option"
  mk_generation :: nat
  mk_reads :: "nat \<rightharpoonup> nat"
  mk_settled :: "nat set"
  mk_next :: nat

text \<open>\<open>mk_reads\<close>: the generation each unfinished read captured. \<open>mk_settled\<close>: the reads that only wait for their \<open>finally\<close>.\<close>

definition mongo_catalog_start :: mongo_catalog where
  "mongo_catalog_start = \<lparr>mk_cached = None, mk_inflight = None, mk_generation = 0, mk_reads = Map.empty, mk_settled = {}, mk_next = 0\<rparr>"

definition withoutSampledData :: "bool \<Rightarrow> SchemaCatalog \<Rightarrow> SchemaCatalog" where
  "withoutSampledData allowDataInPrompt cat =
     (if allowDataInPrompt then cat
      else if \<not> list_ex (\<lambda>t. list_ex has_samples (t_columns t)) (k_tables cat) then cat
      else cat\<lparr>k_tables := map drop_samples (k_tables cat)\<rparr>)"

definition mongo_catalog_asked :: "bool \<Rightarrow> mongo_catalog \<Rightarrow> int \<Rightarrow> catalog_outcome \<times> mongo_catalog" where
  "mongo_catalog_asked allowed st now =
     (let other = (case mk_inflight st of
            Some p \<Rightarrow> (Joins p, st)
          | None \<Rightarrow>
              (let p = mk_next st in
               (Starts p, st\<lparr>mk_inflight := Some p, mk_reads := (mk_reads st)(p \<mapsto> mk_generation st), mk_next := p + 1\<rparr>)))
      in case mk_cached st of
           Some e \<Rightarrow> if now - ce_at e < ce_ttl e then (Served (withoutSampledData allowed (ce_catalog e)), st) else other
         | None \<Rightarrow> other)"

definition mongo_unreadable :: "SchemaCatalog \<Rightarrow> AskSqlError" where
  "mongo_unreadable cat = new_AskSqlError DBQueryError
     \<lparr>o_userMessage = Some ''Could not read this database's collections. Check the connection's permissions, then try again.'',
      o_detail = Some (''introspection returned no readable collections with warnings: '' @ take 500 (join ''; '' (k_warnings cat))),
      o_retryable = Some True\<rparr>"

text \<open>The end of \<open>introspect\<close>: what the read settles to, and the cache.\<close>

definition mongo_read_settles :: "bool \<Rightarrow> mongo_catalog \<Rightarrow> nat \<Rightarrow> thrown + SchemaCatalog \<Rightarrow> int \<Rightarrow> (thrown + SchemaCatalog) \<times> mongo_catalog" where
  "mongo_read_settles allowed st p answer now =
     (let st' = st\<lparr>mk_settled := insert p (mk_settled st)\<rparr> in
      case answer of
        Inl err \<Rightarrow> (Inl err, st')
      | Inr cat \<Rightarrow>
          (if (k_tables cat = [] \<or> list_all (\<lambda>t. t_columns t = []) (k_tables cat)) \<and> k_warnings cat \<noteq> [] then
             (Inl (ThrownAskSql (mongo_unreadable cat)), st')
           else
             (Inr (withoutSampledData allowed cat),
              if mk_reads st p = Some (mk_generation st)
              then st'\<lparr>mk_cached := Some \<lparr>ce_catalog = cat, ce_at = now, ce_ttl = ttl_of cat\<rparr>\<rparr> else st')))"

definition mongo_read_finally :: "mongo_catalog \<Rightarrow> nat \<Rightarrow> mongo_catalog" where
  "mongo_read_finally st p = st\<lparr>mk_inflight := None, mk_reads := (mk_reads st)(p := None), mk_settled := mk_settled st - {p}\<rparr>"

definition invalidateCatalog :: "mongo_catalog \<Rightarrow> mongo_catalog" where
  "invalidateCatalog st = st\<lparr>mk_generation := mk_generation st + 1, mk_inflight := None, mk_cached := None\<rparr>"

inductive mongo_catalog_step :: "bool \<Rightarrow> mongo_catalog \<Rightarrow> mongo_catalog \<Rightarrow> bool" for allowed where
  asked: "mongo_catalog_step allowed st (snd (mongo_catalog_asked allowed st now))"
| settles: "mk_reads st p \<noteq> None \<Longrightarrow> p \<notin> mk_settled st \<Longrightarrow> mongo_catalog_step allowed st (snd (mongo_read_settles allowed st p answer now))"
| cleared: "p \<in> mk_settled st \<Longrightarrow> mongo_catalog_step allowed st (mongo_read_finally st p)"
| invalidated: "mongo_catalog_step allowed st (invalidateCatalog st)"

interpretation mk: transition_system mongo_catalog_start "mongo_catalog_step allowed" for allowed .

section \<open>Invariants\<close>

text \<open>Numbers of reads are fresh, and no read is ahead of the generation.\<close>

definition mongo_reads_ok :: "mongo_catalog \<Rightarrow> bool" where
  "mongo_reads_ok st \<longleftrightarrow> (\<forall>p g. mk_reads st p = Some g \<longrightarrow> p < mk_next st \<and> g \<le> mk_generation st)"

lemmas mongo_catalog_defs = mongo_catalog_asked_def mongo_read_settles_def mongo_read_finally_def invalidateCatalog_def Let_def

lemma mongo_reads_ok_step: "mongo_reads_ok st \<Longrightarrow> mongo_catalog_step allowed st st' \<Longrightarrow> mongo_reads_ok st'"
  by (erule mongo_catalog_step.cases)
    (force simp: mongo_catalog_defs mongo_reads_ok_def split: option.splits sum.splits if_splits)+

lemma mongo_reads_ok_reach: "mk.reach allowed st \<Longrightarrow> mongo_reads_ok st"
proof (rule mk.invariant [where P = mongo_reads_ok])
  show "mongo_reads_ok mongo_catalog_start" by (simp add: mongo_reads_ok_def mongo_catalog_start_def)
qed (auto intro: mongo_reads_ok_step)

text \<open>What stays of a read along a run: its generation, or it is gone for good.\<close>

definition read_kept :: "nat \<Rightarrow> nat \<Rightarrow> mongo_catalog \<Rightarrow> bool" where
  "read_kept p g st \<longleftrightarrow> p < mk_next st \<and> g < mk_generation st \<and> (mk_reads st p = None \<or> mk_reads st p = Some g)"

lemma read_kept_step: "read_kept p g st \<Longrightarrow> mongo_catalog_step allowed st st' \<Longrightarrow> read_kept p g st'"
  by (erule mongo_catalog_step.cases)
    (force simp: mongo_catalog_defs read_kept_def split: option.splits sum.splits if_splits)+

lemma read_kept_run: "(mongo_catalog_step allowed)\<^sup>*\<^sup>* st st' \<Longrightarrow> read_kept p g st \<Longrightarrow> read_kept p g st'"
  by (induction rule: rtranclp_induct) (auto intro: read_kept_step)

section \<open>Properties\<close>

text \<open>
  C36: once \<open>invalidateCatalog\<close> has run, an introspection that began earlier never fills the cache, whatever happens in between.
\<close>

theorem invalidate_outdates_older_reads:
  assumes "mk.reach allowed st" "mk_reads st p \<noteq> None" "(mongo_catalog_step allowed)\<^sup>*\<^sup>* (invalidateCatalog st) st'"
  shows "mk_cached (snd (mongo_read_settles allowed st' p answer now)) = mk_cached st'"
proof -
  obtain g where g: "mk_reads st p = Some g" using assms(2) by blast
  with mongo_reads_ok_reach [OF assms(1)] have "read_kept p g (invalidateCatalog st)"
    by (auto simp: read_kept_def mongo_reads_ok_def invalidateCatalog_def less_Suc_eq_le)
  from read_kept_run [OF assms(3) this] show ?thesis
    by (auto simp: read_kept_def mongo_read_settles_def Let_def split: sum.splits)
qed

theorem invalidate_outdates_older_reads_witness:
  "mk_cached (snd (mongo_read_settles False (invalidateCatalog (snd (mongo_catalog_asked False mongo_catalog_start 0))) 0
     (Inr (example_catalog [])) 1)) = None"
proof -
  let ?st = "snd (mongo_catalog_asked False mongo_catalog_start 0)"
  have "mk.reach False ?st" by (rule mk.reach_step [OF mk.reach_init]) (rule asked)
  moreover have "mk_reads ?st 0 \<noteq> None" by (simp add: mongo_catalog_asked_def mongo_catalog_start_def Let_def)
  ultimately have "mk_cached (snd (mongo_read_settles False (invalidateCatalog ?st) 0 (Inr (example_catalog [])) 1)) = mk_cached (invalidateCatalog ?st)"
    by (rule invalidate_outdates_older_reads) simp
  then show ?thesis by (simp add: invalidateCatalog_def)
qed

text \<open>No catalog leaves with sampled values unless the host allowed it, neither from the cache nor from a read.\<close>

lemma withoutSampledData_clean: "\<not> allowed \<Longrightarrow> t \<in> set (k_tables (withoutSampledData allowed cat)) \<Longrightarrow> c \<in> set (t_columns t) \<Longrightarrow> \<not> has_samples c"
  by (auto simp: withoutSampledData_def drop_samples_def has_samples_def list_ex_iff split: if_splits)

text \<open>
  A run of the code: the first question starts a read, the catalog is invalidated, a second question starts another, the first read ends,
  and a third question starts one more while the second read, of the same generation, is still in progress.
\<close>

lemma older_read_unshares:
  "\<exists>st. mk.reach False st \<and> mk_reads st 1 = Some (mk_generation st) \<and> mk_reads st 2 = Some (mk_generation st) \<and> 1 \<notin> mk_settled st \<and> 2 \<notin> mk_settled st"
proof -
  let ?a = "snd (mongo_catalog_asked False mongo_catalog_start 0)"
  let ?b = "snd (mongo_catalog_asked False (invalidateCatalog ?a) 0)"
  let ?c = "snd (mongo_read_settles False ?b 0 (Inr (example_catalog [])) 0)"
  let ?d = "snd (mongo_catalog_asked False (mongo_read_finally ?c 0) 0)"
  have b: "mk.reach False ?b" by (intro mk.reach_step [OF mk.reach_step [OF mk.reach_step [OF mk.reach_init]]]) (rule asked invalidated)+
  have "mk.reach False ?c"
    by (rule mk.reach_step [OF b], rule settles) (simp_all add: mongo_catalog_defs mongo_catalog_start_def)
  then have "mk.reach False (mongo_read_finally ?c 0)"
    by (rule mk.reach_step, intro cleared) (simp add: mongo_catalog_defs mongo_catalog_start_def example_catalog_def)
  then have "mk.reach False ?d" by (rule mk.reach_step) (rule asked)
  moreover have "mk_reads ?d 1 = Some (mk_generation ?d) \<and> mk_reads ?d 2 = Some (mk_generation ?d) \<and> 1 \<notin> mk_settled ?d \<and> 2 \<notin> mk_settled ?d"
    by (simp add: mongo_catalog_defs mongo_catalog_start_def example_catalog_def)
  ultimately show ?thesis by blast
qed

end
