(* ===== verification/Spec2Isabelle.thy ===== *)
theory Spec2Isabelle
  imports Guard Mongo_Guard Mongo_Stages History Extract Identifier_Case Column_Hints Catalog
    Floors Catalog_Cache Prompts Scope Schema_Match Catalog_Answers Grounding Semantics Engine_Ask
    Engine_Run Server_Hosts Server_Stream Server_Connections Server_Requests
    Mongo_Sent Mongo_Catalog_Cache
begin

text \<open>
  AskSQL (\<open>src/packages/core\<close>, \<open>src/packages/server\<close>) turns a question into a read-only query, checks it, runs it under a row cap
  and explains it. The model that writes the query is not trusted, and neither is the client: what stands between them and the
  database is the code modelled here.

  \<^bold>\<open>How the parts work together.\<close> A question enters \<open>askImpl\<close> (\<open>engine.ts\<close>). Regular expressions route it away from the model where no
  query can answer it (\<open>Scope\<close>, \<open>Schema_Match\<close>) or to a statement the engine writes itself (\<open>Catalog_Answers\<close>). Otherwise the catalog
  (\<open>Catalog_Cache\<close>) is pruned and rendered (\<open>Catalog\<close>), put into a prompt (\<open>Prompts\<close>) and sent. The reply is cut (\<open>Extract\<close>), its
  identifiers are quoted (\<open>Identifier_Case\<close>, \<open>Sql_Keywords\<close>), and the guard (\<open>Guard\<close>, over \<open>Strip\<close>, \<open>Guard_Walk\<close> and \<open>Guard_Limit\<close>)
  allows or blocks it. Floors (\<open>Floors\<close>) and lints (\<open>Semantics\<close>) look for invented names and for statements that are legal but wrong. A
  repair goes round the loop of \<open>Engine_Ask\<close> again. \<open>Engine_Execute\<close> runs what is left, always through the guard again; \<open>Engine_Run\<close>
  offers a fix when it fails. MongoDB has a guard (\<open>Mongo_Guard\<close>), rewritings (\<open>Mongo_Stages\<close>) and an engine of its own
  (\<open>Mongo_Engine\<close>, with \<open>Mongo_Extract\<close>, \<open>Mongo_Prompts\<close> and the cache \<open>Mongo_Catalog_Cache\<close>; \<open>Mongo_Sent\<close> follows what the guard promised to the driver). The server puts a stream (\<open>Server_Stream\<close>), a registry of connections (\<open>Server_Connections\<close>), the checks of what a client
  may dial (\<open>Server_Hosts\<close>) and the requests themselves (\<open>Server_Requests\<close>) around the engines.

  \<^bold>\<open>Which theory models which code.\<close> Names of definitions are those of the source wherever HOL allows it; the records and datatypes
  are the interfaces and unions of the TypeScript.
  \<^item> \<open>JS_Prelude\<close>, \<open>JS_Regex\<close>, \<open>JS_Value\<close>, \<open>JSON\<close>: what the code uses of the language: strings as Latin-1 characters, numbers as rationals
    with the three values that are not finite, a backtracking matcher for the regular expressions, values, \<open>JSON.parse\<close> and
    \<open>JSON.stringify\<close>. \<open>JSON_Round_Trip\<close> proves that the one reads what the other wrote.
  \<^item> \<open>Core_Types\<close>: \<open>errors.ts\<close>, \<open>row-cap.ts\<close>, \<open>dialects.ts\<close>, the policy of \<open>guard.ts\<close>.
  \<^item> \<open>Strip\<close>: \<open>strip.ts\<close>. \<open>Guard_Lists\<close>, \<open>Guard_Walk\<close>, \<open>Guard_Limit\<close>, \<open>Guard\<close>: \<open>guard.ts\<close>, its lists, the walk over the tree, the row
    limit, and the guard itself.
  \<^item> \<open>Mongo_Guard\<close>, \<open>Mongo_Stages\<close>: \<open>mongo/guard.ts\<close>, \<open>mongo/normalise.ts\<close>, \<open>mongo/stage-fields.ts\<close>. \<open>Mongo_Extract\<close>, \<open>Mongo_Prompts\<close>:
    \<open>mongo/extract.ts\<close>, \<open>mongo/prompts.ts\<close>. \<open>Mongo_Engine\<close>, \<open>Mongo_Catalog_Cache\<close>: \<open>mongo/engine.ts\<close>; \<open>Mongo_Sent\<close> proves what its \<open>execute\<close> sends.
  \<^item> \<open>History\<close>: \<open>history.ts\<close>. \<open>Extract\<close>: \<open>extract.ts\<close>. \<open>Sql_Keywords\<close>: \<open>sql-keywords.ts\<close>. \<open>Identifier_Case\<close>: \<open>identifier-case.ts\<close>.
    \<open>Column_Hints\<close>: \<open>coltype.ts\<close>, \<open>column-hints.ts\<close>. \<open>Catalog\<close>: \<open>catalog.ts\<close>. \<open>Prompts\<close>: \<open>prompt.ts\<close>. \<open>Scope\<close>: \<open>scope.ts\<close>. \<open>Schema_Match\<close>:
    \<open>schema-match.ts\<close>. \<open>Catalog_Answers\<close>: \<open>catalog-answers.ts\<close>. \<open>Grounding\<close>: \<open>grounding.ts\<close>. \<open>Semantics\<close>: \<open>semantics.ts\<close>.
  \<^item> \<open>Floors\<close>, \<open>Catalog_Cache\<close>, \<open>Engine_Execute\<close>, \<open>Engine_Ask\<close>, \<open>Engine_Run\<close>: \<open>engine.ts\<close>.
  \<^item> \<open>Server_Hosts\<close>: \<open>packages/server/src/dynamicConnections.ts\<close>. \<open>Server_Stream\<close>, \<open>Server_Connections\<close>, \<open>Server_Requests\<close>: \<open>packages/server/src/handler.ts\<close>.
  \<^item> \<open>Transition_System\<close>: the locale of a system with an initial state and a step relation, with reachability and induction over it,
    interpreted in \<open>Catalog_Cache\<close>, \<open>Mongo_Catalog_Cache\<close>, \<open>Server_Stream\<close> and \<open>Server_Connections\<close> on the model's own steps.

  \<^bold>\<open>State.\<close> A pure function is a HOL function; a method that changes state takes the state and gives it back; a \<open>throw\<close> is \<open>Inl\<close>. What
  is asynchronous and shares state is a step relation whose steps are the pieces of code between two awaits, so every interleaving is
  covered. A promise in the map of reads in flight is a number.

  \<^bold>\<open>What is a parameter.\<close> The parser (\<open>node-sql-parser\<close>), the language model, the connector, the catalog a database reports, the clock,
  the file system and the host's own prompt are arguments of the definitions that use them. Nothing is assumed of them except where a
  theorem says so in its hypotheses.

  \<^bold>\<open>What the lemmas show.\<close> The guards: what they allow reads only and is capped, and is the text they parsed. The engines: what leaves
  them was admitted by the guard, under the cap, and is recorded once; the loops end; what is offered as a fix or as an answer about the
  schema has passed the same checks. The helpers: each optimised or textual routine agrees with a plain specification (the edit distance,
  the table floor, the lints, the streaming filter, the reader of IPv4 addresses, the pruning). The shared state: invariants of every
  reachable state of the catalog cache, the registry and the chat stream.

  \<^bold>\<open>Loops and bounds.\<close> No fuel is used. The matcher recurses on the text that is left, the walks on the tree, \<open>ask_loop\<close> on what is left
  of two repairs, one shrinking of the schema and two rephrasings, so it ends after at most six calls of the model (five for MongoDB). Widths matter in one
  place, the octets of an address, which are cut out of a 32-bit word.

  \<^bold>\<open>Limits of the model.\<close> A character is one of 256, so case mapping and word characters are those of Latin-1, and the one
  non-Latin character of the code, the ellipsis, is a parameter. Numbers have no negative zero. The events \<open>stage\<close> and \<open>token\<close> of the
  engine, which change no state, are only modelled where their order is what the code is about (\<open>Server_Stream\<close>). Sampled hints and
  their time-outs are modelled as functions, not as timers.

  \<^bold>\<open>Not modelled.\<close> \<open>llm.ts\<close> and \<open>providers.ts\<close> (calls to a vendor's library over the network), the connectors (drivers), the React,
  VS Code and browser clients and the widget (user interface), and \<open>packages/mcp\<close> (registration of the engine's operations as tools). Of the server the adapters (\<open>express.ts\<close>, \<open>cli.ts\<close>), the checks of the constructor and the cache of MongoDB engines are left out.
\<close>

end
